(* ===== verification/Prelude.thy ===== *)
theory Prelude
  imports Complex_Main "HOL-Library.Word" "HOL-Library.Char_ord" "HOL-Library.List_Lexorder"
begin

text \<open>
  Shared vocabulary of the development: machine words, the exceptions of the service as
  values, a small error monad (\<open>exn + 'a\<close>) with the loop combinators the C++ range-for
  loops translate to, character classes of the C locale, decimal printing, and the list
  lemmas the components share.
\<close>

unbundle bit_operations_syntax

section \<open>Types\<close>

type_synonym u8 = "8 word"
type_synonym u16 = "16 word"
type_synonym u32 = "32 word"
type_synonym u64 = "64 word"

text \<open>
  The exceptions thrown by the sources. \<open>JsonException n\<close> stands for nlohmann's
  \<open>json::exception\<close> with identifier \<open>n\<close> (302 wrong type in a conversion, 304 \<open>at\<close> on a
  non-object, 306 \<open>value\<close> on a non-object, 403 missing key).
\<close>

datatype exn =
    DomainError string string
  | InferenceError string string
  | ImportError string string string
  | JsonException nat
  | InvalidArgument string
  | LogicError string
  | OverflowError string
  | RuntimeError string
  | QueueFull

type_synonym 'a res = "exn + 'a"

section \<open>Error monad\<close>

fun ebind :: "'e + 'a \<Rightarrow> ('a \<Rightarrow> 'e + 'b) \<Rightarrow> 'e + 'b" where
  "ebind (Inl e) f = Inl e"
| "ebind (Inr x) f = f x"

lemma ebind_eq_Inr [simp]: "ebind m f = Inr y \<longleftrightarrow> (\<exists>x. m = Inr x \<and> f x = Inr y)"
  by (cases m) auto

lemma ebind_eq_Inl [simp]:
  "ebind m f = Inl e \<longleftrightarrow> m = Inl e \<or> (\<exists>x. m = Inr x \<and> f x = Inl e)"
  by (cases m) auto

lemma Inr_eq_ebind [simp]: "Inr y = ebind m f \<longleftrightarrow> (\<exists>x. m = Inr x \<and> f x = Inr y)"
  by (cases m) auto

lemma ebind_cong [fundef_cong]:
  assumes "m = m'" and "\<And>x. m' = Inr x \<Longrightarrow> f x = f' x"
  shows "ebind m f = ebind m' f'"
  using assms by (cases m') auto

lemma ebind_assoc: "ebind (ebind m f) g = ebind m (\<lambda>x. ebind (f x) g)"
  by (cases m) auto

text \<open>A loop that threads a state and stops at the first exception.\<close>

fun efold :: "('s \<Rightarrow> 'a \<Rightarrow> 'e + 's) \<Rightarrow> 's \<Rightarrow> 'a list \<Rightarrow> 'e + 's" where
  "efold f s [] = Inr s"
| "efold f s (x # xs) = ebind (f s x) (\<lambda>s'. efold f s' xs)"

text \<open>A loop that only checks, and one that collects results.\<close>

fun echeck :: "('a \<Rightarrow> 'e + unit) \<Rightarrow> 'a list \<Rightarrow> 'e + unit" where
  "echeck f [] = Inr ()"
| "echeck f (x # xs) = ebind (f x) (\<lambda>_. echeck f xs)"

fun emap :: "('a \<Rightarrow> 'e + 'b) \<Rightarrow> 'a list \<Rightarrow> 'e + 'b list" where
  "emap f [] = Inr []"
| "emap f (x # xs) = ebind (f x) (\<lambda>y. ebind (emap f xs) (\<lambda>ys. Inr (y # ys)))"

fun efilter :: "('a \<Rightarrow> 'e + bool) \<Rightarrow> 'a list \<Rightarrow> 'e + 'a list" where
  "efilter f [] = Inr []"
| "efilter f (x # xs) =
     ebind (f x) (\<lambda>b. ebind (efilter f xs) (\<lambda>ys. Inr (if b then x # ys else ys)))"

lemma efilter_total: "(\<And>x. x \<in> set xs \<Longrightarrow> f x = Inr (P x)) \<Longrightarrow> efilter f xs = Inr (filter P xs)"
  by (induction xs) auto

lemma emap_pure: "(\<And>x. x \<in> set xs \<Longrightarrow> f x = Inr (g x)) \<Longrightarrow> emap f xs = Inr (map g xs)"
  by (induction xs) auto

lemma efold_total: "(\<And>y x. x \<in> set xs \<Longrightarrow> f y x = Inr (g y x)) \<Longrightarrow> efold f y xs = Inr (foldl g y xs)"
  by (induction xs arbitrary: y) auto

lemma emap_total: "(\<And>x. x \<in> set xs \<Longrightarrow> \<exists>y. f x = Inr y) \<Longrightarrow> \<exists>ys. emap f xs = Inr ys"
  by (induction xs) auto

lemma emap_list_all2:
  "emap f xs = Inr ys \<Longrightarrow> (\<And>x y. x \<in> set xs \<Longrightarrow> f x = Inr y \<Longrightarrow> P x y) \<Longrightarrow> list_all2 P xs ys"
  by (induction xs arbitrary: ys) auto

lemma efold_append: "efold f s (xs @ ys) = ebind (efold f s xs) (\<lambda>s'. efold f s' ys)"
  by (induction xs arbitrary: s) (simp_all add: ebind_assoc)

lemma efold_invariant:
  assumes "efold f s xs = Inr s'" and "P s"
    and "\<And>s x s'. x \<in> set xs \<Longrightarrow> P s \<Longrightarrow> f s x = Inr s' \<Longrightarrow> P s'"
  shows "P s'"
  using assms
proof (induction xs arbitrary: s)
  case Nil
  then show ?case by simp
next
  case (Cons x xs)
  from Cons.prems(1) obtain t where t: "f s x = Inr t" and rest: "efold f t xs = Inr s'"
    by auto
  have "P t" using Cons.prems(2) Cons.prems(3) [of x s t] t by simp
  with rest show ?case by (rule Cons.IH) (use Cons.prems(3) in auto)
qed

lemma efold_step:
  assumes "efold f s xs = Inr s'" and "x \<in> set xs" and "\<And>s s'. f s x = Inr s' \<Longrightarrow> Q s'"
    and "\<And>s y s'. f s y = Inr s' \<Longrightarrow> Q s \<Longrightarrow> Q s'"
  shows "Q s'"
  using assms(1,2)
proof (induction xs arbitrary: s)
  case (Cons y ys)
  from Cons.prems(1) obtain t where t: "f s y = Inr t" "efold f t ys = Inr s'" by auto
  show ?case
  proof (cases "x = y")
    case True
    with t(1) assms(3) have "Q t" by blast
    with t(2) show ?thesis by (rule efold_invariant) (rule assms(4))
  next
    case False
    with Cons.prems(2) t(2) show ?thesis by (intro Cons.IH) auto
  qed
qed simp

lemma efold_fixed: "(\<And>x. x \<in> set xs \<Longrightarrow> f s x = Inr s) \<Longrightarrow> efold f s xs = Inr s"
  by (induction xs) auto

lemma echeck_Inr_iff [simp]: "echeck f xs = Inr u \<longleftrightarrow> (\<forall>x \<in> set xs. f x = Inr ())"
  by (induction xs) auto

lemma echeck_Inl_cases:
  "echeck f xs = Inl e \<Longrightarrow> \<exists>x \<in> set xs. f x = Inl e"
  by (induction xs) auto

lemma emap_Inr_length: "emap f xs = Inr ys \<Longrightarrow> length ys = length xs"
  by (induction xs arbitrary: ys) auto

lemma emap_Inr_iff: "emap f xs = Inr ys \<longleftrightarrow> list_all2 (\<lambda>x y. f x = Inr y) xs ys"
  by (induction xs arbitrary: ys) (auto simp: list_all2_Cons1)

text \<open>How early throws read as conditions.\<close>

lemma if_throw_Inr [simp]:
  "(if b then Inl e else m) = Inr x \<longleftrightarrow> \<not> b \<and> m = Inr x"
  "(if b then m else Inl e) = Inr x \<longleftrightarrow> b \<and> m = Inr x"
  by auto

lemma case_option_throw_Inr [simp]:
  "(case z of None \<Rightarrow> Inl e | Some y \<Rightarrow> f y) = Inr x \<longleftrightarrow> (\<exists>y. z = Some y \<and> f y = Inr x)"
  by (cases z) auto

lemma case_sum_throw_Inr [simp]:
  "(case m of Inl e \<Rightarrow> Inl (g e) | Inr y \<Rightarrow> f y) = Inr x \<longleftrightarrow> (\<exists>y. m = Inr y \<and> f y = Inr x)"
  by (cases m) auto

lemma case_sum_False [simp]:
  "(case m of Inl e \<Rightarrow> False | Inr y \<Rightarrow> P y) \<longleftrightarrow> (\<exists>y. m = Inr y \<and> P y)"
  by (cases m) auto

text \<open>A guard that throws, and a straight-line sequence of checks.\<close>

definition throw_if :: "bool \<Rightarrow> 'e \<Rightarrow> 'e + unit" where
  "throw_if b e = (if b then Inl e else Inr ())"

lemma throw_if_Inr [simp]: "throw_if b e = Inr u \<longleftrightarrow> \<not> b"
  by (simp add: throw_if_def)

lemma throw_if_Inl [simp]: "throw_if b e = Inl e' \<longleftrightarrow> b \<and> e' = e"
  by (auto simp: throw_if_def)

lemma throw_if_simps [simp]: "throw_if False e = Inr ()" "throw_if True e = Inl e"
  by (simp_all add: throw_if_def)

definition checks :: "('e + unit) list \<Rightarrow> 'e + unit" where
  "checks = echeck id"

lemma checks_Inr [simp]: "checks cs = Inr u \<longleftrightarrow> (\<forall>c \<in> set cs. c = Inr ())"
  by (simp add: checks_def)

definition ethen :: "'e + unit \<Rightarrow> 'e + 'a \<Rightarrow> 'e + 'a" where
  "ethen m k = ebind m (\<lambda>_. k)"

lemma ethen_Inr [simp]: "ethen m k = Inr x \<longleftrightarrow> m = Inr () \<and> k = Inr x"
  by (auto simp: ethen_def)

lemma ethen_simps [simp]: "ethen (Inr u) k = k" "ethen (Inl e) k = Inl e"
  by (simp_all add: ethen_def)

lemma ethen_cong [fundef_cong]:
  "m = m' \<Longrightarrow> (m' = Inr () \<Longrightarrow> k = k') \<Longrightarrow> ethen m k = ethen m' k'"
  by (cases m') (auto simp: ethen_def)

section \<open>Characters and strings\<close>

text \<open>The classes of \<open>cctype\<close> in the C locale, on unsigned bytes.\<close>

definition is_upper :: "char \<Rightarrow> bool" where
  "is_upper c \<longleftrightarrow> CHR ''A'' \<le> c \<and> c \<le> CHR ''Z''"

definition is_lower :: "char \<Rightarrow> bool" where
  "is_lower c \<longleftrightarrow> CHR ''a'' \<le> c \<and> c \<le> CHR ''z''"

definition is_digit :: "char \<Rightarrow> bool" where
  "is_digit c \<longleftrightarrow> CHR ''0'' \<le> c \<and> c \<le> CHR ''9''"

definition is_alnum :: "char \<Rightarrow> bool" where
  "is_alnum c \<longleftrightarrow> is_lower c \<or> is_upper c \<or> is_digit c"

definition is_cntrl :: "char \<Rightarrow> bool" where
  "is_cntrl c \<longleftrightarrow> c < CHR 0x20 \<or> c = CHR 0x7F"

definition is_space :: "char \<Rightarrow> bool" where
  "is_space c \<longleftrightarrow> c = CHR '' '' \<or> CHR 0x09 \<le> c \<and> c \<le> CHR 0x0D"

definition to_lower :: "char \<Rightarrow> char" where
  "to_lower c = (if is_upper c then char_of ((of_char c :: nat) + 32) else c)"

definition lower :: "string \<Rightarrow> string" where
  "lower s = map to_lower s"

lemma length_lower [simp]: "length (lower s) = length s"
  by (simp add: lower_def)

definition digit_char :: "nat \<Rightarrow> char" where
  "digit_char n = char_of (48 + n)"

text \<open>\<open>std::to_string\<close> of an unsigned value.\<close>

fun show_nat :: "nat \<Rightarrow> string" where
  "show_nat n =
     (if n < 10 then [digit_char n] else show_nat (n div 10) @ [digit_char (n mod 10)])"

declare show_nat.simps [simp del]

definition digits_value :: "string \<Rightarrow> nat" where
  "digits_value ds = foldl (\<lambda>n c. 10 * n + (of_char c - 48)) 0 ds"

lemma digits_value_show: "digits_value (show_nat n) = n"
proof (induction n rule: show_nat.induct)
  case (1 n)
  have d: "of_char (digit_char i) = 48 + i" if "i < 10" for i using that by (simp add: digit_char_def)
  show ?case
  proof (cases "n < 10")
    case True
    then show ?thesis by (simp add: show_nat.simps [of n] digits_value_def d)
  next
    case False
    with 1 have "digits_value (show_nat (n div 10)) = n div 10" by simp
    then show ?thesis using False by (simp add: show_nat.simps [of n] digits_value_def d)
  qed
qed

lemma show_nat_inject [simp]: "show_nat m = show_nat n \<longleftrightarrow> m = n"
  using digits_value_show by metis

text \<open>The folder of a path, as \<open>std::filesystem::path::parent_path\<close> gives it.\<close>

definition slash :: char where "slash = CHR 0x2F"

definition parent_path :: "string \<Rightarrow> string" where
  "parent_path p =
     (let up = rev (dropWhile (\<lambda>c. c \<noteq> slash) (rev p));
          bare = rev (dropWhile (\<lambda>c. c = slash) (rev up))
      in if up \<noteq> [] \<and> bare = [] then [slash] else bare)"

text \<open>A text between single quotes, as the error messages have it.\<close>

definition quoted :: "string \<Rightarrow> string" where
  "quoted s = CHR 0x27 # s @ [CHR 0x27]"

text \<open>Substring search, for \<open>std::string::find\<close> used as a test.\<close>

fun is_prefix_of :: "'a list \<Rightarrow> 'a list \<Rightarrow> bool" where
  "is_prefix_of [] ys = True"
| "is_prefix_of (x # xs) [] = False"
| "is_prefix_of (x # xs) (y # ys) = (x = y \<and> is_prefix_of xs ys)"

fun has_substring :: "'a list \<Rightarrow> 'a list \<Rightarrow> bool" where
  "has_substring p [] = (p = [])"
| "has_substring p (y # ys) = (is_prefix_of p (y # ys) \<or> has_substring p ys)"

lemma is_prefix_of_iff: "is_prefix_of xs ys \<longleftrightarrow> (\<exists>zs. ys = xs @ zs)"
  by (induction xs ys rule: is_prefix_of.induct) auto

lemma has_substring_iff: "has_substring p s \<longleftrightarrow> (\<exists>a b. s = a @ p @ b)"
proof (induction s)
  case Nil
  then show ?case by auto
next
  case (Cons y ys)
  show ?case
  proof
    assume "has_substring p (y # ys)"
    then consider "is_prefix_of p (y # ys)" | "has_substring p ys" by auto
    then show "\<exists>a b. y # ys = a @ p @ b"
    proof cases
      case 1
      then obtain b where "y # ys = [] @ p @ b" by (auto simp: is_prefix_of_iff)
      then show ?thesis by blast
    next
      case 2
      then obtain a b where "y # ys = (y # a) @ p @ b" using Cons.IH by auto
      then show ?thesis by blast
    qed
  next
    assume "\<exists>a b. y # ys = a @ p @ b"
    then obtain a b where ab: "y # ys = a @ p @ b" by blast
    show "has_substring p (y # ys)"
    proof (cases a)
      case Nil
      with ab have "is_prefix_of p (y # ys)" by (simp add: is_prefix_of_iff)
      then show ?thesis by simp
    next
      case (Cons z a')
      with ab have "\<exists>a b. ys = a @ p @ b" by auto
      with \<open>has_substring p ys = (\<exists>a b. ys = a @ p @ b)\<close> show ?thesis by simp
    qed
  qed
qed

section \<open>Words\<close>

lemma unat_plus_one: "w \<noteq> - 1 \<Longrightarrow> unat (w + 1) = Suc (unat w)"
  for w :: "'a::len word"
proof -
  assume "w \<noteq> - 1"
  then have "1 + w \<noteq> 0" by (metis add.commute eq_neg_iff_add_eq_0)
  then show ?thesis by (metis add.commute unatSuc)
qed

lemma unat_max_u64: "unat (- 1 :: u64) = 2 ^ 64 - 1"
  by transfer (simp add: take_bit_minus_one_eq_mask nat_mask_eq mask_eq_exp_minus_1)

section \<open>Lists\<close>

lemma filter_neq_remove1: "distinct xs \<Longrightarrow> filter (\<lambda>y. y \<noteq> x) xs = remove1 x xs"
  by (induction xs) (auto simp: filter_id_conv)

lemma distinct_remove1_length:
  "x \<in> set xs \<Longrightarrow> Suc (length (remove1 x xs)) = length xs"
  by (induction xs) auto


lemma length_filter_update:
  "i < length xs \<Longrightarrow>
     length (filter P (xs[i := v])) + (if P (xs ! i) then 1 else 0) =
     length (filter P xs) + (if P v then 1 else 0)"
proof (induction xs arbitrary: i)
  case Nil
  then show ?case by simp
next
  case (Cons x xs)
  then show ?case by (cases i) auto
qed


lemma sum_list_map_update:
  "i < length xs \<Longrightarrow> sum_list (map f (xs[i := v])) + f (xs ! i) = sum_list (map f xs) + (f v :: 'm::comm_monoid_add)"
proof (induction xs arbitrary: i)
  case Nil
  then show ?case by simp
next
  case (Cons x xs)
  then show ?case by (cases i) (simp_all add: add.commute add.left_commute)
qed

lemma foldl_invariant:
  "(\<And>out k. k \<in> set ks \<Longrightarrow> P out \<Longrightarrow> P (f out k)) \<Longrightarrow> P out \<Longrightarrow> P (foldl f out ks)"
  by (induction ks arbitrary: out) auto

end
