(* ===== verification/Json_Value.thy ===== *)
theory Json_Value
  imports Prelude
begin

text \<open>
  The value type \<open>Json = nlohmann::json\<close> every component exchanges. The library itself is
  vendored; what is modelled here is the part of its documented data model the sources use:
  the value kinds with 64-bit integers at their width, objects as maps ordered by key
  (\<open>std::map\<close>), the access functions with the exceptions they throw, conversions, and
  \<open>operator==\<close>. Serialisation (\<open>dump\<close>) and parsing are not modelled: definitions that use
  them take them as arguments.
\<close>

section \<open>Doubles\<close>

text \<open>
  A finite \<open>double\<close> is the rational it denotes (the two zeros are one value here).
  Integers convert with round-to-nearest-even at 53 bits, as \<open>static_cast<double>\<close> does.
\<close>

datatype double = Fin rat | PosInf | NegInf | NaN

fun isfinite :: "double \<Rightarrow> bool" where
  "isfinite (Fin r) = True"
| "isfinite _ = False"

fun dlt :: "double \<Rightarrow> double \<Rightarrow> bool" where
  "dlt (Fin a) (Fin b) = (a < b)"
| "dlt (Fin a) PosInf = True"
| "dlt NegInf (Fin b) = True"
| "dlt NegInf PosInf = True"
| "dlt _ _ = False"

fun deq :: "double \<Rightarrow> double \<Rightarrow> bool" where
  "deq (Fin a) (Fin b) = (a = b)"
| "deq PosInf PosInf = True"
| "deq NegInf NegInf = True"
| "deq _ _ = False"

fun bit_length :: "nat \<Rightarrow> nat" where
  "bit_length n = (if n = 0 then 0 else Suc (bit_length (n div 2)))"

declare bit_length.simps [simp del]

definition round_nat53 :: "nat \<Rightarrow> nat" where
  "round_nat53 m =
     (if m < 2 ^ 53 then m
      else let e = bit_length m - 53; q = m div 2 ^ e; r = m mod 2 ^ e
           in (if 2 * r > 2 ^ e \<or> (2 * r = 2 ^ e \<and> odd q) then Suc q else q) * 2 ^ e)"

definition double_of_int :: "int \<Rightarrow> double" where
  "double_of_int n = Fin (of_int (sgn n * int (round_nat53 (nat \<bar>n\<bar>))))"

lemma double_of_int_small: "\<bar>n\<bar> < 2 ^ 53 \<Longrightarrow> double_of_int n = Fin (of_int n)"
  by (auto simp: double_of_int_def round_nat53_def nat_less_iff sgn_if)

lemma isfinite_double_of_int [simp]: "isfinite (double_of_int n)"
  by (simp add: double_of_int_def)

section \<open>Values\<close>

datatype json =
    JNull
  | JBool bool
  | JInt u64
  | JUInt u64
  | JFloat double
  | JStr string
  | JArr "json list"
  | JObj "(string \<times> json) list"

type_synonym members = "(string \<times> json) list"

fun is_object :: "json \<Rightarrow> bool" where
  "is_object (JObj m) = True" | "is_object _ = False"

fun is_array :: "json \<Rightarrow> bool" where
  "is_array (JArr xs) = True" | "is_array _ = False"

fun is_string :: "json \<Rightarrow> bool" where
  "is_string (JStr s) = True" | "is_string _ = False"

fun is_boolean :: "json \<Rightarrow> bool" where
  "is_boolean (JBool b) = True" | "is_boolean _ = False"

fun is_null :: "json \<Rightarrow> bool" where
  "is_null JNull = True" | "is_null _ = False"

fun is_number_integer :: "json \<Rightarrow> bool" where
  "is_number_integer (JInt w) = True"
| "is_number_integer (JUInt w) = True"
| "is_number_integer _ = False"

fun is_number_unsigned :: "json \<Rightarrow> bool" where
  "is_number_unsigned (JUInt w) = True" | "is_number_unsigned _ = False"

fun is_number :: "json \<Rightarrow> bool" where
  "is_number (JInt w) = True"
| "is_number (JUInt w) = True"
| "is_number (JFloat d) = True"
| "is_number _ = False"

lemma is_object_iff: "is_object j \<longleftrightarrow> (\<exists>m. j = JObj m)" by (cases j) auto
lemma is_array_iff: "is_array j \<longleftrightarrow> (\<exists>xs. j = JArr xs)" by (cases j) auto
lemma is_string_iff: "is_string j \<longleftrightarrow> (\<exists>s. j = JStr s)" by (cases j) auto
lemma is_boolean_iff: "is_boolean j \<longleftrightarrow> (\<exists>b. j = JBool b)" by (cases j) auto
lemma is_number_unsigned_iff: "is_number_unsigned j \<longleftrightarrow> (\<exists>w. j = JUInt w)" by (cases j) auto
lemma is_number_integer_iff:
  "is_number_integer j \<longleftrightarrow> (\<exists>w. j = JInt w \<or> j = JUInt w)" by (cases j) auto

lemmas json_kind_iffs = is_object_iff is_array_iff is_string_iff is_boolean_iff
  is_number_unsigned_iff is_number_integer_iff

section \<open>Conversions\<close>

fun get_string :: "json \<Rightarrow> string res" where
  "get_string (JStr s) = Inr s" | "get_string _ = Inl (JsonException 302)"

fun get_bool :: "json \<Rightarrow> bool res" where
  "get_bool (JBool b) = Inr b" | "get_bool _ = Inl (JsonException 302)"

text \<open>
  \<open>get<std::uint64_t>()\<close> and \<open>get<std::int64_t>()\<close> reinterpret the stored 64 bits of either
  integer kind; a float is truncated towards zero.
\<close>

definition trunc_double :: "double \<Rightarrow> u64" where
  "trunc_double d = (case d of Fin r \<Rightarrow> (if 0 \<le> r then of_int \<lfloor>r\<rfloor> else of_int \<lceil>r\<rceil>) | _ \<Rightarrow> 0)"

fun get_u64 :: "json \<Rightarrow> u64 res" where
  "get_u64 (JInt w) = Inr w"
| "get_u64 (JUInt w) = Inr w"
| "get_u64 (JFloat d) = Inr (trunc_double d)"
| "get_u64 _ = Inl (JsonException 302)"

definition get_i64 :: "json \<Rightarrow> int res" where
  "get_i64 j = ebind (get_u64 j) (\<lambda>w. Inr (sint w))"

fun get_double :: "json \<Rightarrow> double res" where
  "get_double (JInt w) = Inr (double_of_int (sint w))"
| "get_double (JUInt w) = Inr (double_of_int (uint w))"
| "get_double (JFloat d) = Inr d"
| "get_double _ = Inl (JsonException 302)"

lemma get_string_Inr [simp]: "get_string j = Inr s \<longleftrightarrow> j = JStr s"
  by (cases j) auto

lemma get_bool_Inr [simp]: "get_bool j = Inr b \<longleftrightarrow> j = JBool b"
  by (cases j) auto

section \<open>Members\<close>

fun members_of :: "json \<Rightarrow> members" where
  "members_of (JObj m) = m" | "members_of _ = []"

fun elements_of :: "json \<Rightarrow> json list" where
  "elements_of (JArr xs) = xs" | "elements_of _ = []"

definition find_key :: "json \<Rightarrow> string \<Rightarrow> json option" where
  "find_key j k = map_of (members_of j) k"

definition contains :: "json \<Rightarrow> string \<Rightarrow> bool" where
  "contains j k \<longleftrightarrow> find_key j k \<noteq> None"

definition json_at :: "json \<Rightarrow> string \<Rightarrow> json res" where
  "json_at j k =
     (case j of
        JObj m \<Rightarrow> (case map_of m k of Some v \<Rightarrow> Inr v | None \<Rightarrow> Inl (JsonException 403))
      | _ \<Rightarrow> Inl (JsonException 304))"

lemma json_at_Inr [simp]: "json_at j k = Inr v \<longleftrightarrow> find_key j k = Some v"
  by (cases j) (auto simp: json_at_def find_key_def split: option.splits)

lemma contains_at: "contains j k \<Longrightarrow> \<exists>v. json_at j k = Inr v"
  by (auto simp: contains_def)

lemma contains_is_object: "contains j k \<Longrightarrow> is_object j"
  by (cases j) (auto simp: contains_def find_key_def)

text \<open>The number of elements and emptiness, as the library's \<open>size()\<close> and \<open>empty()\<close>.\<close>

fun json_size :: "json \<Rightarrow> nat" where
  "json_size JNull = 0"
| "json_size (JArr xs) = length xs"
| "json_size (JObj m) = length m"
| "json_size _ = 1"

definition json_empty :: "json \<Rightarrow> bool" where
  "json_empty j \<longleftrightarrow> json_size j = 0"

text \<open>Ordered insertion (\<open>operator[]\<close> assignment) and first-wins insertion (\<open>emplace\<close>).\<close>

fun mset_key :: "string \<Rightarrow> 'v \<Rightarrow> (string \<times> 'v) list \<Rightarrow> (string \<times> 'v) list" where
  "mset_key k v [] = [(k, v)]"
| "mset_key k v ((k', v') # m) =
     (if k = k' then (k, v) # m
      else if k < k' then (k, v) # (k', v') # m
      else (k', v') # mset_key k v m)"

definition madd_key :: "string \<Rightarrow> 'v \<Rightarrow> (string \<times> 'v) list \<Rightarrow> (string \<times> 'v) list" where
  "madd_key k v m = (if map_of m k = None then mset_key k v m else m)"

definition keys_sorted :: "(string \<times> 'v) list \<Rightarrow> bool" where
  "keys_sorted m \<longleftrightarrow> sorted_wrt (<) (map fst m)"

lemma keys_sorted_simps [simp]:
  "keys_sorted []"
  "keys_sorted ((k, v) # m) \<longleftrightarrow> (\<forall>k' \<in> fst ` set m. k < k') \<and> keys_sorted m"
  by (auto simp: keys_sorted_def)

lemma set_mset_key_keys: "fst ` set (mset_key k v m) = insert k (fst ` set m)"
  by (induction k v m rule: mset_key.induct) auto

lemma keys_sorted_mset_key: "keys_sorted m \<Longrightarrow> keys_sorted (mset_key k v m)"
  by (induction k v m rule: mset_key.induct) (auto simp: set_mset_key_keys)

lemma map_of_below: "\<forall>k' \<in> fst ` set m. k < k' \<Longrightarrow> map_of m k = (None :: 'v option)"
  for k :: "'a :: order"
  by (induction m) auto

lemma map_of_mset_key:
  "map_of (mset_key k v m) k' = (if k' = k then Some v else map_of m k')"
  by (induction k v m rule: mset_key.induct) auto

lemma map_of_madd_key:
  "map_of (madd_key k v m) k' =
     (if k' = k then Some (case map_of m k of None \<Rightarrow> v | Some w \<Rightarrow> w) else map_of m k')"
  by (auto simp: madd_key_def map_of_mset_key)

lemma keys_sorted_madd_key: "keys_sorted m \<Longrightarrow> keys_sorted (madd_key k v m)"
  by (simp add: madd_key_def keys_sorted_mset_key)

lemma keys_sorted_distinct: "keys_sorted m \<Longrightarrow> distinct (map fst m)"
  by (simp add: keys_sorted_def strict_sorted_iff)

definition members_from :: "(string \<times> 'v) list \<Rightarrow> (string \<times> 'v) list" where
  "members_from kvs = fold (\<lambda>(k, v) m. madd_key k v m) kvs []"

text \<open>The initialiser-list constructor \<open>Json{{"k", v}, \<dots>}\<close>.\<close>

definition jobj :: "(string \<times> json) list \<Rightarrow> json" where
  "jobj kvs = JObj (members_from kvs)"

lemma fold_madd_key_lookup:
  "map_of (fold (\<lambda>(k, v) m. madd_key k v m) kvs m) x =
     (case map_of m x of Some w \<Rightarrow> Some w | None \<Rightarrow> map_of kvs x)"
  by (induction kvs arbitrary: m) (auto simp: map_of_madd_key split: option.splits)

lemma map_of_members_from [simp]: "map_of (members_from kvs) x = map_of kvs x"
  by (simp add: members_from_def fold_madd_key_lookup)

lemma keys_sorted_fold_madd:
  "keys_sorted m \<Longrightarrow> keys_sorted (fold (\<lambda>(k, v) m. madd_key k v m) kvs m)"
  by (induction kvs arbitrary: m) (auto simp: keys_sorted_madd_key)

lemma keys_sorted_members_from: "keys_sorted (members_from kvs)"
  by (simp add: members_from_def keys_sorted_fold_madd)

lemma find_key_jobj [simp]: "find_key (jobj kvs) k = map_of kvs k"
  by (simp add: find_key_def jobj_def)

lemma find_key_JObj [simp]: "find_key (JObj m) k = map_of m k"
  by (simp add: find_key_def)

lemma contains_jobj [simp]: "contains (jobj kvs) k \<longleftrightarrow> map_of kvs k \<noteq> None"
  by (simp add: contains_def)

lemma is_object_jobj [simp]: "is_object (jobj kvs)"
  by (simp add: jobj_def)

text \<open>\<open>object[key] = value\<close>: a null becomes an object first; other kinds throw.\<close>

fun json_set :: "json \<Rightarrow> string \<Rightarrow> json \<Rightarrow> json res" where
  "json_set (JObj m) k v = Inr (JObj (mset_key k v m))"
| "json_set JNull k v = Inr (JObj [(k, v)])"
| "json_set _ k v = Inl (JsonException 305)"

text \<open>The same on a value known to be an object.\<close>

definition oset :: "json \<Rightarrow> string \<Rightarrow> json \<Rightarrow> json" where
  "oset j k v = JObj (mset_key k v (members_of j))"

definition oerase :: "json \<Rightarrow> string \<Rightarrow> json" where
  "oerase j k = JObj (filter (\<lambda>(k', v). k' \<noteq> k) (members_of j))"

lemma find_key_oset [simp]: "find_key (oset j k v) k' = (if k' = k then Some v else find_key j k')"
  by (simp add: oset_def find_key_def map_of_mset_key)

lemma contains_oset [simp]: "contains (oset j k v) k' \<longleftrightarrow> k' = k \<or> contains j k'"
  by (simp add: contains_def)

lemma json_set_object: "is_object j \<Longrightarrow> json_set j k v = Inr (oset j k v)"
  by (cases j) (simp_all add: oset_def)

lemma json_set_Inr: "json_set j k v = Inr j' \<Longrightarrow> j' = oset j k v"
  by (cases j) (auto simp: oset_def)

lemma is_object_oset [simp]: "is_object (oset j k v)"
  by (simp add: oset_def)

lemma find_key_oerase [simp]:
  "find_key (oerase j k) k' = (if k' = k then None else find_key j k')"
proof -
  have "map_of (filter (\<lambda>(x, v). x \<noteq> k) m) k' = (if k' = k then None else map_of m k')"
    for m :: members
    by (induction m) auto
  then show ?thesis by (simp add: oerase_def find_key_def)
qed

lemma contains_oerase [simp]: "contains (oerase j k) k' \<longleftrightarrow> k' \<noteq> k \<and> contains j k'"
  by (simp add: contains_def)

lemma is_object_oerase [simp]: "is_object (oerase j k)"
  by (simp add: oerase_def)

text \<open>The keys of the values these build.\<close>

lemma set_madd_key_keys: "fst ` set (madd_key k v m) = insert k (fst ` set m)"
proof (cases "map_of m k")
  case (Some w)
  then have "k \<in> fst ` set m" by (metis domI dom_map_of_conv_image_fst)
  with Some show ?thesis by (auto simp: madd_key_def)
qed (simp add: madd_key_def set_mset_key_keys)

lemma set_fold_madd_keys:
  "fst ` set (fold (\<lambda>(k, v) m. madd_key k v m) kvs m) = fst ` set kvs \<union> fst ` set m"
proof (induction kvs arbitrary: m)
  case (Cons kv kvs)
  obtain k v where "kv = (k, v)" by (cases kv)
  then show ?case using Cons [of "madd_key k v m"] by (simp add: set_madd_key_keys)
qed simp

lemma keys_jobj [simp]: "fst ` set (members_of (jobj kvs)) = fst ` set kvs"
  by (simp add: jobj_def members_from_def set_fold_madd_keys)

lemma keys_oset [simp]: "fst ` set (members_of (oset j k v)) = insert k (fst ` set (members_of j))"
  by (simp add: oset_def set_mset_key_keys)

lemma keys_oerase [simp]: "fst ` set (members_of (oerase j k)) = fst ` set (members_of j) - {k}"
  by (force simp: oerase_def)

lemma length_mset_key: "length (mset_key k v m) \<le> Suc (length m)"
  by (induction k v m rule: mset_key.induct) auto

lemma length_fold_madd: "length (fold (\<lambda>(k, v) m. madd_key k v m) kvs m) \<le> length kvs + length m"
proof (induction kvs arbitrary: m)
  case (Cons kv kvs)
  obtain k v where "kv = (k, v)" by (cases kv)
  moreover have "length (madd_key k v m) \<le> Suc (length m)"
    using length_mset_key [of k v m] by (simp add: madd_key_def)
  ultimately show ?case using Cons [of "madd_key k v m"] by simp
qed simp

lemma json_size_jobj: "json_size (jobj kvs) \<le> length kvs"
  using length_fold_madd [of kvs "[]"] by (simp add: jobj_def members_from_def)

text \<open>\<open>value(key, fallback)\<close> with a string, boolean or JSON fallback.\<close>

definition value_string :: "json \<Rightarrow> string \<Rightarrow> string \<Rightarrow> string res" where
  "value_string j k d =
     (if \<not> is_object j then Inl (JsonException 306)
      else case find_key j k of None \<Rightarrow> Inr d | Some v \<Rightarrow> get_string v)"

definition value_bool :: "json \<Rightarrow> string \<Rightarrow> bool \<Rightarrow> bool res" where
  "value_bool j k d =
     (if \<not> is_object j then Inl (JsonException 306)
      else case find_key j k of None \<Rightarrow> Inr d | Some v \<Rightarrow> get_bool v)"

definition value_json :: "json \<Rightarrow> string \<Rightarrow> json \<Rightarrow> json res" where
  "value_json j k d =
     (if \<not> is_object j then Inl (JsonException 306)
      else case find_key j k of None \<Rightarrow> Inr d | Some v \<Rightarrow> Inr v)"

text \<open>\<open>items()\<close>: the members of an object; an array or scalar yields index keys.\<close>

definition json_items :: "json \<Rightarrow> members" where
  "json_items j =
     (case j of
        JObj m \<Rightarrow> m
      | JArr xs \<Rightarrow> map (\<lambda>(i, x). (show_nat i, x)) (enumerate 0 xs)
      | JNull \<Rightarrow> []
      | _ \<Rightarrow> [([], j)])"

text \<open>Iterating a value: the elements of an array, the members of an object, or the value itself.\<close>

definition json_values :: "json \<Rightarrow> json list" where
  "json_values j = map snd (json_items j)"

lemma json_values_simps [simp]:
  "json_values (JArr xs) = xs" "json_values (JObj m) = map snd m" "json_values JNull = []"
  by (simp_all add: json_values_def json_items_def comp_def split_def)

text \<open>The value of a member that validation has shown to be there, and its text.\<close>

definition fld :: "json \<Rightarrow> string \<Rightarrow> json" where
  "fld j k = (case find_key j k of None \<Rightarrow> JNull | Some v \<Rightarrow> v)"

fun str_of :: "json \<Rightarrow> string" where
  "str_of (JStr s) = s" | "str_of _ = []"

definition sfld :: "json \<Rightarrow> string \<Rightarrow> string" where
  "sfld j k = str_of (fld j k)"

lemma fld_eq: "find_key j k = Some v \<Longrightarrow> fld j k = v"
  by (simp add: fld_def)

lemma sfld_eq: "find_key j k = Some (JStr s) \<Longrightarrow> sfld j k = s"
  by (simp add: sfld_def fld_def)

text \<open>A text member: \<open>at(key).get<std::string>()\<close>.\<close>

definition string_at :: "json \<Rightarrow> string \<Rightarrow> string res" where
  "string_at j k = ebind (json_at j k) get_string"

lemma string_at_Inr [simp]: "string_at j k = Inr s \<longleftrightarrow> find_key j k = Some (JStr s)"
  by (auto simp: string_at_def)

section \<open>Equality\<close>

text \<open>
  \<open>operator==\<close>: structural, except that the two integer kinds compare by their 64 bits and
  an integer compares with a float after conversion to \<open>double\<close>.
\<close>

fun jeq :: "json \<Rightarrow> json \<Rightarrow> bool"
  and jeqs :: "json list \<Rightarrow> json list \<Rightarrow> bool"
  and jeqm :: "members \<Rightarrow> members \<Rightarrow> bool" where
  "jeq JNull b = (b = JNull)"
| "jeq (JBool x) b = (b = JBool x)"
| "jeq (JStr s) b = (b = JStr s)"
| "jeq (JArr xs) b = (case b of JArr ys \<Rightarrow> jeqs xs ys | _ \<Rightarrow> False)"
| "jeq (JObj m) b = (case b of JObj n \<Rightarrow> jeqm m n | _ \<Rightarrow> False)"
| "jeq (JInt x) b =
     (case b of
        JInt y \<Rightarrow> x = y
      | JUInt y \<Rightarrow> x = y
      | JFloat d \<Rightarrow> deq (double_of_int (sint x)) d
      | _ \<Rightarrow> False)"
| "jeq (JUInt x) b =
     (case b of
        JInt y \<Rightarrow> x = y
      | JUInt y \<Rightarrow> x = y
      | JFloat d \<Rightarrow> deq (double_of_int (uint x)) d
      | _ \<Rightarrow> False)"
| "jeq (JFloat c) b =
     (case b of
        JInt y \<Rightarrow> deq c (double_of_int (sint y))
      | JUInt y \<Rightarrow> deq c (double_of_int (uint y))
      | JFloat d \<Rightarrow> deq c d
      | _ \<Rightarrow> False)"
| "jeqs [] ys = (ys = [])"
| "jeqs (x # xs) ys = (case ys of [] \<Rightarrow> False | y # ys' \<Rightarrow> jeq x y \<and> jeqs xs ys')"
| "jeqm [] n = (n = [])"
| "jeqm ((k, v) # m) n =
     (case n of [] \<Rightarrow> False | (k', v') # n' \<Rightarrow> k = k' \<and> jeq v v' \<and> jeqm m n')"

lemma jeq_string [simp]: "jeq (JStr s) j \<longleftrightarrow> j = JStr s" "jeq j (JStr s) \<longleftrightarrow> j = JStr s"
  by (cases j; auto)+

lemma jeq_atom [simp]:
  "jeq j JNull \<longleftrightarrow> j = JNull" "jeq j (JBool b) \<longleftrightarrow> j = JBool b"
  by (cases j; auto)+

text \<open>A value that holds no NaN equals itself, and equality is symmetric.\<close>

fun no_nan :: "json \<Rightarrow> bool"
  and no_nans :: "json list \<Rightarrow> bool"
  and no_nanm :: "members \<Rightarrow> bool" where
  "no_nan (JFloat d) = (d \<noteq> NaN)"
| "no_nan (JArr xs) = no_nans xs"
| "no_nan (JObj m) = no_nanm m"
| "no_nan _ = True"
| "no_nans [] = True"
| "no_nans (x # xs) = (no_nan x \<and> no_nans xs)"
| "no_nanm [] = True"
| "no_nanm ((k, v) # m) = (no_nan v \<and> no_nanm m)"

lemma deq_refl [simp]: "deq d d \<longleftrightarrow> d \<noteq> NaN" by (cases d) auto

lemma deq_sym: "deq a b = deq b a" by (cases a; cases b) auto

lemma jeq_refl:
  "no_nan j \<Longrightarrow> jeq j j" "no_nans xs \<Longrightarrow> jeqs xs xs" "no_nanm m \<Longrightarrow> jeqm m m"
  by (induction j and xs and m rule: no_nan_no_nans_no_nanm.induct) auto

lemma jeq_sym: "jeq a b = jeq b a" "jeqs xs ys = jeqs ys xs" "jeqm m n = jeqm n m"
proof (induction a b and xs ys and m n rule: jeq_jeqs_jeqm.induct)
  case (10 x xs ys)
  then show ?case by (cases ys) auto
next
  case (12 k v m n)
  then show ?case by (cases n) auto
next
  case (9 ys)
  then show ?case by (cases ys) auto
next
  case (11 n)
  then show ?case by (cases n) auto
qed (auto simp: deq_sym split: json.splits)

end
