(* ===== verification/Lifecycle.thy ===== *)
theory Lifecycle
  imports Prelude Json_Value
begin

text \<open>
  \<open>lifecycle::Machine\<close> (\<open>lifecycle.cpp\<close>): the finite-state machine every part of the service
  reports through. The mutex makes each member function one atomic step, so an operation is a
  function from the machine to a result, and a run is a sequence of requested transitions in
  which a rejected request (an exception) leaves the machine as it was.
\<close>

section \<open>The machine\<close>

datatype lstate =
  KDisabled | KStarting | KReady | KPaused | KDegraded | KStopping | KStopped | KFailed

definition valid_state :: "lstate \<Rightarrow> bool" where
  "valid_state s \<longleftrightarrow>
     s = KDisabled \<or> s = KStarting \<or> s = KReady \<or> s = KPaused \<or> s = KDegraded \<or>
     s = KStopping \<or> s = KStopped \<or> s = KFailed"

definition allowed :: "lstate \<Rightarrow> lstate \<Rightarrow> bool" where
  "allowed current nxt =
     (if current = nxt then True
      else case current of
        KDisabled \<Rightarrow> nxt = KStarting \<or> nxt = KStopping \<or> nxt = KStopped
      | KStarting \<Rightarrow> nxt = KReady \<or> nxt = KDegraded \<or> nxt = KFailed \<or> nxt = KStopping
      | KReady \<Rightarrow> nxt = KPaused \<or> nxt = KDegraded \<or> nxt = KFailed \<or> nxt = KStopping
      | KPaused \<Rightarrow> nxt = KReady \<or> nxt = KDegraded \<or> nxt = KFailed \<or> nxt = KStopping
      | KDegraded \<Rightarrow> nxt = KReady \<or> nxt = KPaused \<or> nxt = KFailed \<or> nxt = KStopping
      | KFailed \<Rightarrow> nxt = KStarting \<or> nxt = KStopping
      | KStopping \<Rightarrow> nxt = KStopped \<or> nxt = KFailed
      | KStopped \<Rightarrow> False)"

fun state_name :: "lstate \<Rightarrow> string" where
  "state_name KDisabled = ''disabled''"
| "state_name KStarting = ''starting''"
| "state_name KReady = ''ready''"
| "state_name KPaused = ''paused''"
| "state_name KDegraded = ''degraded''"
| "state_name KStopping = ''stopping''"
| "state_name KStopped = ''stopped''"
| "state_name KFailed = ''failed''"

record machine =
  m_component :: string
  m_state :: lstate
  m_reason :: string
  m_transitions :: u64

definition machine_new :: "string \<Rightarrow> lstate \<Rightarrow> machine res" where
  "machine_new component initial =
     (if component = [] \<or> length component > 128
      then Inl (InvalidArgument ''lifecycle component must be 1 to 128 bytes'')
      else if \<not> valid_state initial
      then Inl (InvalidArgument ''lifecycle initial state is invalid'')
      else Inr \<lparr>m_component = component, m_state = initial, m_reason = [], m_transitions = 0\<rparr>)"

definition transition :: "machine \<Rightarrow> lstate \<Rightarrow> string \<Rightarrow> machine res" where
  "transition m nxt reason =
     (if length reason > 1024
      then Inl (InvalidArgument ''lifecycle transition reason exceeds 1024 bytes'')
      else if \<not> allowed (m_state m) nxt
      then Inl (LogicError (''illegal '' @ m_component m @ '' lifecycle transition from '' @
                  state_name (m_state m) @ '' to '' @ state_name nxt))
      else if m_state m \<noteq> nxt \<and> m_transitions m = - 1
      then Inl (OverflowError ''lifecycle transition counter exhausted'')
      else Inr (m\<lparr>m_transitions := (if m_state m \<noteq> nxt then m_transitions m + 1
                                    else m_transitions m),
                  m_state := nxt, m_reason := reason\<rparr>))"

definition machine_snapshot :: "machine \<Rightarrow> json" where
  "machine_snapshot m =
     jobj [(''component'', JStr (m_component m)),
           (''state'', JStr (state_name (m_state m))),
           (''reason'', JStr (m_reason m)),
           (''transitions'', JUInt (m_transitions m))]"

text \<open>A request that throws is dropped by its caller; the machine is unchanged.\<close>

definition request :: "machine \<Rightarrow> lstate \<times> string \<Rightarrow> machine" where
  "request m r = (case transition m (fst r) (snd r) of Inl _ \<Rightarrow> m | Inr m' \<Rightarrow> m')"

fun requests :: "machine \<Rightarrow> (lstate \<times> string) list \<Rightarrow> machine" where
  "requests m [] = m"
| "requests m (r # rs) = requests (request m r) rs"

fun state_changes :: "machine \<Rightarrow> (lstate \<times> string) list \<Rightarrow> nat" where
  "state_changes m [] = 0"
| "state_changes m (r # rs) =
     (if m_state (request m r) \<noteq> m_state m then 1 else 0) + state_changes (request m r) rs"

section \<open>One step\<close>

lemma allowed_refl [simp]: "allowed s s"
  by (simp add: allowed_def)

lemma allowed_from_stopped [simp]: "allowed KStopped s \<longleftrightarrow> s = KStopped"
  by (auto simp: allowed_def)

lemma allowed_stopping: "s \<noteq> KStopped \<Longrightarrow> allowed s KStopping"
  by (cases s) (simp_all add: allowed_def)

lemma transition_Inr:
  "transition m nxt reason = Inr m' \<Longrightarrow>
     length reason \<le> 1024 \<and> allowed (m_state m) nxt \<and> m_state m' = nxt \<and> m_reason m' = reason \<and>
     m_component m' = m_component m \<and>
     unat (m_transitions m') = unat (m_transitions m) + (if m_state m \<noteq> nxt then 1 else 0)"
  by (auto simp: transition_def unat_plus_one split: if_splits)

lemma request_cases:
  "request m r = m \<or> transition m (fst r) (snd r) = Inr (request m r)"
  by (auto simp: request_def split: sum.splits)

lemma request_transitions:
  "unat (m_transitions (request m r)) =
     unat (m_transitions m) + (if m_state (request m r) \<noteq> m_state m then 1 else 0)"
  using request_cases [of m r] transition_Inr [of m "fst r" "snd r" "request m r"] by auto

lemma request_component: "m_component (request m r) = m_component m"
  using request_cases [of m r] transition_Inr [of m "fst r" "snd r" "request m r"] by auto

lemma request_reason: "length (m_reason m) \<le> 1024 \<Longrightarrow> length (m_reason (request m r)) \<le> 1024"
  using request_cases [of m r] transition_Inr [of m "fst r" "snd r" "request m r"] by auto

lemma request_allowed: "allowed (m_state m) (m_state (request m r))"
  using request_cases [of m r] transition_Inr [of m "fst r" "snd r" "request m r"] by auto

lemma request_stopped: "m_state m = KStopped \<Longrightarrow> m_state (request m r) = KStopped"
  using request_allowed [of m r] by simp

section \<open>Runs\<close>

lemma requests_stopped: "m_state m = KStopped \<Longrightarrow> m_state (requests m rs) = KStopped"
  by (induction rs arbitrary: m) (auto simp: request_stopped)

lemma requests_counter: "unat (m_transitions (requests m rs)) = unat (m_transitions m) + state_changes m rs"
  by (induction rs arbitrary: m) (auto simp: request_transitions)

lemma requests_frame:
  "m_component (requests m rs) = m_component m \<and>
   (length (m_reason m) \<le> 1024 \<longrightarrow> length (m_reason (requests m rs)) \<le> 1024)"
  by (induction rs arbitrary: m) (auto simp: request_component request_reason)

lemma machine_newD:
  "machine_new c s = Inr m \<Longrightarrow>
     m_component m = c \<and> c \<noteq> [] \<and> length c \<le> 128 \<and> m_state m = s \<and> m_reason m = [] \<and> m_transitions m = 0"
  by (auto simp: machine_new_def split: if_splits)



text \<open>
  A machine that is not stopped, whatever its state, can always be shut down: as long as
  its counter has room for two more changes, the requests for stopping and then stopped that
  \<open>Runtime::shutdown\<close> issues are both accepted, end in the stopped state and count at most
  two state changes.
\<close>

theorem lifecycle_can_stop:
  assumes "m_state m \<noteq> KStopped" and "unat (m_transitions m) < 2 ^ 64 - 2"
  shows "\<exists>m1 m2. transition m KStopping [] = Inr m1 \<and> transition m1 KStopped [] = Inr m2 \<and>
    m_state m2 = KStopped \<and> m_component m2 = m_component m \<and>
    unat (m_transitions m2) \<le> unat (m_transitions m) + 2"
proof -
  have ne: "m_transitions m \<noteq> - 1" using assms(2) by (auto simp: unat_max_u64)
  then obtain m1 where m1: "transition m KStopping [] = Inr m1"
    using allowed_stopping [OF assms(1)] by (simp add: transition_def)
  note t1 = transition_Inr [OF m1]
  have "m_transitions m1 \<noteq> - 1" using t1 assms(2) by (auto simp: unat_max_u64 split: if_splits)
  then obtain m2 where m2: "transition m1 KStopped [] = Inr m2"
    using t1 by (simp add: transition_def allowed_def)
  show ?thesis using m1 m2 t1 transition_Inr [OF m2] by auto
qed

theorem lifecycle_can_stop_witness:
  "\<exists>m1 m2. transition \<lparr>m_component = ''source'', m_state = KFailed, m_reason = [],
       m_transitions = 7\<rparr> KStopping [] = Inr m1 \<and>
     transition m1 KStopped [] = Inr m2 \<and> m_state m2 = KStopped"
  using lifecycle_can_stop [of "\<lparr>m_component = ''source'', m_state = KFailed, m_reason = [],
       m_transitions = 7\<rparr>"] by auto

end
