(* ===== verification/Lru_Cache.thy ===== *)
theory Lru_Cache
  imports Prelude Json_Value
begin

text \<open>
  \<open>cache::BoundedJsonCache\<close> (\<open>bounded_cache.cpp\<close>): a bounded, expiring LRU cache. The entry
  table is an association list with one entry per key (a hash map whose order is never
  observed); the recency list holds the keys, most recent first, so the iterator stored in an
  entry is the key's position in it. \<open>Clock::now()\<close>, read before the lock is taken, is the
  argument \<open>now\<close> of the operation, in milliseconds. The interface locale at the end states
  what a client that memoises a function needs of any such cache.
\<close>

section \<open>State and operations\<close>

record 'v centry =
  e_value :: 'v
  e_expires :: int

record 'v cache =
  c_capacity :: nat
  c_ttl :: int
  c_recency :: "string list"
  c_entries :: "(string \<times> 'v centry) list"
  c_hits :: u64
  c_misses :: u64
  c_expirations :: u64
  c_evictions :: u64
  c_invalidations :: u64

definition cache_new :: "nat \<Rightarrow> int \<Rightarrow> 'v cache res" where
  "cache_new capacity ttl =
     (if capacity = 0 \<or> capacity > 4096 \<or> ttl < 1000 \<or> ttl > 86400000
      then Inl (InvalidArgument ''cache limits are out of range'')
      else Inr \<lparr>c_capacity = capacity, c_ttl = ttl, c_recency = [], c_entries = [],
                c_hits = 0, c_misses = 0, c_expirations = 0, c_evictions = 0,
                c_invalidations = 0\<rparr>)"

definition erase_locked :: "string \<Rightarrow> 'v cache \<Rightarrow> 'v cache" where
  "erase_locked key c =
     c\<lparr>c_recency := remove1 key (c_recency c),
       c_entries := filter (\<lambda>(k, e). k \<noteq> key) (c_entries c)\<rparr>"

definition splice_front :: "string \<Rightarrow> 'v cache \<Rightarrow> 'v cache" where
  "splice_front key c = c\<lparr>c_recency := key # remove1 key (c_recency c)\<rparr>"

definition cache_get :: "int \<Rightarrow> string \<Rightarrow> 'v cache \<Rightarrow> 'v option \<times> 'v cache" where
  "cache_get now key c =
     (case map_of (c_entries c) key of
        None \<Rightarrow> (None, c\<lparr>c_misses := c_misses c + 1\<rparr>)
      | Some e \<Rightarrow>
          if e_expires e \<le> now
          then let c' = erase_locked key c
               in (None, c'\<lparr>c_expirations := c_expirations c' + 1, c_misses := c_misses c' + 1\<rparr>)
          else let c' = splice_front key c
               in (Some (e_value e), c'\<lparr>c_hits := c_hits c' + 1\<rparr>))"

definition evict_if_full :: "'v cache \<Rightarrow> 'v cache" where
  "evict_if_full c =
     (if length (c_entries c) \<ge> c_capacity c
      then (case rev (c_recency c) of
              [] \<Rightarrow> c
            | oldest # _ \<Rightarrow>
                (if map_of (c_entries c) oldest = None then c
                 else let c' = erase_locked oldest c
                      in c'\<lparr>c_evictions := c_evictions c' + 1\<rparr>))
      else c)"

definition set_entry :: "string \<Rightarrow> 'e \<Rightarrow> (string \<times> 'e) list \<Rightarrow> (string \<times> 'e) list" where
  "set_entry key e m = map (\<lambda>(k, e'). if k = key then (k, e) else (k, e')) m"

definition cache_put :: "int \<Rightarrow> string \<Rightarrow> 'v \<Rightarrow> 'v cache \<Rightarrow> 'v cache" where
  "cache_put now key v c =
     (let entry = \<lparr>e_value = v, e_expires = now + c_ttl c\<rparr>
      in if map_of (c_entries c) key \<noteq> None
         then splice_front key (c\<lparr>c_entries := set_entry key entry (c_entries c)\<rparr>)
         else let c' = evict_if_full c
              in c'\<lparr>c_recency := key # c_recency c', c_entries := (key, entry) # c_entries c'\<rparr>)"

definition cache_clear :: "'v cache \<Rightarrow> 'v cache" where
  "cache_clear c =
     c\<lparr>c_invalidations := c_invalidations c + of_nat (length (c_entries c)),
       c_entries := [], c_recency := []\<rparr>"

definition cache_snapshot :: "'v cache \<Rightarrow> json" where
  "cache_snapshot c =
     jobj [(''entries'', JUInt (of_nat (length (c_entries c)))),
           (''capacity'', JUInt (of_nat (c_capacity c))),
           (''ttl_ms'', JInt (of_int (c_ttl c))),
           (''hits'', JUInt (c_hits c)), (''misses'', JUInt (c_misses c)),
           (''expirations'', JUInt (c_expirations c)), (''evictions'', JUInt (c_evictions c)),
           (''invalidations'', JUInt (c_invalidations c))]"

section \<open>Invariant\<close>

definition cache_inv :: "'v cache \<Rightarrow> bool" where
  "cache_inv c \<longleftrightarrow>
     distinct (c_recency c) \<and> distinct (map fst (c_entries c)) \<and>
     set (c_recency c) = fst ` set (c_entries c) \<and>
     length (c_entries c) \<le> c_capacity c \<and> 0 < c_capacity c"

lemma cache_inv_length: "cache_inv c \<Longrightarrow> length (c_recency c) = length (c_entries c)"
  unfolding cache_inv_def by (metis distinct_card length_map set_map)

lemma map_of_filter_neq:
  "map_of (filter (\<lambda>(k, e). k \<noteq> key) m) k = (if k = key then None else map_of m k)"
  by (induction m) auto

lemma map_fst_filter_neq:
  "map fst (filter (\<lambda>(k, e). k \<noteq> key) m) = filter (\<lambda>k. k \<noteq> key) (map fst m)"
  by (induction m) auto

lemma set_entry_simps [simp]:
  "map fst (set_entry key e m) = map fst m"
  "fst ` set (set_entry key e m) = fst ` set m"
  "length (set_entry key e m) = length m"
proof -
  show "map fst (set_entry key e m) = map fst m"
    by (induction m) (auto simp: set_entry_def)
  then show "fst ` set (set_entry key e m) = fst ` set m"
    by (metis set_map)
qed (simp add: set_entry_def)

lemma map_of_set_entry:
  "map_of (set_entry key e m) k =
     (if k = key \<and> map_of m key \<noteq> None then Some e else map_of m k)"
  by (induction m) (auto simp: set_entry_def)

lemma erase_locked_facts:
  assumes "cache_inv c" and "key \<in> set (c_recency c)"
  shows "cache_inv (erase_locked key c) \<and>
    Suc (length (c_entries (erase_locked key c))) = length (c_entries c)"
proof -
  let ?c = "erase_locked key c"
  have key: "map fst (c_entries ?c) = remove1 key (map fst (c_entries c))"
    using assms by (simp add: erase_locked_def map_fst_filter_neq filter_neq_remove1 cache_inv_def)
  have mem: "key \<in> set (map fst (c_entries c))"
    using assms by (auto simp: cache_inv_def)
  have "Suc (length (map fst (c_entries ?c))) = length (map fst (c_entries c))"
    using key mem by (simp add: distinct_remove1_length)
  moreover have "set (map fst (c_entries ?c)) = set (c_recency ?c)"
    using assms key by (simp add: erase_locked_def cache_inv_def set_remove1_eq)
  ultimately show ?thesis
    using assms key by (auto simp: cache_inv_def erase_locked_def)
qed

lemma evict_if_full_inv:
  assumes "cache_inv c"
  shows "cache_inv (evict_if_full c) \<and> length (c_entries (evict_if_full c)) < c_capacity c \<and>
    c_capacity (evict_if_full c) = c_capacity c"
proof (cases "length (c_entries c) \<ge> c_capacity c")
  case False
  with assms show ?thesis by (simp add: evict_if_full_def)
next
  case True
  with assms have "c_recency c \<noteq> []"
    using cache_inv_length [OF assms] by (auto simp: cache_inv_def)
  then obtain oldest rest where o: "rev (c_recency c) = oldest # rest"
    by (cases "rev (c_recency c)") auto
  then have mem: "oldest \<in> set (c_recency c)"
    by (metis list.set_intros(1) set_rev)
  then have "map_of (c_entries c) oldest \<noteq> None"
    using assms by (simp add: cache_inv_def map_of_eq_None_iff)
  then have "evict_if_full c = (erase_locked oldest c)\<lparr>c_evictions := c_evictions c + 1\<rparr>"
    using True o by (auto simp: evict_if_full_def erase_locked_def)
  moreover have "c_capacity (erase_locked oldest c) = c_capacity c"
    by (simp add: erase_locked_def)
  ultimately show ?thesis
    using erase_locked_facts [OF assms mem] assms True
    by (auto simp: cache_inv_def)
qed

lemma cache_inv_new: "cache_new cap ttl = Inr c \<Longrightarrow> cache_inv c"
  by (auto simp: cache_new_def cache_inv_def split: if_splits)

lemma cache_inv_get:
  assumes "cache_inv c"
  shows "cache_inv (snd (cache_get now key c))"
proof (cases "map_of (c_entries c) key")
  case None
  with assms show ?thesis by (simp add: cache_get_def cache_inv_def)
next
  case (Some e)
  then have mem: "key \<in> set (c_recency c)"
    using assms by (force simp: cache_inv_def dest: map_of_SomeD)
  show ?thesis
    using assms Some mem erase_locked_facts [OF assms mem]
    by (auto simp: cache_get_def cache_inv_def splice_front_def Let_def)
qed

lemma cache_inv_put:
  assumes "cache_inv c"
  shows "cache_inv (cache_put now key v c)"
proof (cases "map_of (c_entries c) key")
  case None
  note ev = evict_if_full_inv [OF assms]
  have "key \<notin> fst ` set (c_entries c)"
    using None by (simp add: map_of_eq_None_iff)
  moreover have "fst ` set (c_entries (evict_if_full c)) \<subseteq> fst ` set (c_entries c)"
    by (auto simp: evict_if_full_def erase_locked_def split: list.splits)
  ultimately show ?thesis
    using None ev by (auto simp: cache_put_def cache_inv_def Let_def)
next
  case (Some e)
  then have mem: "key \<in> set (c_recency c)"
    using assms by (force simp: cache_inv_def dest: map_of_SomeD)
  then have "set (key # remove1 key (c_recency c)) = set (c_recency c)"
    using assms by (auto simp: cache_inv_def)
  with Some assms show ?thesis
    by (auto simp: cache_put_def cache_inv_def splice_front_def Let_def)
qed

lemma cache_inv_clear: "cache_inv c \<Longrightarrow> cache_inv (cache_clear c)"
  by (simp add: cache_clear_def cache_inv_def)

lemmas cache_inv_intros = cache_inv_new cache_inv_get cache_inv_put cache_inv_clear


section \<open>The abstract LRU list\<close>

text \<open>
  The specification: one list of keys with their entries, most recently used first. A hit
  moves its key to the front, an expired key is dropped, an insertion goes to the front and
  cuts the list to the capacity.
\<close>

definition lru_abs :: "'v cache \<Rightarrow> (string \<times> 'v centry) list" where
  "lru_abs c = map (\<lambda>k. (k, the (map_of (c_entries c) k))) (c_recency c)"

definition lru_without :: "string \<Rightarrow> (string \<times> 'e) list \<Rightarrow> (string \<times> 'e) list" where
  "lru_without key l = filter (\<lambda>(k, e). k \<noteq> key) l"

definition spec_get ::
  "int \<Rightarrow> string \<Rightarrow> (string \<times> 'v centry) list \<Rightarrow> 'v option \<times> (string \<times> 'v centry) list" where
  "spec_get now key l =
     (case map_of l key of
        None \<Rightarrow> (None, l)
      | Some e \<Rightarrow>
          if e_expires e \<le> now then (None, lru_without key l)
          else (Some (e_value e), (key, e) # lru_without key l))"

definition spec_put ::
  "nat \<Rightarrow> int \<Rightarrow> int \<Rightarrow> string \<Rightarrow> 'v \<Rightarrow> (string \<times> 'v centry) list \<Rightarrow> (string \<times> 'v centry) list" where
  "spec_put cap ttl now key v l =
     (key, \<lparr>e_value = v, e_expires = now + ttl\<rparr>) #
     (if map_of l key \<noteq> None then lru_without key l else take (cap - 1) l)"

lemma recency_iff: "cache_inv c \<Longrightarrow> k \<in> set (c_recency c) \<longleftrightarrow> map_of (c_entries c) k \<noteq> None"
  by (simp add: cache_inv_def map_of_eq_None_iff)

lemma map_of_lru_abs:
  assumes "cache_inv c"
  shows "map_of (lru_abs c) k = map_of (c_entries c) k"
  by (cases "map_of (c_entries c) k")
     (use recency_iff [OF assms, of k] in
       \<open>simp_all add: lru_abs_def map_of_map_restrict restrict_map_def\<close>)

lemma lru_abs_erase:
  assumes "cache_inv c"
  shows "lru_abs (erase_locked key c) = lru_without key (lru_abs c)"
proof -
  have "remove1 key (c_recency c) = filter (\<lambda>k. k \<noteq> key) (c_recency c)"
    using assms by (simp add: cache_inv_def filter_neq_remove1)
  then show ?thesis
    by (simp add: lru_abs_def erase_locked_def lru_without_def filter_map o_def map_of_filter_neq)
qed

lemma lru_abs_cong:
  "c_recency c = c_recency d \<Longrightarrow> c_entries c = c_entries d \<Longrightarrow> lru_abs c = lru_abs d"
  by (simp add: lru_abs_def)

lemma lru_abs_splice:
  assumes "cache_inv c"
  shows "lru_abs (splice_front key c) =
    (key, the (map_of (c_entries c) key)) # lru_without key (lru_abs c)"
proof -
  have "remove1 key (c_recency c) = filter (\<lambda>k. k \<noteq> key) (c_recency c)"
    using assms by (simp add: cache_inv_def filter_neq_remove1)
  then show ?thesis
    by (simp add: lru_abs_def splice_front_def lru_without_def filter_map o_def)
qed

lemma refine_get:
  assumes "cache_inv c"
  shows "spec_get now key (lru_abs c) =
    (fst (cache_get now key c), lru_abs (snd (cache_get now key c)))"
proof -
  have "lru_abs (c\<lparr>c_misses := m\<rparr>) = lru_abs c" for m by (simp add: lru_abs_def)
  moreover have "lru_abs (c'\<lparr>c_expirations := x, c_misses := m\<rparr>) = lru_abs c'"
    and "lru_abs (c'\<lparr>c_hits := x\<rparr>) = lru_abs c'" for c' :: "'a cache" and x m
    by (simp_all add: lru_abs_def)
  ultimately show ?thesis
    using assms
    by (auto simp: spec_get_def cache_get_def map_of_lru_abs lru_abs_erase lru_abs_splice Let_def
        split: option.splits)
qed

lemma lru_abs_evict:
  assumes "cache_inv c"
  shows "lru_abs (evict_if_full c) = take (c_capacity c - 1) (lru_abs c)"
proof (cases "length (c_entries c) \<ge> c_capacity c")
  case False
  then show ?thesis
    using cache_inv_length [OF assms] by (simp add: evict_if_full_def lru_abs_def)
next
  case True
  then have len: "length (c_recency c) = c_capacity c" "0 < c_capacity c"
    using assms cache_inv_length [OF assms] by (auto simp: cache_inv_def)
  then obtain init oldest where r: "c_recency c = init @ [oldest]"
    by (metis length_greater_0_conv rev_exhaust)
  have "map_of (c_entries c) oldest \<noteq> None"
    using assms r by (auto simp: cache_inv_def map_of_eq_None_iff)
  then have "evict_if_full c = (erase_locked oldest c)\<lparr>c_evictions := c_evictions c + 1\<rparr>"
    using True r by (auto simp: evict_if_full_def erase_locked_def)
  then have "lru_abs (evict_if_full c) = lru_without oldest (lru_abs c)"
    using lru_abs_erase [OF assms] by (simp add: lru_abs_def)
  also have "\<dots> = map (\<lambda>k. (k, the (map_of (c_entries c) k))) init"
    using assms r by (auto simp: lru_abs_def lru_without_def filter_map o_def cache_inv_def
        intro!: filter_True arg_cong [where f = "map _"])
  finally show ?thesis using r len by (simp add: lru_abs_def)
qed

lemma refine_put:
  assumes "cache_inv c"
  shows "lru_abs (cache_put now key v c) =
    spec_put (c_capacity c) (c_ttl c) now key v (lru_abs c)"
proof (cases "map_of (c_entries c) key")
  case None
  let ?d = "evict_if_full c"
  let ?e = "\<lparr>e_value = v, e_expires = now + c_ttl c\<rparr>"
  have "key \<notin> set (c_recency ?d)"
  proof -
    have "set (c_recency ?d) \<subseteq> set (c_recency c)"
      by (auto simp: evict_if_full_def erase_locked_def split: list.splits
          dest: set_remove1_subset [THEN subsetD])
    with None assms show ?thesis by (auto simp: cache_inv_def map_of_eq_None_iff)
  qed
  then have "map (\<lambda>k. (k, the (map_of ((key, ?e) # c_entries ?d) k))) (c_recency ?d) = lru_abs ?d"
    by (auto simp: lru_abs_def)
  then show ?thesis
    using None assms
    by (simp add: cache_put_def spec_put_def Let_def map_of_lru_abs lru_abs_evict)
       (simp add: lru_abs_def)
next
  case (Some e)
  let ?c = "c\<lparr>c_entries := set_entry key \<lparr>e_value = v, e_expires = now + c_ttl c\<rparr> (c_entries c)\<rparr>"
  have inv: "cache_inv ?c" using assms by (simp add: cache_inv_def)
  have "lru_without key (lru_abs ?c) = lru_without key (lru_abs c)"
    by (simp add: lru_abs_def lru_without_def filter_map o_def map_of_set_entry)
  then show ?thesis
    using Some assms lru_abs_splice [OF inv, of key]
    by (simp add: cache_put_def spec_put_def Let_def map_of_lru_abs map_of_set_entry)
qed

lemma refine_clear: "lru_abs (cache_clear c) = []"
  by (simp add: lru_abs_def cache_clear_def)

lemma cache_config_frame:
  "c_capacity (snd (cache_get now key c)) = c_capacity c"
  "c_ttl (snd (cache_get now key c)) = c_ttl c"
  "c_capacity (cache_put now key v c) = c_capacity c"
  "c_ttl (cache_put now key v c) = c_ttl c"
  "c_capacity (cache_clear c) = c_capacity c"
  "c_ttl (cache_clear c) = c_ttl c"
  by (auto simp: cache_get_def cache_put_def cache_clear_def evict_if_full_def erase_locked_def
      splice_front_def Let_def split: option.splits list.splits)

section \<open>Runs\<close>

datatype 'v cop = CGet int string | CPut int string 'v | CClear

fun cache_step :: "'v cop \<Rightarrow> 'v cache \<Rightarrow> 'v option \<times> 'v cache" where
  "cache_step (CGet now k) c = cache_get now k c"
| "cache_step (CPut now k v) c = (None, cache_put now k v c)"
| "cache_step CClear c = (None, cache_clear c)"

fun spec_step ::
  "nat \<Rightarrow> int \<Rightarrow> 'v cop \<Rightarrow> (string \<times> 'v centry) list \<Rightarrow> 'v option \<times> (string \<times> 'v centry) list" where
  "spec_step cap ttl (CGet now k) l = spec_get now k l"
| "spec_step cap ttl (CPut now k v) l = (None, spec_put cap ttl now k v l)"
| "spec_step cap ttl CClear l = (None, [])"

fun cache_run :: "'v cop list \<Rightarrow> 'v cache \<Rightarrow> 'v option list \<times> 'v cache" where
  "cache_run [] c = ([], c)"
| "cache_run (x # xs) c =
     (let (r, c1) = cache_step x c; (rs, c2) = cache_run xs c1 in (r # rs, c2))"

fun spec_run ::
  "nat \<Rightarrow> int \<Rightarrow> 'v cop list \<Rightarrow> (string \<times> 'v centry) list \<Rightarrow>
     'v option list \<times> (string \<times> 'v centry) list" where
  "spec_run cap ttl [] l = ([], l)"
| "spec_run cap ttl (x # xs) l =
     (let (r, l1) = spec_step cap ttl x l; (rs, l2) = spec_run cap ttl xs l1 in (r # rs, l2))"

lemma step_refines:
  assumes "cache_inv c"
  shows "spec_step (c_capacity c) (c_ttl c) x (lru_abs c) =
      (fst (cache_step x c), lru_abs (snd (cache_step x c)))"
    and "cache_inv (snd (cache_step x c))"
    and "c_capacity (snd (cache_step x c)) = c_capacity c"
    and "c_ttl (snd (cache_step x c)) = c_ttl c"
  using assms
  by (cases x; simp add: refine_get refine_put refine_clear cache_inv_intros cache_config_frame)+

lemma run_refines:
  assumes "cache_inv c"
  shows "spec_run (c_capacity c) (c_ttl c) xs (lru_abs c) =
      (fst (cache_run xs c), lru_abs (snd (cache_run xs c))) \<and>
    cache_inv (snd (cache_run xs c)) \<and> c_capacity (snd (cache_run xs c)) = c_capacity c"
  using assms
proof (induction xs arbitrary: c)
  case Nil
  then show ?case by simp
next
  case (Cons x xs)
  note st = step_refines [OF Cons.prems, of x]
  show ?case
    using Cons.IH [OF st(2)] st by (simp add: split_beta Let_def)
qed

text \<open>
  C2. Every run of gets, puts and clears on a fresh cache returns exactly what the abstract
  LRU list returns, ends in a state that represents the abstract list, never holds more
  entries than its capacity, and keeps recency list and entry table in step.
\<close>

theorem cache_refines_lru:
  assumes "cache_new cap ttl = Inr c"
  shows "fst (cache_run xs c) = fst (spec_run cap ttl xs []) \<and>
    lru_abs (snd (cache_run xs c)) = snd (spec_run cap ttl xs []) \<and>
    length (c_entries (snd (cache_run xs c))) \<le> cap \<and>
    cache_inv (snd (cache_run xs c))"
proof -
  have c: "c_capacity c = cap" "c_ttl c = ttl" "lru_abs c = []"
    using assms by (auto simp: cache_new_def lru_abs_def split: if_splits)
  show ?thesis
    using run_refines [OF cache_inv_new [OF assms], of xs] c
    by (auto simp: cache_inv_def)
qed

theorem cache_refines_lru_witness:
  "\<exists>c. cache_new 2 1000 = Inr c \<and>
     fst (cache_run [CPut 0 ''a'' True, CPut 1 ''b'' False, CGet 2 ''a'', CPut 3 ''c'' True,
        CGet 4 ''b'', CGet 5 ''a'', CGet 1000 ''a''] c) =
     [None, None, Some True, None, None, Some True, None]"
proof -
  obtain c :: "bool cache" where c: "cache_new 2 1000 = Inr c" by (simp add: cache_new_def)
  from cache_refines_lru [OF c, of "[CPut 0 ''a'' True, CPut 1 ''b'' False, CGet 2 ''a'',
      CPut 3 ''c'' True, CGet 4 ''b'', CGet 5 ''a'', CGet 1000 ''a'']"] c
  show ?thesis by (simp add: spec_get_def spec_put_def lru_without_def)
qed


section \<open>Accounting\<close>

fun op_gets :: "'v cop \<Rightarrow> nat" where
  "op_gets (CGet now k) = 1"
| "op_gets _ = 0"

fun op_inserts :: "'v cop \<Rightarrow> 'v cache \<Rightarrow> nat" where
  "op_inserts (CPut now k v) c = (if map_of (c_entries c) k = None then 1 else 0)"
| "op_inserts _ c = 0"

fun run_inserts :: "'v cop list \<Rightarrow> 'v cache \<Rightarrow> nat" where
  "run_inserts [] c = 0"
| "run_inserts (x # xs) c = op_inserts x c + run_inserts xs (snd (cache_step x c))"

definition departed :: "'v cache \<Rightarrow> u64" where
  "departed c = c_evictions c + c_expirations c + c_invalidations c"

lemma departed_erase:
  assumes "cache_inv c" and "key \<in> set (c_recency c)"
  shows "departed (erase_locked key c) = departed c"
    and "(of_nat (length (c_entries c)) :: u64) = of_nat (length (c_entries (erase_locked key c))) + 1"
  using erase_locked_facts [OF assms]
  by (simp_all add: departed_def erase_locked_def) (metis add.commute of_nat_Suc)

lemma evict_accounting:
  assumes "cache_inv c"
  shows "of_nat (length (c_entries (evict_if_full c))) + departed (evict_if_full c) =
    of_nat (length (c_entries c)) + departed c"
proof (cases "evict_if_full c = c")
  case True
  then show ?thesis by simp
next
  case False
  then obtain oldest rest where o: "rev (c_recency c) = oldest # rest"
    and e: "evict_if_full c = (erase_locked oldest c)\<lparr>c_evictions := c_evictions (erase_locked oldest c) + 1\<rparr>"
    by (auto simp: evict_if_full_def Let_def split: if_splits list.splits)
  from o have "oldest \<in> set (c_recency c)" by (metis list.set_intros(1) set_rev)
  note d = departed_erase [OF assms this]
  have "departed (evict_if_full c) = departed (erase_locked oldest c) + 1"
    by (simp add: e departed_def)
  with d e show ?thesis by simp
qed

lemma step_accounting:
  assumes "cache_inv c"
  shows "of_nat (length (c_entries (snd (cache_step x c)))) + departed (snd (cache_step x c)) =
      of_nat (length (c_entries c)) + departed c + of_nat (op_inserts x c)"
    and "c_hits (snd (cache_step x c)) + c_misses (snd (cache_step x c)) =
      c_hits c + c_misses c + of_nat (op_gets x)"
proof -
  have "of_nat (length (c_entries (snd (cache_get now key c)))) + departed (snd (cache_get now key c)) =
    of_nat (length (c_entries c)) + departed c" for now key
  proof (cases "map_of (c_entries c) key")
    case None
    then show ?thesis by (simp add: cache_get_def departed_def)
  next
    case (Some e)
    then have "key \<in> set (c_recency c)" using recency_iff [OF assms] by simp
    note d = departed_erase [OF assms this]
    have "departed (c'\<lparr>c_expirations := c_expirations c' + 1, c_misses := m\<rparr>) = departed c' + 1"
      for c' :: "'a cache" and m by (simp add: departed_def)
    then show ?thesis
      using Some d by (simp add: cache_get_def Let_def) (simp add: departed_def splice_front_def)
  qed
  moreover have "of_nat (length (c_entries (cache_put now key v c))) + departed (cache_put now key v c) =
    of_nat (length (c_entries c)) + departed c +
    (if map_of (c_entries c) key = None then 1 else 0)" for now key v
  proof (cases "map_of (c_entries c) key")
    case None
    have "departed (c'\<lparr>c_recency := r, c_entries := es\<rparr>) = departed c'"
      for c' :: "'a cache" and r es by (simp add: departed_def)
    then show ?thesis
      using None evict_accounting [OF assms] by (simp add: cache_put_def Let_def algebra_simps)
  next
    case (Some e)
    then show ?thesis by (simp add: cache_put_def Let_def splice_front_def departed_def)
  qed
  ultimately show "of_nat (length (c_entries (snd (cache_step x c)))) + departed (snd (cache_step x c)) =
      of_nat (length (c_entries c)) + departed c + of_nat (op_inserts x c)"
    by (cases x) (auto simp: cache_clear_def departed_def)
  show "c_hits (snd (cache_step x c)) + c_misses (snd (cache_step x c)) =
      c_hits c + c_misses c + of_nat (op_gets x)"
    by (cases x) (auto simp: cache_get_def cache_put_def cache_clear_def evict_if_full_def
        erase_locked_def splice_front_def Let_def split: option.splits list.splits)
qed

lemma run_accounting:
  assumes "cache_inv c"
  shows "of_nat (length (c_entries (snd (cache_run xs c)))) + departed (snd (cache_run xs c)) =
      of_nat (length (c_entries c)) + departed c + of_nat (run_inserts xs c) \<and>
    c_hits (snd (cache_run xs c)) + c_misses (snd (cache_run xs c)) =
      c_hits c + c_misses c + of_nat (sum_list (map op_gets xs))"
  using assms
proof (induction xs arbitrary: c)
  case Nil
  then show ?case by simp
next
  case (Cons x xs)
  show ?case
    using Cons.IH [OF step_refines(2) [OF Cons.prems, of x]] step_accounting [OF Cons.prems, of x]
    by (simp add: split_beta Let_def add.assoc)
qed

text \<open>
  The counters of a cache account for everything it did: over any run from a fresh cache,
  hits plus misses is the number of gets, and every key ever inserted is either still an entry
  or counted once as evicted, expired or invalidated (all modulo the 64-bit counters).
\<close>

theorem cache_counters_account:
  assumes "cache_new cap ttl = Inr c"
  shows "c_hits (snd (cache_run xs c)) + c_misses (snd (cache_run xs c)) =
      of_nat (sum_list (map op_gets xs)) \<and>
    of_nat (length (c_entries (snd (cache_run xs c)))) + c_evictions (snd (cache_run xs c)) +
      c_expirations (snd (cache_run xs c)) + c_invalidations (snd (cache_run xs c)) =
      of_nat (run_inserts xs c)"
proof -
  have "length (c_entries c) = 0" "departed c = 0" "c_hits c + c_misses c = 0"
    using assms by (auto simp: cache_new_def departed_def split: if_splits)
  then show ?thesis
    using run_accounting [OF cache_inv_new [OF assms], of xs]
    by (simp add: departed_def add.assoc)
qed

theorem cache_counters_account_witness:
  "\<exists>c :: nat cache. cache_new 1 1000 = Inr c \<and>
     of_nat (length (c_entries (snd (cache_run [CPut 0 ''a'' 1, CPut 1 ''b'' 2, CGet 2 ''a''] c)))) +
      c_evictions (snd (cache_run [CPut 0 ''a'' 1, CPut 1 ''b'' 2, CGet 2 ''a''] c)) +
      c_expirations (snd (cache_run [CPut 0 ''a'' 1, CPut 1 ''b'' 2, CGet 2 ''a''] c)) +
      c_invalidations (snd (cache_run [CPut 0 ''a'' 1, CPut 1 ''b'' 2, CGet 2 ''a''] c)) = 2"
proof -
  obtain c :: "nat cache" where c: "cache_new 1 1000 = Inr c" by (simp add: cache_new_def)
  then have "run_inserts [CPut 0 ''a'' 1, CPut 1 ''b'' 2, CGet 2 ''a''] c = 2"
    by (auto simp: cache_new_def cache_put_def evict_if_full_def erase_locked_def Let_def)
  with cache_counters_account [OF c, of "[CPut 0 ''a'' 1, CPut 1 ''b'' 2, CGet 2 ''a'']"]
  show ?thesis using c by (intro exI [of _ c]) (simp only: of_nat_numeral)
qed

section \<open>What a memoising client relies on\<close>

text \<open>
  The interface of a cache that a client uses to memoise: a lookup returns only what the cache
  holds, storing a value changes what it holds at that key only, and nothing else adds values.
  A relation between keys and values that holds of everything stored therefore holds of
  everything ever returned.
\<close>

locale memo_cache =
  fixes lookup :: "int \<Rightarrow> string \<Rightarrow> 'c \<Rightarrow> 'v option \<times> 'c"
    and store :: "int \<Rightarrow> string \<Rightarrow> 'v \<Rightarrow> 'c \<Rightarrow> 'c"
    and drop_all :: "'c \<Rightarrow> 'c"
    and holds :: "'c \<Rightarrow> string \<Rightarrow> 'v \<Rightarrow> bool"
    and wf_cache :: "'c \<Rightarrow> bool"
  assumes wf_lookup: "wf_cache c \<Longrightarrow> wf_cache (snd (lookup t k c))"
    and wf_store: "wf_cache c \<Longrightarrow> wf_cache (store t k v c)"
    and wf_drop: "wf_cache c \<Longrightarrow> wf_cache (drop_all c)"
    and lookup_holds: "wf_cache c \<Longrightarrow> fst (lookup t k c) = Some v \<Longrightarrow> holds c k v"
    and lookup_keeps: "wf_cache c \<Longrightarrow> holds (snd (lookup t k c)) k' v' \<Longrightarrow> holds c k' v'"
    and store_holds:
      "wf_cache c \<Longrightarrow> holds (store t k v c) k' v' \<Longrightarrow> (k' = k \<and> v' = v) \<or> (k' \<noteq> k \<and> holds c k' v')"
    and drop_holds: "\<not> holds (drop_all c) k v"
begin

definition faithful :: "(string \<Rightarrow> 'v \<Rightarrow> bool) \<Rightarrow> 'c \<Rightarrow> bool" where
  "faithful R c \<longleftrightarrow> wf_cache c \<and> (\<forall>k v. holds c k v \<longrightarrow> R k v)"

lemma faithful_hit: "faithful R c \<Longrightarrow> fst (lookup t k c) = Some v \<Longrightarrow> R k v"
  using lookup_holds by (auto simp: faithful_def)

lemma faithful_lookup: "faithful R c \<Longrightarrow> faithful R (snd (lookup t k c))"
  using lookup_keeps wf_lookup by (auto simp: faithful_def)

lemma faithful_store: "faithful R c \<Longrightarrow> R k v \<Longrightarrow> faithful R (store t k v c)"
  using store_holds wf_store unfolding faithful_def by blast

lemma faithful_drop: "wf_cache c \<Longrightarrow> faithful R (drop_all c)"
  using drop_holds wf_drop by (auto simp: faithful_def)

end

definition cache_holds :: "'v cache \<Rightarrow> string \<Rightarrow> 'v \<Rightarrow> bool" where
  "cache_holds c k v \<longleftrightarrow> (\<exists>e. map_of (c_entries c) k = Some e \<and> e_value e = v)"

lemma map_of_evict: "map_of (c_entries (evict_if_full c)) k = Some e \<Longrightarrow> map_of (c_entries c) k = Some e"
  by (auto simp: evict_if_full_def erase_locked_def map_of_filter_neq Let_def
      split: if_splits list.splits)

interpretation lru: memo_cache cache_get cache_put cache_clear cache_holds cache_inv
proof unfold_locales
  fix c :: "'a cache" and t k v k' v'
  show "cache_inv c \<Longrightarrow> fst (cache_get t k c) = Some v \<Longrightarrow> cache_holds c k v"
    by (auto simp: cache_get_def cache_holds_def Let_def split: option.splits if_splits)
  show "cache_inv c \<Longrightarrow> cache_holds (snd (cache_get t k c)) k' v' \<Longrightarrow> cache_holds c k' v'"
    by (auto simp: cache_get_def cache_holds_def erase_locked_def splice_front_def
        map_of_filter_neq Let_def split: option.splits if_splits)
  show "cache_inv c \<Longrightarrow> cache_holds (cache_put t k v c) k' v' \<Longrightarrow>
    (k' = k \<and> v' = v) \<or> (k' \<noteq> k \<and> cache_holds c k' v')"
    by (auto simp: cache_put_def cache_holds_def splice_front_def map_of_set_entry Let_def
        dest: map_of_evict split: if_splits)
  show "\<not> cache_holds (cache_clear c) k v"
    by (simp add: cache_clear_def cache_holds_def)
qed (auto intro: cache_inv_intros)

end
