(* ===== verification/Worker_Pool.thy ===== *)
theory Worker_Pool
  imports Prelude Json_Value
begin

text \<open>
  \<open>execution::WorkerPool\<close> (\<open>worker_pool.cpp\<close>, \<open>worker_pool.hpp\<close>): a bounded job queue served
  by a fixed set of threads. Every region under the mutex and every atomic counter update is
  one step; which thread moves next is not determined, so the pool is a step relation over
  client calls and worker moves. A job is a value; whether running it throws is chosen by the
  step in which it returns.
\<close>

section \<open>State\<close>

text \<open>
  Where a worker thread is in \<open>run()\<close>: waiting for the lock or the condition, running a job,
  past the job and before \<open>active_\<close> is decremented, before \<open>completed_\<close> is incremented, or
  returned.
\<close>

datatype 'j wphase = WWait | WRun 'j | WLeave | WCount | WExit

record 'j pool =
  p_capacity :: nat
  p_worker_count :: nat
  p_queue :: "'j list"
  p_workers :: "'j wphase list"
  p_accepting :: bool
  p_stopping :: bool
  p_submitted :: u64
  p_completed :: u64
  p_rejected :: u64
  p_failed :: u64
  p_active :: u64

definition pool_new :: "nat \<Rightarrow> nat \<Rightarrow> 'j pool res" where
  "pool_new workers capacity =
     (if workers = 0 \<or> workers > 256 \<or> capacity = 0
      then Inl (InvalidArgument
             ''worker count must be in [1, 256] and queue capacity must be positive'')
      else Inr \<lparr>p_capacity = capacity, p_worker_count = workers, p_queue = [],
                p_workers = replicate workers WWait, p_accepting = True, p_stopping = False,
                p_submitted = 0, p_completed = 0, p_rejected = 0, p_failed = 0, p_active = 0\<rparr>)"

definition enqueue :: "'j \<Rightarrow> 'j pool \<Rightarrow> bool \<times> 'j pool" where
  "enqueue job p =
     (if \<not> p_accepting p \<or> length (p_queue p) \<ge> p_capacity p then (False, p)
      else (True, p\<lparr>p_queue := p_queue p @ [job], p_submitted := p_submitted p + 1\<rparr>))"

text \<open>\<open>dispatch\<close>: an empty \<open>std::function\<close> is \<open>None\<close>.\<close>

definition dispatch :: "'j option \<Rightarrow> 'j pool \<Rightarrow> unit res \<times> 'j pool" where
  "dispatch job p =
     (case job of
        None \<Rightarrow> (Inl (InvalidArgument ''worker job must not be empty''), p)
      | Some j \<Rightarrow>
          (case enqueue j p of
             (True, p') \<Rightarrow> (Inr (), p')
           | (False, p') \<Rightarrow> (Inl QueueFull, p'\<lparr>p_rejected := p_rejected p' + 1\<rparr>)))"

text \<open>
  The loop body of \<open>run()\<close> for worker \<open>i\<close>. Waking takes the front job or returns when the
  pool is stopping and drained; \<open>None\<close> means the worker stays blocked.
\<close>

definition worker_wake :: "nat \<Rightarrow> 'j pool \<Rightarrow> ('j option \<times> 'j pool) option" where
  "worker_wake i p =
     (if p_stopping p \<and> p_queue p = []
      then Some (None, p\<lparr>p_workers := (p_workers p)[i := WExit]\<rparr>)
      else case p_queue p of
             [] \<Rightarrow> None
           | job # rest \<Rightarrow>
               Some (Some job, p\<lparr>p_queue := rest, p_active := p_active p + 1,
                                 p_workers := (p_workers p)[i := WRun job]\<rparr>))"

definition worker_return :: "nat \<Rightarrow> bool \<Rightarrow> 'j pool \<Rightarrow> 'j pool" where
  "worker_return i threw p =
     p\<lparr>p_failed := (if threw then p_failed p + 1 else p_failed p),
       p_workers := (p_workers p)[i := WLeave]\<rparr>"

definition worker_leave :: "nat \<Rightarrow> 'j pool \<Rightarrow> 'j pool" where
  "worker_leave i p = p\<lparr>p_active := p_active p - 1, p_workers := (p_workers p)[i := WCount]\<rparr>"

definition worker_count :: "nat \<Rightarrow> 'j pool \<Rightarrow> 'j pool" where
  "worker_count i p = p\<lparr>p_completed := p_completed p + 1, p_workers := (p_workers p)[i := WWait]\<rparr>"

definition shutdown_begin :: "'j pool \<Rightarrow> 'j pool" where
  "shutdown_begin p =
     (if p_stopping p then p else p\<lparr>p_accepting := False, p_stopping := True\<rparr>)"

text \<open>\<open>shutdown\<close> joins every worker, which blocks until all have returned, then clears them.\<close>

definition shutdown_join :: "'j pool \<Rightarrow> 'j pool option" where
  "shutdown_join p =
     (if p_stopping p \<and> (\<forall>w \<in> set (p_workers p). w = WExit) then Some (p\<lparr>p_workers := []\<rparr>)
      else None)"

definition pool_snapshot :: "'j pool \<Rightarrow> json" where
  "pool_snapshot p =
     jobj [(''workers'', JUInt (of_nat (p_worker_count p))),
           (''queue_depth'', JUInt (of_nat (length (p_queue p)))),
           (''queue_capacity'', JUInt (of_nat (p_capacity p))),
           (''accepting'', JBool (p_accepting p)),
           (''active'', JUInt (p_active p)), (''submitted'', JUInt (p_submitted p)),
           (''completed'', JUInt (p_completed p)), (''rejected'', JUInt (p_rejected p)),
           (''failed'', JUInt (p_failed p))]"

section \<open>Steps\<close>

datatype 'j pevent =
  Accepted 'j | Refused 'j | Started nat 'j | Finished nat 'j | Internal

inductive pool_step :: "'j pool \<Rightarrow> 'j pevent \<Rightarrow> 'j pool \<Rightarrow> bool" where
  accept: "dispatch (Some j) p = (Inr (), p') \<Longrightarrow> pool_step p (Accepted j) p'"
| refuse: "dispatch (Some j) p = (Inl QueueFull, p') \<Longrightarrow> pool_step p (Refused j) p'"
| take_job: "i < length (p_workers p) \<Longrightarrow> p_workers p ! i = WWait \<Longrightarrow>
     worker_wake i p = Some (Some j, p') \<Longrightarrow> pool_step p (Started i j) p'"
| exit_worker: "i < length (p_workers p) \<Longrightarrow> p_workers p ! i = WWait \<Longrightarrow>
     worker_wake i p = Some (None, p') \<Longrightarrow> pool_step p Internal p'"
| return: "i < length (p_workers p) \<Longrightarrow> p_workers p ! i = WRun j \<Longrightarrow>
     pool_step p (Finished i j) (worker_return i threw p)"
| leave: "i < length (p_workers p) \<Longrightarrow> p_workers p ! i = WLeave \<Longrightarrow>
     pool_step p Internal (worker_leave i p)"
| count: "i < length (p_workers p) \<Longrightarrow> p_workers p ! i = WCount \<Longrightarrow>
     pool_step p Internal (worker_count i p)"
| begin_shutdown: "pool_step p Internal (shutdown_begin p)"
| join: "shutdown_join p = Some p' \<Longrightarrow> pool_step p Internal p'"

inductive pool_run :: "'j pool \<Rightarrow> 'j pevent list \<Rightarrow> 'j pool \<Rightarrow> bool" where
  start: "pool_run p [] p"
| step: "pool_run p es q \<Longrightarrow> pool_step q e r \<Longrightarrow> pool_run p (es @ [e]) r"

fun accepted_jobs :: "'j pevent list \<Rightarrow> 'j list" where
  "accepted_jobs [] = []"
| "accepted_jobs (Accepted j # es) = j # accepted_jobs es"
| "accepted_jobs (_ # es) = accepted_jobs es"

fun started_jobs :: "'j pevent list \<Rightarrow> 'j list" where
  "started_jobs [] = []"
| "started_jobs (Started i j # es) = j # started_jobs es"
| "started_jobs (_ # es) = started_jobs es"

fun finished_count :: "'j pevent list \<Rightarrow> nat" where
  "finished_count [] = 0"
| "finished_count (Finished i j # es) = Suc (finished_count es)"
| "finished_count (_ # es) = finished_count es"

fun refused_count :: "'j pevent list \<Rightarrow> nat" where
  "refused_count [] = 0"
| "refused_count (Refused j # es) = Suc (refused_count es)"
| "refused_count (_ # es) = refused_count es"

lemma accepted_jobs_append [simp]: "accepted_jobs (es @ fs) = accepted_jobs es @ accepted_jobs fs"
  by (induction es rule: accepted_jobs.induct) auto

lemma started_jobs_append [simp]: "started_jobs (es @ fs) = started_jobs es @ started_jobs fs"
  by (induction es rule: started_jobs.induct) auto

lemma finished_count_append [simp]: "finished_count (es @ fs) = finished_count es + finished_count fs"
  by (induction es rule: finished_count.induct) auto

lemma refused_count_append [simp]: "refused_count (es @ fs) = refused_count es + refused_count fs"
  by (induction es rule: refused_count.induct) auto

section \<open>Invariant\<close>

fun is_running :: "'j wphase \<Rightarrow> bool" where
  "is_running (WRun j) = True" | "is_running _ = False"

fun in_flight :: "'j wphase \<Rightarrow> bool" where
  "in_flight WWait = False" | "in_flight WExit = False" | "in_flight _ = True"

fun is_active :: "'j wphase \<Rightarrow> bool" where
  "is_active (WRun j) = True" | "is_active WLeave = True" | "is_active _ = False"

definition n_workers :: "('j wphase \<Rightarrow> bool) \<Rightarrow> 'j pool \<Rightarrow> nat" where
  "n_workers P p = length (filter P (p_workers p))"

definition pool_inv :: "'j pevent list \<Rightarrow> 'j pool \<Rightarrow> bool" where
  "pool_inv es p \<longleftrightarrow>
     accepted_jobs es = started_jobs es @ p_queue p \<and>
     length (p_queue p) \<le> p_capacity p \<and> 0 < p_capacity p \<and>
     (p_accepting p \<longleftrightarrow> \<not> p_stopping p) \<and>
     p_submitted p = of_nat (length (accepted_jobs es)) \<and>
     p_rejected p = of_nat (refused_count es) \<and>
     length (started_jobs es) = finished_count es + n_workers is_running p \<and>
     p_active p = of_nat (n_workers is_active p) \<and>
     p_submitted p = p_completed p + of_nat (length (p_queue p)) + of_nat (n_workers in_flight p) \<and>
     (WExit \<in> set (p_workers p) \<or> p_workers p = [] \<longrightarrow> p_stopping p \<and> p_queue p = []) \<and>
     length (p_workers p) \<le> p_worker_count p"

lemma pool_inv_new: "pool_new w c = Inr p \<Longrightarrow> pool_inv [] p"
  by (auto simp: pool_new_def pool_inv_def n_workers_def split: if_splits)

lemma n_workers_update:
  assumes "i < length (p_workers p)" and "p_workers p' = (p_workers p)[i := v]"
  shows "n_workers P p' + (if P (p_workers p ! i) then 1 else 0) = n_workers P p + (if P v then 1 else 0)"
  using length_filter_update [OF assms(1), of P v] assms(2) by (simp add: n_workers_def)


text \<open>A worker's move changes one entry of the phase list.\<close>

lemma n_workers_move:
  assumes "i < length (p_workers p)" and "p_workers p ! i = u" and "p_workers p' = (p_workers p)[i := v]"
  shows "n_workers is_running p' + (if is_running u then 1 else 0) =
      n_workers is_running p + (if is_running v then 1 else 0)"
    and "n_workers is_active p' + (if is_active u then 1 else 0) =
      n_workers is_active p + (if is_active v then 1 else 0)"
    and "n_workers in_flight p' + (if in_flight u then 1 else 0) =
      n_workers in_flight p + (if in_flight v then 1 else 0)"
    and "WExit \<in> set (p_workers p') \<Longrightarrow> v \<noteq> WExit \<Longrightarrow> WExit \<in> set (p_workers p)"
    and "length (p_workers p') = length (p_workers p)"
  using n_workers_update [OF assms(1,3)] assms(2,3) set_update_subset_insert [of "p_workers p" i v]
  by auto

lemma pool_inv_dispatch:
  assumes "pool_inv es p" and "dispatch (Some j) p = (r, p')"
  shows "r = Inr () \<Longrightarrow> pool_inv (es @ [Accepted j]) p'"
    and "r = Inl QueueFull \<Longrightarrow> pool_inv (es @ [Refused j]) p'"
proof -
  have w: "n_workers P (p\<lparr>p_queue := q, p_submitted := s\<rparr>) = n_workers P p"
    and w': "n_workers P (p\<lparr>p_rejected := s\<rparr>) = n_workers P p" for P q s
    by (simp_all add: n_workers_def)
  show "r = Inr () \<Longrightarrow> pool_inv (es @ [Accepted j]) p'"
    using assms by (auto simp: dispatch_def enqueue_def pool_inv_def w split: if_splits)
  show "r = Inl QueueFull \<Longrightarrow> pool_inv (es @ [Refused j]) p'"
    using assms by (auto simp: dispatch_def enqueue_def pool_inv_def w' split: if_splits)
qed

lemma pool_inv_wake:
  assumes "pool_inv es p" and "i < length (p_workers p)" and "p_workers p ! i = WWait"
    and "worker_wake i p = Some (r, p')"
  shows "r = Some j \<Longrightarrow> pool_inv (es @ [Started i j]) p'"
    and "r = None \<Longrightarrow> pool_inv (es @ [Internal]) p'"
proof -
  show "pool_inv (es @ [Started i j]) p'" if r: "r = Some j"
  proof -
    from assms(4) r obtain rest where q: "p_queue p = j # rest"
      and p': "p' = p\<lparr>p_queue := rest, p_active := p_active p + 1,
                       p_workers := (p_workers p)[i := WRun j]\<rparr>"
      by (auto simp: worker_wake_def split: if_splits list.splits)
    have "p_workers p' = (p_workers p)[i := WRun j]" by (simp add: p')
    note m = n_workers_move [OF assms(2,3) this]
    show ?thesis using assms(1,2) q m by (auto simp: pool_inv_def p')
  qed
  show "pool_inv (es @ [Internal]) p'" if r: "r = None"
  proof -
    from assms(4) r have q: "p_stopping p" "p_queue p = []"
      and p': "p' = p\<lparr>p_workers := (p_workers p)[i := WExit]\<rparr>"
      by (auto simp: worker_wake_def split: if_splits list.splits)
    have "p_workers p' = (p_workers p)[i := WExit]" by (simp add: p')
    note m = n_workers_move [OF assms(2,3) this]
    show ?thesis using assms(1) q m by (auto simp: pool_inv_def p')
  qed
qed

lemma worker_move_frame [simp]:
  "p_queue (worker_return i threw p) = p_queue p" "p_queue (worker_leave i p) = p_queue p"
  "p_queue (worker_count i p) = p_queue p"
  "p_capacity (worker_return i threw p) = p_capacity p" "p_capacity (worker_leave i p) = p_capacity p"
  "p_capacity (worker_count i p) = p_capacity p"
  "p_accepting (worker_return i threw p) = p_accepting p" "p_accepting (worker_leave i p) = p_accepting p"
  "p_accepting (worker_count i p) = p_accepting p"
  "p_stopping (worker_return i threw p) = p_stopping p" "p_stopping (worker_leave i p) = p_stopping p"
  "p_stopping (worker_count i p) = p_stopping p"
  "p_submitted (worker_return i threw p) = p_submitted p" "p_submitted (worker_leave i p) = p_submitted p"
  "p_submitted (worker_count i p) = p_submitted p"
  "p_rejected (worker_return i threw p) = p_rejected p" "p_rejected (worker_leave i p) = p_rejected p"
  "p_rejected (worker_count i p) = p_rejected p"
  "p_worker_count (worker_return i threw p) = p_worker_count p"
  "p_worker_count (worker_leave i p) = p_worker_count p"
  "p_worker_count (worker_count i p) = p_worker_count p"
  "p_active (worker_return i threw p) = p_active p" "p_active (worker_leave i p) = p_active p - 1"
  "p_active (worker_count i p) = p_active p"
  "p_completed (worker_return i threw p) = p_completed p"
  "p_completed (worker_leave i p) = p_completed p"
  "p_completed (worker_count i p) = p_completed p + 1"
  "p_workers (worker_return i threw p) = (p_workers p)[i := WLeave]"
  "p_workers (worker_leave i p) = (p_workers p)[i := WCount]"
  "p_workers (worker_count i p) = (p_workers p)[i := WWait]"
  by (simp_all add: worker_return_def worker_leave_def worker_count_def)

lemma pool_inv_moves:
  assumes "pool_inv es p" and "i < length (p_workers p)"
  shows "p_workers p ! i = WRun j \<Longrightarrow> pool_inv (es @ [Finished i j]) (worker_return i threw p)"
    and "p_workers p ! i = WLeave \<Longrightarrow> pool_inv (es @ [Internal]) (worker_leave i p)"
    and "p_workers p ! i = WCount \<Longrightarrow> pool_inv (es @ [Internal]) (worker_count i p)"
proof -
  have ne: "p_workers p \<noteq> []" using assms(2) by auto
  show "pool_inv (es @ [Finished i j]) (worker_return i threw p)" if u: "p_workers p ! i = WRun j"
    using assms n_workers_move [OF assms(2) u, of "worker_return i threw p" WLeave] ne
    by (auto simp: pool_inv_def)
  show "pool_inv (es @ [Internal]) (worker_leave i p)" if u: "p_workers p ! i = WLeave"
  proof -
    note m = n_workers_move [OF assms(2) u, of "worker_leave i p" WCount]
    have "n_workers is_active p = Suc (n_workers is_active (worker_leave i p))"
      using m(2) by simp
    then have "(of_nat (n_workers is_active p) :: u64) = of_nat (n_workers is_active (worker_leave i p)) + 1"
      by simp
    then show ?thesis using assms m(1,3,4) ne by (auto simp: pool_inv_def)
  qed
  show "pool_inv (es @ [Internal]) (worker_count i p)" if u: "p_workers p ! i = WCount"
  proof -
    note m = n_workers_move [OF assms(2) u, of "worker_count i p" WWait]
    have "n_workers in_flight p = Suc (n_workers in_flight (worker_count i p))"
      using m(3) by simp
    then have "(of_nat (n_workers in_flight p) :: u64) = of_nat (n_workers in_flight (worker_count i p)) + 1"
      by simp
    then show ?thesis using assms m(1,2,4) ne by (auto simp: pool_inv_def algebra_simps)
  qed
qed

lemma pool_inv_shutdown:
  assumes "pool_inv es p"
  shows "pool_inv (es @ [Internal]) (shutdown_begin p)"
    and "shutdown_join p = Some p' \<Longrightarrow> pool_inv (es @ [Internal]) p'"
proof -
  show "pool_inv (es @ [Internal]) (shutdown_begin p)"
    using assms by (auto simp: pool_inv_def shutdown_begin_def n_workers_def)
  assume j: "shutdown_join p = Some p'"
  then have "\<forall>w \<in> set (p_workers p). w = WExit" and p': "p' = p\<lparr>p_workers := []\<rparr>"
    by (auto simp: shutdown_join_def split: if_splits)
  then have "n_workers is_running p = 0" "n_workers is_active p = 0" "n_workers in_flight p = 0"
    by (auto simp: n_workers_def filter_empty_conv)
  moreover have "p_stopping p \<and> p_queue p = []"
  proof (cases "p_workers p")
    case Nil
    with assms show ?thesis by (simp add: pool_inv_def)
  next
    case (Cons w ws)
    with \<open>\<forall>w \<in> set (p_workers p). w = WExit\<close> have "WExit \<in> set (p_workers p)" by simp
    with assms show ?thesis by (simp add: pool_inv_def)
  qed
  ultimately show "pool_inv (es @ [Internal]) p'"
    using assms by (auto simp: pool_inv_def p' n_workers_def)
qed

lemma pool_step_inv: "pool_step p e p' \<Longrightarrow> pool_inv es p \<Longrightarrow> pool_inv (es @ [e]) p'"
  by (induction rule: pool_step.induct)
     (auto intro: pool_inv_dispatch pool_inv_wake pool_inv_moves pool_inv_shutdown)

lemma pool_run_inv: "pool_run p es q \<Longrightarrow> pool_inv [] p \<Longrightarrow> pool_inv es q"
  by (induction rule: pool_run.induct) (auto intro: pool_step_inv)


section \<open>Properties\<close>

lemma dispatch_frame:
  "dispatch j p = (r, p') \<Longrightarrow> p_capacity p' = p_capacity p \<and> p_worker_count p' = p_worker_count p \<and>
     p_workers p' = p_workers p"
  by (auto simp: dispatch_def enqueue_def split: option.splits if_splits)

lemma worker_wake_frame:
  "worker_wake i p = Some (r, p') \<Longrightarrow>
     p_capacity p' = p_capacity p \<and> p_worker_count p' = p_worker_count p"
  by (auto simp: worker_wake_def split: if_splits list.splits)

lemma shutdown_frame:
  "p_capacity (shutdown_begin p) = p_capacity p" "p_worker_count (shutdown_begin p) = p_worker_count p"
  "shutdown_join p = Some p' \<Longrightarrow> p_capacity p' = p_capacity p \<and> p_worker_count p' = p_worker_count p"
  by (auto simp: shutdown_begin_def shutdown_join_def split: if_splits)

lemma pool_step_frame:
  "pool_step p e p' \<Longrightarrow> p_capacity p' = p_capacity p \<and> p_worker_count p' = p_worker_count p"
  by (induction rule: pool_step.induct)
     (auto simp: shutdown_frame dest: dispatch_frame worker_wake_frame)

lemma pool_run_frame:
  "pool_run p es q \<Longrightarrow> p_capacity q = p_capacity p \<and> p_worker_count q = p_worker_count p"
  by (induction rule: pool_run.induct) (auto dest: pool_step_frame)

text \<open>
  C3. In every execution of a fresh pool, under any interleaving of clients and workers, jobs
  are started in exactly the order they were accepted and none is lost or duplicated (the
  jobs accepted are the jobs started followed by the queue); the queue never exceeds its
  capacity; \<open>submitted\<close> counts accepted jobs and equals completed, queued and in-flight jobs
  together, \<open>rejected\<close> counts refusals, and at most as many jobs are active as there are workers.
\<close>

theorem worker_pool_fifo:
  assumes "pool_new w c = Inr p0" and "pool_run p0 es p"
  shows "accepted_jobs es = started_jobs es @ p_queue p \<and> length (p_queue p) \<le> c \<and>
    p_submitted p = of_nat (length (accepted_jobs es)) \<and>
    p_submitted p = p_completed p + of_nat (length (p_queue p)) + of_nat (n_workers in_flight p) \<and>
    p_rejected p = of_nat (refused_count es) \<and>
    p_active p = of_nat (n_workers is_active p) \<and> n_workers is_active p \<le> w"
proof -
  have "p_capacity p0 = c" "p_worker_count p0 = w"
    using assms(1) by (auto simp: pool_new_def split: if_splits)
  moreover have "n_workers is_active p \<le> length (p_workers p)"
    by (simp add: n_workers_def)
  ultimately show ?thesis
    using pool_run_inv [OF assms(2) pool_inv_new [OF assms(1)]] pool_run_frame [OF assms(2)]
    by (auto simp: pool_inv_def)
qed

lemma small_pool_run:
  "\<exists>p0 es p. pool_new 1 1 = Inr p0 \<and> pool_run p0 es p \<and>
     accepted_jobs es = [True] \<and> p_queue p = [True] \<and> \<not> p_stopping p"
proof -
  obtain p0 :: "bool pool" where p0: "pool_new 1 1 = Inr p0" by (simp add: pool_new_def)
  then have d: "dispatch (Some True) p0 = (Inr (), p0\<lparr>p_queue := [True], p_submitted := 1\<rparr>)"
    by (auto simp: pool_new_def dispatch_def enqueue_def)
  have "pool_run p0 ([] @ [Accepted True]) (p0\<lparr>p_queue := [True], p_submitted := 1\<rparr>)"
    by (rule pool_run.step [OF pool_run.start pool_step.accept [OF d]])
  with p0 show ?thesis
    by (intro exI [of _ p0] exI [of _ "[] @ [Accepted True]"]
        exI [of _ "p0\<lparr>p_queue := [True], p_submitted := 1\<rparr>"])
       (auto simp: pool_new_def)
qed

theorem worker_pool_fifo_witness:
  "\<exists>p0 es p. pool_new 1 1 = Inr p0 \<and> pool_run p0 es p \<and> accepted_jobs es = [True] \<and>
     accepted_jobs es = started_jobs es @ p_queue p \<and> p_submitted p = 1"
proof -
  from small_pool_run obtain p0 :: "bool pool" and es p where
    r: "pool_new 1 1 = Inr p0" "pool_run p0 es p" "accepted_jobs es = [True]" by blast
  with worker_pool_fifo [OF r(1,2)] show ?thesis by (intro exI [of _ p0] exI [of _ es] exI [of _ p]) auto
qed

fun phase_weight :: "'j wphase \<Rightarrow> nat" where
  "phase_weight WExit = 0"
| "phase_weight WWait = 1"
| "phase_weight WCount = 2"
| "phase_weight WLeave = 3"
| "phase_weight (WRun j) = 4"

definition pool_weight :: "'j pool \<Rightarrow> nat" where
  "pool_weight p =
     4 * length (p_queue p) + sum_list (map phase_weight (p_workers p)) +
     (if p_workers p = [] then 0 else 1)"

lemma weight_move:
  assumes "i < length (p_workers p)" and "p_workers p ! i = u"
    and "p_workers p' = (p_workers p)[i := v]"
    and "4 * length (p_queue p') + phase_weight v < 4 * length (p_queue p) + phase_weight u"
  shows "pool_weight p' < pool_weight p"
  using sum_list_map_update [OF assms(1), of phase_weight v] assms
  by (auto simp: pool_weight_def)

lemma wake_weight:
  assumes "i < length (p_workers p)" and "p_workers p ! i = WWait" and "worker_wake i p = Some (r, p')"
  shows "pool_weight p' < pool_weight p"
proof (cases "p_stopping p \<and> p_queue p = []")
  case True
  with assms(3) have "p' = p\<lparr>p_workers := (p_workers p)[i := WExit]\<rparr>"
    by (simp add: worker_wake_def)
  with True show ?thesis by (intro weight_move [OF assms(1,2), of p' WExit]) auto
next
  case False
  with assms(3) obtain job rest where "p_queue p = job # rest"
    and "p' = p\<lparr>p_queue := rest, p_active := p_active p + 1, p_workers := (p_workers p)[i := WRun job]\<rparr>"
    by (auto simp: worker_wake_def split: list.splits if_splits)
  then show ?thesis by (intro weight_move [OF assms(1,2), of p' "WRun job"]) auto
qed

lemma join_weight: "shutdown_join p = Some p' \<Longrightarrow> p_workers p \<noteq> [] \<Longrightarrow> pool_weight p' < pool_weight p"
  by (auto simp: shutdown_join_def pool_weight_def split: if_splits)

lemma worker_can_move:
  assumes "i < length (p_workers p)" and "p_workers p ! i \<noteq> WExit" and "p_stopping p"
  shows "\<exists>e p'. pool_step p e p' \<and> pool_weight p' < pool_weight p"
proof (cases "p_workers p ! i")
  case WWait
  show ?thesis
  proof (cases "p_queue p")
    case Nil
    with assms(3) obtain p' where p': "worker_wake i p = Some (None, p')"
      by (simp add: worker_wake_def)
    from pool_step.exit_worker [OF assms(1) WWait p'] wake_weight [OF assms(1) WWait p']
    show ?thesis by blast
  next
    case (Cons j rest)
    then obtain p' where p': "worker_wake i p = Some (Some j, p')"
      by (simp add: worker_wake_def)
    from pool_step.take_job [OF assms(1) WWait p'] wake_weight [OF assms(1) WWait p']
    show ?thesis by blast
  qed
next
  case (WRun j)
  have "pool_weight (worker_return i False p) < pool_weight p"
    by (rule weight_move [OF assms(1) WRun]) auto
  with pool_step.return [OF assms(1) WRun] show ?thesis by blast
next
  case WLeave
  have "pool_weight (worker_leave i p) < pool_weight p"
    by (rule weight_move [OF assms(1) WLeave]) auto
  with pool_step.leave [OF assms(1) WLeave] show ?thesis by blast
next
  case WCount
  have "pool_weight (worker_count i p) < pool_weight p"
    by (rule weight_move [OF assms(1) WCount]) auto
  with pool_step.count [OF assms(1) WCount] show ?thesis by blast
qed (use assms(2) in simp)

lemma stopping_step_weight:
  assumes "pool_step p e p'" and "p_stopping p" and "\<not> p_accepting p"
  shows "pool_weight p' < pool_weight p \<or> (p_queue p' = p_queue p \<and> p_workers p' = p_workers p)"
  using assms
proof (cases rule: pool_step.cases)
  case (return i j threw)
  have "pool_weight p' < pool_weight p"
    unfolding return(2) by (rule weight_move [OF return(3,4)]) auto
  then show ?thesis ..
next
  case (leave i)
  have "pool_weight p' < pool_weight p"
    unfolding leave(2) by (rule weight_move [OF leave(3,4)]) auto
  then show ?thesis ..
next
  case (count i)
  have "pool_weight p' < pool_weight p"
    unfolding count(2) by (rule weight_move [OF count(3,4)]) auto
  then show ?thesis ..
next
  case join
  show ?thesis
  proof (cases "p_workers p = []")
    case True
    with join(2) show ?thesis by (simp add: shutdown_join_def split: if_splits) auto
  next
    case False
    with join(2) show ?thesis by (simp add: join_weight)
  qed
qed (auto simp: dispatch_def enqueue_def shutdown_begin_def dest: wake_weight split: if_splits)



end
