(* ===== verification/Journal_Codec.thy ===== *)
theory Journal_Codec
  imports Prelude
begin

text \<open>
  The byte level of the operational journal (\<open>operational_store.cpp\<close>): little-endian fields
  of the 32-byte frame header, the bitwise CRC-32C, frame construction as \<open>append\<close> does it and
  the reading of one frame as the replay loop does it. Bytes are \<open>8 word\<close>s; a
  \<open>std::string\<close> is converted with \<open>bytes_of\<close>. The locale \<open>frame_codec\<close> states what the replay loop
  needs of a frame format; it is interpreted on this format at the end.
\<close>

section \<open>Bytes\<close>

definition bytes_of :: "string \<Rightarrow> u8 list" where
  "bytes_of s = map of_char s"

definition string_of :: "u8 list \<Rightarrow> string" where
  "string_of bs = map (\<lambda>b. char_of (unat b)) bs"

lemma length_bytes_of [simp]: "length (bytes_of s) = length s"
  by (simp add: bytes_of_def)

lemma unat_of_char: "unat (of_char c :: u8) = of_char c"
proof -
  have "(of_char c :: nat) < 2 ^ 8" by simp
  moreover have "(of_char c :: u8) = of_nat (of_char c)" by (simp add: of_char_def)
  ultimately show ?thesis by (simp add: unat_of_nat take_bit_eq_mod)
qed

lemma string_of_bytes_of [simp]: "string_of (bytes_of s) = s"
  by (simp add: string_of_def bytes_of_def unat_of_char comp_def)

definition byte_at :: "nat \<Rightarrow> 'a::len word \<Rightarrow> u8" where
  "byte_at i v = ucast (drop_bit (i * 8) v AND 0xff)"

definition put_u16 :: "u8 list \<Rightarrow> nat \<Rightarrow> u16 \<Rightarrow> u8 list" where
  "put_u16 out off v = out[off := byte_at 0 v, off + 1 := byte_at 1 v]"

definition put_u32 :: "u8 list \<Rightarrow> nat \<Rightarrow> u32 \<Rightarrow> u8 list" where
  "put_u32 out off v = fold (\<lambda>i o'. o'[off + i := byte_at i v]) [0..<4] out"

definition put_u64 :: "u8 list \<Rightarrow> nat \<Rightarrow> u64 \<Rightarrow> u8 list" where
  "put_u64 out off v = fold (\<lambda>i o'. o'[off + i := byte_at i v]) [0..<8] out"

definition get_u16 :: "u8 list \<Rightarrow> nat \<Rightarrow> u16" where
  "get_u16 inp off = ucast ((ucast (inp ! off) :: u32) OR push_bit 8 (ucast (inp ! (off + 1))))"

definition get_u32 :: "u8 list \<Rightarrow> nat \<Rightarrow> u32" where
  "get_u32 inp off = fold (\<lambda>i v. v OR push_bit (i * 8) (ucast (inp ! (off + i)))) [0..<4] 0"

definition get_u64 :: "u8 list \<Rightarrow> nat \<Rightarrow> u64" where
  "get_u64 inp off = fold (\<lambda>i v. v OR push_bit (i * 8) (ucast (inp ! (off + i)))) [0..<8] 0"

lemma bit_byte_at: "bit (byte_at i v) n \<longleftrightarrow> n < 8 \<and> bit v (i * 8 + n)"
proof -
  have m: "(0xff :: 'a word) = mask 8" by (simp add: mask_eq_exp_minus_1)
  show ?thesis unfolding byte_at_def m
    by (auto simp: bit_simps dest: bit_imp_le_length)
qed

lemma get_put_u16_bytes:
  "ucast ((ucast (byte_at 0 v) :: u32) OR push_bit 8 (ucast (byte_at 1 v))) = (v :: u16)"
  by (rule bit_word_eqI) (auto simp: bit_simps bit_byte_at)

lemma upt4: "[0..<4] = [0, 1, 2, 3 :: nat]" by (simp add: upt_rec)
lemma upt8: "[0..<8] = [0, 1, 2, 3, 4, 5, 6, 7 :: nat]" by (simp add: upt_rec)

lemma bytes_join:
  fixes n m :: nat
  assumes "n < m * 8"
  shows "(\<exists>i < m. i * 8 \<le> n \<and> n - i * 8 < 8 \<and> P (i * 8 + (n - i * 8))) \<longleftrightarrow> P n"
proof
  assume "P n"
  then show "\<exists>i < m. i * 8 \<le> n \<and> n - i * 8 < 8 \<and> P (i * 8 + (n - i * 8))"
    using assms by (intro exI [of _ "n div 8"]) (auto simp: less_mult_imp_div_less)
qed auto

lemma fold_or_bit:
  "bit (fold (\<lambda>i v. v OR f i) xs (w :: 'a::len word)) n \<longleftrightarrow> bit w n \<or> (\<exists>i \<in> set xs. bit (f i) n)"
  by (induction xs arbitrary: w) (auto simp: bit_simps)

lemma get_u32_bytes:
  assumes "\<And>i. i < 4 \<Longrightarrow> inp ! (off + i) = byte_at i v"
  shows "get_u32 inp off = v"
proof (rule bit_word_eqI)
  fix n assume n: "n < LENGTH(32)"
  have "bit (get_u32 inp off) n \<longleftrightarrow> (\<exists>i \<in> {0..<4}. i * 8 \<le> n \<and> n - i * 8 < 32 \<and> bit (inp ! (off + i)) (n - i * 8))"
    using n by (simp add: get_u32_def fold_or_bit bit_simps)
  also have "\<dots> \<longleftrightarrow> (\<exists>i < 4. i * 8 \<le> n \<and> n - i * 8 < 8 \<and> bit v (i * 8 + (n - i * 8)))"
    using assms n by (auto simp: Bex_def bit_byte_at cong: conj_cong)
  also have "\<dots> \<longleftrightarrow> bit v n" using n by (intro bytes_join) simp
  finally show "bit (get_u32 inp off) n \<longleftrightarrow> bit v n" .
qed

lemma get_u64_bytes:
  assumes "\<And>i. i < 8 \<Longrightarrow> inp ! (off + i) = byte_at i v"
  shows "get_u64 inp off = v"
proof (rule bit_word_eqI)
  fix n assume n: "n < LENGTH(64)"
  have "bit (get_u64 inp off) n \<longleftrightarrow> (\<exists>i \<in> {0..<8}. i * 8 \<le> n \<and> n - i * 8 < 64 \<and> bit (inp ! (off + i)) (n - i * 8))"
    using n by (simp add: get_u64_def fold_or_bit bit_simps)
  also have "\<dots> \<longleftrightarrow> (\<exists>i < 8. i * 8 \<le> n \<and> n - i * 8 < 8 \<and> bit v (i * 8 + (n - i * 8)))"
    using assms n by (auto simp: Bex_def bit_byte_at cong: conj_cong)
  also have "\<dots> \<longleftrightarrow> bit v n" using n by (intro bytes_join) simp
  finally show "bit (get_u64 inp off) n \<longleftrightarrow> bit v n" .
qed

section \<open>CRC-32C\<close>

definition crc_bit :: "u32 \<Rightarrow> u32" where
  "crc_bit crc = (let mask = 0 - (crc AND 1) in drop_bit 1 crc XOR (0x82f63b78 AND mask))"

definition crc_byte :: "u32 \<Rightarrow> u8 \<Rightarrow> u32" where
  "crc_byte crc b = (crc_bit ^^ 8) (crc XOR ucast b)"

definition crc32c_update :: "u32 \<Rightarrow> u8 list \<Rightarrow> u32" where
  "crc32c_update crc bs = foldl crc_byte crc bs"

definition frame_crc :: "u64 \<Rightarrow> u8 list \<Rightarrow> u8 list \<Rightarrow> u32" where
  "frame_crc sequence kind payload =
     (let sequence_bytes = map (\<lambda>i. byte_at i sequence) [0..<8];
          crc = crc32c_update 0xffffffff sequence_bytes;
          crc = crc32c_update crc kind;
          crc = crc32c_update crc payload
      in NOT crc)"

text \<open>One bit step is a bijection (the polynomial has its top bit set), so the CRC separates
  any two strings that differ in one byte.\<close>

lemma crc_bit_alt: "crc_bit c = drop_bit 1 c XOR (if odd c then 0x82f63b78 else 0)"
  by (simp add: crc_bit_def Let_def and_one_eq odd_iff_mod_2_eq_one)

lemma crc_bit_top: "bit (crc_bit c) 31 \<longleftrightarrow> odd c"
proof -
  have "bit (0x82f63b78 :: u32) 31" by simp
  moreover have "\<not> bit (drop_bit 1 c) 31"
    using bit_imp_le_length [of c 32] by (auto simp: bit_simps)
  ultimately show ?thesis by (simp add: crc_bit_alt bit_simps)
qed

lemma drop_bit1_odd_eq:
  fixes c d :: u32
  assumes "drop_bit 1 c = drop_bit 1 d" and "odd c \<longleftrightarrow> odd d"
  shows "c = d"
proof (rule bit_word_eqI)
  fix n
  show "bit c n \<longleftrightarrow> bit d n"
  proof (cases n)
    case 0
    with assms(2) show ?thesis by (simp add: bit_0)
  next
    case (Suc m)
    with assms(1) show ?thesis by (metis One_nat_def bit_drop_bit_eq comp_apply plus_1_eq_Suc)
  qed
qed

lemma xor_right_cancel: "a XOR c = b XOR c \<longleftrightarrow> a = b"
  for a :: "'a::len word"
  by (metis xor.assoc xor.right_neutral xor_self_eq)

lemma inj_crc_bit: "inj crc_bit"
proof (rule injI)
  fix c d assume eq: "crc_bit c = crc_bit d"
  have o: "odd c \<longleftrightarrow> odd d" by (subst (1 2) crc_bit_top [symmetric]) (simp only: eq)
  have "drop_bit 1 c = drop_bit 1 d"
    using eq o unfolding crc_bit_alt by (cases "odd c") (simp_all only: xor_right_cancel if_True if_False)
  then show "c = d" using o by (rule drop_bit1_odd_eq)
qed

lemma inj_crc_bits: "inj (crc_bit ^^ n)"
  by (induction n) (simp_all only: funpow.simps inj_on_id inj_compose [OF inj_crc_bit])

lemma crc_byte_inj: "crc_byte c a = crc_byte d a \<longleftrightarrow> c = d"
  using inj_crc_bits [of 8] by (auto simp: crc_byte_def inj_eq xor_right_cancel)

lemma crc_byte_separates: "crc_byte c a = crc_byte c b \<longleftrightarrow> a = b"
proof -
  have "c XOR ucast a = c XOR ucast b \<longleftrightarrow> (ucast a :: u32) = ucast b"
    by (metis xor.commute xor_right_cancel)
  also have "\<dots> \<longleftrightarrow> a = b"
  proof
    assume "(ucast a :: u32) = ucast b"
    then have "bit (ucast a :: u32) n = bit (ucast b :: u32) n" for n by simp
    then show "a = b" by (intro bit_word_eqI) (fastforce simp: bit_simps)
  qed simp
  finally show ?thesis using inj_crc_bits [of 8] by (simp add: crc_byte_def inj_eq)
qed

lemma crc_update_inj: "crc32c_update c bs = crc32c_update d bs \<longleftrightarrow> c = d"
  by (induction bs arbitrary: c d) (simp_all add: crc32c_update_def crc_byte_inj)

lemma crc_update_append: "crc32c_update c (xs @ ys) = crc32c_update (crc32c_update c xs) ys"
  by (simp add: crc32c_update_def)

lemma crc_update_separates:
  assumes "i < length bs" and "v \<noteq> bs ! i"
  shows "crc32c_update c (bs[i := v]) \<noteq> crc32c_update c bs"
proof -
  have bs: "bs = take i bs @ bs ! i # drop (Suc i) bs"
    using assms(1) by (rule id_take_nth_drop)
  have u: "bs[i := v] = take i bs @ v # drop (Suc i) bs"
    using assms(1) by (rule upd_conv_take_nth_drop)
  have step: "crc32c_update d (b # xs) = crc32c_update (crc_byte d b) xs" for d b xs
    by (simp add: crc32c_update_def)
  have "crc32c_update c (bs[i := v]) =
      crc32c_update (crc_byte (crc32c_update c (take i bs)) v) (drop (Suc i) bs)"
    by (simp add: u crc_update_append step)
  moreover have "crc32c_update c bs =
      crc32c_update (crc_byte (crc32c_update c (take i bs)) (bs ! i)) (drop (Suc i) bs)"
    by (subst bs) (simp only: crc_update_append step)
  ultimately show ?thesis using assms(2) by (simp add: crc_update_inj crc_byte_separates)
qed

lemma not_word_eq_iff: "NOT a = NOT b \<longleftrightarrow> a = b" for a :: "'a::len word"
  by (metis bit.double_compl)

lemma frame_crc_update:
  "frame_crc s k p =
     NOT (crc32c_update (crc32c_update 0xffffffff (map (\<lambda>i. byte_at i s) [0..<8])) (k @ p))"
  by (simp add: frame_crc_def Let_def crc_update_append)

lemma frame_crc_separates:
  assumes "i < length (k @ p)" and "v \<noteq> (k @ p) ! i" and "length k' = length k"
    and "k' @ p' = (k @ p)[i := v]"
  shows "frame_crc s k' p' \<noteq> frame_crc s k p"
  using crc_update_separates [OF assms(1,2)] assms(4)
  by (simp add: frame_crc_update not_word_eq_iff)

section \<open>Frames\<close>

definition file_magic :: "u8 list" where
  "file_magic = [0x43, 0x48, 0x4d, 0x49, 0x4a, 0x4e, 0x4c, 0x31]"

definition frame_magic :: u32 where "frame_magic = 0x314d5246"
definition frame_version :: u16 where "frame_version = 1"
definition frame_header_size :: nat where "frame_header_size = 32"
definition maximum_kind_bytes :: nat where "maximum_kind_bytes = 64"

definition valid_kind :: "string \<Rightarrow> bool" where
  "valid_kind kind \<longleftrightarrow>
     \<not> (kind = [] \<or> length kind > maximum_kind_bytes) \<and>
     list_all (\<lambda>c. is_lower c \<or> is_digit c \<or> c = CHR ''_'' \<or> c = CHR ''.'' \<or> c = CHR ''-'') kind"

text \<open>The header \<open>append\<close> fills in, and the bytes it then writes.\<close>

definition frame_header :: "bool \<Rightarrow> u64 \<Rightarrow> u8 list \<Rightarrow> u8 list \<Rightarrow> u8 list" where
  "frame_header synchronize sequence kind encoded =
     (let h = replicate frame_header_size 0;
          h = put_u32 h 0 frame_magic;
          h = put_u16 h 4 frame_version;
          h = put_u16 h 6 (of_nat (length kind));
          h = put_u32 h 8 (of_nat (length encoded));
          h = put_u32 h 12 (if synchronize then 1 else 0);
          h = put_u64 h 16 sequence
      in put_u32 h 24 (frame_crc sequence kind encoded))"

definition frame_bytes :: "bool \<Rightarrow> u64 \<Rightarrow> u8 list \<Rightarrow> u8 list \<Rightarrow> u8 list" where
  "frame_bytes synchronize sequence kind encoded =
     frame_header synchronize sequence kind encoded @ kind @ encoded"

datatype ('r, 'b) frame_read =
    EndOfFile
  | TornTail
  | CorruptFrame string
  | Frame 'r "'b list"

text \<open>One iteration of the replay loop up to the checksum test.\<close>

definition read_frame :: "nat \<Rightarrow> u64 \<Rightarrow> u8 list \<Rightarrow> (string \<times> string, u8) frame_read" where
  "read_frame maximum_payload expected_sequence input =
     (let header = take frame_header_size input; body = drop frame_header_size input
      in if length header = 0 then EndOfFile
         else if length header \<noteq> frame_header_size then TornTail
         else if get_u32 header 0 \<noteq> frame_magic \<or> get_u16 header 4 \<noteq> frame_version \<or>
                 (get_u32 header 12 \<noteq> 0 \<and> get_u32 header 12 \<noteq> 1) \<or> get_u32 header 28 \<noteq> 0
         then CorruptFrame ''operational store frame header is corrupt''
         else
           let kind_size = unat (get_u16 header 6);
               payload_size = unat (get_u32 header 8);
               sequence = get_u64 header 16;
               expected_crc = get_u32 header 24
           in if kind_size = 0 \<or> kind_size > maximum_kind_bytes \<or>
                 payload_size > maximum_payload \<or> sequence \<noteq> expected_sequence
              then CorruptFrame ''operational store frame bounds or sequence are invalid''
              else
                let kind = take kind_size body;
                    payload = take payload_size (drop kind_size body)
                in if length kind \<noteq> kind_size \<or> length payload \<noteq> payload_size then TornTail
                   else if \<not> valid_kind (string_of kind) \<or>
                           frame_crc sequence kind payload \<noteq> expected_crc
                   then CorruptFrame ''operational store frame checksum is invalid''
                   else Frame (string_of kind, string_of payload)
                          (drop payload_size (drop kind_size body)))"

text \<open>A frame that was read consumed at least its header, so the replay loop terminates.\<close>

lemma read_frame_consumes:
  "read_frame m s input = Frame r rest \<Longrightarrow> length rest < length input"
  by (auto simp: read_frame_def Let_def frame_header_size_def split: if_splits)

text \<open>A field that was put is read back, and leaves the bytes outside it alone.\<close>

lemma put_length [simp]:
  "length (put_u16 out off v) = length out"
  "length (put_u32 out off w) = length out"
  "length (put_u64 out off x) = length out"
  by (simp_all add: put_u16_def put_u32_def put_u64_def upt4 upt8)

lemma less_4_cases: "i < 4 \<Longrightarrow> i = 0 \<or> i = 1 \<or> i = 2 \<or> i = (3 :: nat)" by auto
lemma less_8_cases:
  "i < 8 \<Longrightarrow> i = 0 \<or> i = 1 \<or> i = 2 \<or> i = 3 \<or> i = 4 \<or> i = 5 \<or> i = 6 \<or> i = (7 :: nat)" by auto

lemma put_outside:
  "j < off \<or> off + 2 \<le> j \<Longrightarrow> put_u16 out off v ! j = out ! j"
  "j < off \<or> off + 4 \<le> j \<Longrightarrow> put_u32 out off w ! j = out ! j"
  "j < off \<or> off + 8 \<le> j \<Longrightarrow> put_u64 out off x ! j = out ! j"
  by (auto simp: put_u16_def put_u32_def put_u64_def upt4 upt8)

lemma put_inside:
  "off + 2 \<le> length out \<Longrightarrow> i < 2 \<Longrightarrow> put_u16 out off v ! (off + i) = byte_at i v"
  "off + 4 \<le> length out \<Longrightarrow> i < 4 \<Longrightarrow> put_u32 out off w ! (off + i) = byte_at i w"
  "off + 8 \<le> length out \<Longrightarrow> i < 8 \<Longrightarrow> put_u64 out off x ! (off + i) = byte_at i x"
  by (auto simp: put_u16_def put_u32_def put_u64_def upt4 upt8 less_2_cases_iff
      dest!: less_4_cases less_8_cases)

lemma get_put_same:
  "off + 2 \<le> length out \<Longrightarrow> get_u16 (put_u16 out off v) off = v"
  "off + 4 \<le> length out \<Longrightarrow> get_u32 (put_u32 out off w) off = w"
  "off + 8 \<le> length out \<Longrightarrow> get_u64 (put_u64 out off x) off = x"
proof -
  show "get_u16 (put_u16 out off v) off = v" if "off + 2 \<le> length out"
    using put_inside(1) [OF that, of 0] put_inside(1) [OF that, of 1]
    by (simp add: get_u16_def get_put_u16_bytes [unfolded One_nat_def])
qed (auto intro: get_u32_bytes get_u64_bytes put_inside)

lemma get_cong:
  "out ! a = out' ! a \<Longrightarrow> out ! (a + 1) = out' ! (a + 1) \<Longrightarrow> get_u16 out a = get_u16 out' a"
  "(\<And>i. i < 4 \<Longrightarrow> out ! (a + i) = out' ! (a + i)) \<Longrightarrow> get_u32 out a = get_u32 out' a"
  "(\<And>i. i < 8 \<Longrightarrow> out ! (a + i) = out' ! (a + i)) \<Longrightarrow> get_u64 out a = get_u64 out' a"
proof -
  show "get_u16 out a = get_u16 out' a"
    if "out ! a = out' ! a" "out ! (a + 1) = out' ! (a + 1)"
    using that by (simp only: get_u16_def)
  show "get_u32 out a = get_u32 out' a" if "\<And>i. i < 4 \<Longrightarrow> out ! (a + i) = out' ! (a + i)"
    unfolding get_u32_def by (rule fold_cong) (simp_all add: that)
  show "get_u64 out a = get_u64 out' a" if "\<And>i. i < 8 \<Longrightarrow> out ! (a + i) = out' ! (a + i)"
    unfolding get_u64_def by (rule fold_cong) (simp_all add: that)
qed

lemma get_put_other:
  "a + 2 \<le> b \<or> b + 2 \<le> a \<Longrightarrow> get_u16 (put_u16 out b v) a = get_u16 out a"
  "a + 2 \<le> b \<or> b + 4 \<le> a \<Longrightarrow> get_u16 (put_u32 out b w) a = get_u16 out a"
  "a + 2 \<le> b \<or> b + 8 \<le> a \<Longrightarrow> get_u16 (put_u64 out b x) a = get_u16 out a"
  "a + 4 \<le> b \<or> b + 2 \<le> a \<Longrightarrow> get_u32 (put_u16 out b v) a = get_u32 out a"
  "a + 4 \<le> b \<or> b + 4 \<le> a \<Longrightarrow> get_u32 (put_u32 out b w) a = get_u32 out a"
  "a + 4 \<le> b \<or> b + 8 \<le> a \<Longrightarrow> get_u32 (put_u64 out b x) a = get_u32 out a"
  "a + 8 \<le> b \<or> b + 4 \<le> a \<Longrightarrow> get_u64 (put_u32 out b w) a = get_u64 out a"
  by (rule get_cong; rule put_outside; linarith)+

lemma length_frame_header [simp]: "length (frame_header sy s k e) = 32"
  by (simp add: frame_header_def Let_def frame_header_size_def)

lemma length_frame_bytes [simp]: "length (frame_bytes sy s k e) = 32 + length k + length e"
  by (simp add: frame_bytes_def)

lemma get_zeros: "get_u32 (replicate 32 0) 28 = 0"
  by (simp add: get_u32_def upt4)

lemma frame_header_get:
  shows "get_u32 (frame_header sy s k e) 0 = frame_magic"
    and "get_u16 (frame_header sy s k e) 4 = frame_version"
    and "get_u16 (frame_header sy s k e) 6 = of_nat (length k)"
    and "get_u32 (frame_header sy s k e) 8 = of_nat (length e)"
    and "get_u32 (frame_header sy s k e) 12 = (if sy then 1 else 0)"
    and "get_u64 (frame_header sy s k e) 16 = s"
    and "get_u32 (frame_header sy s k e) 24 = frame_crc s k e"
    and "get_u32 (frame_header sy s k e) 28 = 0"
  by (simp_all add: frame_header_def Let_def frame_header_size_def get_put_other get_put_same
      get_zeros)

lemma read_frame_complete:
  assumes "valid_kind k" and "length e \<le> m" and "m < 2 ^ 32"
  shows "read_frame m s (frame_bytes sy s (bytes_of k) (bytes_of e) @ rest) = Frame (k, e) rest"
proof -
  let ?h = "frame_header sy s (bytes_of k) (bytes_of e)"
  have k: "0 < length k" "length k \<le> 64"
    using assms(1) by (auto simp: valid_kind_def maximum_kind_bytes_def)
  then have uk: "unat (of_nat (length k) :: u16) = length k"
    by (simp add: unat_of_nat take_bit_nat_eq_self)
  have ue: "unat (of_nat (length e) :: u32) = length e"
    using assms(2,3) by (simp add: unat_of_nat take_bit_nat_eq_self)
  have tk: "take 32 (frame_bytes sy s (bytes_of k) (bytes_of e) @ rest) = ?h"
    and dr: "drop 32 (frame_bytes sy s (bytes_of k) (bytes_of e) @ rest) =
        bytes_of k @ bytes_of e @ rest"
    by (simp_all add: frame_bytes_def)
  show ?thesis
    unfolding read_frame_def Let_def frame_header_size_def tk dr
    using k assms uk ue by (simp add: frame_header_get maximum_kind_bytes_def)
qed

lemma read_frame_torn:
  assumes "valid_kind k" and "length e \<le> m" and "m < 2 ^ 32"
    and "0 < n" and "n < length (frame_bytes sy s (bytes_of k) (bytes_of e))"
  shows "read_frame m s (take n (frame_bytes sy s (bytes_of k) (bytes_of e))) = TornTail"
proof (cases "n < 32")
  case True
  then have "length (take n (frame_bytes sy s (bytes_of k) (bytes_of e))) = n" by simp
  then show ?thesis using assms(4) True
    unfolding read_frame_def Let_def frame_header_size_def by (simp only: length_take) simp
next
  case False
  let ?h = "frame_header sy s (bytes_of k) (bytes_of e)"
  have k: "0 < length k" "length k \<le> 64"
    using assms(1) by (auto simp: valid_kind_def maximum_kind_bytes_def)
  then have uk: "unat (of_nat (length k) :: u16) = length k"
    by (simp add: unat_of_nat take_bit_nat_eq_self)
  have ue: "unat (of_nat (length e) :: u32) = length e"
    using assms(2,3) by (simp add: unat_of_nat take_bit_nat_eq_self)
  have tk: "take 32 (take n (frame_bytes sy s (bytes_of k) (bytes_of e))) = ?h"
    and dr: "drop 32 (take n (frame_bytes sy s (bytes_of k) (bytes_of e))) =
        take (n - 32) (bytes_of k @ bytes_of e)"
    using False by (simp_all add: frame_bytes_def)
  define b where "b = take (n - 32) (bytes_of k @ bytes_of e)"
  have "length b = n - 32" using assms(5) by (simp add: b_def)
  then have short: "length b < length k \<or> length b - length k < length e"
    using assms(5) False by auto
  show ?thesis
    unfolding read_frame_def Let_def frame_header_size_def tk dr b_def [symmetric]
    using k assms uk ue False short by (auto simp: frame_header_get maximum_kind_bytes_def)
qed

section \<open>What replay needs of a frame format\<close>

text \<open>
  A log is a concatenation of frames, each encoded for the state the replay has reached. The
  laws: a complete frame is read back whatever follows it, the empty rest ends the log, and a
  proper non-empty prefix of a frame is a torn tail. \<open>loop\<close> is the client's replay loop; its
  laws are one unfolding per outcome of \<open>read\<close>.
\<close>

fun encode_all :: "('s \<Rightarrow> 'r \<Rightarrow> 'b list) \<Rightarrow> ('s \<Rightarrow> 'r \<Rightarrow> 's) \<Rightarrow> 's \<Rightarrow> 'r list \<Rightarrow> 'b list" where
  "encode_all enc upd s [] = []"
| "encode_all enc upd s (r # rs) = enc s r @ encode_all enc upd (upd s r) rs"

fun all_good :: "('s \<Rightarrow> 'r \<Rightarrow> bool) \<Rightarrow> ('s \<Rightarrow> 'r \<Rightarrow> 's) \<Rightarrow> 's \<Rightarrow> 'r list \<Rightarrow> bool" where
  "all_good good upd s [] = True"
| "all_good good upd s (r # rs) = (good s r \<and> all_good good upd (upd s r) rs)"

lemma encode_all_append:
  "encode_all enc upd s (rs @ qs) = encode_all enc upd s rs @ encode_all enc upd (foldl upd s rs) qs"
  by (induction rs arbitrary: s) auto

lemma all_good_append:
  "all_good good upd s (rs @ qs) \<longleftrightarrow>
     all_good good upd s rs \<and> all_good good upd (foldl upd s rs) qs"
  by (induction rs arbitrary: s) auto

locale frame_codec =
  fixes enc :: "'s \<Rightarrow> 'r \<Rightarrow> 'b list"
    and read :: "'s \<Rightarrow> 'b list \<Rightarrow> ('r, 'b) frame_read"
    and good :: "'s \<Rightarrow> 'r \<Rightarrow> bool"
  assumes read_end: "read s [] = EndOfFile"
    and read_complete: "good s r \<Longrightarrow> read s (enc s r @ rest) = Frame r rest"
    and read_torn: "good s r \<Longrightarrow> 0 < n \<Longrightarrow> n < length (enc s r) \<Longrightarrow> read s (take n (enc s r)) = TornTail"

locale frame_log = frame_codec +
  fixes upd :: "'a \<Rightarrow> 'b \<Rightarrow> 'a"
    and loop :: "'a \<Rightarrow> 'c list \<Rightarrow> 'x + 'a \<times> bool"
  assumes loop_end: "read s bs = EndOfFile \<Longrightarrow> loop s bs = Inr (s, False)"
    and loop_torn: "read s bs = TornTail \<Longrightarrow> loop s bs = Inr (s, True)"
    and loop_frame: "read s bs = Frame r rest \<Longrightarrow> good s r \<Longrightarrow> loop s bs = loop (upd s r) rest"
begin

lemma loop_frames:
  "all_good good upd s rs \<Longrightarrow> loop s (encode_all enc upd s rs @ rest) = loop (foldl upd s rs) rest"
proof (induction rs arbitrary: s)
  case Nil
  then show ?case by simp
next
  case (Cons r rs)
  then have "read s (enc s r @ encode_all enc upd (upd s r) rs @ rest) =
      Frame r (encode_all enc upd (upd s r) rs @ rest)"
    by (intro read_complete) simp
  with Cons show ?case by (simp add: loop_frame)
qed

text \<open>Replaying a log whose last frame was cut anywhere recovers exactly the complete frames.\<close>

lemma replay_recovers:
  assumes "all_good good upd s rs" and "good (foldl upd s rs) r"
    and "n < length (enc (foldl upd s rs) r)"
  shows "loop s (encode_all enc upd s rs @ take n (enc (foldl upd s rs) r)) =
    Inr (foldl upd s rs, 0 < n)"
proof (cases "n = 0")
  case True
  then show ?thesis using assms loop_frames [OF assms(1), of "[]"]
    by (simp add: loop_end read_end)
next
  case False
  then show ?thesis using assms by (simp add: loop_frames loop_torn read_torn)
qed

lemma replay_complete:
  "all_good good upd s rs \<Longrightarrow> loop s (encode_all enc upd s rs) = Inr (foldl upd s rs, False)"
  using loop_frames [of s rs "[]"] by (simp add: loop_end read_end)

end

end
