(* ===== verification/Journal.thy ===== *)
theory Journal
  imports Journal_Codec Json_Value "HOL-Library.Option_ord"
begin

text \<open>
  \<open>storage::Journal\<close> (\<open>operational_store.cpp\<close>): opening with replay and torn-tail recovery,
  appending, and the bounded window of recent records. The file system is one path whose
  directory entry is a \<open>node\<close>; \<open>dump\<close> and \<open>parse\<close> (nlohmann, with the depth-32 callback) are
  arguments. An operating-system failure while writing a frame is the argument \<open>fault\<close>: how
  many bytes reached the file and which exception was thrown.
\<close>

section \<open>State\<close>

datatype node =
    Absent
  | Symlink node
  | NotRegular
  | Regular "u8 list"

fun file_size :: "node \<Rightarrow> nat option" where
  "file_size (Regular bs) = Some (length bs)"
| "file_size (Symlink n) = file_size n"
| "file_size _ = None"

fun is_regular :: "node \<Rightarrow> bool" where
  "is_regular (Regular bs) = True" | "is_regular _ = False"

record jconfig =
  cfg_path_empty :: bool
  cfg_maximum_payload :: nat
  cfg_maximum_file :: nat
  cfg_recent_limit :: nat
  cfg_synchronize :: bool

record jrecord =
  r_sequence :: u64
  r_kind :: string
  r_payload :: json

record journal =
  j_config :: jconfig
  j_next :: u64
  j_tail :: nat
  j_recent :: "jrecord list"

definition config_ok :: "jconfig \<Rightarrow> bool" where
  "config_ok c \<longleftrightarrow>
     \<not> (cfg_path_empty c \<or> cfg_maximum_payload c = 0 \<or>
        cfg_maximum_payload c > 2 ^ 32 - 1 \<or> cfg_maximum_payload c > 256 * 1024 * 1024 \<or>
        cfg_maximum_file c < length file_magic + frame_header_size \<or> cfg_recent_limit c = 0)"

definition recent_push :: "nat \<Rightarrow> jrecord \<Rightarrow> jrecord list \<Rightarrow> jrecord list" where
  "recent_push limit r recent =
     (if length recent \<ge> limit then tl recent else recent) @ [r]"

section \<open>Opening\<close>

text \<open>The state the replay loop carries from frame to frame.\<close>

record replay =
  rp_expected :: u64
  rp_recent :: "jrecord list"
  rp_last :: nat

definition replay_record :: "jconfig \<Rightarrow> string \<times> string \<Rightarrow> json \<Rightarrow> replay \<Rightarrow> replay" where
  "replay_record cfg kp j s =
     \<lparr>rp_expected = rp_expected s + 1,
      rp_recent = recent_push (cfg_recent_limit cfg)
        \<lparr>r_sequence = rp_expected s, r_kind = fst kp, r_payload = j\<rparr> (rp_recent s),
      rp_last = rp_last s + (frame_header_size + length (fst kp) + length (snd kp))\<rparr>"

text \<open>The loop; the flag says that it stopped at a torn tail.\<close>

function replay_frames ::
  "(string \<Rightarrow> json res) \<Rightarrow> jconfig \<Rightarrow> replay \<Rightarrow> u8 list \<Rightarrow> (replay \<times> bool) res" where
  "replay_frames parse cfg s input =
     (case read_frame (cfg_maximum_payload cfg) (rp_expected s) input of
        EndOfFile \<Rightarrow> Inr (s, False)
      | TornTail \<Rightarrow> Inr (s, True)
      | CorruptFrame msg \<Rightarrow> Inl (RuntimeError msg)
      | Frame kp rest \<Rightarrow>
          (case parse (snd kp) of
             Inl e \<Rightarrow> Inl e
           | Inr j \<Rightarrow> replay_frames parse cfg (replay_record cfg kp j s) rest))"
  by pat_completeness auto

termination
  by (relation "measure (\<lambda>(parse, cfg, s, input). length input)")
     (auto dest: read_frame_consumes)

declare replay_frames.simps [simp del]

definition replay_start :: replay where
  "replay_start = \<lparr>rp_expected = 1, rp_recent = [], rp_last = length file_magic\<rparr>"

text \<open>\<open>open_and_recover\<close>: what it does to an existing or newly created regular file.\<close>

definition recover_file ::
  "(string \<Rightarrow> json res) \<Rightarrow> jconfig \<Rightarrow> u8 list \<Rightarrow> (journal \<times> node) res" where
  "recover_file parse cfg content =
     (let size = length content
      in if size > cfg_maximum_file cfg
         then Inl (RuntimeError ''operational store exceeds configured file limit'')
         else if take (length file_magic) content \<noteq> file_magic
         then Inl (RuntimeError ''operational store header is invalid'')
         else ebind (replay_frames parse cfg replay_start (drop (length file_magic) content))
           (\<lambda>(s, torn). Inr
              (\<lparr>j_config = cfg, j_next = rp_expected s,
                j_tail = (if torn then size - rp_last s else 0), j_recent = rp_recent s\<rparr>,
               Regular (if torn then take (rp_last s) content else content))))"

definition open_and_recover ::
  "(string \<Rightarrow> json res) \<Rightarrow> bool \<Rightarrow> jconfig \<Rightarrow> node \<Rightarrow> (journal \<times> node) res" where
  "open_and_recover parse parent_ok cfg node =
     (case node of
        Symlink n \<Rightarrow> Inl (RuntimeError ''operational store must not be a symbolic link'')
      | NotRegular \<Rightarrow> Inl (RuntimeError ''operational store path is not a regular file'')
      | _ \<Rightarrow>
          if \<not> parent_ok
          then Inl (RuntimeError ''operational store parent directory does not exist'')
          else case node of
            Regular content \<Rightarrow>
              if length content = 0
              then Inl (RuntimeError ''operational store header is invalid'')
              else recover_file parse cfg content
          | _ \<Rightarrow> recover_file parse cfg file_magic)"

definition journal_open ::
  "(string \<Rightarrow> json res) \<Rightarrow> bool \<Rightarrow> jconfig \<Rightarrow> node \<Rightarrow> (journal \<times> node) res" where
  "journal_open parse parent_ok cfg node =
     (if \<not> config_ok cfg
      then Inl (InvalidArgument ''operational store configuration is invalid'')
      else open_and_recover parse parent_ok cfg node)"

section \<open>Appending and reading\<close>

definition append_frame :: "journal \<Rightarrow> string \<Rightarrow> string \<Rightarrow> u8 list" where
  "append_frame j kind encoded =
     frame_bytes (cfg_synchronize (j_config j)) (j_next j) (bytes_of kind) (bytes_of encoded)"

definition journal_append ::
  "(json \<Rightarrow> string res) \<Rightarrow> (nat \<times> exn) option \<Rightarrow> string \<Rightarrow> json \<Rightarrow>
   journal \<times> node \<Rightarrow> u64 res \<times> journal \<times> node" where
  "journal_append dump fault kind payload st =
     (case st of (j, node) \<Rightarrow>
       let cfg = j_config j
       in if \<not> valid_kind kind
          then (Inl (InvalidArgument ''operational record kind is invalid''), st)
          else case dump payload of
            Inl e \<Rightarrow> (Inl e, st)
          | Inr encoded \<Rightarrow>
              if length encoded > cfg_maximum_payload cfg
              then (Inl (RuntimeError ''operational record exceeds payload limit''), st)
              else
                let frame_size = frame_header_size + length kind + length encoded
                in case file_size node of
                     None \<Rightarrow> (Inl (RuntimeError ''operational store file limit reached''), st)
                   | Some current_size \<Rightarrow>
                       if current_size > cfg_maximum_file cfg \<or>
                          frame_size > cfg_maximum_file cfg - current_size
                       then (Inl (RuntimeError ''operational store file limit reached''), st)
                       else case node of
                         Regular content \<Rightarrow>
                           let frame = append_frame j kind encoded
                           in (case fault of
                                 Some (written, e) \<Rightarrow>
                                   (Inl e, j, Regular (content @ take written frame))
                               | None \<Rightarrow>
                                   (Inr (j_next j),
                                    j\<lparr>j_next := j_next j + 1,
                                      j_recent := recent_push (cfg_recent_limit cfg)
                                        \<lparr>r_sequence = j_next j, r_kind = kind,
                                         r_payload = payload\<rparr> (j_recent j)\<rparr>,
                                    Regular (content @ frame)))
                       | _ \<Rightarrow>
                           (Inl (RuntimeError
                              ''operational store path changed or is not a regular file''), st))"

definition journal_recent :: "nat \<Rightarrow> journal \<Rightarrow> jrecord list" where
  "journal_recent limit j =
     (let limit = min limit (length (j_recent j))
      in drop (length (j_recent j) - limit) (j_recent j))"

definition journal_snapshot :: "journal \<times> node \<Rightarrow> json" where
  "journal_snapshot st =
     (case st of (j, node) \<Rightarrow>
       jobj [(''enabled'', JBool True), (''format'', JStr ''context-hmi-journal/1''),
             (''records'', JUInt (j_next j - 1)),
             (''recent_records'', JUInt (of_nat (length (j_recent j)))),
             (''recent_limit'', JUInt (of_nat (cfg_recent_limit (j_config j)))),
             (''bytes'', JUInt (case file_size node of None \<Rightarrow> 0 | Some n \<Rightarrow> of_nat n)),
             (''maximum_bytes'', JUInt (of_nat (cfg_maximum_file (j_config j)))),
             (''synchronous'', JBool (cfg_synchronize (j_config j))),
             (''recovered_tail_bytes'', JUInt (of_nat (j_tail j)))])"

text \<open>A sequence of appends, stopping at the first that throws.\<close>

definition append_all ::
  "(json \<Rightarrow> string res) \<Rightarrow> (string \<times> json) list \<Rightarrow> journal \<times> node \<Rightarrow> (journal \<times> node) res" where
  "append_all dump rs st =
     efold (\<lambda>st (kind, payload).
       case journal_append dump None kind payload st of
         (Inl e, st') \<Rightarrow> Inl e
       | (Inr s, st') \<Rightarrow> Inr st') st rs"

section \<open>The journal's frames are a log\<close>

definition journal_frame :: "jconfig \<Rightarrow> replay \<Rightarrow> string \<times> string \<Rightarrow> u8 list" where
  "journal_frame cfg s kp =
     frame_bytes (cfg_synchronize cfg) (rp_expected s) (bytes_of (fst kp)) (bytes_of (snd kp))"

definition journal_good :: "(string \<Rightarrow> json res) \<Rightarrow> jconfig \<Rightarrow> replay \<Rightarrow> string \<times> string \<Rightarrow> bool" where
  "journal_good parse cfg s kp \<longleftrightarrow>
     valid_kind (fst kp) \<and> length (snd kp) \<le> cfg_maximum_payload cfg \<and>
     cfg_maximum_payload cfg < 2 ^ 32 \<and> (\<exists>j. parse (snd kp) = Inr j)"

definition journal_upd :: "(string \<Rightarrow> json res) \<Rightarrow> jconfig \<Rightarrow> replay \<Rightarrow> string \<times> string \<Rightarrow> replay" where
  "journal_upd parse cfg s kp =
     (case parse (snd kp) of Inl _ \<Rightarrow> s | Inr j \<Rightarrow> replay_record cfg kp j s)"

interpretation jframe: frame_codec "journal_frame cfg"
  "\<lambda>s. read_frame (cfg_maximum_payload cfg) (rp_expected s)" "journal_good parse cfg"
  for parse cfg
proof unfold_locales
  show "read_frame (cfg_maximum_payload cfg) (rp_expected s) [] = EndOfFile" for s
    by (simp add: read_frame_def Let_def)
  show "read_frame (cfg_maximum_payload cfg) (rp_expected s) (journal_frame cfg s r @ rest) = Frame r rest"
    if "journal_good parse cfg s r" for s r rest
    using that by (simp add: journal_good_def journal_frame_def read_frame_complete)
  show "read_frame (cfg_maximum_payload cfg) (rp_expected s) (take n (journal_frame cfg s r)) = TornTail"
    if "journal_good parse cfg s r" "0 < n" "n < length (journal_frame cfg s r)" for s r n
    using that unfolding journal_good_def journal_frame_def by (intro read_frame_torn) auto
qed

interpretation jlog: frame_log "journal_frame cfg"
  "\<lambda>s. read_frame (cfg_maximum_payload cfg) (rp_expected s)" "journal_good parse cfg"
  "journal_upd parse cfg" "replay_frames parse cfg"
  for parse cfg
proof unfold_locales
  show "replay_frames parse cfg s bs = replay_frames parse cfg (journal_upd parse cfg s r) rest"
    if "read_frame (cfg_maximum_payload cfg) (rp_expected s) bs = Frame r rest" "journal_good parse cfg s r"
    for s bs r rest
    using that by (subst replay_frames.simps) (auto simp: journal_good_def journal_upd_def)
qed (simp_all add: replay_frames.simps)

abbreviation journal_log :: "(string \<Rightarrow> json res) \<Rightarrow> jconfig \<Rightarrow> replay \<Rightarrow> (string \<times> string) list \<Rightarrow> u8 list" where
  "journal_log parse cfg \<equiv> encode_all (journal_frame cfg) (journal_upd parse cfg)"

abbreviation journal_goods :: "(string \<Rightarrow> json res) \<Rightarrow> jconfig \<Rightarrow> replay \<Rightarrow> (string \<times> string) list \<Rightarrow> bool" where
  "journal_goods parse cfg \<equiv> all_good (journal_good parse cfg) (journal_upd parse cfg)"

definition storable :: "(json \<Rightarrow> string res) \<Rightarrow> (string \<Rightarrow> json res) \<Rightarrow> json \<Rightarrow> bool" where
  "storable dump parse p \<longleftrightarrow> (\<exists>e. dump p = Inr e \<and> parse e = Inr p)"

text \<open>
  A journal that agrees with its file: the file is the magic and a log of good frames, and the
  journal's state is the one replaying that log reaches.
\<close>

definition agrees :: "(string \<Rightarrow> json res) \<Rightarrow> (string \<times> string) list \<Rightarrow> journal \<times> node \<Rightarrow> bool" where
  "agrees parse kes st \<longleftrightarrow>
     (let cfg = j_config (fst st); s = foldl (journal_upd parse cfg) replay_start kes;
          content = file_magic @ journal_log parse cfg replay_start kes
      in config_ok cfg \<and> journal_goods parse cfg replay_start kes \<and>
         snd st = Regular content \<and> length content \<le> cfg_maximum_file cfg \<and>
         rp_last s = length content \<and>
         rp_expected s = j_next (fst st) \<and> rp_recent s = j_recent (fst st))"

lemma config_ok_bounds:
  "config_ok c \<Longrightarrow> cfg_maximum_payload c < 2 ^ 32 \<and> 40 \<le> cfg_maximum_file c \<and> 0 < cfg_recent_limit c"
  by (auto simp: config_ok_def file_magic_def frame_header_size_def)

lemma open_absent:
  assumes "journal_open parse True cfg Absent = Inr st"
  shows "agrees parse [] st \<and> j_config (fst st) = cfg \<and> j_tail (fst st) = 0 \<and> config_ok cfg"
proof -
  have ok: "config_ok cfg" using assms by (simp add: journal_open_def split: if_splits)
  have "replay_frames parse cfg replay_start [] = Inr (replay_start, False)"
    using jlog.replay_complete [of parse cfg replay_start "[]"] by simp
  then have "st = (\<lparr>j_config = cfg, j_next = 1, j_tail = 0, j_recent = []\<rparr>, Regular file_magic)"
    using assms ok
    by (auto simp: journal_open_def open_and_recover_def recover_file_def Let_def replay_start_def
        split: if_splits)
  then show ?thesis
    using ok config_ok_bounds [OF ok] by (simp add: agrees_def replay_start_def file_magic_def)
qed

lemma append_ok_cases:
  assumes "journal_append dump None kind payload (j, node) = (Inr n, st')"
  obtains encoded content where "valid_kind kind" "dump payload = Inr encoded"
    "length encoded \<le> cfg_maximum_payload (j_config j)" "node = Regular content"
    "length content + length (append_frame j kind encoded) \<le> cfg_maximum_file (j_config j)"
    "n = j_next j"
    "st' = (j\<lparr>j_next := j_next j + 1,
              j_recent := recent_push (cfg_recent_limit (j_config j))
                \<lparr>r_sequence = j_next j, r_kind = kind, r_payload = payload\<rparr> (j_recent j)\<rparr>,
            Regular (content @ append_frame j kind encoded))"
  using assms
  by (cases "dump payload"; cases node)
     (auto simp: journal_append_def Let_def append_frame_def frame_header_size_def
       split: if_splits option.splits)

lemma agrees_append:
  assumes "agrees parse kes (j, node)" and "storable dump parse payload"
    and "journal_append dump None kind payload (j, node) = (Inr n, st')"
  shows "\<exists>e. dump payload = Inr e \<and> agrees parse (kes @ [(kind, e)]) st' \<and>
    j_config (fst st') = j_config j \<and> j_tail (fst st') = j_tail j"
proof -
  from assms(3) obtain e content where a: "valid_kind kind" "dump payload = Inr e"
    "length e \<le> cfg_maximum_payload (j_config j)" "node = Regular content"
    "length content + length (append_frame j kind e) \<le> cfg_maximum_file (j_config j)"
    "n = j_next j"
    "st' = (j\<lparr>j_next := j_next j + 1,
              j_recent := recent_push (cfg_recent_limit (j_config j))
                \<lparr>r_sequence = j_next j, r_kind = kind, r_payload = payload\<rparr> (j_recent j)\<rparr>,
            Regular (content @ append_frame j kind e))"
    by (rule append_ok_cases)
  have "parse e = Inr payload" using assms(2) a(2) by (auto simp: storable_def)
  then show ?thesis
    using assms(1) a config_ok_bounds [of "j_config j"]
    by (auto simp: agrees_def Let_def encode_all_append all_good_append journal_good_def
        journal_upd_def replay_record_def append_frame_def journal_frame_def frame_header_size_def)
qed

lemma append_all_simps [simp]:
  "append_all dump [] st = Inr st"
  "append_all dump ((k, p) # rs) st =
     ebind (case journal_append dump None k p st of (Inl e, st') \<Rightarrow> Inl e | (Inr s, st') \<Rightarrow> Inr st')
       (\<lambda>st'. append_all dump rs st')"
  by (auto simp: append_all_def)

lemma append_all_append:
  "append_all dump (rs @ qs) st = ebind (append_all dump rs st) (append_all dump qs)"
  unfolding append_all_def efold_append by (rule arg_cong [where f = "ebind _"]) auto

lemma agrees_append_all:
  assumes "append_all dump rs st = Inr st'" and "agrees parse kes st"
    and "\<forall>(k, p) \<in> set rs. storable dump parse p"
  shows "\<exists>es. agrees parse (kes @ es) st' \<and> j_config (fst st') = j_config (fst st) \<and>
    j_tail (fst st') = j_tail (fst st) \<and> length es = length rs"
  using assms
proof (induction rs arbitrary: kes st)
  case Nil
  then show ?case by (intro exI [of _ "[]"]) auto
next
  case (Cons r rs)
  obtain k p where r: "r = (k, p)" by (cases r)
  obtain j node where st: "st = (j, node)" by (cases st)
  from Cons.prems(1) r obtain n st1 where
    a: "journal_append dump None k p (j, node) = (Inr n, st1)" and rest: "append_all dump rs st1 = Inr st'"
    by (auto simp: st split: prod.splits sum.splits)
  from agrees_append [OF _ _ a] Cons.prems(2,3) r st obtain e where
    e: "agrees parse (kes @ [(k, e)]) st1" "j_config (fst st1) = j_config j" "j_tail (fst st1) = j_tail j"
    by fastforce
  from Cons.IH [OF rest e(1)] Cons.prems(3) obtain es where
    es: "agrees parse ((kes @ [(k, e)]) @ es) st'" "j_config (fst st') = j_config (fst st1)"
    "j_tail (fst st') = j_tail (fst st1)" "length es = length rs" by auto
  then show ?case using e st by (intro exI [of _ "(k, e) # es"]) auto
qed

lemma agrees_reopen:
  assumes "agrees parse kes (j, Regular content)"
    and "s = foldl (journal_upd parse (j_config j)) replay_start kes"
    and "journal_good parse (j_config j) s r"
    and "n < length (journal_frame (j_config j) s r)"
    and "length content + n \<le> cfg_maximum_file (j_config j)"
  shows "journal_open parse True (j_config j)
      (Regular (content @ take n (journal_frame (j_config j) s r))) =
    Inr (j\<lparr>j_tail := n\<rparr>, Regular content)"
proof -
  let ?cfg = "j_config j" and ?f = "journal_frame (j_config j) s r"
  have ok: "config_ok ?cfg" "journal_goods parse ?cfg replay_start kes"
    and c: "content = file_magic @ journal_log parse ?cfg replay_start kes"
    and s: "rp_last s = length content" "rp_expected s = j_next j" "rp_recent s = j_recent j"
    using assms(1,2) by (simp_all add: agrees_def Let_def)
  have "replay_frames parse ?cfg replay_start (drop (length file_magic) (content @ take n ?f)) =
      Inr (s, 0 < n)"
    using jlog.replay_recovers [of parse ?cfg replay_start kes r n] ok(2) assms(2,3,4) by (simp add: c)
  moreover have "take (length file_magic) (content @ take n ?f) = file_magic" by (simp add: c)
  moreover have "content \<noteq> []" by (simp add: c file_magic_def)
  moreover have "min (length ?f) n = n" using assms(4) by simp
  ultimately show ?thesis
    using ok(1) s assms(5)
    by (simp add: journal_open_def open_and_recover_def recover_file_def)
qed

section \<open>Properties\<close>

lemma crashed_append_cases:
  assumes "journal_append dump (Some (n, x)) k q (j, Regular content) = (Inl y, j', node')"
    and "dump q = Inr e"
  shows "j' = j \<and>
    (node' = Regular content \<or>
     valid_kind k \<and> length e \<le> cfg_maximum_payload (j_config j) \<and>
     length content + length (append_frame j k e) \<le> cfg_maximum_file (j_config j) \<and>
     node' = Regular (content @ take n (append_frame j k e)))"
  using assms
  by (auto simp: journal_append_def Let_def append_frame_def frame_header_size_def split: if_splits)

lemma agrees_reopen_complete:
  assumes "agrees parse kes (j, Regular content)"
  shows "journal_open parse True (j_config j) (Regular content) = Inr (j\<lparr>j_tail := 0\<rparr>, Regular content)"
proof -
  let ?cfg = "j_config j"
  define s where "s = foldl (journal_upd parse ?cfg) replay_start kes"
  have ok: "config_ok ?cfg" "journal_goods parse ?cfg replay_start kes"
    and c: "content = file_magic @ journal_log parse ?cfg replay_start kes"
    and le: "length content \<le> cfg_maximum_file ?cfg"
    and s: "rp_last s = length content" "rp_expected s = j_next j" "rp_recent s = j_recent j"
    using assms by (simp_all add: agrees_def Let_def s_def)
  have "replay_frames parse ?cfg replay_start (drop (length file_magic) content) = Inr (s, False)"
    using jlog.replay_complete [OF ok(2)] by (simp add: c s_def)
  moreover have "take (length file_magic) content = file_magic" by (simp add: c)
  moreover have "content \<noteq> []" by (simp add: c file_magic_def)
  ultimately show ?thesis
    using ok(1) s le by (simp add: journal_open_def open_and_recover_def recover_file_def)
qed

text \<open>
  C5. Crash recovery. A journal is created and any records are appended; then an append fails
  after any number of bytes, short of its whole frame, have reached the file (the process dies
  or the disk fills). The failed append leaves the journal object unchanged, and opening the
  file again yields exactly the journal before that append (sequence counter, recent window),
  reports the bytes of the torn frame, and cuts the file back to the complete frames.
\<close>

theorem journal_crash_recovery:
  assumes "journal_open parse True cfg Absent = Inr st0"
    and "append_all dump rs st0 = Inr (j, Regular content)"
    and "\<forall>(k, p) \<in> set rs. storable dump parse p" and "storable dump parse q"
    and "journal_append dump (Some (n, x)) k q (j, Regular content) = (Inl y, j', node')"
    and "\<forall>e. dump q = Inr e \<longrightarrow> n < length (append_frame j k e)"
  shows "j' = j \<and>
    (\<exists>left. node' = Regular (content @ left) \<and>
       journal_open parse True cfg node' = Inr (j\<lparr>j_tail := length left\<rparr>, Regular content))"
proof -
  note o = open_absent [OF assms(1)]
  obtain es where ag: "agrees parse es (j, Regular content)" and cfg: "j_config j = cfg"
    using agrees_append_all [OF assms(2), of parse "[]"] o assms(3) by auto
  obtain e where e: "dump q = Inr e" "parse e = Inr q" using assms(4) by (auto simp: storable_def)
  define s where "s = foldl (journal_upd parse cfg) replay_start es"
  have se: "rp_expected s = j_next j" and ok: "config_ok cfg"
    using ag by (simp_all add: agrees_def Let_def s_def cfg)
  have f: "append_frame j k e = journal_frame cfg s (k, e)"
    by (simp add: append_frame_def journal_frame_def cfg se)
  from crashed_append_cases [OF assms(5) e(1)] consider
      "j' = j" "node' = Regular content"
    | "j' = j" "valid_kind k" "length e \<le> cfg_maximum_payload cfg"
      "length content + length (append_frame j k e) \<le> cfg_maximum_file cfg"
      "node' = Regular (content @ take n (append_frame j k e))"
    by (auto simp: cfg)
  then show ?thesis
  proof cases
    case 1
    then show ?thesis using agrees_reopen_complete [OF ag] by (auto simp: cfg)
  next
    case 2
    have g: "journal_good parse cfg s (k, e)"
      using 2 e config_ok_bounds [OF ok] by (simp add: journal_good_def)
    have n: "n < length (journal_frame cfg s (k, e))" using assms(6) e(1) by (simp add: f)
    have "length (take n (append_frame j k e)) = n" using n by (simp add: f)
    with 2 agrees_reopen [OF ag, of s "(k, e)" n] g n show ?thesis
      by (simp add: cfg s_def f)
  qed
qed

definition demo_config :: jconfig where
  "demo_config = \<lparr>cfg_path_empty = False, cfg_maximum_payload = 16, cfg_maximum_file = 1000,
     cfg_recent_limit = 2, cfg_synchronize = True\<rparr>"

definition demo_dump :: "json \<Rightarrow> string res" where
  "demo_dump j = (case j of JNull \<Rightarrow> Inr ''null'' | _ \<Rightarrow> Inl (JsonException 316))"

definition demo_parse :: "string \<Rightarrow> json res" where
  "demo_parse s = (if s = ''null'' then Inr JNull else Inl (JsonException 101))"

lemma demo_storable: "storable demo_dump demo_parse JNull"
  by (simp add: storable_def demo_dump_def demo_parse_def)

lemma demo_open:
  "journal_open p True demo_config Absent =
     Inr (\<lparr>j_config = demo_config, j_next = 1, j_tail = 0, j_recent = []\<rparr>, Regular file_magic)"
proof -
  have "replay_frames p demo_config replay_start [] = Inr (replay_start, False)"
    using jlog.replay_complete [of p demo_config replay_start "[]"] by simp
  then show ?thesis
    by (simp add: journal_open_def open_and_recover_def recover_file_def Let_def demo_config_def
        config_ok_def replay_start_def file_magic_def frame_header_size_def)
qed

lemma demo_kind: "valid_kind ''a''"
  by (simp add: valid_kind_def maximum_kind_bytes_def is_lower_def less_eq_char_def)

lemma demo_append:
  "journal_append demo_dump fault ''a'' JNull (j, Regular content) =
     (case fault of
        Some (n, e) \<Rightarrow> (Inl e, j, Regular (content @ take n (append_frame j ''a'' ''null'')))
      | None \<Rightarrow>
          (Inr (j_next j),
           j\<lparr>j_next := j_next j + 1,
             j_recent := recent_push 2 \<lparr>r_sequence = j_next j, r_kind = ''a'', r_payload = JNull\<rparr>
               (j_recent j)\<rparr>,
           Regular (content @ append_frame j ''a'' ''null'')))"
  if "j_config j = demo_config" "length content \<le> 900"
  using that demo_kind
  by (auto simp: journal_append_def demo_dump_def Let_def demo_config_def frame_header_size_def
      split: option.splits)

definition demo_j0 :: journal where
  "demo_j0 = \<lparr>j_config = demo_config, j_next = 1, j_tail = 0, j_recent = []\<rparr>"

definition demo_j1 :: journal where
  "demo_j1 = demo_j0\<lparr>j_next := 2,
     j_recent := [\<lparr>r_sequence = 1, r_kind = ''a'', r_payload = JNull\<rparr>]\<rparr>"

definition demo_content :: "u8 list" where
  "demo_content = file_magic @ append_frame demo_j0 ''a'' ''null''"

lemma demo_content_length: "length demo_content = 45"
  by (simp add: demo_content_def append_frame_def file_magic_def)

lemma demo_append_all:
  "append_all demo_dump [(''a'', JNull)] (demo_j0, Regular file_magic) =
     Inr (demo_j1, Regular demo_content)"
  by (simp add: demo_append demo_j0_def demo_j1_def demo_content_def file_magic_def
      recent_push_def append_frame_def)

theorem journal_crash_recovery_witness:
  "\<exists>left. length left = 20 \<and>
     journal_open demo_parse True demo_config (Regular (demo_content @ left)) =
       Inr (demo_j1\<lparr>j_tail := 20\<rparr>, Regular demo_content)"
proof -
  let ?left = "take 20 (append_frame demo_j1 ''a'' ''null'')"
  have cr: "journal_append demo_dump (Some (20, RuntimeError ''x'')) ''a'' JNull
        (demo_j1, Regular demo_content) =
      (Inl (RuntimeError ''x''), demo_j1, Regular (demo_content @ ?left))"
    by (simp add: demo_append demo_j1_def demo_j0_def demo_content_length)
  have l: "length ?left = 20" by (simp add: append_frame_def)
  have "\<forall>e. demo_dump JNull = Inr e \<longrightarrow> 20 < length (append_frame demo_j1 ''a'' e)"
    by (simp add: append_frame_def)
  from journal_crash_recovery [OF demo_open [folded demo_j0_def] demo_append_all _ demo_storable cr this]
  have "journal_open demo_parse True demo_config (Regular (demo_content @ ?left)) =
      Inr (demo_j1\<lparr>j_tail := 20\<rparr>, Regular demo_content)"
    using demo_storable l by auto
  with l show ?thesis by blast
qed

text \<open>The records appended, with their sequence numbers, and the window the journal keeps.\<close>

fun numbered :: "u64 \<Rightarrow> (string \<times> json) list \<Rightarrow> jrecord list" where
  "numbered n [] = []"
| "numbered n ((k, p) # rs) = \<lparr>r_sequence = n, r_kind = k, r_payload = p\<rparr> # numbered (n + 1) rs"

lemma length_numbered [simp]: "length (numbered n rs) = length rs"
  by (induction n rs rule: numbered.induct) auto

definition window :: "nat \<Rightarrow> 'a list \<Rightarrow> 'a list" where
  "window limit xs = drop (length xs - limit) xs"

lemma recent_push_window:
  "0 < limit \<Longrightarrow> recent_push limit r (window limit xs) = window limit (xs @ [r])"
  by (auto simp: recent_push_def window_def drop_Suc [symmetric] tl_drop Suc_diff_le
      split: if_splits)

lemma append_all_window:
  assumes "append_all dump rs (j, node) = Inr (j', node')"
    and "j_recent j = window (cfg_recent_limit (j_config j)) past"
    and "0 < cfg_recent_limit (j_config j)"
    and "file_size node \<le> Some (cfg_maximum_file (j_config j))"
  shows "j_config j' = j_config j \<and> j_next j' = j_next j + of_nat (length rs) \<and>
    j_recent j' = window (cfg_recent_limit (j_config j)) (past @ numbered (j_next j) rs) \<and>
    file_size node' \<le> Some (cfg_maximum_file (j_config j)) "
  using assms
proof (induction rs arbitrary: j node past)
  case Nil
  then show ?case by simp
next
  case (Cons r rs)
  obtain k p where r: "r = (k, p)" by (cases r)
  from Cons.prems(1) r obtain n j1 node1 where
    a: "journal_append dump None k p (j, node) = (Inr n, j1, node1)"
    and rest: "append_all dump rs (j1, node1) = Inr (j', node')"
    by (auto split: prod.splits sum.splits)
  let ?rec = "\<lparr>r_sequence = j_next j, r_kind = k, r_payload = p\<rparr>"
  obtain e content where e: "j1 = j\<lparr>j_next := j_next j + 1,
      j_recent := recent_push (cfg_recent_limit (j_config j)) ?rec (j_recent j)\<rparr>"
    "node1 = Regular (content @ append_frame j k e)"
    "length content + length (append_frame j k e) \<le> cfg_maximum_file (j_config j)"
    using a by (rule append_ok_cases) auto
  then have "j_recent j1 = window (cfg_recent_limit (j_config j1)) (past @ [?rec])"
    using Cons.prems(2,3) by (simp add: recent_push_window)
  from Cons.IH [OF rest this] e Cons.prems(3) r show ?case by simp
qed

text \<open>
  C6. Appends to a fresh journal are numbered consecutively from 1 and return those numbers;
  the file never exceeds its configured size; and the recent window, hence \<open>recent(limit)\<close>,
  is the last records appended, in order, at most \<open>recent_record_limit\<close> of them.
\<close>

theorem journal_window:
  assumes "journal_open parse True cfg Absent = Inr st0"
    and "append_all dump rs st0 = Inr (j, node)"
    and "journal_append dump None k p (j, node) = (Inr n, j', node')"
  shows "n = of_nat (length rs) + 1 \<and> j_next j' = n + 1 \<and>
    (\<exists>content. node' = Regular content \<and> length content \<le> cfg_maximum_file cfg) \<and>
    journal_recent limit j' =
      window (min limit (cfg_recent_limit cfg)) (numbered 1 (rs @ [(k, p)]))"
proof -
  note o = open_absent [OF assms(1)]
  obtain j0 node0 where st0: "st0 = (j0, node0)" by (cases st0)
  have j0: "j_config j0 = cfg" "j_next j0 = 1" "j_recent j0 = []" "config_ok cfg"
    "file_size node0 \<le> Some (cfg_maximum_file cfg)"
    using o by (auto simp: agrees_def Let_def replay_start_def st0)
  have all: "append_all dump (rs @ [(k, p)]) (j0, node0) = Inr (j', node')"
    using assms(2,3) by (simp add: append_all_append st0)
  note w = append_all_window [where past = "[]"]
  have lim: "0 < cfg_recent_limit cfg" using config_ok_bounds [OF j0(4)] by simp
  have 1: "j_next j = 1 + of_nat (length rs)" "j_config j = cfg"
    using w [OF assms(2) [unfolded st0]] j0 lim by (simp_all add: window_def)
  have 2: "j_recent j' = window (cfg_recent_limit cfg) (numbered 1 (rs @ [(k, p)]))"
    using w [OF all] j0 lim by (simp add: window_def)
  obtain e content where e: "n = j_next j" "j_next j' = j_next j + 1"
    "node' = Regular (content @ append_frame j k e)"
    "length content + length (append_frame j k e) \<le> cfg_maximum_file (j_config j)"
    using assms(3) by (rule append_ok_cases) auto
  have "journal_recent limit j' =
      window (min limit (cfg_recent_limit cfg)) (numbered 1 (rs @ [(k, p)]))"
    by (auto simp: journal_recent_def Let_def 2 window_def min_def)
  then show ?thesis using e 1 by (simp add: add.commute)
qed

theorem journal_window_witness:
  "\<exists>j' node'. journal_append demo_dump None ''a'' JNull (demo_j1, Regular demo_content) =
       (Inr 2, j', node') \<and>
     journal_recent 1 j' = [\<lparr>r_sequence = 2, r_kind = ''a'', r_payload = JNull\<rparr>]"
proof -
  obtain j' node' where
    a: "journal_append demo_dump None ''a'' JNull (demo_j1, Regular demo_content) = (Inr 2, j', node')"
    using demo_content_length by (simp add: demo_append demo_j1_def demo_j0_def)
  from journal_window [OF demo_open [folded demo_j0_def] demo_append_all a, of 1]
  have "journal_recent 1 j' = [\<lparr>r_sequence = 2, r_kind = ''a'', r_payload = JNull\<rparr>]"
    by (simp add: window_def demo_config_def)
  with a show ?thesis by blast
qed

lemma read_frame_body:
  assumes "0 < length k" and "length k \<le> 64" and "length e \<le> m" and "m < 2 ^ 32"
    and "length k' = length k" and "length e' = length e"
  shows "read_frame m s (frame_header sy s k e @ k' @ e' @ rest) =
    (if \<not> valid_kind (string_of k') \<or> frame_crc s k' e' \<noteq> frame_crc s k e
     then CorruptFrame ''operational store frame checksum is invalid''
     else Frame (string_of k', string_of e') rest)"
proof -
  have uk: "unat (of_nat (length k) :: u16) = length k"
    using assms(2) by (simp add: unat_of_nat take_bit_nat_eq_self)
  have ue: "unat (of_nat (length e) :: u32) = length e"
    using assms(3,4) by (simp add: unat_of_nat take_bit_nat_eq_self)
  have "take 32 (frame_header sy s k e @ k' @ e' @ rest) = frame_header sy s k e"
    "drop 32 (frame_header sy s k e @ k' @ e' @ rest) = k' @ e' @ rest"
    by simp_all
  moreover have "take (length k) (k' @ e' @ rest) = k'" "drop (length k) (k' @ e' @ rest) = e' @ rest"
    "take (length e) (e' @ rest) = e'" "drop (length e) (e' @ rest) = rest"
    using assms(5,6) by simp_all
  ultimately show ?thesis
    unfolding read_frame_def Let_def frame_header_size_def
    using assms uk ue by (simp add: frame_header_get maximum_kind_bytes_def)
qed

lemma read_frame_bad_body:
  assumes "valid_kind k" and "length e \<le> m" and "m < 2 ^ 32"
    and "i < length k + length e" and "v \<noteq> (bytes_of k @ bytes_of e) ! i"
  shows "\<exists>msg. read_frame m s
      (frame_header sy s (bytes_of k) (bytes_of e) @ (bytes_of k @ bytes_of e)[i := v] @ rest) =
    CorruptFrame msg"
proof -
  let ?b = "(bytes_of k @ bytes_of e)[i := v]"
  let ?k = "take (length k) ?b" and ?p = "drop (length k) ?b"
  have k: "0 < length k" "length k \<le> 64"
    using assms(1) by (auto simp: valid_kind_def maximum_kind_bytes_def)
  have crc: "frame_crc s ?k ?p \<noteq> frame_crc s (bytes_of k) (bytes_of e)"
    using assms(4,5) by (intro frame_crc_separates [of i _ _ v]) simp_all
  have "read_frame m s (frame_header sy s (bytes_of k) (bytes_of e) @ ?k @ ?p @ rest) =
      CorruptFrame ''operational store frame checksum is invalid''"
    using k assms(2,3) crc by (subst read_frame_body) simp_all
  moreover have "?k @ ?p @ rest = ?b @ rest" by (simp only: append_assoc [symmetric] append_take_drop_id)
  ultimately show ?thesis by metis
qed

lemma agrees_split:
  assumes "agrees parse (kes @ (k, e) # qes) (j, Regular content)"
    and "s = foldl (journal_upd parse (j_config j)) replay_start kes"
  obtains rest where
    "content = file_magic @ journal_log parse (j_config j) replay_start kes @
       journal_frame (j_config j) s (k, e) @ rest"
    "journal_goods parse (j_config j) replay_start kes"
    "journal_good parse (j_config j) s (k, e)"
  using assms by (auto simp: agrees_def Let_def encode_all_append all_good_append)

lemma list_update_length_append: "(xs @ ys)[length xs + n := v] = xs @ ys[n := v]"
  by (simp add: list_update_append)

lemma agrees_append_more:
  assumes "append_all dump rs (j, node) = Inr (j', node')" and "node = Regular content"
  shows "\<exists>more. node' = Regular (content @ more) \<and> j_config j' = j_config j"
  using assms
proof (induction rs arbitrary: j node content)
  case Nil
  then show ?case by auto
next
  case (Cons r rs)
  obtain k p where r: "r = (k, p)" by (cases r)
  from Cons.prems(1) r obtain n j1 node1 where
    a: "journal_append dump None k p (j, node) = (Inr n, j1, node1)"
    and rest: "append_all dump rs (j1, node1) = Inr (j', node')"
    by (auto split: prod.splits sum.splits)
  obtain e where "node1 = Regular (content @ append_frame j k e)" "j_config j1 = j_config j"
    using a Cons.prems(2) by (elim append_ok_cases) auto
  with Cons.IH [OF rest, of "content @ append_frame j k e"] show ?case by auto
qed

lemma changed_body:
  assumes "c = (b1 @ h) @ body @ rest" and "i = length (b1 @ h) + k" and "k < length body"
  shows "c[i := v] = b1 @ h @ body[k := v] @ rest" and "c ! i = body ! k"
proof -
  have "(body @ rest)[k := v] = body[k := v] @ rest" by (rule list_update_append1) (use assms(3) in simp)
  moreover have "c[i := v] = (b1 @ h) @ (body @ rest)[k := v]"
    unfolding assms(1,2) by (simp only: list_update_length_append)
  ultimately show "c[i := v] = b1 @ h @ body[k := v] @ rest" by (metis append_assoc)
  show "c ! i = body ! k"
    using assms(3) nth_append_length_plus [of "b1 @ h" "body @ rest" k] by (simp only: assms(1,2) nth_append [of body rest] if_True)
qed

text \<open>
  C7. Corruption is detected. In a journal written by any appends, change any one byte of the
  kind or payload of any record to any other value: opening the file throws instead of
  returning a record that was never written.
\<close>

theorem journal_detects_corruption:
  assumes "journal_open parse True cfg Absent = Inr st0"
    and "append_all dump rs1 st0 = Inr (j1, Regular c1)"
    and "journal_append dump None k q (j1, Regular c1) = (Inr n, j2, Regular c2)"
    and "append_all dump rs2 (j2, Regular c2) = Inr (j3, Regular c3)"
    and "\<forall>(k, p) \<in> set (rs1 @ (k, q) # rs2). storable dump parse p"
    and "length c1 + 32 \<le> i" and "i < length c2" and "v \<noteq> c3 ! i"
  shows "\<exists>msg. journal_open parse True cfg (Regular (c3[i := v])) = Inl (RuntimeError msg)"
proof -
  note o = open_absent [OF assms(1)]
  obtain kes where ag1: "agrees parse kes (j1, Regular c1)" and cfg: "j_config j1 = cfg"
    using agrees_append_all [OF assms(2), of parse "[]"] o assms(5) by auto
  obtain e where e: "dump q = Inr e" "agrees parse (kes @ [(k, e)]) (j2, Regular c2)" "j_config j2 = cfg"
    using agrees_append [OF ag1 _ assms(3)] assms(5) cfg by auto
  obtain qes where ag: "agrees parse (kes @ (k, e) # qes) (j3, Regular c3)" and cfg3: "j_config j3 = cfg"
    using agrees_append_all [OF assms(4) e(2)] assms(5) e(3) by auto
  define s where "s = foldl (journal_upd parse cfg) replay_start kes"
  obtain rest where c3: "c3 = file_magic @ journal_log parse cfg replay_start kes @
        journal_frame cfg s (k, e) @ rest"
      and goods: "journal_goods parse cfg replay_start kes" and good: "journal_good parse cfg s (k, e)"
    using agrees_split [OF ag, of s] by (auto simp: s_def cfg3)
  have c1: "c1 = file_magic @ journal_log parse cfg replay_start kes"
    using ag1 by (simp add: agrees_def Let_def cfg)
  have "length c2 = length c1 + (32 + length k + length e)"
    using assms(3) e(1) by (elim append_ok_cases) (simp add: append_frame_def)
  then have i: "i - (length c1 + 32) < length k + length e" using assms(6,7) by simp
  let ?i = "i - (length c1 + 32)" and ?b = "bytes_of k @ bytes_of e"
  let ?h = "frame_header (cfg_synchronize cfg) (rp_expected s) (bytes_of k) (bytes_of e)"
  have c3': "c3 = (c1 @ ?h) @ ?b @ rest"
    by (simp add: c3 c1 journal_frame_def frame_bytes_def)
  have at: "i = length (c1 @ ?h) + ?i" using assms(6) by simp
  have "?i < length ?b" using i by simp
  note upd = changed_body(1) [OF c3' at this, of v]
  have v: "v \<noteq> ?b ! ?i" using assms(8) changed_body(2) [OF c3' at \<open>?i < length ?b\<close>] by simp
  from good obtain msg where bad: "read_frame (cfg_maximum_payload cfg) (rp_expected s)
        (?h @ ?b[?i := v] @ rest) = CorruptFrame msg"
    using read_frame_bad_body [of k e "cfg_maximum_payload cfg" ?i v "rp_expected s"
        "cfg_synchronize cfg" rest] i v by (auto simp: journal_good_def)
  have "replay_frames parse cfg replay_start (drop (length file_magic) (c3[i := v])) =
      replay_frames parse cfg s (?h @ ?b[?i := v] @ rest)"
    by (simp add: upd c1 jlog.loop_frames [OF goods] s_def)
  also have "\<dots> = Inl (RuntimeError msg)"
    by (subst replay_frames.simps) (simp add: bad)
  finally have "replay_frames parse cfg replay_start (drop (length file_magic) (c3[i := v])) =
      Inl (RuntimeError msg)" .
  moreover have "take (length file_magic) (c3[i := v]) = file_magic" "c3[i := v] \<noteq> []"
    by (simp_all add: upd c1 file_magic_def)
  moreover have "config_ok cfg" using o by simp
  ultimately show ?thesis
    by (simp add: journal_open_def open_and_recover_def recover_file_def Let_def)
qed

theorem journal_detects_corruption_witness:
  "\<exists>msg. journal_open demo_parse True demo_config (Regular (demo_content[40 := 0])) =
    Inl (RuntimeError msg)"
proof -
  have a: "journal_append demo_dump None ''a'' JNull (demo_j0, Regular file_magic) =
      (Inr 1, demo_j1, Regular demo_content)"
    by (simp add: demo_append demo_j0_def demo_j1_def demo_content_def file_magic_def recent_push_def)
  have "demo_content ! 40 = (0x61 :: u8)"
    by (simp add: demo_content_def append_frame_def frame_bytes_def nth_append file_magic_def
        bytes_of_def of_char_def)
  then have v: "0 \<noteq> demo_content ! 40" by simp
  have e0: "append_all demo_dump [] (demo_j0, Regular file_magic) = Inr (demo_j0, Regular file_magic)"
    and e1: "append_all demo_dump [] (demo_j1, Regular demo_content) = Inr (demo_j1, Regular demo_content)"
    by simp_all
  show ?thesis
    by (rule journal_detects_corruption [OF demo_open [folded demo_j0_def] e0 a e1 _ _ _ v])
       (simp_all add: demo_storable demo_content_length file_magic_def)
qed

lemma frame_header_magic:
  "frame_header sy s k e = 0x46 # 0x52 # 0x4d # 0x31 # drop 4 (frame_header sy s k e)"
proof -
  have n: "frame_header sy s k e ! i = byte_at i frame_magic" if "i < 4" for i
    using that by (simp add: frame_header_def Let_def put_outside frame_header_size_def
        put_inside(2) [where off = 0, simplified])
  have "take 4 (frame_header sy s k e) = map (\<lambda>i. frame_header sy s k e ! i) [0..<4]"
    by (intro nth_equalityI) auto
  also have "\<dots> = [0x46, 0x52, 0x4d, 0x31]"
    by (simp add: upt4 n) (simp add: byte_at_def frame_magic_def)
  finally show ?thesis by (metis append_Cons append_Nil append_take_drop_id)
qed

lemma fragment_magic:
  assumes "m \<in> {1, 2, 3}"
  shows "\<not> get_u32 (take frame_header_size (take m (frame_header sy s k e @ xs) @
      frame_header sy2 s2 k2 e2 @ ys)) 0 = frame_magic"
proof -
  have "take m (frame_header sy s k e @ xs) = take m [0x46, 0x52, 0x4d, 0x31]"
    by (subst frame_header_magic) (use assms in auto)
  moreover have "\<exists>zs. frame_header sy2 s2 k2 e2 @ ys = [0x46, 0x52, 0x4d, 0x31] @ zs"
    by (subst frame_header_magic) simp
  ultimately obtain zs where "take m (frame_header sy s k e @ xs) @ frame_header sy2 s2 k2 e2 @ ys =
      take m [0x46, 0x52, 0x4d, 0x31] @ [0x46, 0x52, 0x4d, 0x31] @ zs" by metis
  then show ?thesis
    using assms by (auto simp: get_u32_def upt4 frame_magic_def frame_header_size_def)
qed

text \<open>
  C8. A failed append can make the journal unreadable. If an append fails after one to three
  bytes of its frame were written and the journal object is used again, the next append
  succeeds and reports its sequence number, but its frame follows the fragment: opening the
  file afterwards throws, and every record in it is lost to the service. (\<open>append\<close> does not cut
  the file back to its last complete frame when a write fails.)
\<close>

theorem journal_failed_append_poisons:
  assumes "journal_open parse True cfg Absent = Inr st0"
    and "append_all dump rs st0 = Inr (j, Regular c)"
    and "\<forall>(k, p) \<in> set rs. storable dump parse p"
    and "journal_append dump (Some (m, x)) k q (j, Regular c) = (Inl x, j, Regular (c @ left))"
    and "length left = m" and "m \<in> {1, 2, 3}"
    and "journal_append dump None k2 q2 (j, Regular (c @ left)) = (Inr n, j', Regular c')"
  shows "journal_open parse True cfg (Regular c') =
    Inl (RuntimeError ''operational store frame header is corrupt'')"
proof -
  note o = open_absent [OF assms(1)]
  obtain kes where ag: "agrees parse kes (j, Regular c)" and cfg: "j_config j = cfg"
    using agrees_append_all [OF assms(2), of parse "[]"] o assms(3) by auto
  have c: "c = file_magic @ journal_log parse cfg replay_start kes"
    and goods: "journal_goods parse cfg replay_start kes"
    using ag by (simp_all add: agrees_def Let_def cfg)
  obtain e2 where c': "c' = c @ left @ append_frame j k2 e2" and "length c' \<le> cfg_maximum_file cfg"
    using assms(7) by (elim append_ok_cases) (auto simp: cfg)
  obtain e where left: "left = take m (append_frame j k e)"
    using assms(4,5,6) by (auto simp: journal_append_def Let_def split: if_splits sum.splits)
  let ?s = "foldl (journal_upd parse cfg) replay_start kes"
  have len: "length (take 32 (left @ append_frame j k2 e2)) = 32"
    by (simp add: append_frame_def)
  have "\<not> get_u32 (take frame_header_size (left @ append_frame j k2 e2)) 0 = frame_magic"
    unfolding left append_frame_def frame_bytes_def using assms(6) by (rule fragment_magic)
  then have "read_frame (cfg_maximum_payload cfg) (rp_expected ?s) (left @ append_frame j k2 e2) =
      CorruptFrame ''operational store frame header is corrupt''"
    using len by (auto simp: read_frame_def Let_def frame_header_size_def)
  then have "replay_frames parse cfg replay_start (drop (length file_magic) c') =
      Inl (RuntimeError ''operational store frame header is corrupt'')"
    by (simp add: c' c jlog.loop_frames [OF goods]) (simp add: replay_frames.simps)
  moreover have "take (length file_magic) c' = file_magic" "c' \<noteq> []"
    by (simp_all add: c' c file_magic_def)
  moreover have "config_ok cfg" using o by simp
  ultimately show ?thesis
    using \<open>length c' \<le> cfg_maximum_file cfg\<close>
    by (simp add: journal_open_def open_and_recover_def recover_file_def)
qed

theorem journal_failed_append_poisons_witness:
  "\<exists>c'. journal_open demo_parse True demo_config (Regular c') =
    Inl (RuntimeError ''operational store frame header is corrupt'')"
proof -
  let ?left = "take 2 (append_frame demo_j1 ''a'' ''null'')"
  have l: "length ?left = 2" by (simp add: append_frame_def)
  have cr: "journal_append demo_dump (Some (2, RuntimeError ''x'')) ''a'' JNull
        (demo_j1, Regular demo_content) =
      (Inl (RuntimeError ''x''), demo_j1, Regular (demo_content @ ?left))"
    by (simp add: demo_append demo_j1_def demo_j0_def demo_content_length)
  obtain n j' c' where a: "journal_append demo_dump None ''a'' JNull
        (demo_j1, Regular (demo_content @ ?left)) = (Inr n, j', Regular c')"
    using l by (simp add: demo_append demo_j1_def demo_j0_def demo_content_length)
  have "(2::nat) \<in> {1, 2, 3}" by simp
  from journal_failed_append_poisons [OF demo_open [folded demo_j0_def] demo_append_all _ cr l this a]
  show ?thesis using demo_storable by auto
qed

end
