(* ===== verification/Model_Index.thy ===== *)
theory Model_Index
  imports Prelude Json_Value
begin

text \<open>
  Model validation (\<open>model_validation.cpp\<close>, \<open>engine.cpp\<close>): the field checks, the index of
  declared assets, relationships, tags and alarms that every engine operation starts from, and
  the snapshots and fingerprints taken of declarations. A hash map of the index is an
  association list in insertion order with one entry per key. \<open>dump\<close> (used for the size of
  metadata and for fingerprints) is an argument.
\<close>

section \<open>Limits and errors\<close>

definition k_max_string :: nat where "k_max_string = 256"
definition k_max_prompt :: nat where "k_max_prompt = 8192"
definition k_max_assets :: nat where "k_max_assets = 256"
definition k_max_relationships :: nat where "k_max_relationships = 512"
definition k_max_tags :: nat where "k_max_tags = 2048"
definition k_max_alarms :: nat where "k_max_alarms = 2048"
definition k_max_aliases :: nat where "k_max_aliases = 32"
definition k_max_components :: nat where "k_max_components = 4096"

named_theorems limits

lemmas [limits] = k_max_string_def k_max_prompt_def k_max_assets_def k_max_relationships_def
  k_max_tags_def k_max_alarms_def k_max_aliases_def k_max_components_def

definition invalid :: "string \<Rightarrow> exn" where
  "invalid details = DomainError ''invalid_model'' details"

definition invalid_task :: "string \<Rightarrow> exn" where
  "invalid_task details = DomainError ''invalid_task'' details"

definition invalid_view :: "string \<Rightarrow> exn" where
  "invalid_view details = DomainError ''invalid_view'' details"

section \<open>Field checks\<close>

definition required :: "json \<Rightarrow> string \<Rightarrow> string \<Rightarrow> json res" where
  "required object key whr =
     (if \<not> is_object object \<or> \<not> contains object key
      then Inl (invalid (whr @ '' requires '' @ quoted key))
      else json_at object key)"

definition string_field :: "json \<Rightarrow> string \<Rightarrow> string \<Rightarrow> nat \<Rightarrow> string res" where
  "string_field object key whr mx =
     ebind (required object key whr) (\<lambda>v.
       let text = str_of v
       in if \<not> is_string v \<or> text = [] \<or> length text > mx
          then Inl (invalid (whr @ ''.'' @ key @ '' must be a non-empty string of at most '' @
                      show_nat mx @ '' characters''))
          else if list_ex is_cntrl text
          then Inl (invalid (whr @ ''.'' @ key @ '' must not contain control characters''))
          else Inr text)"

definition valid_identity :: "string \<Rightarrow> bool" where
  "valid_identity v \<longleftrightarrow>
     (if v = [] \<or> length v > k_max_string \<or> \<not> is_alnum (hd v) then False
      else list_all (\<lambda>c. is_alnum c \<or> c = CHR ''_'' \<or> c = CHR ''.'' \<or> c = CHR ''-'') v)"

definition identity_field :: "json \<Rightarrow> string \<Rightarrow> string \<Rightarrow> string res" where
  "identity_field object key whr =
     ebind (string_field object key whr k_max_string) (\<lambda>v.
       if \<not> valid_identity v
       then Inl (invalid (whr @ ''.'' @ key @ '' must be an ASCII identifier''))
       else Inr v)"

definition allow_only :: "json \<Rightarrow> string list \<Rightarrow> string \<Rightarrow> unit res" where
  "allow_only object names whr =
     (if \<not> is_object object then Inl (invalid (whr @ '' must be an object''))
      else echeck (\<lambda>(k, v).
             throw_if (\<not> list_ex (\<lambda>name. k = name) names)
               (invalid (whr @ '' contains unsupported field '' @ quoted k)))
           (json_items object))"

definition task_string :: "json \<Rightarrow> string \<Rightarrow> string \<Rightarrow> nat \<Rightarrow> string res" where
  "task_string object key whr mx =
     (if \<not> is_object object \<or> \<not> contains object key
      then Inl (invalid_task (whr @ '' requires '' @ quoted key))
      else ebind (json_at object key) (\<lambda>v.
        let text = str_of v
        in if \<not> is_string v \<or> text = [] \<or> length text > mx
           then Inl (invalid_task (whr @ ''.'' @ key @ '' must be a non-empty string of at most '' @
                       show_nat mx @ '' characters''))
           else get_string v))"

definition unit_field :: "json \<Rightarrow> string \<Rightarrow> string \<Rightarrow> unit res" where
  "unit_field object key whr =
     ebind (required object key whr) (\<lambda>v.
       if \<not> is_string v \<or> length (str_of v) > k_max_string
       then Inl (invalid (whr @ ''.'' @ key @ '' must be a string of at most '' @
                   show_nat k_max_string @ '' characters''))
       else throw_if (list_ex is_cntrl (str_of v))
              (invalid (whr @ ''.'' @ key @ '' must not contain control characters'')))"

definition bounded_array :: "json \<Rightarrow> string \<Rightarrow> string \<Rightarrow> nat \<Rightarrow> unit res" where
  "bounded_array object key whr mx =
     ebind (required object key whr) (\<lambda>v.
       throw_if (\<not> is_array v \<or> json_size v > mx)
         (invalid (whr @ ''.'' @ key @ '' must be an array with at most '' @ show_nat mx @ '' items'')))"

definition is_integer :: "json \<Rightarrow> bool" where
  "is_integer v \<longleftrightarrow> is_number_integer v \<and> \<not> is_number_unsigned v"

definition is_nonnegative_integer :: "json \<Rightarrow> bool" where
  "is_nonnegative_integer v \<longleftrightarrow>
     is_number_unsigned v \<or>
     (is_integer v \<and> (case get_i64 v of Inr n \<Rightarrow> n \<ge> 0 | Inl _ \<Rightarrow> False))"

definition source_field :: "json \<Rightarrow> string \<Rightarrow> json res" where
  "source_field tag whr =
     ebind (required tag ''source'' whr) (\<lambda>source.
     ethen (allow_only source [''server'', ''namespace_uri'', ''identifier''] (whr @ ''.source''))
     (ebind (string_field source ''server'' (whr @ ''.source'') k_max_string) (\<lambda>_.
      ebind (string_field source ''namespace_uri'' (whr @ ''.source'') k_max_string) (\<lambda>_.
      ebind (string_field source ''identifier'' (whr @ ''.source'') k_max_string) (\<lambda>_.
      Inr source)))))"

section \<open>The index\<close>

record model_index =
  ix_model :: json
  ix_assets :: members
  ix_relationships :: members
  ix_tags :: members
  ix_alarms :: members

text \<open>\<open>emplace(id, value).second\<close>, throwing when the key is taken.\<close>

definition emplace_new :: "string \<Rightarrow> string \<Rightarrow> json \<Rightarrow> members \<Rightarrow> members res" where
  "emplace_new what key v m =
     (if map_of m key \<noteq> None
      then Inl (invalid (''duplicate '' @ what @ '' id '' @ quoted key))
      else Inr (m @ [(key, v)]))"

definition metadata_check ::
  "(json \<Rightarrow> string res) \<Rightarrow> json \<Rightarrow> nat \<Rightarrow> string \<Rightarrow> unit res" where
  "metadata_check dump object limit msg =
     (if \<not> contains object ''metadata'' then Inr ()
      else ebind (json_at object ''metadata'') (\<lambda>m.
        if \<not> is_object m then Inl (invalid msg)
        else ebind (dump m) (\<lambda>text. throw_if (length text > limit) (invalid msg))))"

definition alias_ok :: "json \<Rightarrow> bool" where
  "alias_ok v \<longleftrightarrow>
     \<not> (\<not> is_string v \<or> str_of v = [] \<or> length (str_of v) > k_max_string \<or>
        list_ex is_cntrl (str_of v))"

definition aliases_check :: "json \<Rightarrow> string \<Rightarrow> unit res" where
  "aliases_check asset whr =
     (if \<not> contains asset ''aliases'' then Inr ()
      else ebind (json_at asset ''aliases'') (\<lambda>aliases.
        if \<not> is_array aliases \<or> json_size aliases > k_max_aliases
        then Inl (invalid (whr @ ''.aliases exceeds limit''))
        else echeck (\<lambda>(j, v).
               throw_if (\<not> alias_ok v)
                 (invalid (whr @ ''.aliases['' @ show_nat j @ ''] must be a non-empty string'')))
             (enumerate 0 (elements_of aliases))))"

definition index_asset ::
  "(json \<Rightarrow> string res) \<Rightarrow> model_index \<Rightarrow> nat \<times> json \<Rightarrow> model_index res" where
  "index_asset dump index = (\<lambda>(i, asset).
     let whr = ''model.assets['' @ show_nat i @ '']''
     in ethen (allow_only asset [''id'', ''name'', ''kind'', ''aliases'', ''metadata''] whr)
        (ebind (identity_field asset ''id'' whr) (\<lambda>id.
         ebind (string_field asset ''name'' whr k_max_string) (\<lambda>_.
         ebind (string_field asset ''kind'' whr k_max_string) (\<lambda>_.
         ethen (aliases_check asset whr)
         (ethen (metadata_check dump asset 4096
                   (whr @ ''.metadata must be an object of at most 4 KiB''))
         (ebind (emplace_new ''asset'' id asset (ix_assets index)) (\<lambda>m.
          Inr (index\<lparr>ix_assets := m\<rparr>)))))))))"

definition index_relationship :: "model_index \<Rightarrow> nat \<times> json \<Rightarrow> model_index res" where
  "index_relationship index = (\<lambda>(i, rel).
     let whr = ''model.relationships['' @ show_nat i @ '']''
     in ethen (allow_only rel [''id'', ''from'', ''to'', ''kind'', ''metadata''] whr)
        (ebind (identity_field rel ''id'' whr) (\<lambda>id.
         ebind (identity_field rel ''from'' whr) (\<lambda>frm.
         ebind (identity_field rel ''to'' whr) (\<lambda>to.
         ebind (string_field rel ''kind'' whr k_max_string) (\<lambda>_.
         if map_of (ix_assets index) frm = None \<or> map_of (ix_assets index) to = None
         then Inl (invalid (whr @ '' references an unknown asset''))
         else if frm = to then Inl (invalid (whr @ '' cannot connect an asset to itself''))
         else ebind (emplace_new ''relationship'' id rel (ix_relationships index)) (\<lambda>m.
           Inr (index\<lparr>ix_relationships := m\<rparr>))))))))"

definition data_types :: "string list" where
  "data_types = [''number'', ''float'', ''double'', ''integer'', ''boolean'', ''bool'', ''string'']"

definition numeric_data_type :: "string \<Rightarrow> bool" where
  "numeric_data_type t \<longleftrightarrow> t = ''number'' \<or> t = ''float'' \<or> t = ''double'' \<or> t = ''integer''"

definition index_tag :: "model_index \<Rightarrow> nat \<times> json \<Rightarrow> model_index res" where
  "index_tag index = (\<lambda>(i, tag).
     let whr = ''model.tags['' @ show_nat i @ '']''
     in ethen (allow_only tag [''id'', ''asset_id'', ''name'', ''role'', ''data_type'', ''unit'',
                               ''source'', ''metadata''] whr)
        (ebind (identity_field tag ''id'' whr) (\<lambda>id.
         ebind (identity_field tag ''asset_id'' whr) (\<lambda>owner.
         ebind (string_field tag ''name'' whr k_max_string) (\<lambda>_.
         ebind (string_field tag ''role'' whr k_max_string) (\<lambda>_.
         ebind (string_field tag ''data_type'' whr k_max_string) (\<lambda>dt.
         let data_type = lower dt
         in if data_type \<notin> set data_types
            then Inl (invalid (whr @ '' has unsupported data_type''))
            else ethen (unit_field tag ''unit'' whr)
              (ebind (string_at tag ''role'') (\<lambda>role.
               if (lower role = ''level'' \<or> lower role = ''flow'') \<and> \<not> numeric_data_type data_type
               then Inl (invalid (whr @ '' level and flow roles must use a numeric data_type''))
               else ebind (source_field tag whr) (\<lambda>_.
                 if map_of (ix_assets index) owner = None
                 then Inl (invalid (whr @ '' references an unknown asset''))
                 else ebind (emplace_new ''tag'' id tag (ix_tags index)) (\<lambda>m.
                   Inr (index\<lparr>ix_tags := m\<rparr>))))))))))))"

definition operators :: "string list" where
  "operators = [''>'', ''>='', ''<'', ''<='', ''=='', ''!='']"

definition severities :: "string list" where
  "severities = [''low'', ''medium'', ''high'', ''critical'']"

definition index_alarm :: "model_index \<Rightarrow> nat \<times> json \<Rightarrow> model_index res" where
  "index_alarm index = (\<lambda>(i, alarm).
     let whr = ''model.alarms['' @ show_nat i @ '']''
     in ethen (allow_only alarm [''id'', ''asset_id'', ''name'', ''tag_id'', ''operator'',
                                 ''threshold'', ''severity'', ''metadata''] whr)
        (ebind (identity_field alarm ''id'' whr) (\<lambda>id.
         ebind (identity_field alarm ''asset_id'' whr) (\<lambda>owner.
         ebind (identity_field alarm ''tag_id'' whr) (\<lambda>tag_id.
         ebind (string_field alarm ''operator'' whr 8) (\<lambda>op.
         ebind (string_field alarm ''severity'' whr 16) (\<lambda>sev.
         ebind (string_field alarm ''name'' whr k_max_string) (\<lambda>_.
         ebind (required alarm ''threshold'' whr) (\<lambda>threshold.
         if \<not> is_number threshold \<or>
            \<not> (case get_double threshold of Inr d \<Rightarrow> isfinite d | Inl _ \<Rightarrow> False)
         then Inl (invalid (whr @ ''.threshold must be a finite numeric value''))
         else if map_of (ix_assets index) owner = None
         then Inl (invalid (whr @ '' references an unknown asset''))
         else case map_of (ix_tags index) tag_id of
           None \<Rightarrow> Inl (invalid (whr @ '' references an unknown tag''))
         | Some tag \<Rightarrow>
             ebind (string_at tag ''asset_id'') (\<lambda>tag_owner.
             if tag_owner \<noteq> owner then Inl (invalid (whr @ '' asset_id does not own tag_id''))
             else ebind (string_at tag ''data_type'') (\<lambda>dt.
             if \<not> numeric_data_type (lower dt)
             then Inl (invalid (whr @ '' tag_id must reference a numeric tag''))
             else if op \<notin> set operators then Inl (invalid (whr @ '' has unsupported operator''))
             else if lower sev \<notin> set severities
             then Inl (invalid (whr @ '' has unsupported severity''))
             else ebind (emplace_new ''alarm'' id alarm (ix_alarms index)) (\<lambda>m.
               Inr (index\<lparr>ix_alarms := m\<rparr>)))))))))))))"

text \<open>The checks on the model object itself.\<close>

definition model_fields :: "string list" where
  "model_fields = [''model_id'', ''revision'', ''name'', ''assets'', ''relationships'', ''tags'',
     ''alarms'', ''scenario_name'', ''description'', ''metadata'']"

definition optional_string :: "json \<Rightarrow> string \<Rightarrow> string \<Rightarrow> nat \<Rightarrow> unit res" where
  "optional_string object key whr mx =
     (if contains object key then ebind (string_field object key whr mx) (\<lambda>_. Inr ()) else Inr ())"

definition model_header :: "(json \<Rightarrow> string res) \<Rightarrow> json \<Rightarrow> unit res" where
  "model_header dump model =
     ethen (allow_only model model_fields ''model'')
     (ebind (identity_field model ''model_id'' ''model'') (\<lambda>_.
      if \<not> contains model ''revision'' then Inl (invalid (''model requires '' @ quoted ''revision''))
      else ebind (json_at model ''revision'') (\<lambda>revision.
        if \<not> is_nonnegative_integer revision \<or>
           (case get_u64 revision of Inr w \<Rightarrow> unat w > 2 ^ 32 - 1 | Inl _ \<Rightarrow> True)
        then Inl (invalid ''model.revision must be a non-negative 32-bit integer'')
        else ebind (string_field model ''name'' ''model'' k_max_string) (\<lambda>_.
          checks
            [optional_string model ''scenario_name'' ''model'' k_max_string,
             optional_string model ''description'' ''model'' 2048,
             metadata_check dump model (16 * 1024)
               ''model.metadata must be an object of at most 16 KiB'',
             bounded_array model ''assets'' ''model'' k_max_assets,
             bounded_array model ''relationships'' ''model'' k_max_relationships,
             bounded_array model ''tags'' ''model'' k_max_tags,
             bounded_array model ''alarms'' ''model'' k_max_alarms]))))"

definition elements_at :: "json \<Rightarrow> string \<Rightarrow> (nat \<times> json) list" where
  "elements_at model key = enumerate 0 (elements_of (fld model key))"

definition index_model :: "(json \<Rightarrow> string res) \<Rightarrow> json \<Rightarrow> model_index res" where
  "index_model dump model =
     ethen (model_header dump model)
     (ebind (efold (index_asset dump)
        \<lparr>ix_model = model, ix_assets = [], ix_relationships = [], ix_tags = [], ix_alarms = []\<rparr>
        (elements_at model ''assets'')) (\<lambda>index.
      ebind (efold index_relationship index (elements_at model ''relationships'')) (\<lambda>index.
      ebind (efold index_tag index (elements_at model ''tags'')) (\<lambda>index.
      efold index_alarm index (elements_at model ''alarms'')))))"

definition validate_model :: "(json \<Rightarrow> string res) \<Rightarrow> json \<Rightarrow> json res" where
  "validate_model dump model =
     ebind (index_model dump model) (\<lambda>index.
     ebind (json_at model ''model_id'') (\<lambda>mid.
     ebind (json_at model ''revision'') (\<lambda>rev.
     Inr (jobj [(''valid'', JBool True), (''model_id'', mid), (''revision'', rev),
                (''asset_count'', JUInt (of_nat (length (ix_assets index)))),
                (''relationship_count'', JUInt (of_nat (length (ix_relationships index)))),
                (''tag_count'', JUInt (of_nat (length (ix_tags index)))),
                (''alarm_count'', JUInt (of_nat (length (ix_alarms index))))]))))"

section \<open>Snapshots and fingerprints\<close>

definition asset_name :: "model_index \<Rightarrow> string \<Rightarrow> string res" where
  "asset_name index key =
     (case map_of (ix_assets index) key of
        None \<Rightarrow> Inl (RuntimeError ''out_of_range'')
      | Some asset \<Rightarrow> string_at asset ''name'')"

definition hex_digit :: "nat \<Rightarrow> char" where
  "hex_digit n = (if n < 10 then char_of (48 + n) else char_of (87 + n))"

definition hex16 :: "u64 \<Rightarrow> string" where
  "hex16 h = map (\<lambda>i. hex_digit (unat (drop_bit (4 * i) h AND 0xf))) (rev [0..<16])"

definition fnv_step :: "u64 \<Rightarrow> char \<Rightarrow> u64" where
  "fnv_step h c = (h XOR of_char c) * 1099511628211"

definition fnv_hex :: "string \<Rightarrow> string" where
  "fnv_hex input = hex16 (foldl fnv_step 14695981039346656037 input)"

text \<open>The members copied from a declaration, as pairs of the new and the declared key.\<close>

definition copy_members :: "json \<Rightarrow> (string \<times> string) list \<Rightarrow> members res" where
  "copy_members j ks = emap (\<lambda>(k, from). ebind (json_at j from) (\<lambda>v. Inr (k, v))) ks"

lemma copy_members_total:
  "\<forall>(k, from) \<in> set ks. find_key j from = Some (fld j from) \<Longrightarrow>
     copy_members j ks = Inr (map (\<lambda>(k, from). (k, fld j from)) ks)"
  unfolding copy_members_def by (rule emap_pure) auto

lemma fld_present: "find_key j k = Some v \<Longrightarrow> find_key j k = Some (fld j k)"
  by (simp add: fld_def)

definition tag_binding_snapshot :: "json \<Rightarrow> json res" where
  "tag_binding_snapshot tag =
     ebind (copy_members tag [(''owner'', ''asset_id''), (''role'', ''role''),
         (''data_type'', ''data_type''), (''unit'', ''unit''), (''source'', ''source'')])
       (\<lambda>ms. Inr (jobj ms))"

definition tag_fingerprint :: "(json \<Rightarrow> string res) \<Rightarrow> json \<Rightarrow> string res" where
  "tag_fingerprint dump tag =
     ebind (tag_binding_snapshot tag) (\<lambda>b. ebind (dump b) (\<lambda>text. Inr (fnv_hex text)))"

definition dependency_for :: "(json \<Rightarrow> string res) \<Rightarrow> json \<Rightarrow> json res" where
  "dependency_for dump tag =
     ebind (copy_members tag [(''tag_id'', ''id''), (''owner'', ''asset_id''),
         (''owner_asset_id'', ''asset_id''), (''role'', ''role''), (''data_type'', ''data_type''),
         (''unit'', ''unit''), (''source'', ''source'')]) (\<lambda>ms.
     ebind (tag_binding_snapshot tag) (\<lambda>b.
     ebind (tag_fingerprint dump tag) (\<lambda>fp.
     Inr (oset (jobj (ms @ [(''binding'', b)])) ''fingerprint'' (JStr fp)))))"

definition alarm_definition_snapshot :: "json \<Rightarrow> json res" where
  "alarm_definition_snapshot alarm =
     ebind (copy_members alarm [(''owner'', ''asset_id''), (''name'', ''name''),
         (''tag_id'', ''tag_id''), (''operator'', ''operator''), (''threshold'', ''threshold''),
         (''severity'', ''severity'')]) (\<lambda>ms. Inr (jobj ms))"

definition alarm_definition_fingerprint :: "(json \<Rightarrow> string res) \<Rightarrow> json \<Rightarrow> string res" where
  "alarm_definition_fingerprint dump alarm =
     ebind (alarm_definition_snapshot alarm) (\<lambda>s. ebind (dump s) (\<lambda>text. Inr (fnv_hex text)))"

definition dependency_for_alarm :: "(json \<Rightarrow> string res) \<Rightarrow> json \<Rightarrow> json \<Rightarrow> json res" where
  "dependency_for_alarm dump alarm tag =
     ebind (dependency_for dump tag) (\<lambda>result.
     ebind (copy_members alarm [(''alarm_id'', ''id''), (''alarm_owner'', ''asset_id''),
         (''alarm_name'', ''name''), (''operator'', ''operator''), (''threshold'', ''threshold''),
         (''severity'', ''severity'')]) (\<lambda>ms.
     ebind (alarm_definition_snapshot alarm) (\<lambda>s.
     ebind (alarm_definition_fingerprint dump alarm) (\<lambda>fp.
     Inr (fold (\<lambda>(k, v) j. oset j k v)
       (ms @ [(''alarm_definition'', s), (''alarm_fingerprint'', JStr fp)]) result)))))"

section \<open>What acceptance means\<close>

text \<open>The same conditions, stated without messages and order.\<close>

definition ok_text :: "nat \<Rightarrow> string \<Rightarrow> bool" where
  "ok_text mx s \<longleftrightarrow> s \<noteq> [] \<and> length s \<le> mx \<and> \<not> list_ex is_cntrl s"

definition has_text :: "json \<Rightarrow> string \<Rightarrow> nat \<Rightarrow> bool" where
  "has_text j k mx \<longleftrightarrow> find_key j k = Some (JStr (sfld j k)) \<and> ok_text mx (sfld j k)"

definition has_ident :: "json \<Rightarrow> string \<Rightarrow> bool" where
  "has_ident j k \<longleftrightarrow> has_text j k k_max_string \<and> valid_identity (sfld j k)"

definition only_keys :: "json \<Rightarrow> string list \<Rightarrow> bool" where
  "only_keys j names \<longleftrightarrow> is_object j \<and> fst ` set (members_of j) \<subseteq> set names"

definition metadata_ok :: "(json \<Rightarrow> string res) \<Rightarrow> json \<Rightarrow> nat \<Rightarrow> bool" where
  "metadata_ok dump j limit \<longleftrightarrow>
     (case find_key j ''metadata'' of
        None \<Rightarrow> True
      | Some m \<Rightarrow> is_object m \<and>
          (case dump m of Inr text \<Rightarrow> length text \<le> limit | Inl _ \<Rightarrow> False))"

definition aliases_ok :: "json \<Rightarrow> bool" where
  "aliases_ok j \<longleftrightarrow>
     (case find_key j ''aliases'' of
        None \<Rightarrow> True
      | Some v \<Rightarrow> is_array v \<and> length (elements_of v) \<le> k_max_aliases \<and>
          list_all alias_ok (elements_of v))"

lemma required_Inr [simp]: "required j k w = Inr v \<longleftrightarrow> find_key j k = Some v"
  by (cases j) (auto simp: required_def contains_def find_key_def)

lemma string_field_Inr: "string_field j k w mx = Inr s \<longleftrightarrow> find_key j k = Some (JStr s) \<and> ok_text mx s"
  by (auto simp: string_field_def Let_def ok_text_def is_string_iff split: if_splits)

lemma string_field_has:
  "string_field j k w mx = Inr s \<longleftrightarrow> has_text j k mx \<and> s = sfld j k"
  by (auto simp: string_field_Inr has_text_def sfld_eq)

lemma identity_field_has:
  "identity_field j k w = Inr s \<longleftrightarrow> has_ident j k \<and> s = sfld j k"
  by (auto simp: identity_field_def string_field_has has_ident_def split: if_splits)

lemma allow_only_Inr: "allow_only j names w = Inr u \<longleftrightarrow> only_keys j names"
proof -
  have "list_ex ((=) k) names \<longleftrightarrow> k \<in> set names" for k by (auto simp: list_ex_iff)
  then show ?thesis
    by (cases j) (auto simp: allow_only_def only_keys_def json_items_def)
qed

lemma metadata_check_Inr: "metadata_check d j limit msg = Inr u \<longleftrightarrow> metadata_ok d j limit"
  by (auto simp: metadata_check_def metadata_ok_def contains_def split: if_splits option.splits sum.splits)

lemma echeck_enumerate_Inr:
  "echeck (\<lambda>(i, x). throw_if (\<not> P x) (e i x)) (enumerate n xs) = Inr u \<longleftrightarrow> list_all P xs"
  by (induction xs arbitrary: n) auto

lemma json_size_array: "is_array v \<Longrightarrow> json_size v = length (elements_of v)"
  by (cases v) auto

lemma aliases_check_Inr: "aliases_check j w = Inr u \<longleftrightarrow> aliases_ok j"
proof (cases "find_key j ''aliases''")
  case None
  then show ?thesis by (simp add: aliases_check_def aliases_ok_def contains_def)
next
  case (Some v)
  then have "json_at j ''aliases'' = Inr v" by simp
  then show ?thesis using Some
    by (auto simp: aliases_check_def aliases_ok_def contains_def json_size_array
        simp del: echeck_Inr_iff simp add: echeck_enumerate_Inr)
qed

text \<open>
  The four loops of \<open>index_model\<close> all collect declarations into one map of the index under a
  fresh identifier. \<open>accept\<close> is the condition a loop puts on a declaration; it may depend on
  the index, but not on the map being filled.
\<close>

locale collector =
  fixes step :: "'i \<Rightarrow> nat \<times> json \<Rightarrow> 'i res"
    and get :: "'i \<Rightarrow> members"
    and upd :: "members \<Rightarrow> 'i \<Rightarrow> 'i"
    and key :: "json \<Rightarrow> string"
    and accept :: "'i \<Rightarrow> json \<Rightarrow> bool"
  assumes get_upd: "get (upd m ix) = m"
    and upd_upd: "upd m (upd n ix) = upd m ix"
    and upd_get: "upd (get ix) ix = ix"
    and accept_upd: "accept (upd m ix) x = accept ix x"
    and step_accepts: "step ix (i, x) = Inr ix' \<longleftrightarrow>
      accept ix x \<and> map_of (get ix) (key x) = None \<and> ix' = upd (get ix @ [(key x, x)]) ix"
begin

lemma collect:
  "efold step ix (enumerate n xs) = Inr ix' \<longleftrightarrow>
     (\<forall>x \<in> set xs. accept ix x) \<and> distinct (map key xs) \<and>
     set (map key xs) \<inter> fst ` set (get ix) = {} \<and>
     ix' = upd (get ix @ map (\<lambda>x. (key x, x)) xs) ix"
proof (induction xs arbitrary: ix n)
  case Nil
  then show ?case by (auto simp: upd_get)
next
  case (Cons x xs)
  have m: "map_of (get ix) (key x) = None \<longleftrightarrow> key x \<notin> fst ` set (get ix)"
    by (simp add: map_of_eq_None_iff)
  show ?case
    by (auto simp: step_accepts Cons.IH get_upd upd_upd accept_upd m)
qed

end

definition wf_asset :: "(json \<Rightarrow> string res) \<Rightarrow> json \<Rightarrow> bool" where
  "wf_asset dump a \<longleftrightarrow>
     only_keys a [''id'', ''name'', ''kind'', ''aliases'', ''metadata''] \<and>
     has_ident a ''id'' \<and> has_text a ''name'' k_max_string \<and> has_text a ''kind'' k_max_string \<and>
     aliases_ok a \<and> metadata_ok dump a 4096"

definition wf_relationship :: "members \<Rightarrow> json \<Rightarrow> bool" where
  "wf_relationship assets r \<longleftrightarrow>
     only_keys r [''id'', ''from'', ''to'', ''kind'', ''metadata''] \<and>
     has_ident r ''id'' \<and> has_ident r ''from'' \<and> has_ident r ''to'' \<and> has_text r ''kind'' k_max_string \<and>
     map_of assets (sfld r ''from'') \<noteq> None \<and> map_of assets (sfld r ''to'') \<noteq> None \<and>
     sfld r ''from'' \<noteq> sfld r ''to''"

definition wf_source :: "json \<Rightarrow> bool" where
  "wf_source s \<longleftrightarrow>
     only_keys s [''server'', ''namespace_uri'', ''identifier''] \<and>
     has_text s ''server'' k_max_string \<and> has_text s ''namespace_uri'' k_max_string \<and>
     has_text s ''identifier'' k_max_string"

definition wf_unit :: "json \<Rightarrow> bool" where
  "wf_unit j \<longleftrightarrow> find_key j ''unit'' = Some (JStr (sfld j ''unit'')) \<and>
     length (sfld j ''unit'') \<le> k_max_string \<and> \<not> list_ex is_cntrl (sfld j ''unit'')"

definition wf_tag :: "members \<Rightarrow> json \<Rightarrow> bool" where
  "wf_tag assets t \<longleftrightarrow>
     only_keys t [''id'', ''asset_id'', ''name'', ''role'', ''data_type'', ''unit'', ''source'', ''metadata''] \<and>
     has_ident t ''id'' \<and> has_ident t ''asset_id'' \<and> has_text t ''name'' k_max_string \<and>
     has_text t ''role'' k_max_string \<and> has_text t ''data_type'' k_max_string \<and>
     lower (sfld t ''data_type'') \<in> set data_types \<and> wf_unit t \<and>
     (lower (sfld t ''role'') \<in> {''level'', ''flow''} \<longrightarrow> numeric_data_type (lower (sfld t ''data_type''))) \<and>
     contains t ''source'' \<and> wf_source (fld t ''source'') \<and>
     map_of assets (sfld t ''asset_id'') \<noteq> None"

definition wf_alarm :: "members \<Rightarrow> members \<Rightarrow> json \<Rightarrow> bool" where
  "wf_alarm assets tags a \<longleftrightarrow>
     only_keys a [''id'', ''asset_id'', ''name'', ''tag_id'', ''operator'', ''threshold'', ''severity'', ''metadata''] \<and>
     has_ident a ''id'' \<and> has_ident a ''asset_id'' \<and> has_ident a ''tag_id'' \<and>
     has_text a ''operator'' 8 \<and> has_text a ''severity'' 16 \<and> has_text a ''name'' k_max_string \<and>
     contains a ''threshold'' \<and> is_number (fld a ''threshold'') \<and>
     (\<exists>d. get_double (fld a ''threshold'') = Inr d \<and> isfinite d) \<and>
     map_of assets (sfld a ''asset_id'') \<noteq> None \<and>
     (\<exists>t. map_of tags (sfld a ''tag_id'') = Some t \<and>
        find_key t ''asset_id'' = Some (JStr (sfld a ''asset_id'')) \<and>
        (\<exists>dt. find_key t ''data_type'' = Some (JStr dt) \<and> numeric_data_type (lower dt))) \<and>
     sfld a ''operator'' \<in> set operators \<and> lower (sfld a ''severity'') \<in> set severities"

lemma emplace_new_Inr: "emplace_new what k v m = Inr m' \<longleftrightarrow> map_of m k = None \<and> m' = m @ [(k, v)]"
  by (auto simp: emplace_new_def)

lemma source_field_Inr:
  "source_field t w = Inr s \<longleftrightarrow> contains t ''source'' \<and> wf_source (fld t ''source'') \<and> s = fld t ''source''"
  by (auto simp: source_field_def allow_only_Inr string_field_has wf_source_def contains_def fld_def)

lemma unit_field_Inr: "unit_field t ''unit'' w = Inr u \<longleftrightarrow> wf_unit t"
proof (cases "find_key t ''unit''")
  case (Some v)
  then show ?thesis by (cases v) (auto simp: unit_field_def wf_unit_def sfld_def fld_def)
qed (simp add: unit_field_def wf_unit_def)

lemma has_text_find: "has_text j k mx \<Longrightarrow> find_key j k = Some (JStr (sfld j k))"
  by (simp add: has_text_def)

lemma index_asset_Inr:
  "index_asset dump ix (i, a) = Inr ix' \<longleftrightarrow>
     wf_asset dump a \<and> map_of (ix_assets ix) (sfld a ''id'') = None \<and>
     ix' = ix\<lparr>ix_assets := ix_assets ix @ [(sfld a ''id'', a)]\<rparr>"
  by (auto simp: index_asset_def Let_def allow_only_Inr identity_field_has string_field_has
      aliases_check_Inr metadata_check_Inr emplace_new_Inr wf_asset_def)

lemma index_relationship_Inr:
  "index_relationship ix (i, r) = Inr ix' \<longleftrightarrow>
     wf_relationship (ix_assets ix) r \<and> map_of (ix_relationships ix) (sfld r ''id'') = None \<and>
     ix' = ix\<lparr>ix_relationships := ix_relationships ix @ [(sfld r ''id'', r)]\<rparr>"
  by (simp add: index_relationship_def Let_def allow_only_Inr identity_field_has string_field_has
      emplace_new_Inr wf_relationship_def) blast

lemma index_tag_Inr:
  "index_tag ix (i, t) = Inr ix' \<longleftrightarrow>
     wf_tag (ix_assets ix) t \<and> map_of (ix_tags ix) (sfld t ''id'') = None \<and>
     ix' = ix\<lparr>ix_tags := ix_tags ix @ [(sfld t ''id'', t)]\<rparr>"
  by (simp add: index_tag_def Let_def allow_only_Inr identity_field_has string_field_has
      unit_field_Inr source_field_Inr emplace_new_Inr wf_tag_def has_text_find cong: conj_cong) blast

lemma index_alarm_Inr:
  "index_alarm ix (i, a) = Inr ix' \<longleftrightarrow>
     wf_alarm (ix_assets ix) (ix_tags ix) a \<and> map_of (ix_alarms ix) (sfld a ''id'') = None \<and>
     ix' = ix\<lparr>ix_alarms := ix_alarms ix @ [(sfld a ''id'', a)]\<rparr>"
proof (cases "find_key a ''threshold''")
  case None
  then show ?thesis
    by (simp add: index_alarm_def Let_def allow_only_Inr wf_alarm_def contains_def)
next
  case (Some th)
  then have "contains a ''threshold''" "fld a ''threshold'' = th"
    by (simp_all add: contains_def fld_def)
  with Some show ?thesis
    by (simp add: index_alarm_def Let_def allow_only_Inr identity_field_has string_field_has
        emplace_new_Inr wf_alarm_def cong: conj_cong) blast
qed

interpretation assets: collector "index_asset dump" ix_assets "\<lambda>m ix. ix\<lparr>ix_assets := m\<rparr>"
  "\<lambda>a. sfld a ''id''" "\<lambda>ix. wf_asset dump" for dump
  by unfold_locales (simp_all add: index_asset_Inr)

interpretation relationships: collector index_relationship ix_relationships
  "\<lambda>m ix. ix\<lparr>ix_relationships := m\<rparr>" "\<lambda>r. sfld r ''id''" "\<lambda>ix. wf_relationship (ix_assets ix)"
  by unfold_locales (simp_all add: index_relationship_Inr)

interpretation tags: collector index_tag ix_tags "\<lambda>m ix. ix\<lparr>ix_tags := m\<rparr>"
  "\<lambda>t. sfld t ''id''" "\<lambda>ix. wf_tag (ix_assets ix)"
  by unfold_locales (simp_all add: index_tag_Inr)

interpretation alarms: collector index_alarm ix_alarms "\<lambda>m ix. ix\<lparr>ix_alarms := m\<rparr>"
  "\<lambda>a. sfld a ''id''" "\<lambda>ix. wf_alarm (ix_assets ix) (ix_tags ix)"
  by unfold_locales (simp_all add: index_alarm_Inr)

section \<open>Properties\<close>

definition decls :: "json \<Rightarrow> string \<Rightarrow> json list" where
  "decls m key = elements_of (fld m key)"

definition keyed :: "json list \<Rightarrow> members" where
  "keyed xs = map (\<lambda>x. (sfld x ''id'', x)) xs"

definition optional_text :: "json \<Rightarrow> string \<Rightarrow> nat \<Rightarrow> bool" where
  "optional_text j k mx \<longleftrightarrow> (contains j k \<longrightarrow> has_text j k mx)"

definition array_upto :: "json \<Rightarrow> string \<Rightarrow> nat \<Rightarrow> bool" where
  "array_upto j k mx \<longleftrightarrow> contains j k \<and> is_array (fld j k) \<and> length (elements_of (fld j k)) \<le> mx"

definition wf_header :: "(json \<Rightarrow> string res) \<Rightarrow> json \<Rightarrow> bool" where
  "wf_header dump m \<longleftrightarrow>
     only_keys m model_fields \<and> has_ident m ''model_id'' \<and>
     (\<exists>rev w. find_key m ''revision'' = Some rev \<and> is_nonnegative_integer rev \<and>
        get_u64 rev = Inr w \<and> unat w < 2 ^ 32) \<and>
     has_text m ''name'' k_max_string \<and> optional_text m ''scenario_name'' k_max_string \<and>
     optional_text m ''description'' 2048 \<and> metadata_ok dump m (16 * 1024) \<and>
     array_upto m ''assets'' k_max_assets \<and> array_upto m ''relationships'' k_max_relationships \<and>
     array_upto m ''tags'' k_max_tags \<and> array_upto m ''alarms'' k_max_alarms"

definition wf_model :: "(json \<Rightarrow> string res) \<Rightarrow> json \<Rightarrow> bool" where
  "wf_model dump m \<longleftrightarrow>
     (let assets = keyed (decls m ''assets''); rels = keyed (decls m ''relationships'');
          tags = keyed (decls m ''tags''); alarms = keyed (decls m ''alarms'')
      in wf_header dump m \<and>
         distinct (map fst assets) \<and> distinct (map fst rels) \<and> distinct (map fst tags) \<and>
         distinct (map fst alarms) \<and>
         (\<forall>a \<in> set (decls m ''assets''). wf_asset dump a) \<and>
         (\<forall>r \<in> set (decls m ''relationships''). wf_relationship assets r) \<and>
         (\<forall>t \<in> set (decls m ''tags''). wf_tag assets t) \<and>
         (\<forall>a \<in> set (decls m ''alarms''). wf_alarm assets tags a))"

definition index_of :: "json \<Rightarrow> model_index" where
  "index_of m = \<lparr>ix_model = m, ix_assets = keyed (decls m ''assets''),
     ix_relationships = keyed (decls m ''relationships''), ix_tags = keyed (decls m ''tags''),
     ix_alarms = keyed (decls m ''alarms'')\<rparr>"

lemma optional_string_Inr: "optional_string j k w mx = Inr u \<longleftrightarrow> optional_text j k mx"
  by (simp add: optional_string_def optional_text_def string_field_has)

lemma bounded_array_Inr: "bounded_array j k w mx = Inr u \<longleftrightarrow> array_upto j k mx"
proof (cases "find_key j k")
  case (Some v)
  then show ?thesis
    by (cases v) (auto simp: bounded_array_def array_upto_def contains_def fld_def)
qed (simp add: bounded_array_def array_upto_def contains_def)

lemma model_header_Inr: "model_header dump m = Inr u \<longleftrightarrow> wf_header dump m"
proof (cases "find_key m ''revision''")
  case None
  then show ?thesis by (simp add: model_header_def wf_header_def contains_def)
next
  case (Some rev)
  have "(\<not> (case get_u64 rev of Inl x \<Rightarrow> True | Inr w \<Rightarrow> 2 ^ 32 - 1 < unat w)) =
      (\<exists>w. get_u64 rev = Inr w \<and> unat w < 2 ^ 32)"
    by (auto split: sum.splits)
  with Some show ?thesis
    by (simp add: model_header_def wf_header_def contains_def allow_only_Inr identity_field_has
        string_field_has optional_string_Inr bounded_array_Inr metadata_check_Inr)
qed

lemma map_fst_keyed: "map fst (keyed xs) = map (\<lambda>x. sfld x ''id'') xs"
  by (simp add: keyed_def)

lemma index_model_Inr: "index_model dump m = Inr ix \<longleftrightarrow> wf_model dump m \<and> ix = index_of m"
  unfolding index_model_def elements_at_def wf_model_def Let_def map_fst_keyed
  by (simp add: model_header_Inr assets.collect relationships.collect tags.collect alarms.collect
      index_of_def decls_def [symmetric] keyed_def [symmetric])
     blast

text \<open>
  C9. \<open>index_model\<close> accepts exactly the well-formed models (every field within its bounds,
  identifiers unique, references declared), and its index is then determined by the model: the
  declarations keyed by their identifiers, in document order.
\<close>

theorem model_accepted_iff_well_formed:
  "index_model dump m = Inr ix \<longleftrightarrow> wf_model dump m \<and> ix = index_of m"
  by (rule index_model_Inr)

lemma map_of_keyed:
  "map_of (keyed xs) k = Some x \<Longrightarrow> x \<in> set xs \<and> sfld x ''id'' = k"
  by (induction xs) (auto simp: keyed_def split: if_splits)

lemma in_keyed: "(k, x) \<in> set (keyed xs) \<longleftrightarrow> x \<in> set xs \<and> k = sfld x ''id''"
  by (auto simp: keyed_def)

lemma map_of_keyed_mem:
  "distinct (map fst (keyed xs)) \<Longrightarrow> x \<in> set xs \<Longrightarrow> map_of (keyed xs) (sfld x ''id'') = Some x"
  by (rule map_of_is_SomeI) (auto simp: keyed_def)

lemma wf_model_facts:
  assumes "wf_model dump m"
  shows "distinct (map fst (ix_assets (index_of m)))" "distinct (map fst (ix_relationships (index_of m)))"
    "distinct (map fst (ix_tags (index_of m)))" "distinct (map fst (ix_alarms (index_of m)))"
    "map_of (ix_assets (index_of m)) k = Some a \<Longrightarrow> wf_asset dump a \<and> sfld a ''id'' = k"
    "map_of (ix_relationships (index_of m)) k = Some r \<Longrightarrow>
       wf_relationship (ix_assets (index_of m)) r \<and> sfld r ''id'' = k"
    "map_of (ix_tags (index_of m)) k = Some t \<Longrightarrow> wf_tag (ix_assets (index_of m)) t \<and> sfld t ''id'' = k"
    "map_of (ix_alarms (index_of m)) k = Some al \<Longrightarrow>
       wf_alarm (ix_assets (index_of m)) (ix_tags (index_of m)) al \<and> sfld al ''id'' = k"
  using assms by (auto simp: wf_model_def Let_def index_of_def in_keyed)

text \<open>
  C10. In an accepted model every reference resolves inside the model: a relationship connects
  two different declared assets, a tag belongs to a declared asset, and an alarm names a
  declared tag that is numeric and belongs to the alarm's own asset; the numbers of
  declarations are within the limits.
\<close>

theorem model_references_resolve:
  assumes "index_model dump m = Inr ix"
  shows "(map_of (ix_relationships ix) r = Some rel \<longrightarrow>
      sfld rel ''from'' \<noteq> sfld rel ''to'' \<and>
      map_of (ix_assets ix) (sfld rel ''from'') \<noteq> None \<and> map_of (ix_assets ix) (sfld rel ''to'') \<noteq> None) \<and>
    (map_of (ix_tags ix) t = Some tag \<longrightarrow> map_of (ix_assets ix) (sfld tag ''asset_id'') \<noteq> None) \<and>
    (map_of (ix_alarms ix) a = Some alarm \<longrightarrow>
      (\<exists>owned. map_of (ix_tags ix) (sfld alarm ''tag_id'') = Some owned \<and>
         sfld owned ''asset_id'' = sfld alarm ''asset_id'' \<and>
         numeric_data_type (lower (sfld owned ''data_type'')))) \<and>
    length (ix_assets ix) \<le> 256 \<and> length (ix_relationships ix) \<le> 512 \<and>
    length (ix_tags ix) \<le> 2048 \<and> length (ix_alarms ix) \<le> 2048"
proof -
  have wf: "wf_model dump m" and ix: "ix = index_of m" using assms by (auto simp: index_model_Inr)
  note facts = wf_model_facts [OF wf, folded ix]
  have "length (ix_assets ix) \<le> 256 \<and> length (ix_relationships ix) \<le> 512 \<and>
      length (ix_tags ix) \<le> 2048 \<and> length (ix_alarms ix) \<le> 2048"
    using wf by (simp add: ix index_of_def wf_model_def Let_def wf_header_def array_upto_def
        keyed_def decls_def limits)
  moreover have "\<exists>owned. map_of (ix_tags ix) (sfld alarm ''tag_id'') = Some owned \<and>
      sfld owned ''asset_id'' = sfld alarm ''asset_id'' \<and>
      numeric_data_type (lower (sfld owned ''data_type''))"
    if "map_of (ix_alarms ix) a = Some alarm"
    using facts(8) [OF that] by (auto simp: wf_alarm_def sfld_eq)
  moreover have "sfld rel ''from'' \<noteq> sfld rel ''to'' \<and>
      map_of (ix_assets ix) (sfld rel ''from'') \<noteq> None \<and> map_of (ix_assets ix) (sfld rel ''to'') \<noteq> None"
    if "map_of (ix_relationships ix) r = Some rel"
    using facts(6) [OF that] by (simp add: wf_relationship_def)
  moreover have "map_of (ix_assets ix) (sfld tag ''asset_id'') \<noteq> None"
    if "map_of (ix_tags ix) t = Some tag"
    using facts(7) [OF that] by (simp add: wf_tag_def)
  ultimately show ?thesis by blast
qed

text \<open>A small model, used wherever an accepted model is needed as an example.\<close>

definition demo_asset :: json where
  "demo_asset = JObj [(''id'', JStr ''tank''), (''kind'', JStr ''tank''), (''name'', JStr ''Tank'')]"

definition demo_tag :: json where
  "demo_tag = JObj [(''asset_id'', JStr ''tank''), (''data_type'', JStr ''number''), (''id'', JStr ''lvl''),
     (''name'', JStr ''Level''), (''role'', JStr ''level''),
     (''source'', JObj [(''identifier'', JStr ''i''), (''namespace_uri'', JStr ''u''), (''server'', JStr ''s'')]),
     (''unit'', JStr ''m'')]"

definition demo_alarm :: json where
  "demo_alarm = JObj [(''asset_id'', JStr ''tank''), (''id'', JStr ''hi''), (''name'', JStr ''High''),
     (''operator'', JStr ''>''), (''severity'', JStr ''high''), (''tag_id'', JStr ''lvl''),
     (''threshold'', JUInt 5)]"

definition demo_model :: json where
  "demo_model = JObj [(''alarms'', JArr [demo_alarm]), (''assets'', JArr [demo_asset]),
     (''model_id'', JStr ''m''), (''name'', JStr ''M''), (''relationships'', JArr []),
     (''revision'', JUInt 1), (''tags'', JArr [demo_tag])]"

lemmas char_classes = is_cntrl_def is_alnum_def is_lower_def is_upper_def is_digit_def
  less_eq_char_def less_char_def

lemmas demo_simps = fld_def sfld_def char_classes limits ok_text_def has_text_def has_ident_def
  only_keys_def valid_identity_def lower_def to_lower_def contains_def

lemma demo_model_wf: "wf_model dump demo_model"
proof -
  have "wf_asset dump demo_asset"
    by (simp add: wf_asset_def demo_asset_def demo_simps aliases_ok_def metadata_ok_def)
  moreover have "wf_tag [(''tank'', demo_asset)] demo_tag"
    by (simp add: wf_tag_def demo_tag_def wf_source_def wf_unit_def demo_simps data_types_def
        numeric_data_type_def)
  moreover have "wf_alarm [(''tank'', demo_asset)] [(''lvl'', demo_tag)] demo_alarm"
    by (simp add: wf_alarm_def demo_alarm_def demo_tag_def demo_simps numeric_data_type_def
        operators_def severities_def)
  moreover have "wf_header dump demo_model"
    by (simp add: wf_header_def demo_model_def demo_simps model_fields_def metadata_ok_def
        array_upto_def optional_text_def is_nonnegative_integer_def)
  moreover have "keyed (decls demo_model ''assets'') = [(''tank'', demo_asset)]"
    "keyed (decls demo_model ''tags'') = [(''lvl'', demo_tag)]"
    "keyed (decls demo_model ''alarms'') = [(''hi'', demo_alarm)]"
    "keyed (decls demo_model ''relationships'') = []"
    "decls demo_model ''assets'' = [demo_asset]" "decls demo_model ''tags'' = [demo_tag]"
    "decls demo_model ''alarms'' = [demo_alarm]" "decls demo_model ''relationships'' = []"
    by (simp_all add: keyed_def decls_def demo_model_def demo_asset_def demo_tag_def demo_alarm_def
        fld_def sfld_def)
  ultimately show ?thesis by (simp add: wf_model_def)
qed

lemma demo_model_index: "index_model dump demo_model = Inr (index_of demo_model)"
  by (simp add: index_model_Inr demo_model_wf)

theorem model_references_resolve_witness:
  "\<exists>owned. map_of (ix_tags (index_of demo_model)) ''lvl'' = Some owned \<and>
     sfld owned ''asset_id'' = ''tank''"
proof -
  have "map_of (ix_alarms (index_of demo_model)) ''hi'' = Some demo_alarm"
    by (simp add: index_of_def keyed_def decls_def demo_model_def demo_alarm_def fld_def sfld_def)
  then show ?thesis
    using model_references_resolve [OF demo_model_index [of "\<lambda>_. Inr []"], of undefined undefined undefined
        undefined "''hi''" demo_alarm]
    by (auto simp: demo_alarm_def sfld_def fld_def)
qed

end
