(* ===== verification/Telemetry.thy ===== *)
theory Telemetry
  imports Model_Index
begin

text \<open>
  \<open>telemetry::Store\<close> (\<open>telemetry_store.cpp\<close>): current values supplied by external adapters.
  \<open>ingest\<close> validates a batch against the model without touching the store and commits it under
  the mutex, so it is one function of the store; the generation it is called with may have
  been overtaken by \<open>reconfigure\<close>, which is why the store's own generation is compared again.
  \<open>unix_time_ms()\<close> is the argument \<open>now\<close>.
\<close>

section \<open>State\<close>

record tstore =
  t_stale_after :: u64
  t_max_values :: nat
  t_values :: members
  t_sources :: "(string \<times> u64) list"
  t_generation :: u64
  t_accepted :: u64
  t_rejected :: u64
  t_accepted_values :: u64
  t_last_received :: u64

definition store_new :: "u64 \<Rightarrow> nat \<Rightarrow> tstore res" where
  "store_new stale_after max_values =
     (if stale_after < 100 \<or> stale_after > 300000
      then Inl (InvalidArgument ''telemetry stale interval is out of range'')
      else if max_values = 0 \<or> max_values > 4096
      then Inl (InvalidArgument ''telemetry value limit is out of range'')
      else Inr \<lparr>t_stale_after = stale_after, t_max_values = max_values, t_values = [],
                t_sources = [], t_generation = 0, t_accepted = 0, t_rejected = 0,
                t_accepted_values = 0, t_last_received = 0\<rparr>)"

definition invalid_telemetry :: "string \<Rightarrow> exn" where
  "invalid_telemetry details = DomainError ''invalid_telemetry'' details"

definition stale_context :: "string \<Rightarrow> exn" where
  "stale_context details = DomainError ''stale_context'' details"

section \<open>Validation of a batch\<close>

definition source_identity :: "string \<Rightarrow> bool" where
  "source_identity v \<longleftrightarrow>
     \<not> (v = [] \<or> length v > 128) \<and>
     list_all (\<lambda>c. is_lower c \<or> is_upper c \<or> is_digit c \<or> c = CHR ''_'' \<or> c = CHR ''-'' \<or> c = CHR ''.'') v"

definition require_fields :: "json \<Rightarrow> string list \<Rightarrow> string \<Rightarrow> unit res" where
  "require_fields object allowd location =
     (if \<not> is_object object then Inl (invalid_telemetry (location @ '' must be an object''))
      else echeck (\<lambda>(k, v).
             throw_if (\<not> list_ex (\<lambda>name. k = name) allowd)
               (invalid_telemetry (location @ '' contains unsupported field '' @ quoted k)))
           (json_items object))"

definition numeric_type :: "string \<Rightarrow> bool" where
  "numeric_type t \<longleftrightarrow> t = ''number'' \<or> t = ''float'' \<or> t = ''double'' \<or> t = ''integer''"

definition qualities :: "string list" where
  "qualities = [''good'', ''uncertain'', ''bad'', ''unknown'']"

definition finite_number :: "json \<Rightarrow> bool" where
  "finite_number v \<longleftrightarrow> is_number v \<and> (case get_double v of Inr d \<Rightarrow> isfinite d | Inl _ \<Rightarrow> False)"

definition value_matches :: "string \<Rightarrow> json \<Rightarrow> string \<Rightarrow> unit res" where
  "value_matches type v location =
     (if numeric_type type
      then throw_if (\<not> finite_number v \<or>
               (type = ''integer'' \<and> \<not> is_number_integer v \<and> \<not> is_number_unsigned v))
             (invalid_telemetry (location @ ''.value does not match numeric tag type''))
      else if type = ''boolean'' \<or> type = ''bool''
      then throw_if (\<not> is_boolean v)
             (invalid_telemetry (location @ ''.value does not match boolean tag type''))
      else throw_if (\<not> is_string v \<or> length (str_of v) > 2048)
             (invalid_telemetry (location @ ''.value does not match bounded string tag type'')))"

definition validate_value :: "json \<Rightarrow> json \<Rightarrow> string \<Rightarrow> unit res" where
  "validate_value sample tag location =
     ethen (require_fields sample [''value'', ''quality'', ''timestamp_ms''] location)
     (if \<not> contains sample ''value'' \<or> \<not> contains sample ''quality'' \<or>
         \<not> contains sample ''timestamp_ms''
      then Inl (invalid_telemetry (location @ '' requires value, quality and timestamp_ms''))
      else ebind (json_at sample ''quality'') (\<lambda>quality.
        if \<not> is_string quality
        then Inl (invalid_telemetry (location @ ''.quality must be a string''))
        else if str_of quality \<notin> set qualities
        then Inl (invalid_telemetry (location @ ''.quality is unsupported''))
        else ebind (json_at sample ''timestamp_ms'') (\<lambda>ts.
          if \<not> is_number_unsigned ts
          then Inl (invalid_telemetry (location @ ''.timestamp_ms must be an unsigned integer''))
          else ebind (string_at tag ''data_type'') (\<lambda>type.
               ebind (json_at sample ''value'') (\<lambda>v. value_matches type v location)))))"

definition tags_by_id :: "json \<Rightarrow> members res" where
  "tags_by_id model =
     ebind (json_at model ''tags'') (\<lambda>tags.
       efold (\<lambda>m tag. ebind (string_at tag ''id'') (\<lambda>k.
         Inr (if map_of m k = None then m @ [(k, tag)] else m))) [] (elements_of tags))"

definition identity_current :: "json \<Rightarrow> u64 \<Rightarrow> json \<Rightarrow> bool" where
  "identity_current model generation batch \<longleftrightarrow>
     \<not> (\<not> contains batch ''model_id'' \<or> \<not> is_string (fld batch ''model_id'') \<or>
        \<not> jeq (fld batch ''model_id'') (fld model ''model_id'') \<or>
        \<not> contains batch ''model_revision'' \<or> \<not> is_number_unsigned (fld batch ''model_revision'') \<or>
        \<not> jeq (fld batch ''model_revision'') (fld model ''revision'') \<or>
        \<not> contains batch ''context_generation'' \<or>
        \<not> is_number_unsigned (fld batch ''context_generation'') \<or>
        get_u64 (fld batch ''context_generation'') \<noteq> Inr generation)"

definition batch_fields :: "string list" where
  "batch_fields = [''schema_version'', ''model_id'', ''model_revision'', ''context_generation'',
     ''source_id'', ''sequence'', ''values'']"

definition stale_identity :: exn where
  "stale_identity = stale_context ''telemetry identity, revision or generation is not current''"

definition check_batch ::
  "(json \<Rightarrow> string res) \<Rightarrow> nat \<Rightarrow> json \<Rightarrow> u64 \<Rightarrow> json \<Rightarrow> unit res" where
  "check_batch dump max_values model generation batch =
     ebind (validate_model dump model) (\<lambda>_.
     ethen (require_fields batch batch_fields ''telemetry'')
     (if json_size batch \<noteq> 7 then Inl stale_identity
      else ebind (value_string batch ''schema_version'' []) (\<lambda>schema.
        if schema \<noteq> ''context-hmi-telemetry/1'' \<or> \<not> identity_current model generation batch
        then Inl stale_identity
        else if \<not> contains batch ''source_id'' \<or> \<not> is_string (fld batch ''source_id'') \<or>
                \<not> source_identity (sfld batch ''source_id'')
        then Inl (invalid_telemetry ''telemetry.source_id is invalid'')
        else if \<not> contains batch ''sequence'' \<or> \<not> is_number_unsigned (fld batch ''sequence'')
        then Inl (invalid_telemetry ''telemetry.sequence must be an unsigned integer'')
        else if \<not> contains batch ''values'' \<or> \<not> is_object (fld batch ''values'') \<or>
                json_empty (fld batch ''values'') \<or> json_size (fld batch ''values'') > max_values
        then Inl (invalid_telemetry ''telemetry.values exceeds the configured bounded value count'')
        else ebind (tags_by_id model) (\<lambda>tags.
          echeck (\<lambda>(k, sample).
            case map_of tags k of
              None \<Rightarrow> Inl (invalid_telemetry
                (''telemetry value references undeclared tag '' @ quoted k))
            | Some tag \<Rightarrow> validate_value sample tag (''telemetry.values.'' @ k))
            (json_items (fld batch ''values''))))))"

section \<open>Ingest\<close>

definition stamp :: "u64 \<Rightarrow> string \<Rightarrow> u64 \<Rightarrow> json \<Rightarrow> json" where
  "stamp received source_id sequence sample =
     oset (oset (oset sample ''received_timestamp_ms'' (JUInt received))
       ''source_id'' (JStr source_id)) ''sequence'' (JUInt sequence)"

definition commit_batch :: "u64 \<Rightarrow> u64 \<Rightarrow> json \<Rightarrow> tstore \<Rightarrow> json res \<times> tstore" where
  "commit_batch now generation batch s =
     (let source_id = sfld batch ''source_id'';
          sequence = (case get_u64 (fld batch ''sequence'') of Inr w \<Rightarrow> w | Inl _ \<Rightarrow> 0);
          samples = json_items (fld batch ''values'')
      in if t_generation s \<noteq> generation
         then (Inl (stale_context ''machine context changed before telemetry commit''), s)
         else if (case map_of (t_sources s) source_id of None \<Rightarrow> False
                  | Some previous \<Rightarrow> sequence \<le> previous)
         then (Inl (DomainError ''telemetry_out_of_order''
                 ''telemetry sequence did not advance for this source''), s)
         else
           (Inr (jobj [(''accepted'', JBool True), (''source_id'', JStr source_id),
                       (''sequence'', JUInt sequence),
                       (''value_count'', JUInt (of_nat (length samples))),
                       (''context_generation'', JUInt generation),
                       (''received_timestamp_ms'', JUInt now)]),
            s\<lparr>t_values := fold (\<lambda>(k, sample) m. mset_key k (stamp now source_id sequence sample) m)
                 samples (t_values s),
              t_sources := mset_key source_id sequence (t_sources s),
              t_accepted := t_accepted s + 1,
              t_accepted_values := t_accepted_values s + of_nat (length samples),
              t_last_received := now\<rparr>))"

definition ingest ::
  "(json \<Rightarrow> string res) \<Rightarrow> u64 \<Rightarrow> json \<Rightarrow> u64 \<Rightarrow> json \<Rightarrow> tstore \<Rightarrow> json res \<times> tstore" where
  "ingest dump now model generation batch s =
     (case (case check_batch dump (t_max_values s) model generation batch of
              Inl e \<Rightarrow> (Inl e, s)
            | Inr _ \<Rightarrow> commit_batch now generation batch s) of
        (Inl e, s') \<Rightarrow> (Inl e, s'\<lparr>t_rejected := t_rejected s' + 1\<rparr>)
      | (Inr r, s') \<Rightarrow> (Inr r, s'))"

section \<open>Snapshot\<close>

definition dle :: "double \<Rightarrow> double \<Rightarrow> bool" where
  "dle a b \<longleftrightarrow> dlt a b \<or> deq a b"

definition compare_value :: "double \<Rightarrow> string \<Rightarrow> double \<Rightarrow> bool" where
  "compare_value v operation threshold =
     (if operation = ''>'' then dlt threshold v
      else if operation = ''>='' then dle threshold v
      else if operation = ''<'' then dlt v threshold
      else if operation = ''<='' then dle v threshold
      else if operation = ''=='' then deq v threshold
      else \<not> deq v threshold)"


record tally =
  y_values :: members
  y_good :: nat
  y_stale :: nat
  y_unavailable :: nat

definition unknown_sample :: "json \<Rightarrow> json" where
  "unknown_sample unt =
     jobj [(''value'', JNull), (''quality'', JStr ''unknown''), (''unit'', unt),
           (''timestamp_ms'', JNull), (''age_ms'', JNull)]"

definition snapshot_tag :: "tstore \<Rightarrow> u64 \<Rightarrow> u64 \<Rightarrow> tally \<Rightarrow> json \<Rightarrow> tally res" where
  "snapshot_tag s generation now y tag =
     ebind (string_at tag ''id'') (\<lambda>k.
     case (if t_generation s \<noteq> generation then None else map_of (t_values s) k) of
       None \<Rightarrow>
         ebind (json_at tag ''unit'') (\<lambda>unt.
         Inr (y\<lparr>y_values := mset_key k (unknown_sample unt) (y_values y),
                y_unavailable := y_unavailable y + 1\<rparr>))
     | Some found \<Rightarrow>
         ebind (json_at found ''received_timestamp_ms'') (\<lambda>rv.
         ebind (get_u64 rv) (\<lambda>received.
         let age = now - min now received
         in ebind (json_at tag ''unit'') (\<lambda>unt.
         let sample = oset (oset found ''age_ms'' (JUInt age)) ''unit'' unt
         in ebind (value_string sample ''quality'' ''unknown'') (\<lambda>q.
         let sample = (if age > t_stale_after s \<and> q = ''good''
                       then oset sample ''quality'' (JStr ''stale'') else sample)
         in ebind (value_string sample ''quality'' ''unknown'') (\<lambda>q.
         let y = y\<lparr>y_values := mset_key k sample (y_values y)\<rparr>
         in Inr (if q = ''good'' then y\<lparr>y_good := y_good y + 1\<rparr>
                 else if q = ''stale'' then y\<lparr>y_stale := y_stale y + 1\<rparr>
                 else y\<lparr>y_unavailable := y_unavailable y + 1\<rparr>)))))))"

definition overall_quality :: "tally \<Rightarrow> string" where
  "overall_quality y =
     (if y_good y > 0 \<and> y_stale y = 0 \<and> y_unavailable y = 0 then ''good''
      else if y_good y > 0 then ''partial''
      else if y_stale y > 0 then ''stale''
      else ''unknown'')"

definition snapshot_alarm :: "members \<Rightarrow> json \<Rightarrow> json res" where
  "snapshot_alarm values alarm =
     ebind (string_at alarm ''tag_id'') (\<lambda>tag_id.
     ebind (json_at (JObj values) tag_id) (\<lambda>sample.
     ebind (json_at sample ''value'') (\<lambda>v.
     ebind (if is_number v then value_string sample ''quality'' ''unknown'' else Inr ''unknown'') (\<lambda>q.
     let available = is_number v \<and> q \<noteq> ''bad'' \<and> q \<noteq> ''unknown''
     in ebind (if available then get_double v else Inr (Fin 0)) (\<lambda>d.
     ebind (if available
            then ebind (string_at alarm ''operator'') (\<lambda>op.
                 ebind (json_at alarm ''threshold'') (\<lambda>tv.
                 ebind (get_double tv) (\<lambda>threshold.
                 Inr (compare_value d op threshold))))
            else Inr False) (\<lambda>active.
     ebind (copy_members alarm [(''id'', ''id''), (''alarm_id'', ''id''), (''asset_id'', ''asset_id''),
         (''name'', ''name''), (''severity'', ''severity''), (''threshold'', ''threshold'')]) (\<lambda>ms.
     Inr (jobj (ms @ [(''active'', JBool active), (''available'', JBool available),
                      (''tag_id'', JStr tag_id),
                      (''value'', if available then JFloat d else JNull)])))))))))"

definition snapshot ::
  "(json \<Rightarrow> string res) \<Rightarrow> u64 \<Rightarrow> json \<Rightarrow> u64 \<Rightarrow> string \<Rightarrow> tstore \<Rightarrow> json res" where
  "snapshot dump now model generation session_id s =
     ebind (validate_model dump model) (\<lambda>_.
     ebind (copy_members model [(''model_id'', ''model_id''), (''model_revision'', ''revision'')]) (\<lambda>ms.
     ebind (json_at model ''tags'') (\<lambda>tags.
     ebind (efold (snapshot_tag s generation now)
        \<lparr>y_values = [], y_good = 0, y_stale = 0, y_unavailable = 0\<rparr> (elements_of tags)) (\<lambda>y.
     ebind (json_at model ''alarms'') (\<lambda>alarms.
     ebind (emap (snapshot_alarm (y_values y)) (elements_of alarms)) (\<lambda>as.
     Inr (jobj (ms @ [(''schema_version'', JStr ''context-hmi-telemetry/1''),
                      (''context_generation'', JUInt generation), (''session_id'', JStr session_id),
                      (''quality'', JStr (overall_quality y)),
                      (''values'', JObj (y_values y)), (''alarms'', JArr as)]))))))))"

section \<open>Reconfiguration and reports\<close>

definition reconfigure :: "u64 \<Rightarrow> tstore \<Rightarrow> tstore" where
  "reconfigure generation s =
     s\<lparr>t_values := [], t_sources := [], t_generation := generation, t_last_received := 0\<rparr>"

definition readiness :: "u64 \<Rightarrow> tstore \<Rightarrow> json" where
  "readiness generation s =
     (let current = (t_generation s = generation);
          received = (current \<and> t_last_received s \<noteq> 0)
      in jobj [(''kind'', JStr ''telemetry-ingestion''), (''ready'', JBool received),
               (''reason'', JStr (if received then ''current data received''
                                  else ''waiting for current telemetry'')),
               (''current_values'', JUInt (if received then of_nat (length (t_values s)) else 0))])"

definition metrics :: "tstore \<Rightarrow> json" where
  "metrics s =
     jobj [(''kind'', JStr ''telemetry-ingestion''), (''context_generation'', JUInt (t_generation s)),
           (''current_values'', JUInt (of_nat (length (t_values s)))),
           (''sources'', JUInt (of_nat (length (t_sources s)))),
           (''accepted_batches'', JUInt (t_accepted s)), (''rejected_batches'', JUInt (t_rejected s)),
           (''accepted_values'', JUInt (t_accepted_values s)),
           (''last_received_timestamp_ms'', JUInt (t_last_received s)),
           (''stale_after_ms'', JUInt (t_stale_after s)),
           (''maximum_values_per_batch'', JUInt (of_nat (t_max_values s)))]"

section \<open>Invariant\<close>

text \<open>A stored sample is a validated sample with its stamp; its source has reached its sequence.\<close>

definition sample_ok :: "json \<Rightarrow> bool" where
  "sample_ok v \<longleftrightarrow>
     is_object v \<and> (\<exists>x. find_key v ''value'' = Some x) \<and>
     (\<exists>q \<in> set qualities. find_key v ''quality'' = Some (JStr q)) \<and>
     (\<exists>t. find_key v ''received_timestamp_ms'' = Some (JUInt t))"

definition stamped_by :: "(string \<times> u64) list \<Rightarrow> json \<Rightarrow> bool" where
  "stamped_by sources v \<longleftrightarrow>
     (\<exists>src n latest. find_key v ''source_id'' = Some (JStr src) \<and>
        find_key v ''sequence'' = Some (JUInt n) \<and> map_of sources src = Some latest \<and> n \<le> latest)"

definition store_ok :: "tstore \<Rightarrow> bool" where
  "store_ok s \<longleftrightarrow> (\<forall>k v. map_of (t_values s) k = Some v \<longrightarrow> sample_ok v \<and> stamped_by (t_sources s) v)"

lemma require_fields_Inr: "require_fields j names w = Inr u \<longleftrightarrow> only_keys j names"
proof -
  have "list_ex ((=) k) names \<longleftrightarrow> k \<in> set names" for k by (auto simp: list_ex_iff)
  then show ?thesis
    by (cases j) (auto simp: require_fields_def only_keys_def json_items_def)
qed

lemma validate_value_Inr:
  "validate_value sample tag w = Inr u \<Longrightarrow>
     is_object sample \<and> (\<exists>x. find_key sample ''value'' = Some x) \<and>
     (\<exists>q \<in> set qualities. find_key sample ''quality'' = Some (JStr q))"
  by (auto simp: validate_value_def require_fields_Inr only_keys_def contains_def is_string_iff)

lemma check_batch_samples:
  assumes "check_batch dump mx m g b = Inr u" and "(k, v) \<in> set (json_items (fld b ''values''))"
  shows "\<exists>tag tags. tags_by_id m = Inr tags \<and> map_of tags k = Some tag \<and>
    validate_value v tag (''telemetry.values.'' @ k) = Inr ()"
  using assms by (auto simp: check_batch_def)

lemma check_batch_fields:
  assumes "check_batch dump mx m g b = Inr u"
  shows "is_object (fld b ''values'')" and "length (members_of (fld b ''values'')) \<le> mx"
    and "\<exists>src. find_key b ''source_id'' = Some (JStr src)"
    and "\<exists>w. find_key b ''sequence'' = Some (JUInt w)"
    and "is_string (fld b ''model_id'')" and "jeq (fld b ''model_id'') (fld m ''model_id'')"
    and "jeq (fld b ''model_revision'') (fld m ''revision'')"
    and "get_u64 (fld b ''context_generation'') = Inr g"
  using assms
  by (auto simp: check_batch_def identity_current_def contains_def json_kind_iffs fld_def json_empty_def
      split: option.splits)

lemma fold_mset_key_lookup:
  "distinct (map fst kvs) \<Longrightarrow>
     map_of (fold (\<lambda>(k, v) m. mset_key k (f v) m) kvs m) x =
       (case map_of kvs x of Some v \<Rightarrow> Some (f v) | None \<Rightarrow> map_of m x)"
proof (induction kvs arbitrary: m)
  case (Cons kv kvs)
  obtain k v where "kv = (k, v)" by (cases kv)
  moreover from this have "map_of kvs k = None"
    using Cons.prems by (simp add: map_of_eq_None_iff)
  ultimately show ?case
    using Cons by (cases "x = k") (simp_all add: map_of_mset_key split: option.splits)
qed simp

lemma fold_mset_key_sources:
  "map_of (fold (\<lambda>(k, v) m. mset_key k (f v) m) kvs m) x = Some w \<Longrightarrow>
     (\<exists>v. (x, v) \<in> set kvs \<and> w = f v) \<or> map_of m x = Some w"
proof (induction kvs arbitrary: m)
  case (Cons kv kvs)
  obtain k v where kv: "kv = (k, v)" by (cases kv)
  from Cons.IH [of "mset_key k (f v) m"] Cons.prems kv show ?case
    by (auto simp: map_of_mset_key split: if_splits)
qed simp

lemma sample_ok_stamp:
  assumes "is_object v" and "find_key v ''value'' = Some x" and "q \<in> set qualities"
    and "find_key v ''quality'' = Some (JStr q)"
  shows "sample_ok (stamp now src n v)"
  using assms by (auto simp: sample_ok_def stamp_def)

lemma ingest_cases:
  assumes "ingest dump now m g b s = (r, s')"
  obtains (rejected) e where "r = Inl e" "s' = s\<lparr>t_rejected := t_rejected s + 1\<rparr>"
  | (accepted) src n ans where "check_batch dump (t_max_values s) m g b = Inr ()"
      "find_key b ''source_id'' = Some (JStr src)" "find_key b ''sequence'' = Some (JUInt n)"
      "t_generation s = g" "\<forall>previous. map_of (t_sources s) src = Some previous \<longrightarrow> previous < n"
      "r = Inr ans"
      "s' = s\<lparr>t_values := fold (\<lambda>(k, sample) m. mset_key k (stamp now src n sample) m)
                 (members_of (fld b ''values'')) (t_values s),
              t_sources := mset_key src n (t_sources s),
              t_accepted := t_accepted s + 1,
              t_accepted_values := t_accepted_values s + of_nat (length (members_of (fld b ''values''))),
              t_last_received := now\<rparr>"
proof (cases "check_batch dump (t_max_values s) m g b")
  case (Inl e)
  with assms show ?thesis by (intro rejected [of e]) (auto simp: ingest_def)
next
  case (Inr u)
  from check_batch_fields [OF Inr] obtain src n where f: "find_key b ''source_id'' = Some (JStr src)"
    "find_key b ''sequence'' = Some (JUInt n)" and o: "is_object (fld b ''values'')" by blast
  have src: "sfld b ''source_id'' = src" "fld b ''sequence'' = JUInt n"
    and it: "json_items (fld b ''values'') = members_of (fld b ''values'')"
    using f o by (auto simp: sfld_def fld_def json_items_def is_object_iff)
  have order: "(case map_of (t_sources s) src of None \<Rightarrow> False | Some previous \<Rightarrow> n \<le> previous) \<longleftrightarrow>
      \<not> (\<forall>previous. map_of (t_sources s) src = Some previous \<longrightarrow> previous < n)"
    by (auto simp: not_less split: option.splits)
  show ?thesis
  proof (cases "t_generation s = g \<and> (\<forall>previous. map_of (t_sources s) src = Some previous \<longrightarrow> previous < n)")
    case True
    with assms Inr f show ?thesis
      by (intro accepted) (auto simp: ingest_def commit_batch_def Let_def src it order)
  next
    case False
    with assms Inr show ?thesis
      by (intro rejected [of "projl r"])
        (auto simp: ingest_def commit_batch_def Let_def src it order split: if_splits)
  qed
qed

section \<open>Runs\<close>

text \<open>The operations that change the store, with the machine state each caller passes.\<close>

datatype top = Ingest u64 json u64 json | Reconfigure u64

fun top_step :: "(json \<Rightarrow> string res) \<Rightarrow> top \<Rightarrow> tstore \<Rightarrow> tstore" where
  "top_step dump (Ingest now m g b) s = snd (ingest dump now m g b s)"
| "top_step dump (Reconfigure g) s = reconfigure g s"

fun top_run :: "(json \<Rightarrow> string res) \<Rightarrow> top list \<Rightarrow> tstore \<Rightarrow> tstore" where
  "top_run dump [] s = s"
| "top_run dump (e # es) s = top_run dump es (top_step dump e s)"

lemma stamped_by_mono:
  assumes "stamped_by sources v" and "\<forall>w. map_of sources src = Some w \<longrightarrow> w < n"
  shows "stamped_by (mset_key src n sources) v"
proof -
  from assms(1) obtain s k latest where v: "find_key v ''source_id'' = Some (JStr s)"
    "find_key v ''sequence'' = Some (JUInt k)" "map_of sources s = Some latest" "k \<le> latest"
    by (auto simp: stamped_by_def)
  show ?thesis
  proof (cases "s = src")
    case True
    with v assms(2) have "k \<le> n" by auto
    with v True show ?thesis by (auto simp: stamped_by_def map_of_mset_key)
  next
    case False
    with v show ?thesis by (auto simp: stamped_by_def map_of_mset_key)
  qed
qed

lemma ingest_store_ok:
  assumes "store_ok s" and "ingest dump now m g b s = (r, s')"
  shows "store_ok s'"
  using assms(2)
proof (cases rule: ingest_cases)
  case (rejected e)
  with assms(1) show ?thesis by (simp add: store_ok_def)
next
  case (accepted src n ans)
  have "sample_ok v \<and> stamped_by (t_sources s') v" if kv: "map_of (t_values s') k = Some v" for k v
  proof -
    from kv have "map_of (fold (\<lambda>(k, sample) m. mset_key k (stamp now src n sample) m)
        (members_of (fld b ''values'')) (t_values s)) k = Some v" by (simp add: accepted)
    then consider sample where "(k, sample) \<in> set (members_of (fld b ''values''))" "v = stamp now src n sample"
      | "map_of (t_values s) k = Some v"
      by (auto dest!: fold_mset_key_sources)
    then show ?thesis
    proof cases
      case 1
      have "(k, sample) \<in> set (json_items (fld b ''values''))"
        using 1(1) check_batch_fields(1) [OF accepted(1)] by (auto simp: json_items_def is_object_iff)
      from check_batch_samples [OF accepted(1) this] obtain tag where
        "validate_value sample tag (''telemetry.values.'' @ k) = Inr ()" by blast
      from validate_value_Inr [OF this] have "sample_ok v"
        unfolding 1(2) by (blast intro: sample_ok_stamp)
      moreover have "stamped_by (t_sources s') v"
        by (simp add: 1(2) stamped_by_def stamp_def accepted map_of_mset_key)
      ultimately show ?thesis ..
    next
      case 2
      then have v: "sample_ok v" "stamped_by (t_sources s) v"
        using assms(1) by (auto simp: store_ok_def)
      have "stamped_by (mset_key src n (t_sources s)) v"
        by (rule stamped_by_mono [OF v(2)]) (use accepted(5) in blast)
      with v(1) show ?thesis by (simp add: accepted)
    qed
  qed
  then show ?thesis by (simp add: store_ok_def)
qed

lemma top_run_ok: "store_ok s \<Longrightarrow> store_ok (top_run dump es s)"
proof (induction es arbitrary: s)
  case (Cons e es)
  have "store_ok (top_step dump e s)"
  proof (cases e)
    case (Ingest now m g b)
    obtain r s' where "ingest dump now m g b s = (r, s')" by (cases "ingest dump now m g b s")
    with ingest_store_ok [OF Cons.prems this] Ingest show ?thesis by simp
  next
    case (Reconfigure g)
    then show ?thesis by (simp add: reconfigure_def store_ok_def)
  qed
  then show ?case by (simp add: Cons.IH)
qed simp

lemma store_new_ok: "store_new a n = Inr s \<Longrightarrow> store_ok s"
  by (auto simp: store_new_def store_ok_def)

text \<open>The batches accepted since the last reconfiguration, newest last.\<close>

fun accepted_log :: "(json \<Rightarrow> string res) \<Rightarrow> top list \<Rightarrow> tstore \<Rightarrow> (string \<times> u64) list \<Rightarrow> (string \<times> u64) list" where
  "accepted_log dump [] s hist = hist"
| "accepted_log dump (e # es) s hist =
     accepted_log dump es (top_step dump e s)
       (case e of
          Reconfigure g \<Rightarrow> []
        | Ingest now m g b \<Rightarrow>
            (case ingest dump now m g b s of
               (Inl _, _) \<Rightarrow> hist
             | (Inr _, _) \<Rightarrow> hist @ [(sfld b ''source_id'',
                 case fld b ''sequence'' of JUInt w \<Rightarrow> w | _ \<Rightarrow> 0)]))"

definition log_ok :: "(string \<times> u64) list \<Rightarrow> (string \<times> u64) list \<Rightarrow> bool" where
  "log_ok hist sources \<longleftrightarrow>
     (\<forall>src. sorted_wrt (<) (map snd (filter (\<lambda>(x, n). x = src) hist)) \<and>
        map_of sources src =
          (let ns = map snd (filter (\<lambda>(x, n). x = src) hist) in if ns = [] then None else Some (last ns)))"

lemma sorted_snoc: "sorted_wrt (<) ns \<Longrightarrow> ns = [] \<or> last ns < n \<Longrightarrow> sorted_wrt (<) (ns @ [n])"
  for n :: "'a :: order"
proof (induction ns)
  case (Cons x xs)
  then show ?case
  proof (cases "xs = []")
    case False
    then have "last xs \<in> set xs" by simp
    with Cons False have "x < last xs" "last xs < n" by auto
    then have "x < n" by (rule less_trans)
    with Cons False show ?thesis by (simp add: sorted_wrt_append)
  qed simp
qed simp

lemma log_ok_snoc:
  assumes "log_ok hist sources" and "\<forall>w. map_of sources src = Some w \<longrightarrow> w < n"
  shows "log_ok (hist @ [(src, n)]) (mset_key src n sources)"
  unfolding log_ok_def
proof
  fix x
  let ?ns = "map snd (filter (\<lambda>(y, n). y = x) hist)"
  have l: "sorted_wrt (<) ?ns" "map_of sources x = (if ?ns = [] then None else Some (last ?ns))"
    using assms(1) by (simp_all add: log_ok_def Let_def)
  show "sorted_wrt (<) (map snd (filter (\<lambda>(y, n). y = x) (hist @ [(src, n)]))) \<and>
      map_of (mset_key src n sources) x =
        (let ns = map snd (filter (\<lambda>(y, n). y = x) (hist @ [(src, n)])) in if ns = [] then None else Some (last ns))"
  proof (cases "x = src")
    case True
    then have "?ns = [] \<or> last ?ns < n" using l(2) assms(2) by (auto split: if_splits)
    from sorted_snoc [OF l(1) this] True show ?thesis by (simp add: map_of_mset_key)
  next
    case False
    with l show ?thesis by (simp add: map_of_mset_key Let_def)
  qed
qed

lemma accepted_log_ok:
  "log_ok hist (t_sources s) \<Longrightarrow> log_ok (accepted_log dump es s hist) (t_sources (top_run dump es s))"
proof (induction es arbitrary: s hist)
  case (Cons e es)
  show ?case
  proof (cases e)
    case (Reconfigure g)
    then show ?thesis using Cons.IH [of "[]" "reconfigure g s"] by (simp add: log_ok_def reconfigure_def)
  next
    case (Ingest now m g b)
    obtain r s' where i: "ingest dump now m g b s = (r, s')" by (cases "ingest dump now m g b s")
    then show ?thesis
    proof (cases rule: ingest_cases)
      case (rejected x)
      then show ?thesis using Cons Ingest i by simp
    next
      case (accepted src n ans)
      then have "log_ok (hist @ [(src, n)]) (t_sources s')"
        using log_ok_snoc [OF Cons.prems] by simp
      from Cons.IH [OF this] accepted show ?thesis using Ingest i
        by (simp add: sfld_eq fld_eq)
    qed
  qed
qed simp

section \<open>Properties\<close>

text \<open>
  C11. A batch is all or nothing. If \<open>ingest\<close> throws, the store is unchanged except for the
  count of rejected batches. If it accepts, the batch names the current model, revision and
  generation, its sequence number is above the one recorded for its source, and afterwards every
  sample of the batch is stored with its stamp, every other value is as before, and the source,
  the counters and the time are updated. (A JSON object has each key once.)
\<close>

theorem telemetry_ingest_atomic:
  assumes "ingest dump now m g b s = (r, s')" and "distinct (map fst (members_of (fld b ''values'')))"
  shows "(case r of
      Inl e \<Rightarrow> s' = s\<lparr>t_rejected := t_rejected s + 1\<rparr>
    | Inr ans \<Rightarrow>
        (\<exists>src n. find_key b ''source_id'' = Some (JStr src) \<and> find_key b ''sequence'' = Some (JUInt n) \<and>
           jeq (fld b ''model_id'') (fld m ''model_id'') \<and> jeq (fld b ''model_revision'') (fld m ''revision'') \<and>
           get_u64 (fld b ''context_generation'') = Inr g \<and> t_generation s = g \<and>
           (case map_of (t_sources s) src of None \<Rightarrow> True | Some previous \<Rightarrow> previous < n) \<and>
           map_of (t_sources s') = (map_of (t_sources s))(src \<mapsto> n) \<and>
           map_of (t_values s') = (\<lambda>k. case find_key (fld b ''values'') k of
              Some sample \<Rightarrow> Some (stamp now src n sample) | None \<Rightarrow> map_of (t_values s) k) \<and>
           t_generation s' = g \<and> t_accepted s' = t_accepted s + 1 \<and> t_rejected s' = t_rejected s \<and>
           t_accepted_values s' = t_accepted_values s + of_nat (length (members_of (fld b ''values''))) \<and>
           t_last_received s' = now))"
  using assms(1)
proof (cases rule: ingest_cases)
  case (rejected e)
  then show ?thesis by simp
next
  case (accepted src n ans)
  have "map_of (t_sources s') = (map_of (t_sources s))(src \<mapsto> n)"
    by (rule ext) (simp add: accepted map_of_mset_key)
  moreover have "map_of (t_values s') = (\<lambda>k. case find_key (fld b ''values'') k of
      Some sample \<Rightarrow> Some (stamp now src n sample) | None \<Rightarrow> map_of (t_values s) k)"
    by (rule ext) (simp add: accepted fold_mset_key_lookup [OF assms(2)] find_key_def)
  ultimately show ?thesis
    using check_batch_fields(6,7,8) [OF accepted(1)] accepted by (auto split: option.splits)
qed

definition demo_batch :: "u64 \<Rightarrow> json" where
  "demo_batch n = JObj [(''context_generation'', JUInt 7), (''model_id'', JStr ''m''),
     (''model_revision'', JUInt 1), (''schema_version'', JStr ''context-hmi-telemetry/1''),
     (''sequence'', JUInt n), (''source_id'', JStr ''plc''),
     (''values'', JObj [(''lvl'', JObj [(''quality'', JStr ''good''), (''timestamp_ms'', JUInt 3),
                                    (''value'', JUInt 9)])])]"

definition demo_store :: tstore where
  "demo_store = \<lparr>t_stale_after = 3000, t_max_values = 512, t_values = [], t_sources = [],
     t_generation = 0, t_accepted = 0, t_rejected = 0, t_accepted_values = 0, t_last_received = 0\<rparr>"

lemma demo_store_new: "store_new 3000 512 = Inr demo_store"
  by (simp add: store_new_def demo_store_def)

lemma demo_model_valid: "\<exists>r. validate_model dump demo_model = Inr r"
  by (simp add: validate_model_def demo_model_index) (simp add: demo_model_def)

lemma demo_tags: "tags_by_id demo_model = Inr [(''lvl'', demo_tag)]"
proof -
  have "json_at demo_model ''tags'' = Inr (JArr [demo_tag])" by (simp add: demo_model_def)
  moreover have "string_at demo_tag ''id'' = Inr ''lvl''" by (simp add: demo_tag_def)
  ultimately show ?thesis by (simp add: tags_by_id_def)
qed

lemma demo_batch_ok: "check_batch dump 512 demo_model 7 (demo_batch n) = Inr ()"
proof -
  obtain r where v: "validate_model dump demo_model = Inr r" using demo_model_valid by blast
  have dt: "string_at demo_tag ''data_type'' = Inr ''number''" by (simp add: demo_tag_def)
  have m: "fld demo_model ''model_id'' = JStr ''m''" "fld demo_model ''revision'' = JUInt 1"
    by (simp_all add: demo_model_def fld_def)
  show ?thesis
    by (simp add: check_batch_def v demo_tags require_fields_Inr only_keys_def demo_batch_def
        batch_fields_def value_string_def identity_current_def contains_def fld_def m [unfolded fld_def]
        source_identity_def sfld_def is_lower_def less_eq_char_def json_empty_def json_items_def
        validate_value_def dt qualities_def value_matches_def numeric_type_def finite_number_def)
qed

lemma demo_ingest:
  assumes "t_max_values s = 512" and "t_generation s = 7"
    and "\<forall>p. map_of (t_sources s) ''plc'' = Some p \<longrightarrow> p < n"
  shows "\<exists>ans s'. ingest dump now demo_model 7 (demo_batch n) s = (Inr ans, s')"
  using assms demo_batch_ok [of dump n]
  by (auto simp: ingest_def commit_batch_def Let_def demo_batch_def fld_def sfld_def not_le
      split: option.splits)

theorem telemetry_ingest_atomic_witness:
  "\<exists>ans s'. ingest (\<lambda>_. Inr []) 100 demo_model 7 (demo_batch 2) (reconfigure 7 demo_store) = (Inr ans, s') \<and>
     (\<exists>v. map_of (t_values s') ''lvl'' = Some v) \<and> t_accepted s' = 1"
proof -
  obtain ans s' where i: "ingest (\<lambda>_. Inr []) 100 demo_model 7 (demo_batch 2) (reconfigure 7 demo_store) = (Inr ans, s')"
    using demo_ingest [of "reconfigure 7 demo_store" 2 "\<lambda>_. Inr []" 100]
    by (auto simp: reconfigure_def demo_store_def)
  have "distinct (map fst (members_of (fld (demo_batch 2) ''values'')))"
    by (simp add: demo_batch_def fld_def)
  from telemetry_ingest_atomic [OF i this] i show ?thesis
    by (auto simp: demo_batch_def fld_def reconfigure_def demo_store_def)
qed

text \<open>
  C12. Replays and reordering are refused. In any run of batches (from any adapters, with any
  outcomes) and reconfigurations of a fresh store, the sequence numbers accepted from each
  source since the last reconfiguration are strictly increasing, and the store remembers the
  last of them.
\<close>

theorem telemetry_sequences_increase:
  assumes "store_new stale_after max_values = Inr s"
  shows "sorted_wrt (<) (map snd (filter (\<lambda>(x, n). x = src) (accepted_log dump es s []))) \<and>
    map_of (t_sources (top_run dump es s)) src =
      (let ns = map snd (filter (\<lambda>(x, n). x = src) (accepted_log dump es s []))
       in if ns = [] then None else Some (last ns))"
proof -
  have "log_ok [] (t_sources s)" using assms by (auto simp: store_new_def log_ok_def split: if_splits)
  from accepted_log_ok [OF this, of dump es] show ?thesis by (simp add: log_ok_def)
qed

theorem telemetry_sequences_increase_witness:
  "sorted_wrt (<) (map snd (filter (\<lambda>(x, n). x = ''plc'')
     (accepted_log (\<lambda>_. Inr []) [Reconfigure 7, Ingest 1 demo_model 7 (demo_batch 2)] demo_store [])))"
  by (rule conjunct1 [OF telemetry_sequences_increase [OF demo_store_new]])

section \<open>What a snapshot shows\<close>

definition stored_for :: "tstore \<Rightarrow> u64 \<Rightarrow> string \<Rightarrow> json option" where
  "stored_for s g k = (if t_generation s = g then map_of (t_values s) k else None)"

definition age_of :: "u64 \<Rightarrow> json \<Rightarrow> u64" where
  "age_of now v =
     (case fld v ''received_timestamp_ms'' of JUInt t \<Rightarrow> now - min now t | _ \<Rightarrow> 0)"

definition shown_quality :: "tstore \<Rightarrow> u64 \<Rightarrow> u64 \<Rightarrow> string \<Rightarrow> string" where
  "shown_quality s g now k =
     (case stored_for s g k of
        None \<Rightarrow> ''unknown''
      | Some v \<Rightarrow>
          if age_of now v > t_stale_after s \<and> sfld v ''quality'' = ''good'' then ''stale''
          else sfld v ''quality'')"

definition shown_sample :: "tstore \<Rightarrow> u64 \<Rightarrow> u64 \<Rightarrow> json \<Rightarrow> json" where
  "shown_sample s g now tag =
     (case stored_for s g (sfld tag ''id'') of
        None \<Rightarrow> unknown_sample (fld tag ''unit'')
      | Some v \<Rightarrow>
          let v' = oset (oset v ''age_ms'' (JUInt (age_of now v))) ''unit'' (fld tag ''unit'')
          in if age_of now v > t_stale_after s \<and> sfld v ''quality'' = ''good''
             then oset v' ''quality'' (JStr ''stale'') else v')"

definition tally_tag :: "tstore \<Rightarrow> u64 \<Rightarrow> u64 \<Rightarrow> tally \<Rightarrow> json \<Rightarrow> tally" where
  "tally_tag s g now y tag =
     (let q = shown_quality s g now (sfld tag ''id'')
      in \<lparr>y_values = mset_key (sfld tag ''id'') (shown_sample s g now tag) (y_values y),
          y_good = y_good y + (if q = ''good'' then 1 else 0),
          y_stale = y_stale y + (if q = ''stale'' then 1 else 0),
          y_unavailable = y_unavailable y + (if q \<noteq> ''good'' \<and> q \<noteq> ''stale'' then 1 else 0)\<rparr>)"

lemma stored_ok: "store_ok s \<Longrightarrow> stored_for s g k = Some v \<Longrightarrow> sample_ok v"
  by (auto simp: stored_for_def store_ok_def split: if_splits)

lemma value_string_Inr:
  "is_object j \<Longrightarrow> find_key j k = Some (JStr q) \<Longrightarrow> value_string j k d = Inr q"
  by (simp add: value_string_def)

lemma snapshot_tag_total:
  assumes "store_ok s" and "wf_tag assets tag"
  shows "snapshot_tag s g now y tag = Inr (tally_tag s g now y tag)"
proof -
  have t: "string_at tag ''id'' = Inr (sfld tag ''id'')" "json_at tag ''unit'' = Inr (fld tag ''unit'')"
    using assms(2) by (auto simp: wf_tag_def has_ident_def has_text_def wf_unit_def fld_def)
  have st: "(if t_generation s \<noteq> g then None else map_of (t_values s) k) = stored_for s g k" for k
    by (simp add: stored_for_def)
  show ?thesis
  proof (cases "stored_for s g (sfld tag ''id'')")
    case None
    then show ?thesis
      by (cases y) (simp add: snapshot_tag_def t st tally_tag_def shown_quality_def shown_sample_def Let_def)
  next
    case (Some v)
    from stored_ok [OF assms(1) this] obtain q r where v: "is_object v"
      "find_key v ''quality'' = Some (JStr q)" "find_key v ''received_timestamp_ms'' = Some (JUInt r)"
      "q \<in> set qualities"
      by (auto simp: sample_ok_def)
    have f: "json_at v ''received_timestamp_ms'' = Inr (JUInt r)" "sfld v ''quality'' = q"
      "age_of now v = now - min now r"
      using v by (simp_all add: sfld_eq age_of_def fld_eq)
    show ?thesis
      using v(2,4)
      by (cases y)
        (auto simp: snapshot_tag_def t st Some f Let_def value_string_Inr tally_tag_def
          shown_quality_def shown_sample_def qualities_def)
  qed
qed

lemma tally_values:
  "distinct (map (\<lambda>t. sfld t ''id'') tags) \<Longrightarrow>
     map_of (y_values (foldl (tally_tag s g now) y tags)) k =
       (case find (\<lambda>t. sfld t ''id'' = k) tags of
          Some t \<Rightarrow> Some (shown_sample s g now t) | None \<Rightarrow> map_of (y_values y) k)"
proof (induction tags arbitrary: y)
  case (Cons t tags)
  have "find (\<lambda>t'. sfld t' ''id'' = sfld t ''id'') tags = None"
    using Cons.prems by (auto simp: find_None_iff) (metis imageI)
  with Cons show ?case
    by (auto simp: tally_tag_def Let_def map_of_mset_key split: option.splits)
qed simp

lemma tally_counts:
  "y_good (foldl (tally_tag s g now) y tags) =
     y_good y + length (filter (\<lambda>t. shown_quality s g now (sfld t ''id'') = ''good'') tags)"
  "y_stale (foldl (tally_tag s g now) y tags) =
     y_stale y + length (filter (\<lambda>t. shown_quality s g now (sfld t ''id'') = ''stale'') tags)"
  "y_unavailable (foldl (tally_tag s g now) y tags) =
     y_unavailable y + length (filter (\<lambda>t. shown_quality s g now (sfld t ''id'') \<notin> {''good'', ''stale''}) tags)"
  by (induction tags arbitrary: y) (auto simp: tally_tag_def Let_def)

lemma find_keyed: "find (\<lambda>t. sfld t ''id'' = k) ts = map_of (keyed ts) k"
  by (induction ts) (auto simp: keyed_def)

lemma shown_sample_fields:
  assumes "store_ok s"
  shows "find_key (shown_sample s g now tag) ''quality'' =
      Some (JStr (shown_quality s g now (sfld tag ''id'')))"
    and "find_key (shown_sample s g now tag) ''value'' =
      Some (case stored_for s g (sfld tag ''id'') of None \<Rightarrow> JNull | Some v \<Rightarrow> fld v ''value'')"
    and "is_object (shown_sample s g now tag)"
proof -
  have *: "stored_for s g (sfld tag ''id'') = Some v \<Longrightarrow>
      (\<exists>x. find_key v ''value'' = Some x) \<and> (\<exists>q. find_key v ''quality'' = Some (JStr q)) \<and> is_object v" for v
    using stored_ok [OF assms, of g "sfld tag ''id''" v] by (auto simp: sample_ok_def)
  show "find_key (shown_sample s g now tag) ''quality'' =
      Some (JStr (shown_quality s g now (sfld tag ''id'')))"
    using * by (auto simp: shown_sample_def shown_quality_def unknown_sample_def Let_def sfld_eq split: option.splits)
  show "find_key (shown_sample s g now tag) ''value'' =
      Some (case stored_for s g (sfld tag ''id'') of None \<Rightarrow> JNull | Some v \<Rightarrow> fld v ''value'')"
    using * by (auto simp: shown_sample_def unknown_sample_def Let_def fld_eq split: option.splits)
  show "is_object (shown_sample s g now tag)"
    by (auto simp: shown_sample_def unknown_sample_def Let_def split: option.splits)
qed

text \<open>What an alarm reports: whether its tag's value may be used, and the comparison.\<close>

definition alarm_value :: "tstore \<Rightarrow> u64 \<Rightarrow> u64 \<Rightarrow> json \<Rightarrow> double option" where
  "alarm_value s g now alarm =
     (case stored_for s g (sfld alarm ''tag_id'') of
        None \<Rightarrow> None
      | Some v \<Rightarrow>
          if is_number (fld v ''value'') \<and>
             shown_quality s g now (sfld alarm ''tag_id'') \<notin> {''bad'', ''unknown''}
          then (case get_double (fld v ''value'') of Inr d \<Rightarrow> Some d | Inl _ \<Rightarrow> None)
          else None)"

definition alarm_active :: "tstore \<Rightarrow> u64 \<Rightarrow> u64 \<Rightarrow> json \<Rightarrow> bool" where
  "alarm_active s g now alarm =
     (case alarm_value s g now alarm of
        None \<Rightarrow> False
      | Some d \<Rightarrow>
          compare_value d (sfld alarm ''operator'') (projr (get_double (fld alarm ''threshold''))))"

lemma is_number_get_double: "is_number v \<Longrightarrow> \<exists>d. get_double v = Inr d"
  by (cases v) auto

lemma snapshot_alarm_total:
  assumes "store_ok s" and "wf_alarm assets tags alarm"
    and "map_of values (sfld alarm ''tag_id'') = Some (shown_sample s g now tag)"
    and "sfld tag ''id'' = sfld alarm ''tag_id''"
  shows "\<exists>r. snapshot_alarm values alarm = Inr r \<and>
    find_key r ''id'' = Some (fld alarm ''id'') \<and>
    find_key r ''available'' = Some (JBool (alarm_value s g now alarm \<noteq> None)) \<and>
    find_key r ''active'' = Some (JBool (alarm_active s g now alarm)) \<and>
    find_key r ''value'' = Some (case alarm_value s g now alarm of None \<Rightarrow> JNull | Some d \<Rightarrow> JFloat d)"
proof -
  have a: "string_at alarm ''tag_id'' = Inr (sfld alarm ''tag_id'')"
    "string_at alarm ''operator'' = Inr (sfld alarm ''operator'')"
    "find_key alarm ''id'' = Some (fld alarm ''id'')" "find_key alarm ''asset_id'' = Some (fld alarm ''asset_id'')"
    "find_key alarm ''name'' = Some (fld alarm ''name'')" "find_key alarm ''severity'' = Some (fld alarm ''severity'')"
    "find_key alarm ''threshold'' = Some (fld alarm ''threshold'')"
    using assms(2) by (auto simp: wf_alarm_def has_ident_def has_text_def fld_def contains_def)
  obtain th where th: "get_double (fld alarm ''threshold'') = Inr th"
    using assms(2) by (auto simp: wf_alarm_def)
  note f = shown_sample_fields [OF assms(1), of g now tag, unfolded assms(4)]
  let ?v = "case stored_for s g (sfld alarm ''tag_id'') of None \<Rightarrow> JNull | Some v \<Rightarrow> fld v ''value''"
  obtain d where d: "is_number ?v \<Longrightarrow> get_double ?v = Inr d"
    using is_number_get_double by blast
  have q: "value_string (shown_sample s g now tag) ''quality'' ''unknown'' =
      Inr (shown_quality s g now (sfld alarm ''tag_id''))"
    using f by (intro value_string_Inr) auto
  have av: "alarm_value s g now alarm =
      (if is_number ?v \<and> shown_quality s g now (sfld alarm ''tag_id'') \<notin> {''bad'', ''unknown''}
       then Some d else None)"
    using d by (auto simp: alarm_value_def split: option.splits)
  obtain r where r: "snapshot_alarm values alarm = Inr r"
    and fields: "find_key r ''id'' = Some (fld alarm ''id'')"
    "find_key r ''available'' = Some (JBool (alarm_value s g now alarm \<noteq> None))"
    "find_key r ''active'' = Some (JBool (alarm_active s g now alarm))"
    "find_key r ''value'' = Some (case alarm_value s g now alarm of None \<Rightarrow> JNull | Some d \<Rightarrow> JFloat d)"
    apply atomize_elim
    using d by (auto simp: snapshot_alarm_def a th f(2) assms(3) q copy_members_def Let_def av alarm_active_def)
  then show ?thesis by blast
qed

text \<open>The tallies and the values a snapshot of an accepted model is built from.\<close>

definition final_tally :: "tstore \<Rightarrow> u64 \<Rightarrow> u64 \<Rightarrow> json \<Rightarrow> tally" where
  "final_tally s g now m =
     foldl (tally_tag s g now) \<lparr>y_values = [], y_good = 0, y_stale = 0, y_unavailable = 0\<rparr>
       (decls m ''tags'')"

lemma final_tally_values:
  assumes "wf_model dump m"
  shows "map_of (y_values (final_tally s g now m)) k =
    map_option (shown_sample s g now) (map_of (ix_tags (index_of m)) k)"
proof -
  have "distinct (map (\<lambda>t. sfld t ''id'') (decls m ''tags''))"
    using assms by (simp add: wf_model_def Let_def map_fst_keyed)
  then show ?thesis
    by (simp add: final_tally_def tally_values find_keyed index_of_def split: option.splits)
qed

lemma snapshot_total:
  assumes "store_ok s" and "wf_model dump m"
  shows "\<exists>r ras. snapshot dump now m g sid s = Inr r \<and>
    emap (snapshot_alarm (y_values (final_tally s g now m))) (decls m ''alarms'') = Inr ras \<and>
    fld r ''alarms'' = JArr ras \<and> fld r ''values'' = JObj (y_values (final_tally s g now m)) \<and>
    sfld r ''quality'' = overall_quality (final_tally s g now m)"
proof -
  have ix: "index_model dump m = Inr (index_of m)" using assms(2) by (simp add: index_model_Inr)
  have h: "wf_header dump m" using assms(2) by (simp add: wf_model_def Let_def)
  then have f: "find_key m ''model_id'' = Some (fld m ''model_id'')" "find_key m ''revision'' = Some (fld m ''revision'')"
    "json_at m ''tags'' = Inr (fld m ''tags'')" "json_at m ''alarms'' = Inr (fld m ''alarms'')"
    by (auto simp: wf_header_def has_ident_def has_text_def array_upto_def contains_def fld_def)
  then obtain vm where vm: "validate_model dump m = Inr vm"
    by (auto simp: validate_model_def ix)
  have tags: "efold (snapshot_tag s g now) \<lparr>y_values = [], y_good = 0, y_stale = 0, y_unavailable = 0\<rparr>
      (elements_of (fld m ''tags'')) = Inr (final_tally s g now m)"
    unfolding final_tally_def decls_def
  proof (rule efold_total)
    fix y x assume "x \<in> set (elements_of (fld m ''tags''))"
    then have "wf_tag (keyed (decls m ''assets'')) x"
      using assms(2) by (simp add: wf_model_def Let_def decls_def)
    then show "snapshot_tag s g now y x = Inr (tally_tag s g now y x)"
      by (rule snapshot_tag_total [OF assms(1)])
  qed
  have "\<exists>ras. emap (snapshot_alarm (y_values (final_tally s g now m))) (decls m ''alarms'') = Inr ras"
  proof (rule emap_total)
    fix al assume "al \<in> set (decls m ''alarms'')"
    then have wf: "wf_alarm (ix_assets (index_of m)) (ix_tags (index_of m)) al"
      using assms(2) by (simp add: wf_model_def Let_def index_of_def)
    then obtain t where t: "map_of (ix_tags (index_of m)) (sfld al ''tag_id'') = Some t"
      by (auto simp: wf_alarm_def)
    from wf_model_facts(7) [OF assms(2) t]
    show "\<exists>y. snapshot_alarm (y_values (final_tally s g now m)) al = Inr y"
      using snapshot_alarm_total [OF assms(1) wf, of "y_values (final_tally s g now m)" g now t] t
      by (auto simp: final_tally_values [OF assms(2)])
  qed
  then obtain ras where ras: "emap (snapshot_alarm (y_values (final_tally s g now m))) (elements_of (fld m ''alarms'')) = Inr ras"
    by (auto simp: decls_def)
  obtain ms where ms: "copy_members m [(''model_id'', ''model_id''), (''model_revision'', ''revision'')] = Inr ms"
    and "map fst ms = [''model_id'', ''model_revision'']"
    using f by (auto simp: copy_members_def)
  then have no: "map_of ms ''alarms'' = None" "map_of ms ''values'' = None" "map_of ms ''quality'' = None"
    by (auto simp: map_of_eq_None_iff simp flip: set_map)
  define r where "r = jobj (ms @ [(''schema_version'', JStr ''context-hmi-telemetry/1''),
      (''context_generation'', JUInt g), (''session_id'', JStr sid),
      (''quality'', JStr (overall_quality (final_tally s g now m))),
      (''values'', JObj (y_values (final_tally s g now m))), (''alarms'', JArr ras)])"
  have "snapshot dump now m g sid s = Inr r"
    by (simp add: snapshot_def vm ms f(3,4) tags ras r_def)
  moreover have "fld r ''alarms'' = JArr ras" "fld r ''values'' = JObj (y_values (final_tally s g now m))"
    "sfld r ''quality'' = overall_quality (final_tally s g now m)"
    using no by (simp_all add: r_def fld_def sfld_def map_add_def)
  ultimately show ?thesis using ras unfolding decls_def by blast
qed

lemma overall_good:
  "overall_quality y = ''good'' \<longleftrightarrow> 0 < y_good y \<and> y_stale y = 0 \<and> y_unavailable y = 0"
  by (simp add: overall_quality_def)

text \<open>
  C13. On an accepted model and any store an execution can produce, \<open>snapshot\<close> never throws and
  shows every declared tag and nothing else: the stored sample with its age, marked stale when
  it was good and is too old, or an explicit unknown when none was received under this
  generation. The overall quality is good exactly when there are tags and all are shown good,
  and there is one entry per declared alarm, in order, with its identifier and its state.
\<close>

theorem telemetry_snapshot_faithful:
  assumes "store_new stale_after max_values = Inr s0" and "s = top_run dump es s0"
    and "index_model dump m = Inr ix"
  shows "\<exists>r. snapshot dump now m g sid s = Inr r \<and>
    (\<forall>k. find_key (fld r ''values'') k = map_option (shown_sample s g now) (map_of (ix_tags ix) k)) \<and>
    (sfld r ''quality'' = ''good'' \<longleftrightarrow>
       ix_tags ix \<noteq> [] \<and> (\<forall>k \<in> fst ` set (ix_tags ix). shown_quality s g now k = ''good'')) \<and>
    list_all2 (\<lambda>al ra. fld ra ''id'' = fld al ''id'' \<and> fld ra ''active'' = JBool (alarm_active s g now al) \<and>
        fld ra ''available'' = JBool (alarm_value s g now al \<noteq> None))
      (decls m ''alarms'') (elements_of (fld r ''alarms''))"
proof -
  have ok: "store_ok s" using assms(1,2) by (simp add: top_run_ok store_new_ok)
  have wf: "wf_model dump m" and ix: "ix = index_of m" using assms(3) by (auto simp: index_model_Inr)
  let ?y = "final_tally s g now m"
  from snapshot_total [OF ok wf] obtain r ras where r: "snapshot dump now m g sid s = Inr r"
    "emap (snapshot_alarm (y_values ?y)) (decls m ''alarms'') = Inr ras"
    "fld r ''alarms'' = JArr ras" "fld r ''values'' = JObj (y_values ?y)"
    "sfld r ''quality'' = overall_quality ?y" by blast
  have "overall_quality ?y = ''good'' \<longleftrightarrow> decls m ''tags'' \<noteq> [] \<and>
      (\<forall>t \<in> set (decls m ''tags''). shown_quality s g now (sfld t ''id'') = ''good'')"
    unfolding final_tally_def overall_good tally_counts by (auto simp: filter_empty_conv) (metis last_in_set)
  moreover have "list_all2 (\<lambda>al ra. fld ra ''id'' = fld al ''id'' \<and> fld ra ''active'' = JBool (alarm_active s g now al) \<and>
        fld ra ''available'' = JBool (alarm_value s g now al \<noteq> None)) (decls m ''alarms'') ras"
  proof (rule emap_list_all2 [OF r(2)])
    fix al ra assume "al \<in> set (decls m ''alarms'')" and ra: "snapshot_alarm (y_values ?y) al = Inr ra"
    then have wfa: "wf_alarm (ix_assets (index_of m)) (ix_tags (index_of m)) al"
      using wf by (simp add: wf_model_def Let_def index_of_def)
    then obtain t where t: "map_of (ix_tags (index_of m)) (sfld al ''tag_id'') = Some t"
      by (auto simp: wf_alarm_def)
    from wf_model_facts(7) [OF wf t] snapshot_alarm_total [OF ok wfa, of "y_values ?y" g now t] t ra
    show "fld ra ''id'' = fld al ''id'' \<and> fld ra ''active'' = JBool (alarm_active s g now al) \<and>
        fld ra ''available'' = JBool (alarm_value s g now al \<noteq> None)"
      by (auto simp: final_tally_values [OF wf] fld_eq)
  qed
  ultimately show ?thesis
    by (intro exI [of _ r])
       (auto simp: r final_tally_values [OF wf] ix index_of_def keyed_def)
qed

theorem telemetry_snapshot_faithful_witness:
  "\<exists>r. snapshot (\<lambda>_. Inr []) 9 demo_model 7 ''s'' demo_store = Inr r \<and>
     find_key (fld r ''values'') ''lvl'' = Some (shown_sample demo_store 7 9 demo_tag)"
proof -
  have "map_of (ix_tags (index_of demo_model)) ''lvl'' = Some demo_tag"
    by (simp add: index_of_def keyed_def decls_def demo_model_def demo_tag_def fld_def sfld_def)
  moreover have "demo_store = top_run (\<lambda>_. Inr []) [] demo_store" by simp
  ultimately show ?thesis
    using telemetry_snapshot_faithful [OF demo_store_new _ demo_model_index, of demo_store _ "[]" 9 7 "''s''"]
    by fastforce
qed

text \<open>
  An alarm is reported active only on evidence: a numeric value of its tag that was
  received under the current generation, with quality good or uncertain as its adapter reported
  it, and that satisfies the declared comparison with the threshold; and a tag is shown as good
  only if its sample is not older than the configured interval.
\<close>

theorem telemetry_alarm_evidence:
  assumes "store_new stale_after max_values = Inr s0" and "s = top_run dump es s0"
  shows "(alarm_active s g now al \<longrightarrow> t_generation s = g \<and>
      (\<exists>v d th. map_of (t_values s) (sfld al ''tag_id'') = Some v \<and>
         sfld v ''quality'' \<in> {''good'', ''uncertain''} \<and> is_number (fld v ''value'') \<and>
         get_double (fld v ''value'') = Inr d \<and> th = projr (get_double (fld al ''threshold'')) \<and>
         compare_value d (sfld al ''operator'') th)) \<and>
    (shown_quality s g now k = ''good'' \<longrightarrow> t_generation s = g \<and>
      (\<exists>v. map_of (t_values s) k = Some v \<and> sfld v ''quality'' = ''good'' \<and>
         age_of now v \<le> t_stale_after s))"
proof -
  have ok: "store_ok s" using assms by (simp add: top_run_ok store_new_ok)
  have q: "sfld v ''quality'' \<in> set qualities" if "map_of (t_values s) k = Some v" for k v
    using ok that by (fastforce simp: store_ok_def sample_ok_def sfld_def fld_def)
  show ?thesis
    by (auto simp: alarm_active_def alarm_value_def stored_for_def shown_quality_def qualities_def not_less
        split: option.splits if_splits sum.splits dest!: q)
qed

theorem telemetry_alarm_evidence_witness:
  "\<not> alarm_active (top_run (\<lambda>_. Inr []) [Reconfigure 3] demo_store) 7 9 demo_alarm"
  using telemetry_alarm_evidence [OF demo_store_new refl, where es = "[Reconfigure 3]" and g = 7 and now = 9
      and al = demo_alarm]
  by (auto simp: reconfigure_def)

text \<open>
  The model check compares a tag's data type without regard to case, the telemetry check
  with regard to it. So a tag declared with a numeric type that is not in lower case (such as
  Float) is accepted, may carry level roles and alarms, and then never takes a number: every
  numeric sample for it is refused.
\<close>

theorem telemetry_mixed_case_type_refuses_numbers:
  assumes "index_model dump m = Inr ix" and "map_of (ix_tags ix) k = Some tag"
    and "numeric_data_type (lower (sfld tag ''data_type''))"
    and "lower (sfld tag ''data_type'') \<noteq> sfld tag ''data_type''"
    and "is_number (fld sample ''value'')"
  shows "validate_value sample tag w \<noteq> Inr ()"
proof
  assume v: "validate_value sample tag w = Inr ()"
  have n: "\<not> numeric_type (sfld tag ''data_type'')" "sfld tag ''data_type'' \<noteq> ''boolean''" "sfld tag ''data_type'' \<noteq> ''bool''"
    using assms(3,4)
    by (auto simp: numeric_type_def numeric_data_type_def lower_def to_lower_def is_upper_def less_eq_char_def)
  from v obtain x type where "find_key sample ''value'' = Some x" "string_at tag ''data_type'' = Inr type"
    "value_matches type x w = Inr ()" by (auto simp: validate_value_def)
  moreover from this have "type = sfld tag ''data_type''" "x = fld sample ''value''"
    by (simp_all add: sfld_eq fld_eq)
  ultimately show False using n assms(5)
    by (auto simp: value_matches_def is_string_iff)
qed

definition mixed_tag :: json where
  "mixed_tag = JObj [(''asset_id'', JStr ''tank''), (''data_type'', JStr ''Float''), (''id'', JStr ''lvl''),
     (''name'', JStr ''Level''), (''role'', JStr ''level''),
     (''source'', JObj [(''identifier'', JStr ''i''), (''namespace_uri'', JStr ''u''), (''server'', JStr ''s'')]),
     (''unit'', JStr ''m'')]"

definition mixed_model :: json where
  "mixed_model = JObj [(''alarms'', JArr []), (''assets'', JArr [demo_asset]),
     (''model_id'', JStr ''m''), (''name'', JStr ''M''), (''relationships'', JArr []),
     (''revision'', JUInt 1), (''tags'', JArr [mixed_tag])]"

lemma lower_Float: "lower ''Float'' = ''float''"
  by code_simp

lemma mixed_model_wf: "wf_model dump mixed_model"
proof -
  have "wf_asset dump demo_asset"
    by (simp add: wf_asset_def demo_asset_def demo_simps aliases_ok_def metadata_ok_def)
  moreover have "wf_tag [(''tank'', demo_asset)] mixed_tag"
    using lower_Float
    by (simp add: wf_tag_def mixed_tag_def wf_source_def wf_unit_def demo_simps data_types_def
        numeric_data_type_def)
  moreover have "wf_header dump mixed_model"
    by (simp add: wf_header_def mixed_model_def demo_simps model_fields_def metadata_ok_def
        array_upto_def optional_text_def is_nonnegative_integer_def)
  moreover have "keyed (decls mixed_model ''assets'') = [(''tank'', demo_asset)]"
    "keyed (decls mixed_model ''tags'') = [(''lvl'', mixed_tag)]"
    "keyed (decls mixed_model ''alarms'') = []" "keyed (decls mixed_model ''relationships'') = []"
    "decls mixed_model ''assets'' = [demo_asset]" "decls mixed_model ''tags'' = [mixed_tag]"
    "decls mixed_model ''alarms'' = []" "decls mixed_model ''relationships'' = []"
    by (simp_all add: keyed_def decls_def mixed_model_def demo_asset_def mixed_tag_def fld_def sfld_def)
  ultimately show ?thesis by (simp add: wf_model_def)
qed

theorem telemetry_mixed_case_type_refuses_numbers_witness:
  "validate_value (JObj [(''quality'', JStr ''good''), (''timestamp_ms'', JUInt 3), (''value'', JUInt 9)])
     mixed_tag ''w'' \<noteq> Inr ()"
proof -
  have "index_model (\<lambda>_. Inr []) mixed_model = Inr (index_of mixed_model)"
    by (simp add: index_model_Inr mixed_model_wf)
  moreover have "map_of (ix_tags (index_of mixed_model)) ''lvl'' = Some mixed_tag"
    by (simp add: index_of_def keyed_def decls_def mixed_model_def mixed_tag_def fld_def sfld_def)
  ultimately show ?thesis
    by (rule telemetry_mixed_case_type_refuses_numbers)
      (use lower_Float in \<open>simp_all add: mixed_tag_def fld_def sfld_def numeric_data_type_def\<close>)
qed

end
