(* ===== verification/Screen_Composer.thy ===== *)
theory Screen_Composer
  imports Model_Index "HOL-Library.Multiset"
begin

text \<open>
  The deterministic screen composer (\<open>screen_composer.cpp\<close>, \<open>engine.cpp\<close>): a task (overview or
  alarms, optionally anchored to an asset and restricted to roles) against an indexed model
  gives a view whose components are declared tags and alarms. The hash maps of the index are
  iterated in an unspecified order: it is the argument \<open>ord\<close>, any rearrangement of the members.
\<close>

section \<open>Components\<close>

definition component_for ::
  "(json \<Rightarrow> string res) \<Rightarrow> json \<Rightarrow> string \<Rightarrow> string \<Rightarrow> string \<Rightarrow> json res" where
  "component_for dump tag kind label reason =
     ebind (copy_members tag [(''id'', ''id''), (''asset_id'', ''asset_id''), (''tag_id'', ''id''),
         (''role'', ''role''), (''unit'', ''unit'')]) (\<lambda>ms.
     ebind (tag_fingerprint dump tag) (\<lambda>fp.
     Inr (oset (jobj (ms @ [(''kind'', JStr kind), (''label'', JStr label), (''reason'', JStr reason)]))
       ''dependency_fingerprints'' (JArr [JStr fp]))))"

definition alarm_component_for :: "(json \<Rightarrow> string res) \<Rightarrow> json \<Rightarrow> json \<Rightarrow> json res" where
  "alarm_component_for dump alarm tag =
     ebind (copy_members alarm [(''id'', ''id''), (''label'', ''name''), (''asset_id'', ''asset_id''),
         (''alarm_id'', ''id''), (''tag_id'', ''tag_id'')]) (\<lambda>as.
     ebind (copy_members tag [(''role'', ''role''), (''unit'', ''unit'')]) (\<lambda>ts.
     ebind (tag_fingerprint dump tag) (\<lambda>tfp.
     ebind (alarm_definition_fingerprint dump alarm) (\<lambda>afp.
     Inr (jobj (as @ ts @ [(''kind'', JStr ''alarm''), (''reason'', JStr ''Declared alarm threshold''),
       (''dependency_fingerprints'', JArr [JStr tfp, JStr afp])]))))))"

definition issue :: "string \<Rightarrow> string \<Rightarrow> string \<Rightarrow> json" where
  "issue code message severity =
     jobj [(''code'', JStr code), (''message'', JStr message), (''severity'', JStr severity)]"

section \<open>Requested roles and layout\<close>

definition role_text :: "json \<Rightarrow> string res" where
  "role_text role =
     (if \<not> is_string role \<or> str_of role = [] \<or> length (str_of role) > k_max_string
      then Inl (invalid_task ''task.measurement_roles contains an invalid role'')
      else get_string role)"

definition requested_roles :: "json \<Rightarrow> string list res" where
  "requested_roles task =
     (if \<not> contains task ''measurement_roles'' then Inr []
      else ebind (json_at task ''measurement_roles'') (\<lambda>requested.
        if \<not> is_array requested \<or> json_empty requested \<or> json_size requested > 16
        then Inl (invalid_task ''task.measurement_roles must be a non-empty array of at most 16 roles'')
        else ebind (emap role_text (elements_of requested)) (\<lambda>roles.
             if length (remdups roles) \<noteq> json_size requested
             then Inl (invalid_task ''task.measurement_roles must not contain duplicates'')
             else Inr (remdups roles))))"

definition dimension :: "json \<Rightarrow> string \<Rightarrow> u64 \<Rightarrow> u64 \<Rightarrow> u64 option res" where
  "dimension client name minimum maximum =
     (if \<not> contains client name then Inr None
      else ebind (json_at client name) (\<lambda>v.
        if \<not> is_nonnegative_integer v
        then Inl (invalid_task (''task.client.'' @ name @ '' must be an integer''))
        else ebind (get_u64 v) (\<lambda>w.
          if w < minimum \<or> w > maximum
          then Inl (invalid_task (''task.client.'' @ name @ '' is out of range''))
          else Inr (Some w))))"

definition client_fields :: "string list" where
  "client_fields = [''width_px'', ''height_px'', ''size_class'', ''density'', ''reduced_motion'']"

text \<open>An optional client setting copied into the layout after its check.\<close>

definition client_choice ::
  "json \<Rightarrow> string \<Rightarrow> (json \<Rightarrow> bool) \<Rightarrow> string \<Rightarrow> string \<Rightarrow> json \<Rightarrow> json res" where
  "client_choice client key ok msg target layout =
     (if \<not> contains client key then Inr layout
      else ebind (json_at client key) (\<lambda>v.
        if \<not> ok v then Inl (invalid_task msg) else Inr (oset layout target v)))"

definition size_class_choice :: "json \<Rightarrow> bool" where
  "size_class_choice v \<longleftrightarrow>
     \<not> (\<not> is_string v \<or>
        (\<not> jeq v (JStr ''small'') \<and> \<not> jeq v (JStr ''medium'') \<and> \<not> jeq v (JStr ''large'')))"

definition density_choice :: "json \<Rightarrow> bool" where
  "density_choice v \<longleftrightarrow>
     \<not> (\<not> is_string v \<or> (\<not> jeq v (JStr ''compact'') \<and> \<not> jeq v (JStr ''comfortable'')))"

definition layout_density :: "json \<Rightarrow> u64 option \<Rightarrow> json \<Rightarrow> json res" where
  "layout_density client width layout =
     (if contains client ''density''
      then client_choice client ''density'' density_choice
             ''task.client.density must be compact or comfortable'' ''density'' layout
      else Inr (oset layout ''density''
             (JStr (if (case width of Some w \<Rightarrow> w < 600 | None \<Rightarrow> False)
                    then ''compact'' else ''comfortable''))))"

definition default_layout :: json where
  "default_layout = jobj [(''strategy'', JStr ''responsive-grid''), (''reflow'', JBool True),
     (''minimum_component_width_px'', JInt 220), (''size_class'', JStr ''unspecified'')]"

definition sized_layout :: "u64 option \<Rightarrow> u64 option \<Rightarrow> json" where
  "sized_layout width height =
     (let layout = default_layout;
          layout = (case width of None \<Rightarrow> layout
            | Some w \<Rightarrow>
                let layout = oset layout ''viewport_width_px'' (JUInt w)
                in if w < 600
                   then oset (oset layout ''size_class'' (JStr ''compact''))
                          ''minimum_component_width_px'' (JInt 156)
                   else if w < 1200
                   then oset (oset layout ''size_class'' (JStr ''standard''))
                          ''minimum_component_width_px'' (JInt 200)
                   else oset layout ''size_class'' (JStr ''wide''))
      in case height of None \<Rightarrow> layout | Some h \<Rightarrow> oset layout ''viewport_height_px'' (JUInt h))"

definition check_client :: "json \<Rightarrow> unit res" where
  "check_client client =
     (if \<not> is_object client then Inl (invalid_task ''task.client must be an object'')
      else echeck (\<lambda>(k, v). throw_if (k \<notin> set client_fields)
             (invalid_task (''task.client contains unsupported field '' @ quoted k)))
           (json_items client))"

definition client_layout :: "json \<Rightarrow> json res" where
  "client_layout client =
     ethen (check_client client)
     (ebind (dimension client ''width_px'' 240 7680) (\<lambda>width.
      ebind (dimension client ''height_px'' 160 4320) (\<lambda>height.
      ebind (client_choice client ''size_class'' size_class_choice
               ''task.client.size_class must be small, medium, or large'' ''reported_size_class''
               (sized_layout width height)) (\<lambda>layout.
      ebind (layout_density client width layout) (\<lambda>layout.
      client_choice client ''reduced_motion'' is_boolean
        ''task.client.reduced_motion must be boolean'' ''reduced_motion'' layout)))))"

definition responsive_layout :: "json \<Rightarrow> json res" where
  "responsive_layout task =
     (if \<not> contains task ''client'' then Inr default_layout
      else ebind (json_at task ''client'') client_layout)"

section \<open>Views\<close>

definition task_anchor :: "json \<Rightarrow> string res" where
  "task_anchor task =
     (if contains task ''anchor_asset_id'' then string_at task ''anchor_asset_id'' else Inr [])"

definition base_view :: "model_index \<Rightarrow> json \<Rightarrow> string \<Rightarrow> string \<Rightarrow> json res" where
  "base_view index task view_id title =
     ebind (copy_members (ix_model index)
        [(''model_id'', ''model_id''), (''model_revision'', ''revision'')]) (\<lambda>ms.
     Inr (jobj (ms @ [(''view_id'', JStr view_id), (''status'', JStr ''ready''),
       (''title'', JStr title), (''task'', task), (''components'', JArr []), (''issues'', JArr []),
       (''dependencies'', JArr [])])))"

definition finish_view :: "json \<Rightarrow> (json \<times> json) list \<Rightarrow> json \<Rightarrow> json" where
  "finish_view view found missing =
     (let view = oset (oset view ''components'' (JArr (map fst found)))
                   ''dependencies'' (JArr (map snd found))
      in if found = [] then oset (oset view ''status'' (JStr ''needs-review'')) ''issues'' (JArr [missing])
         else view)"

definition role_requested :: "string list \<Rightarrow> json \<Rightarrow> bool res" where
  "role_requested roles tag =
     (if roles = [] then Inr True
      else ebind (string_at tag ''role'') (\<lambda>r. Inr (r \<in> set roles)))"

definition by_id :: "json list \<Rightarrow> json list" where
  "by_id xs = sort_key (\<lambda>x. sfld x ''id'') xs"

definition overview_tags ::
  "(members \<Rightarrow> members) \<Rightarrow> model_index \<Rightarrow> string list \<Rightarrow> string \<Rightarrow> json list res" where
  "overview_tags ord index roles asset =
     ebind (efilter (\<lambda>(k, tag).
        ebind (json_at tag ''asset_id'') (\<lambda>owner.
        if jeq owner (JStr asset) then role_requested roles tag else Inr False)) (ord (ix_tags index)))
       (\<lambda>found. Inr (by_id (map snd found)))"

definition overview_kind :: "string \<Rightarrow> string" where
  "overview_kind role =
     (if role = ''level'' then ''gauge''
      else if role = ''status'' \<or> role = ''state'' \<or> role = ''operating_state'' then ''status''
      else ''value'')"

definition overview_component ::
  "(json \<Rightarrow> string res) \<Rightarrow> model_index \<Rightarrow> string \<Rightarrow> json \<Rightarrow> (json \<times> json) res" where
  "overview_component dump index asset tag =
     ebind (string_at tag ''role'') (\<lambda>role.
     ebind (asset_name index asset) (\<lambda>aname.
     ebind (string_at tag ''name'') (\<lambda>tname.
     ebind (component_for dump tag (overview_kind (lower role)) (aname @ '' '' @ tname)
        ''Declared tag in machine overview'') (\<lambda>c.
     ebind (dependency_for dump tag) (\<lambda>d. Inr (c, d))))))"

definition view_name :: "model_index \<Rightarrow> string \<Rightarrow> string \<Rightarrow> string \<Rightarrow> (string \<times> string) res" where
  "view_name index anchor suffix title =
     (if anchor = [] then Inr (''view-'' @ suffix, title)
      else ebind (asset_name index anchor) (\<lambda>n.
        Inr (''view-'' @ anchor @ ''-'' @ suffix, n @ '' - '' @ title)))"

definition resolve_overview ::
  "(json \<Rightarrow> string res) \<Rightarrow> (members \<Rightarrow> members) \<Rightarrow> model_index \<Rightarrow> json \<Rightarrow> json res" where
  "resolve_overview dump ord index task =
     ebind (task_anchor task) (\<lambda>anchor.
     ebind (view_name index anchor ''overview'' ''Overview'') (\<lambda>(vid, title).
     ebind (base_view index task vid title) (\<lambda>view.
     ebind (requested_roles task) (\<lambda>roles.
     let assets = sort (if anchor \<noteq> [] then [anchor] else map fst (ord (ix_assets index)))
     in ebind (emap (\<lambda>asset.
           ebind (overview_tags ord index roles asset) (\<lambda>tags.
           emap (overview_component dump index asset) tags)) assets) (\<lambda>found.
        Inr (finish_view view (concat found)
          (issue ''missing-overview-tags'' ''No declared tags are available for this overview'' ''error'')))))))"

definition index_tag_at :: "model_index \<Rightarrow> string \<Rightarrow> json res" where
  "index_tag_at index k =
     (case map_of (ix_tags index) k of
        None \<Rightarrow> Inl (RuntimeError ''out_of_range'') | Some tag \<Rightarrow> Inr tag)"

definition alarm_tag :: "model_index \<Rightarrow> json \<Rightarrow> json res" where
  "alarm_tag index alarm = ebind (string_at alarm ''tag_id'') (index_tag_at index)"

definition view_alarms ::
  "(members \<Rightarrow> members) \<Rightarrow> model_index \<Rightarrow> string list \<Rightarrow> string \<Rightarrow> json list res" where
  "view_alarms ord index roles anchor =
     ebind (efilter (\<lambda>(k, alarm).
        ebind (if anchor \<noteq> [] then string_at alarm ''asset_id'' else Inr anchor) (\<lambda>owner.
        if owner \<noteq> anchor then Inr False
        else ebind (alarm_tag index alarm) (role_requested roles))) (ord (ix_alarms index)))
       (\<lambda>found. Inr (by_id (map snd found)))"

definition resolve_alarms ::
  "(json \<Rightarrow> string res) \<Rightarrow> (members \<Rightarrow> members) \<Rightarrow> model_index \<Rightarrow> json \<Rightarrow> json res" where
  "resolve_alarms dump ord index task =
     ebind (task_anchor task) (\<lambda>anchor.
     ebind (view_name index anchor ''alarms'' ''Alarms'') (\<lambda>(vid, title).
     ebind (base_view index task vid title) (\<lambda>view.
     ebind (requested_roles task) (\<lambda>roles.
     ebind (view_alarms ord index roles anchor) (\<lambda>alarms.
     ebind (emap (\<lambda>alarm.
        ebind (alarm_tag index alarm) (\<lambda>tag.
        ebind (alarm_component_for dump alarm tag) (\<lambda>c.
        ebind (dependency_for_alarm dump alarm tag) (\<lambda>d. Inr (c, d))))) alarms) (\<lambda>found.
     Inr (finish_view view found
       (issue ''no-alarms'' ''No declared alarms are available for this scope'' ''info''))))))))"

definition task_fields :: "string list" where
  "task_fields = [''kind'', ''model_id'', ''anchor_asset_id'', ''measurement_roles'', ''client'',
     ''model_revision'', ''original_request'']"

text \<open>The checks of \<open>resolve_task_impl\<close>; the result is the task kind.\<close>

definition check_task :: "model_index \<Rightarrow> json \<Rightarrow> string res" where
  "check_task index task =
     (if \<not> is_object task then Inl (invalid_task ''task must be an object'')
      else ethen (echeck (\<lambda>(k, v). throw_if (k \<notin> set task_fields)
               (invalid_task (''task contains unsupported field '' @ quoted k))) (json_items task))
        (ebind (task_string task ''kind'' ''task'' 32) (\<lambda>kind.
         if kind \<noteq> ''overview'' \<and> kind \<noteq> ''alarms''
         then Inl (invalid_task (''unsupported task kind '' @ quoted kind))
         else if \<not> contains task ''model_revision'' \<or> \<not> is_nonnegative_integer (fld task ''model_revision'')
         then Inl (invalid_task ''task.model_revision must be a non-negative integer'')
         else ebind (json_at (ix_model index) ''revision'') (\<lambda>revision.
           if \<not> jeq (fld task ''model_revision'') revision
           then Inl (invalid_task ''task.model_revision does not match the active model'')
           else ebind (json_at (ix_model index) ''model_id'') (\<lambda>mid.
             if contains task ''model_id'' \<and>
                (\<not> is_string (fld task ''model_id'') \<or> \<not> jeq (fld task ''model_id'') mid)
             then Inl (invalid_task ''task.model_id does not match the active model'')
             else ebind (task_string task ''original_request'' ''task'' k_max_prompt) (\<lambda>_.
               if contains task ''anchor_asset_id'' \<and>
                  (\<not> is_string (fld task ''anchor_asset_id'') \<or> sfld task ''anchor_asset_id'' = [])
               then Inl (invalid_task ''task.anchor_asset_id must be a non-empty string'')
               else if contains task ''anchor_asset_id'' \<and>
                       map_of (ix_assets index) (sfld task ''anchor_asset_id'') = None
               then Inl (invalid_task ''task.anchor_asset_id references an unknown asset'')
               else Inr kind))))))"

definition effective_task :: "model_index \<Rightarrow> json \<Rightarrow> json res" where
  "effective_task index task =
     (if contains task ''model_id'' then Inr task
      else ebind (json_at (ix_model index) ''model_id'') (\<lambda>mid. Inr (oset task ''model_id'' mid)))"

definition resolve_task_impl ::
  "(json \<Rightarrow> string res) \<Rightarrow> (members \<Rightarrow> members) \<Rightarrow> model_index \<Rightarrow> json \<Rightarrow> json res" where
  "resolve_task_impl dump ord index task =
     ebind (check_task index task) (\<lambda>kind.
     ebind (effective_task index task) (\<lambda>task.
     ebind (if kind = ''overview'' then resolve_overview dump ord index task
            else resolve_alarms dump ord index task) (\<lambda>view.
     ebind (responsive_layout task) (\<lambda>layout.
     Inr (oset view ''layout'' layout)))))"

definition resolve_task ::
  "(json \<Rightarrow> string res) \<Rightarrow> (members \<Rightarrow> members) \<Rightarrow> json \<Rightarrow> json \<Rightarrow> json res" where
  "resolve_task dump ord model task =
     ebind (index_model dump model) (\<lambda>index. resolve_task_impl dump ord index task)"

section \<open>Which tags and alarms a view selects\<close>

definition reorders :: "(members \<Rightarrow> members) \<Rightarrow> bool" where
  "reorders ord \<longleftrightarrow> (\<forall>xs. mset (ord xs) = mset xs)"

definition role_selected :: "string list \<Rightarrow> json \<Rightarrow> bool" where
  "role_selected roles tag \<longleftrightarrow> roles = [] \<or> sfld tag ''role'' \<in> set roles"

definition asset_selection :: "json \<Rightarrow> string list \<Rightarrow> string \<Rightarrow> json list" where
  "asset_selection m roles asset =
     by_id (filter (\<lambda>t. sfld t ''asset_id'' = asset \<and> role_selected roles t) (decls m ''tags''))"

definition scope_assets :: "json \<Rightarrow> string \<Rightarrow> string list" where
  "scope_assets m anchor =
     sort (if anchor \<noteq> [] then [anchor] else map (\<lambda>a. sfld a ''id'') (decls m ''assets''))"

definition overview_selection :: "json \<Rightarrow> string \<Rightarrow> string list \<Rightarrow> json list" where
  "overview_selection m anchor roles = concat (map (asset_selection m roles) (scope_assets m anchor))"

definition alarm_selection :: "json \<Rightarrow> string \<Rightarrow> string list \<Rightarrow> json list" where
  "alarm_selection m anchor roles =
     by_id (filter (\<lambda>al. (anchor = [] \<or> sfld al ''asset_id'' = anchor) \<and>
        role_selected roles (the (map_of (keyed (decls m ''tags'')) (sfld al ''tag_id''))))
       (decls m ''alarms''))"

lemma by_id_cong:
  assumes "mset xs = mset ys" and "distinct (map (\<lambda>x. sfld x ''id'') ys)"
  shows "by_id xs = by_id ys"
  unfolding by_id_def
proof (rule sort_key_inj_key_eq)
  show "inj_on (\<lambda>x. sfld x ''id'') (set xs)"
    using assms mset_eq_setD [OF assms(1)] by (simp add: distinct_map)
  show "mset xs = mset (sort_key (\<lambda>x. sfld x ''id'') ys)" using assms(1) by simp
qed simp

lemma mset_ord_keyed: "reorders ord \<Longrightarrow> mset (map snd (ord (keyed xs))) = mset xs"
proof -
  assume "reorders ord"
  then have "mset (map snd (ord (keyed xs))) = mset (map snd (keyed xs))"
    by (simp add: reorders_def)
  moreover have "map snd (keyed xs) = xs" by (simp add: keyed_def comp_def)
  ultimately show ?thesis by simp
qed

lemma ord_members: "reorders ord \<Longrightarrow> (k, x) \<in> set (ord (keyed xs)) \<longleftrightarrow> x \<in> set xs \<and> k = sfld x ''id''"
  by (metis in_keyed reorders_def set_mset_mset)

lemma efilter_map_snd:
  assumes "\<And>k x. (k, x) \<in> set kxs \<Longrightarrow> f (k, x) = Inr (P x)"
  shows "efilter f kxs = Inr (filter (\<lambda>(k, x). P x) kxs)"
  by (rule efilter_total) (use assms in auto)

lemma map_snd_filter: "map snd (filter (\<lambda>(k, x). P x) kxs) = filter P (map snd kxs)"
  by (induction kxs) auto

lemma wf_tag_fields:
  assumes "wf_tag assets t"
  shows "find_key t ''id'' = Some (fld t ''id'')" "find_key t ''asset_id'' = Some (JStr (sfld t ''asset_id''))"
    "find_key t ''role'' = Some (JStr (sfld t ''role''))" "find_key t ''name'' = Some (JStr (sfld t ''name''))"
    "find_key t ''unit'' = Some (fld t ''unit'')" "find_key t ''source'' = Some (fld t ''source'')"
    "find_key t ''data_type'' = Some (fld t ''data_type'')" "fld t ''id'' = JStr (sfld t ''id'')"
  using assms by (auto simp: wf_tag_def has_ident_def has_text_def wf_unit_def contains_def fld_def)

lemma wf_alarm_fields:
  assumes "wf_alarm assets tags a"
  shows "find_key a ''id'' = Some (fld a ''id'')" "find_key a ''asset_id'' = Some (JStr (sfld a ''asset_id''))"
    "find_key a ''tag_id'' = Some (JStr (sfld a ''tag_id''))" "find_key a ''name'' = Some (fld a ''name'')"
    "find_key a ''operator'' = Some (fld a ''operator'')" "find_key a ''threshold'' = Some (fld a ''threshold'')"
    "find_key a ''severity'' = Some (fld a ''severity'')" "fld a ''id'' = JStr (sfld a ''id'')"
  using assms by (auto simp: wf_alarm_def has_ident_def has_text_def contains_def fld_def)

lemma role_requested_wf: "wf_tag assets t \<Longrightarrow> role_requested roles t = Inr (role_selected roles t)"
  by (auto simp: role_requested_def role_selected_def wf_tag_fields)

lemma wf_model_decls:
  assumes "wf_model dump m"
  shows "t \<in> set (decls m ''tags'') \<Longrightarrow> wf_tag (keyed (decls m ''assets'')) t"
    and "a \<in> set (decls m ''alarms'') \<Longrightarrow> wf_alarm (keyed (decls m ''assets'')) (keyed (decls m ''tags'')) a"
    and "distinct (map (\<lambda>t. sfld t ''id'') (decls m ''tags''))"
    and "distinct (map (\<lambda>t. sfld t ''id'') (decls m ''alarms''))"
    and "distinct (map (\<lambda>t. sfld t ''id'') (decls m ''assets''))"
  using assms by (auto simp: wf_model_def Let_def map_fst_keyed)

lemma distinct_map_filter: "distinct (map f xs) \<Longrightarrow> distinct (map f (filter P xs))"
  by (simp add: distinct_map inj_on_def)

lemma overview_tags_eq:
  assumes "wf_model dump m" and "reorders ord"
  shows "overview_tags ord (index_of m) roles asset = Inr (asset_selection m roles asset)"
proof -
  let ?P = "\<lambda>t. sfld t ''asset_id'' = asset \<and> role_selected roles t"
  have "efilter (\<lambda>(k, tag). ebind (json_at tag ''asset_id'') (\<lambda>owner.
        if jeq owner (JStr asset) then role_requested roles tag else Inr False)) (ord (keyed (decls m ''tags''))) =
      Inr (filter (\<lambda>(k, x). ?P x) (ord (keyed (decls m ''tags''))))"
  proof (rule efilter_map_snd)
    fix k x assume "(k, x) \<in> set (ord (keyed (decls m ''tags'')))"
    then have wf: "wf_tag (keyed (decls m ''assets'')) x"
      using wf_model_decls(1) [OF assms(1)] by (simp add: ord_members [OF assms(2)])
    then have "json_at x ''asset_id'' = Inr (JStr (sfld x ''asset_id''))"
      by (simp add: wf_tag_fields)
    then show "(case (k, x) of (k, tag) \<Rightarrow> ebind (json_at tag ''asset_id'') (\<lambda>owner.
        if jeq owner (JStr asset) then role_requested roles tag else Inr False)) =
        Inr (sfld x ''asset_id'' = asset \<and> role_selected roles x)"
      using role_requested_wf [OF wf, of roles] by auto
  qed
  moreover have "by_id (filter ?P (map snd (ord (keyed (decls m ''tags''))))) = asset_selection m roles asset"
    unfolding asset_selection_def
    by (rule by_id_cong)
       (simp_all only: mset_filter mset_ord_keyed [OF assms(2)]
          distinct_map_filter [OF wf_model_decls(3) [OF assms(1)]])
  ultimately show ?thesis
    by (simp add: overview_tags_def index_of_def map_snd_filter)
qed

lemma scope_assets_eq:
  assumes "reorders ord"
  shows "sort (if anchor \<noteq> [] then [anchor] else map fst (ord (ix_assets (index_of m)))) = scope_assets m anchor"
proof -
  have "mset (map fst (ord (keyed xs))) = mset (map (\<lambda>x. sfld x ''id'') xs)" for xs
  proof -
    have "mset (map fst (ord (keyed xs))) = mset (map fst (keyed xs))"
      using assms by (simp add: reorders_def)
    then show ?thesis by (simp only: map_fst_keyed)
  qed
  then have "sort (map fst (ord (keyed xs))) = sort (map (\<lambda>x. sfld x ''id'') xs)" for xs
    by (intro properties_for_sort) simp_all
  then show ?thesis by (simp add: scope_assets_def index_of_def)
qed

lemma alarm_tag_eq:
  assumes "wf_model dump m" and "a \<in> set (decls m ''alarms'')"
  shows "\<exists>t. alarm_tag (index_of m) a = Inr t \<and> map_of (keyed (decls m ''tags'')) (sfld a ''tag_id'') = Some t \<and>
    t \<in> set (decls m ''tags'')"
proof -
  note wf = wf_model_decls(2) [OF assms]
  obtain t where t: "map_of (keyed (decls m ''tags'')) (sfld a ''tag_id'') = Some t"
    using wf by (auto simp: wf_alarm_def)
  moreover have "t \<in> set (decls m ''tags'')" using map_of_keyed [OF t] by simp
  ultimately show ?thesis
    using wf_alarm_fields(3) [OF wf] by (auto simp: alarm_tag_def index_tag_at_def index_of_def)
qed

lemma view_alarms_eq:
  assumes "wf_model dump m" and "reorders ord"
  shows "view_alarms ord (index_of m) roles anchor = Inr (alarm_selection m anchor roles)"
proof -
  let ?P = "\<lambda>al. (anchor = [] \<or> sfld al ''asset_id'' = anchor) \<and>
      role_selected roles (the (map_of (keyed (decls m ''tags'')) (sfld al ''tag_id'')))"
  have "efilter (\<lambda>(k, alarm).
        ebind (if anchor \<noteq> [] then string_at alarm ''asset_id'' else Inr anchor) (\<lambda>owner.
        if owner \<noteq> anchor then Inr False
        else ebind (alarm_tag (index_of m) alarm) (role_requested roles))) (ord (keyed (decls m ''alarms''))) =
      Inr (filter (\<lambda>(k, x). ?P x) (ord (keyed (decls m ''alarms''))))"
  proof (rule efilter_map_snd)
    fix k x assume "(k, x) \<in> set (ord (keyed (decls m ''alarms'')))"
    then have x: "x \<in> set (decls m ''alarms'')" by (simp add: ord_members [OF assms(2)])
    from alarm_tag_eq [OF assms(1) x] obtain t where t: "alarm_tag (index_of m) x = Inr t"
      "map_of (keyed (decls m ''tags'')) (sfld x ''tag_id'') = Some t" "t \<in> set (decls m ''tags'')" by blast
    have "role_requested roles t = Inr (role_selected roles t)"
      by (rule role_requested_wf [OF wf_model_decls(1) [OF assms(1) t(3)]])
    moreover have "string_at x ''asset_id'' = Inr (sfld x ''asset_id'')"
      using wf_alarm_fields(2) [OF wf_model_decls(2) [OF assms(1) x]] by simp
    ultimately show "(case (k, x) of (k, alarm) \<Rightarrow>
        ebind (if anchor \<noteq> [] then string_at alarm ''asset_id'' else Inr anchor) (\<lambda>owner.
        if owner \<noteq> anchor then Inr False
        else ebind (alarm_tag (index_of m) alarm) (role_requested roles))) = Inr (?P x)"
      by (auto simp: t)
  qed
  moreover have "by_id (filter ?P (map snd (ord (keyed (decls m ''alarms''))))) = alarm_selection m anchor roles"
    unfolding alarm_selection_def
    by (rule by_id_cong)
       (simp_all only: mset_filter mset_ord_keyed [OF assms(2)]
          distinct_map_filter [OF wf_model_decls(4) [OF assms(1)]])
  moreover have "ix_alarms (index_of m) = keyed (decls m ''alarms'')" by (simp add: index_of_def)
  ultimately show ?thesis
    by (simp add: view_alarms_def map_snd_filter)
qed

section \<open>Which tasks are accepted\<close>

definition roles_ok :: "json \<Rightarrow> bool" where
  "roles_ok task \<longleftrightarrow>
     (case find_key task ''measurement_roles'' of
        None \<Rightarrow> True
      | Some v \<Rightarrow> is_array v \<and> elements_of v \<noteq> [] \<and> length (elements_of v) \<le> 16 \<and>
          list_all (\<lambda>r. is_string r \<and> str_of r \<noteq> [] \<and> length (str_of r) \<le> k_max_string) (elements_of v) \<and>
          distinct (map str_of (elements_of v)))"

definition task_roles :: "json \<Rightarrow> string list" where
  "task_roles task = map str_of (elements_of (fld task ''measurement_roles''))"

definition dimension_ok :: "json \<Rightarrow> string \<Rightarrow> u64 \<Rightarrow> u64 \<Rightarrow> bool" where
  "dimension_ok client name lo hi \<longleftrightarrow>
     (case find_key client name of
        None \<Rightarrow> True
      | Some v \<Rightarrow> is_nonnegative_integer v \<and> (\<exists>w. get_u64 v = Inr w \<and> lo \<le> w \<and> w \<le> hi))"

definition choice_ok :: "json \<Rightarrow> string \<Rightarrow> string list \<Rightarrow> bool" where
  "choice_ok client key vs \<longleftrightarrow>
     (case find_key client key of None \<Rightarrow> True | Some v \<Rightarrow> \<exists>s \<in> set vs. v = JStr s)"

definition client_ok :: "json \<Rightarrow> bool" where
  "client_ok task \<longleftrightarrow>
     (case find_key task ''client'' of
        None \<Rightarrow> True
      | Some c \<Rightarrow> only_keys c client_fields \<and> dimension_ok c ''width_px'' 240 7680 \<and>
          dimension_ok c ''height_px'' 160 4320 \<and> choice_ok c ''size_class'' [''small'', ''medium'', ''large''] \<and>
          choice_ok c ''density'' [''compact'', ''comfortable''] \<and>
          (case find_key c ''reduced_motion'' of None \<Rightarrow> True | Some v \<Rightarrow> is_boolean v))"

definition text_upto :: "json \<Rightarrow> string \<Rightarrow> nat \<Rightarrow> bool" where
  "text_upto j k mx \<longleftrightarrow> find_key j k = Some (JStr (sfld j k)) \<and> sfld j k \<noteq> [] \<and> length (sfld j k) \<le> mx"

definition task_ok :: "json \<Rightarrow> json \<Rightarrow> bool" where
  "task_ok m task \<longleftrightarrow>
     only_keys task task_fields \<and> text_upto task ''kind'' 32 \<and>
     sfld task ''kind'' \<in> {''overview'', ''alarms''} \<and>
     contains task ''model_revision'' \<and> is_nonnegative_integer (fld task ''model_revision'') \<and>
     jeq (fld task ''model_revision'') (fld m ''revision'') \<and>
     (contains task ''model_id'' \<longrightarrow> fld task ''model_id'' = fld m ''model_id'') \<and>
     text_upto task ''original_request'' k_max_prompt \<and>
     (contains task ''anchor_asset_id'' \<longrightarrow>
        text_upto task ''anchor_asset_id'' (length (sfld task ''anchor_asset_id'')) \<and>
        sfld task ''anchor_asset_id'' \<in> (\<lambda>a. sfld a ''id'') ` set (decls m ''assets''))"

lemma role_text_Inr:
  "role_text r = Inr s \<longleftrightarrow>
     (is_string r \<and> str_of r \<noteq> [] \<and> length (str_of r) \<le> k_max_string) \<and> s = str_of r"
  by (auto simp: role_text_def is_string_iff)

lemma emap_conditional:
  "(\<And>x y. f x = Inr y \<longleftrightarrow> P x \<and> y = g x) \<Longrightarrow>
     emap f xs = Inr ys \<longleftrightarrow> list_all P xs \<and> ys = map g xs"
  by (induction xs arbitrary: ys) auto

lemma remdups_length_iff: "length (remdups xs) = length xs \<longleftrightarrow> distinct xs"
  by (metis card_distinct distinct_card length_remdups_card_conv)

lemma requested_roles_Inr:
  "requested_roles task = Inr rs \<longleftrightarrow> roles_ok task \<and> rs = task_roles task"
proof (cases "find_key task ''measurement_roles''")
  case None
  then show ?thesis by (auto simp: requested_roles_def roles_ok_def task_roles_def contains_def fld_def)
next
  case (Some v)
  have l: "length (remdups (map str_of (elements_of v))) = length (elements_of v) \<longleftrightarrow>
      distinct (map str_of (elements_of v))"
    using remdups_length_iff [of "map str_of (elements_of v)"] by simp
  note e = emap_conditional [where f = role_text and xs = "elements_of v", OF role_text_Inr]
  have ne: "json_empty v \<longleftrightarrow> elements_of v = []" if "is_array v"
    using that by (cases v) (auto simp: json_empty_def)
  from Some show ?thesis
    by (auto simp: requested_roles_def roles_ok_def task_roles_def contains_def fld_def e l ne
        json_size_array distinct_remdups_id)
qed

lemma dimension_Inr:
  "dimension c n lo hi = Inr d \<longleftrightarrow> dimension_ok c n lo hi \<and>
     d = (case find_key c n of None \<Rightarrow> None | Some v \<Rightarrow> Some (projr (get_u64 v)))"
  by (cases "find_key c n") (auto simp: dimension_def dimension_ok_def contains_def not_less)

definition choice_pred :: "json \<Rightarrow> string \<Rightarrow> (json \<Rightarrow> bool) \<Rightarrow> bool" where
  "choice_pred c key ok \<longleftrightarrow> (case find_key c key of None \<Rightarrow> True | Some v \<Rightarrow> ok v)"

lemma client_choice_Inr:
  "client_choice c key ok msg target l = Inr l' \<longleftrightarrow> choice_pred c key ok \<and>
     l' = (case find_key c key of None \<Rightarrow> l | Some v \<Rightarrow> oset l target v)"
  by (cases "find_key c key") (auto simp: client_choice_def choice_pred_def contains_def)

lemma layout_density_Inr:
  "\<exists>f. \<forall>l l'. layout_density c w l = Inr l' \<longleftrightarrow> choice_pred c ''density'' density_choice \<and> l' = f l"
  by (cases "find_key c ''density''")
     (auto simp: layout_density_def client_choice_Inr choice_pred_def contains_def)

lemma choice_ok_pred:
  "choice_pred c k size_class_choice \<longleftrightarrow> choice_ok c k [''small'', ''medium'', ''large'']"
  "choice_pred c k density_choice \<longleftrightarrow> choice_ok c k [''compact'', ''comfortable'']"
  by (auto simp: choice_pred_def choice_ok_def size_class_choice_def density_choice_def split: option.splits)

lemma check_client_Inr: "check_client c = Inr u \<longleftrightarrow> only_keys c client_fields"
  by (cases c) (auto simp: check_client_def only_keys_def json_items_def)

lemma client_layout_Inr:
  "(\<exists>l. client_layout c = Inr l) \<longleftrightarrow>
     only_keys c client_fields \<and> dimension_ok c ''width_px'' 240 7680 \<and>
     dimension_ok c ''height_px'' 160 4320 \<and> choice_pred c ''size_class'' size_class_choice \<and>
     choice_pred c ''density'' density_choice \<and> choice_pred c ''reduced_motion'' is_boolean"
proof -
  define w h where "w = (case find_key c ''width_px'' of None \<Rightarrow> None | Some v \<Rightarrow> Some (projr (get_u64 v)))"
    and "h = (case find_key c ''height_px'' of None \<Rightarrow> None | Some v \<Rightarrow> Some (projr (get_u64 v)))"
  obtain f where f: "\<And>l l'. layout_density c w l = Inr l' \<longleftrightarrow>
      choice_pred c ''density'' density_choice \<and> l' = f l"
    using layout_density_Inr by metis
  show ?thesis
    by (simp only: client_layout_def ethen_Inr check_client_Inr ebind_eq_Inr dimension_Inr w_def [symmetric]
        h_def [symmetric] client_choice_Inr) (auto simp: f)
qed

lemma responsive_layout_Inr: "(\<exists>l. responsive_layout task = Inr l) \<longleftrightarrow> client_ok task"
proof (cases "find_key task ''client''")
  case None
  then show ?thesis by (simp add: responsive_layout_def client_ok_def contains_def)
next
  case (Some c)
  then show ?thesis
    using client_layout_Inr [of c]
    by (simp add: responsive_layout_def client_ok_def contains_def choice_ok_pred)
       (simp add: choice_pred_def)
qed

section \<open>What a view contains\<close>

definition dumps_all :: "(json \<Rightarrow> string res) \<Rightarrow> bool" where
  "dumps_all dump \<longleftrightarrow> (\<forall>j. \<exists>t. dump j = Inr t)"

definition same_field :: "json \<Rightarrow> string \<Rightarrow> json \<Rightarrow> string \<Rightarrow> bool" where
  "same_field a k b k' \<longleftrightarrow> find_key a k = Some (fld b k')"

definition comp_of :: "json \<Rightarrow> json \<Rightarrow> bool" where
  "comp_of tag c \<longleftrightarrow>
     same_field c ''id'' tag ''id'' \<and> same_field c ''tag_id'' tag ''id'' \<and>
     same_field c ''asset_id'' tag ''asset_id'' \<and> same_field c ''role'' tag ''role'' \<and>
     same_field c ''unit'' tag ''unit'' \<and>
     find_key c ''kind'' = Some (JStr (overview_kind (lower (sfld tag ''role''))))"

definition dep_of :: "json \<Rightarrow> json \<Rightarrow> bool" where
  "dep_of tag d \<longleftrightarrow>
     same_field d ''tag_id'' tag ''id'' \<and> same_field d ''owner'' tag ''asset_id'' \<and>
     same_field d ''role'' tag ''role'' \<and> same_field d ''data_type'' tag ''data_type'' \<and>
     same_field d ''unit'' tag ''unit'' \<and> same_field d ''source'' tag ''source'' \<and>
     (\<exists>b. tag_binding_snapshot tag = Inr b \<and> find_key d ''binding'' = Some b)"

definition alarm_comp_of :: "json \<Rightarrow> json \<Rightarrow> json \<Rightarrow> bool" where
  "alarm_comp_of al tag c \<longleftrightarrow>
     same_field c ''id'' al ''id'' \<and> same_field c ''alarm_id'' al ''id'' \<and> same_field c ''label'' al ''name'' \<and>
     same_field c ''asset_id'' al ''asset_id'' \<and> same_field c ''tag_id'' al ''tag_id'' \<and>
     same_field c ''role'' tag ''role'' \<and> same_field c ''unit'' tag ''unit'' \<and>
     find_key c ''kind'' = Some (JStr ''alarm'')"

definition alarm_dep_of :: "json \<Rightarrow> json \<Rightarrow> json \<Rightarrow> bool" where
  "alarm_dep_of al tag d \<longleftrightarrow>
     dep_of tag d \<and> same_field d ''alarm_id'' al ''id'' \<and> same_field d ''alarm_owner'' al ''asset_id'' \<and>
     same_field d ''alarm_name'' al ''name'' \<and> same_field d ''operator'' al ''operator'' \<and>
     same_field d ''threshold'' al ''threshold'' \<and> same_field d ''severity'' al ''severity'' \<and>
     (\<exists>s. alarm_definition_snapshot al = Inr s \<and> find_key d ''alarm_definition'' = Some s)"

lemmas wf_tag_present = wf_tag_fields(1,5,6,7) wf_tag_fields(2) [THEN fld_present]
  wf_tag_fields(3) [THEN fld_present] wf_tag_fields(4) [THEN fld_present]

lemmas wf_alarm_present = wf_alarm_fields(1,4,5,6,7) wf_alarm_fields(2) [THEN fld_present]
  wf_alarm_fields(3) [THEN fld_present]

lemma tag_snapshot_total:
  "wf_tag assets t \<Longrightarrow> \<exists>b. tag_binding_snapshot t = Inr b"
  by (simp add: tag_binding_snapshot_def copy_members_total wf_tag_present)

lemma tag_fingerprint_total:
  "wf_tag assets t \<Longrightarrow> dumps_all dump \<Longrightarrow> \<exists>fp. tag_fingerprint dump t = Inr fp"
  using tag_snapshot_total [of assets t] by (fastforce simp: tag_fingerprint_def dumps_all_def)

lemma component_for_total:
  assumes "wf_tag assets t" and "dumps_all dump"
  shows "\<exists>c. component_for dump t kind label reason = Inr c \<and>
    same_field c ''id'' t ''id'' \<and> same_field c ''tag_id'' t ''id'' \<and> same_field c ''asset_id'' t ''asset_id'' \<and>
    same_field c ''role'' t ''role'' \<and> same_field c ''unit'' t ''unit'' \<and> find_key c ''kind'' = Some (JStr kind)"
  using tag_fingerprint_total [OF assms] assms(1)
  by (auto simp: component_for_def copy_members_total wf_tag_present same_field_def)

lemma dependency_for_total:
  assumes "wf_tag assets t" and "dumps_all dump"
  shows "\<exists>d. dependency_for dump t = Inr d \<and> dep_of t d"
  using tag_fingerprint_total [OF assms] tag_snapshot_total [OF assms(1)] assms(1)
  by (auto simp: dependency_for_def copy_members_total wf_tag_present same_field_def dep_of_def)

lemma alarm_snapshot_total:
  "wf_alarm assets tags a \<Longrightarrow> \<exists>s. alarm_definition_snapshot a = Inr s"
  by (simp add: alarm_definition_snapshot_def copy_members_total wf_alarm_present)

lemma alarm_fingerprint_total:
  "wf_alarm assets tags a \<Longrightarrow> dumps_all dump \<Longrightarrow> \<exists>fp. alarm_definition_fingerprint dump a = Inr fp"
  using alarm_snapshot_total [of assets tags a]
  by (fastforce simp: alarm_definition_fingerprint_def dumps_all_def)

lemma alarm_component_total:
  assumes "wf_tag assets t" and "wf_alarm assets tags a" and "dumps_all dump"
  shows "\<exists>c. alarm_component_for dump a t = Inr c \<and> alarm_comp_of a t c"
  using tag_fingerprint_total [OF assms(1,3)] alarm_fingerprint_total [OF assms(2,3)] assms(1,2)
  by (auto simp: alarm_component_for_def copy_members_total wf_tag_present wf_alarm_present
      same_field_def alarm_comp_of_def)

lemma alarm_dependency_total:
  assumes "wf_tag assets t" and "wf_alarm assets tags a" and "dumps_all dump"
  shows "\<exists>d. dependency_for_alarm dump a t = Inr d \<and> alarm_dep_of a t d"
  using dependency_for_total [OF assms(1,3)] alarm_fingerprint_total [OF assms(2,3)]
    alarm_snapshot_total [OF assms(2)] assms(2)
  by (auto simp: dependency_for_alarm_def copy_members_total wf_alarm_present same_field_def
      alarm_dep_of_def dep_of_def)

lemma asset_name_total:
  assumes "wf_model dump m" and "k \<in> (\<lambda>a. sfld a ''id'') ` set (decls m ''assets'')"
  shows "\<exists>n. asset_name (index_of m) k = Inr n"
proof -
  obtain a where a: "a \<in> set (decls m ''assets'')" "k = sfld a ''id''" using assms(2) by auto
  then have "map_of (ix_assets (index_of m)) k = Some a"
    using assms(1) by (simp add: index_of_def map_of_keyed_mem wf_model_def Let_def)
  moreover from wf_model_facts(5) [OF assms(1) this] have "has_text a ''name'' k_max_string"
    by (simp add: wf_asset_def)
  ultimately show ?thesis by (auto simp: asset_name_def has_text_def)
qed

lemma overview_component_total:
  assumes "wf_model dump m" and "dumps_all dump" and "t \<in> set (decls m ''tags'')"
    and "sfld t ''asset_id'' = a"
  shows "\<exists>c d. overview_component dump (index_of m) a t = Inr (c, d) \<and> comp_of t c \<and> dep_of t d"
proof -
  note wf = wf_model_decls(1) [OF assms(1,3)]
  have "map_of (keyed (decls m ''assets'')) a \<noteq> None" using wf assms(4) by (simp add: wf_tag_def)
  then have "a \<in> (\<lambda>a. sfld a ''id'') ` set (decls m ''assets'')" by (auto dest!: map_of_keyed)
  from asset_name_total [OF assms(1) this] obtain n where "asset_name (index_of m) a = Inr n" ..
  with component_for_total [OF wf assms(2), of "overview_kind (lower (sfld t ''role''))"
      "n @ '' '' @ sfld t ''name''" "''Declared tag in machine overview''"]
    dependency_for_total [OF wf assms(2)]
  show ?thesis
    by (auto simp: overview_component_def wf_tag_fields [OF wf] comp_of_def)
qed

lemma list_all2_concat:
  "list_all2 (list_all2 P) xss yss \<Longrightarrow> list_all2 P (concat xss) (concat yss)"
  by (induction xss yss rule: list_all2_induct) (auto intro: list_all2_appendI)

lemma emap_exists:
  "(\<And>x. x \<in> set xs \<Longrightarrow> \<exists>y. f x = Inr y \<and> P x y) \<Longrightarrow> \<exists>ys. emap f xs = Inr ys \<and> list_all2 P xs ys"
  by (induction xs) (fastforce simp: list_all2_Cons1)+

definition paired :: "(json \<Rightarrow> json \<Rightarrow> bool) \<Rightarrow> (json \<Rightarrow> json \<Rightarrow> bool) \<Rightarrow> json \<Rightarrow> json \<times> json \<Rightarrow> bool" where
  "paired P Q t cd \<longleftrightarrow> P t (fst cd) \<and> Q t (snd cd)"

lemma paired_map:
  "list_all2 (paired P Q) xs cds \<Longrightarrow> list_all2 P xs (map fst cds) \<and> list_all2 Q xs (map snd cds)"
  by (induction xs cds rule: list_all2_induct) (auto simp: paired_def)

lemma base_view_total:
  assumes "wf_model dump m"
  shows "\<exists>v. base_view (index_of m) task vid title = Inr v"
proof -
  have "find_key m ''model_id'' = Some (fld m ''model_id'')" "find_key m ''revision'' = Some (fld m ''revision'')"
    using assms by (auto simp: wf_model_def Let_def wf_header_def has_ident_def has_text_def fld_def)
  then show ?thesis by (simp add: base_view_def copy_members_total index_of_def)
qed

lemma view_name_total:
  assumes "wf_model dump m" and "anchor \<noteq> [] \<longrightarrow> anchor \<in> (\<lambda>a. sfld a ''id'') ` set (decls m ''assets'')"
  shows "\<exists>v t. view_name (index_of m) anchor suffix title = Inr (v, t)"
  using asset_name_total [OF assms(1), of anchor] assms(2) by (auto simp: view_name_def)

lemma finish_view_fields:
  "find_key (finish_view v found i) ''components'' = Some (JArr (map fst found))"
  "find_key (finish_view v found i) ''dependencies'' = Some (JArr (map snd found))"
  by (simp_all add: finish_view_def Let_def)

definition shows_selection :: "json list \<Rightarrow> (json \<Rightarrow> json \<Rightarrow> bool) \<Rightarrow> (json \<Rightarrow> json \<Rightarrow> bool) \<Rightarrow> json \<Rightarrow> bool" where
  "shows_selection sel P Q view \<longleftrightarrow>
     (\<exists>cs ds. find_key view ''components'' = Some (JArr cs) \<and> find_key view ''dependencies'' = Some (JArr ds) \<and>
        list_all2 P sel cs \<and> list_all2 Q sel ds \<and>
        find_key view ''status'' = Some (JStr (if sel = [] then ''needs-review'' else ''ready'')))"

lemma finish_view_selection:
  assumes "list_all2 (paired P Q) sel found" and "find_key v ''status'' = Some (JStr ''ready'')"
  shows "shows_selection sel P Q (finish_view v found i)"
proof -
  have "sel = [] \<longleftrightarrow> found = []" using assms(1) by (auto dest: list_all2_lengthD)
  with paired_map [OF assms(1)] assms(2) show ?thesis
    by (auto simp: shows_selection_def finish_view_def Let_def)
qed

lemma base_view_status: "base_view ix task vid title = Inr v \<Longrightarrow> find_key v ''status'' = Some (JStr ''ready'')"
  by (auto simp: base_view_def copy_members_def)

lemma resolve_overview_total:
  assumes "wf_model dump m" and "reorders ord" and "dumps_all dump" and "task_anchor task = Inr anchor"
    and "anchor \<noteq> [] \<longrightarrow> anchor \<in> (\<lambda>a. sfld a ''id'') ` set (decls m ''assets'')"
  shows "(\<exists>view. resolve_overview dump ord (index_of m) task = Inr view) \<longleftrightarrow> roles_ok task"
    and "resolve_overview dump ord (index_of m) task = Inr view \<Longrightarrow>
      shows_selection (overview_selection m anchor (task_roles task)) comp_of dep_of view"
proof -
  obtain vid title where vn: "view_name (index_of m) anchor ''overview'' ''Overview'' = Inr (vid, title)"
    using view_name_total [OF assms(1,5)] by blast
  obtain v where v: "base_view (index_of m) task vid title = Inr v" using base_view_total [OF assms(1)] by blast
  have "\<exists>found. emap (\<lambda>asset. ebind (overview_tags ord (index_of m) (task_roles task) asset)
          (\<lambda>tags. emap (overview_component dump (index_of m) asset) tags)) (scope_assets m anchor) = Inr found \<and>
        list_all2 (\<lambda>asset cds. list_all2 (paired comp_of dep_of) (asset_selection m (task_roles task) asset) cds)
          (scope_assets m anchor) found"
  proof (rule emap_exists)
    fix asset
    have "\<exists>cds. emap (overview_component dump (index_of m) asset) (asset_selection m (task_roles task) asset) = Inr cds \<and>
        list_all2 (paired comp_of dep_of) (asset_selection m (task_roles task) asset) cds"
    proof (rule emap_exists)
      fix t assume "t \<in> set (asset_selection m (task_roles task) asset)"
      then have "t \<in> set (decls m ''tags'')" "sfld t ''asset_id'' = asset"
        by (auto simp: asset_selection_def by_id_def)
      from overview_component_total [OF assms(1,3) this]
      show "\<exists>y. overview_component dump (index_of m) asset t = Inr y \<and> paired comp_of dep_of t y"
        by (auto simp: paired_def)
    qed
    then show "\<exists>y. ebind (overview_tags ord (index_of m) (task_roles task) asset)
          (\<lambda>tags. emap (overview_component dump (index_of m) asset) tags) = Inr y \<and>
        list_all2 (paired comp_of dep_of) (asset_selection m (task_roles task) asset) y"
      by (simp add: overview_tags_eq [OF assms(1,2)])
  qed
  then obtain found where f: "emap (\<lambda>asset. ebind (overview_tags ord (index_of m) (task_roles task) asset)
          (\<lambda>tags. emap (overview_component dump (index_of m) asset) tags)) (scope_assets m anchor) = Inr found"
    "list_all2 (\<lambda>asset cds. list_all2 (paired comp_of dep_of) (asset_selection m (task_roles task) asset) cds)
          (scope_assets m anchor) found" by blast
  have r: "resolve_overview dump ord (index_of m) task =
      ebind (requested_roles task) (\<lambda>roles. ebind (emap (\<lambda>asset. ebind (overview_tags ord (index_of m) roles asset)
          (\<lambda>tags. emap (overview_component dump (index_of m) asset) tags)) (scope_assets m anchor)) (\<lambda>found.
        Inr (finish_view v (concat found)
          (issue ''missing-overview-tags'' ''No declared tags are available for this overview'' ''error''))))"
    using assms(4) vn v by (simp add: resolve_overview_def scope_assets_eq [OF assms(2)])
  show "(\<exists>view. resolve_overview dump ord (index_of m) task = Inr view) \<longleftrightarrow> roles_ok task"
    using f(1) by (auto simp: r requested_roles_Inr)
  have "list_all2 (list_all2 (paired comp_of dep_of)) (map (asset_selection m (task_roles task)) (scope_assets m anchor)) found"
    using f(2) by (simp add: list_all2_map1)
  then have "list_all2 (paired comp_of dep_of) (overview_selection m anchor (task_roles task)) (concat found)"
    unfolding overview_selection_def by (rule list_all2_concat)
  note sel = finish_view_selection [OF this base_view_status [OF v]]
  show "shows_selection (overview_selection m anchor (task_roles task)) comp_of dep_of view"
    if "resolve_overview dump ord (index_of m) task = Inr view"
    using that f(1) sel by (auto simp: r requested_roles_Inr)
qed

definition tag_of_alarm :: "json \<Rightarrow> json \<Rightarrow> json" where
  "tag_of_alarm m al = the (map_of (keyed (decls m ''tags'')) (sfld al ''tag_id''))"

lemma resolve_alarms_total:
  assumes "wf_model dump m" and "reorders ord" and "dumps_all dump" and "task_anchor task = Inr anchor"
    and "anchor \<noteq> [] \<longrightarrow> anchor \<in> (\<lambda>a. sfld a ''id'') ` set (decls m ''assets'')"
  shows "(\<exists>view. resolve_alarms dump ord (index_of m) task = Inr view) \<longleftrightarrow> roles_ok task"
    and "resolve_alarms dump ord (index_of m) task = Inr view \<Longrightarrow>
      shows_selection (alarm_selection m anchor (task_roles task))
        (\<lambda>al. alarm_comp_of al (tag_of_alarm m al)) (\<lambda>al. alarm_dep_of al (tag_of_alarm m al)) view"
proof -
  let ?P = "paired (\<lambda>al. alarm_comp_of al (tag_of_alarm m al)) (\<lambda>al. alarm_dep_of al (tag_of_alarm m al))"
  obtain vid title where vn: "view_name (index_of m) anchor ''alarms'' ''Alarms'' = Inr (vid, title)"
    using view_name_total [OF assms(1,5)] by blast
  obtain v where v: "base_view (index_of m) task vid title = Inr v" using base_view_total [OF assms(1)] by blast
  have "\<exists>found. emap (\<lambda>alarm. ebind (alarm_tag (index_of m) alarm) (\<lambda>tag.
        ebind (alarm_component_for dump alarm tag) (\<lambda>c. ebind (dependency_for_alarm dump alarm tag) (\<lambda>d. Inr (c, d)))))
      (alarm_selection m anchor (task_roles task)) = Inr found \<and> list_all2 ?P (alarm_selection m anchor (task_roles task)) found"
  proof (rule emap_exists)
    fix al assume "al \<in> set (alarm_selection m anchor (task_roles task))"
    then have al: "al \<in> set (decls m ''alarms'')" by (simp add: alarm_selection_def by_id_def)
    obtain t where t: "alarm_tag (index_of m) al = Inr t" "map_of (keyed (decls m ''tags'')) (sfld al ''tag_id'') = Some t"
      "t \<in> set (decls m ''tags'')" using alarm_tag_eq [OF assms(1) al] by blast
    note wf = wf_model_decls(1) [OF assms(1) t(3)] wf_model_decls(2) [OF assms(1) al]
    from alarm_component_total [OF wf assms(3)] alarm_dependency_total [OF wf assms(3)] t(1,2)
    show "\<exists>y. ebind (alarm_tag (index_of m) al) (\<lambda>tag. ebind (alarm_component_for dump al tag)
        (\<lambda>c. ebind (dependency_for_alarm dump al tag) (\<lambda>d. Inr (c, d)))) = Inr y \<and> ?P al y"
      by (auto simp: paired_def tag_of_alarm_def)
  qed
  then obtain found where f: "emap (\<lambda>alarm. ebind (alarm_tag (index_of m) alarm) (\<lambda>tag.
        ebind (alarm_component_for dump alarm tag) (\<lambda>c. ebind (dependency_for_alarm dump alarm tag) (\<lambda>d. Inr (c, d)))))
      (alarm_selection m anchor (task_roles task)) = Inr found"
    "list_all2 ?P (alarm_selection m anchor (task_roles task)) found" by blast
  note sel = finish_view_selection [OF f(2) base_view_status [OF v]]
  have r: "resolve_alarms dump ord (index_of m) task =
      ebind (requested_roles task) (\<lambda>roles. ebind (emap (\<lambda>alarm. ebind (alarm_tag (index_of m) alarm) (\<lambda>tag.
        ebind (alarm_component_for dump alarm tag) (\<lambda>c. ebind (dependency_for_alarm dump alarm tag) (\<lambda>d. Inr (c, d)))))
        (alarm_selection m anchor roles)) (\<lambda>found.
        Inr (finish_view v found (issue ''no-alarms'' ''No declared alarms are available for this scope'' ''info''))))"
    using assms(4) vn v by (simp add: resolve_alarms_def view_alarms_eq [OF assms(1,2)])
  show "(\<exists>view. resolve_alarms dump ord (index_of m) task = Inr view) \<longleftrightarrow> roles_ok task"
    using f(1) by (auto simp: r requested_roles_Inr)
  show "shows_selection (alarm_selection m anchor (task_roles task))
        (\<lambda>al. alarm_comp_of al (tag_of_alarm m al)) (\<lambda>al. alarm_dep_of al (tag_of_alarm m al)) view"
    if "resolve_alarms dump ord (index_of m) task = Inr view"
    using that f(1) sel by (auto simp: r requested_roles_Inr)
qed

lemma task_string_Inr:
  "task_string j k w mx = Inr s \<longleftrightarrow> text_upto j k mx \<and> s = sfld j k"
proof (cases "find_key j k")
  case None
  then show ?thesis by (simp add: task_string_def text_upto_def contains_def)
next
  case (Some v)
  then have "contains j k" by (simp add: contains_def)
  with Some contains_is_object [OF this] show ?thesis
    by (cases v) (auto simp: task_string_def text_upto_def Let_def sfld_def fld_def)
qed

lemma check_task_keys:
  "is_object task \<and> echeck (\<lambda>(k, v). throw_if (k \<notin> set task_fields)
       (invalid_task (''task contains unsupported field '' @ quoted k))) (json_items task) = Inr () \<longleftrightarrow>
     only_keys task task_fields"
  by (cases task) (auto simp: only_keys_def json_items_def)

lemma anchor_text:
  "contains task ''anchor_asset_id'' \<Longrightarrow>
     (\<not> (\<not> is_string (fld task ''anchor_asset_id'') \<or> sfld task ''anchor_asset_id'' = [])) \<longleftrightarrow>
     text_upto task ''anchor_asset_id'' (length (sfld task ''anchor_asset_id''))"
  by (auto simp: contains_def text_upto_def sfld_def fld_def is_string_iff)

lemma check_task_Inr:
  assumes "wf_model dump m"
  shows "check_task (index_of m) task = Inr kind \<longleftrightarrow> task_ok m task \<and> kind = sfld task ''kind''"
proof -
  have h: "wf_header dump m" using assms by (simp add: wf_model_def Let_def)
  obtain rev mid where m: "find_key m ''revision'' = Some rev" "find_key m ''model_id'' = Some (JStr mid)"
    using h by (auto simp: wf_header_def has_ident_def has_text_def)
  have mm: "json_at (ix_model (index_of m)) ''revision'' = Inr rev" "fld m ''revision'' = rev"
    "json_at (ix_model (index_of m)) ''model_id'' = Inr (JStr mid)" "fld m ''model_id'' = JStr mid"
    using m by (simp_all add: index_of_def fld_def)
  have mid: "\<not> (contains task ''model_id'' \<and> (\<not> is_string (fld task ''model_id'') \<or> \<not> jeq (fld task ''model_id'') (JStr mid))) \<longleftrightarrow>
      (contains task ''model_id'' \<longrightarrow> fld task ''model_id'' = JStr mid)"
    by auto
  have an: "map_of (ix_assets (index_of m)) k \<noteq> None \<longleftrightarrow> k \<in> (\<lambda>a. sfld a ''id'') ` set (decls m ''assets'')" for k
    by (simp add: index_of_def keyed_def map_of_eq_None_iff image_image)
  show ?thesis
    unfolding task_ok_def check_task_keys [symmetric] mm(2,4) mid [symmetric] an [symmetric]
    by (cases "contains task ''anchor_asset_id''"; cases "is_object task")
       (auto simp: check_task_def task_string_Inr mm(1,3) anchor_text [symmetric] simp del: echeck_Inr_iff)
qed

lemma effective_task_fields:
  assumes "wf_model dump m" and "is_object task"
  shows "\<exists>t. effective_task (index_of m) task = Inr t \<and> is_object t \<and>
    (\<forall>k. k \<noteq> ''model_id'' \<longrightarrow> find_key t k = find_key task k)"
  using assms by (auto simp: effective_task_def index_of_def wf_model_def Let_def wf_header_def
      has_ident_def has_text_def)

lemma resolve_task_steps:
  assumes "wf_model dump m" and "task_ok m task"
  obtains t where "effective_task (index_of m) task = Inr t" "sfld t ''kind'' = sfld task ''kind''"
    "roles_ok t \<longleftrightarrow> roles_ok task" "task_roles t = task_roles task" "client_ok t \<longleftrightarrow> client_ok task"
    "task_anchor t = Inr (sfld task ''anchor_asset_id'')"
    "sfld task ''anchor_asset_id'' \<noteq> [] \<longrightarrow>
       sfld task ''anchor_asset_id'' \<in> (\<lambda>a. sfld a ''id'') ` set (decls m ''assets'')"
proof -
  have "is_object task" using assms(2) by (simp add: task_ok_def only_keys_def)
  from effective_task_fields [OF assms(1) this] obtain t where t: "effective_task (index_of m) task = Inr t"
    and k: "\<And>k. k \<noteq> ''model_id'' \<Longrightarrow> find_key t k = find_key task k" by blast
  have "task_anchor t = Inr (sfld task ''anchor_asset_id'')"
    using assms(2) k [of "''anchor_asset_id''"]
    by (cases "find_key task ''anchor_asset_id''")
       (auto simp: task_ok_def task_anchor_def contains_def text_upto_def sfld_def fld_def)
  moreover have "sfld task ''anchor_asset_id'' \<noteq> [] \<longrightarrow>
      sfld task ''anchor_asset_id'' \<in> (\<lambda>a. sfld a ''id'') ` set (decls m ''assets'')"
    using assms(2) by (auto simp: task_ok_def contains_def sfld_def fld_def split: option.splits)
  ultimately show thesis
    using t k by (intro that [of t]) (simp_all add: roles_ok_def task_roles_def client_ok_def sfld_def fld_def)
qed

lemma resolve_task_accepts:
  assumes "wf_model dump m" and "reorders ord" and "dumps_all dump"
  shows "(\<exists>view. resolve_task dump ord m task = Inr view) \<longleftrightarrow> task_ok m task \<and> roles_ok task \<and> client_ok task"
proof -
  have ix: "index_model dump m = Inr (index_of m)" using assms(1) by (simp add: index_model_Inr)
  show ?thesis
  proof (cases "task_ok m task")
    case False
    then show ?thesis by (auto simp: resolve_task_def ix resolve_task_impl_def check_task_Inr [OF assms(1)])
  next
    case True
    from resolve_task_steps [OF assms(1) True] obtain t where
      t: "effective_task (index_of m) task = Inr t" "roles_ok t \<longleftrightarrow> roles_ok task" "client_ok t \<longleftrightarrow> client_ok task"
      "task_anchor t = Inr (sfld task ''anchor_asset_id'')"
      and an: "sfld task ''anchor_asset_id'' \<noteq> [] \<longrightarrow>
        sfld task ''anchor_asset_id'' \<in> (\<lambda>a. sfld a ''id'') ` set (decls m ''assets'')" by metis
    note o = resolve_overview_total(1) [OF assms t(4) an] and a = resolve_alarms_total(1) [OF assms t(4) an]
    show ?thesis
      using True responsive_layout_Inr [of t] o a
      by (simp add: resolve_task_def ix resolve_task_impl_def check_task_Inr [OF assms(1)] t) blast
  qed
qed

section \<open>Properties\<close>


definition demo_task :: json where
  "demo_task = JObj [(''kind'', JStr ''overview''), (''model_revision'', JUInt 1), (''original_request'', JStr ''show'')]"

lemma demo_task_ok: "task_ok demo_model demo_task" "roles_ok demo_task" "client_ok demo_task"
  by (simp_all add: task_ok_def demo_task_def demo_model_def only_keys_def task_fields_def text_upto_def
      sfld_def fld_def contains_def is_nonnegative_integer_def limits roles_ok_def client_ok_def)

lemma reorders_id: "reorders (\<lambda>x. x)" and reorders_rev: "reorders rev"
  by (simp_all add: reorders_def)

lemma demo_dumps: "dumps_all (\<lambda>_. Inr ''x'')"
  by (simp add: dumps_all_def)




text \<open>
  C16. The view does not depend on the iteration order of the index's hash maps: any two orders
  give the same result, the same exception included.
\<close>

theorem composer_order_independent:
  assumes "reorders ord" and "reorders ord'"
  shows "resolve_task dump ord m task = resolve_task dump ord' m task"
proof (cases "index_model dump m")
  case (Inr ix)
  then have wf: "wf_model dump m" and ix: "ix = index_of m" by (auto simp: index_model_Inr)
  have "resolve_overview dump ord ix t = resolve_overview dump ord' ix t" for t
    by (simp add: resolve_overview_def ix scope_assets_eq [OF assms(1)] scope_assets_eq [OF assms(2)]
        overview_tags_eq [OF wf assms(1)] overview_tags_eq [OF wf assms(2)])
  moreover have "resolve_alarms dump ord ix t = resolve_alarms dump ord' ix t" for t
    by (simp add: resolve_alarms_def ix view_alarms_eq [OF wf assms(1)] view_alarms_eq [OF wf assms(2)])
  ultimately show ?thesis by (simp add: Inr resolve_task_def resolve_task_impl_def cong: if_cong)
qed (simp add: resolve_task_def)

theorem composer_order_independent_witness:
  "resolve_task (\<lambda>_. Inr ''x'') rev demo_model demo_task = resolve_task (\<lambda>_. Inr ''x'') (\<lambda>x. x) demo_model demo_task"
  by (rule composer_order_independent [OF reorders_rev reorders_id])

end
