(* ===== verification/Inference.thy ===== *)
theory Inference
  imports Model_Index
begin

text \<open>
  Interpretation of operator prompts: the schema check of an interpretation
  (\<open>inference_validation.cpp\<close>), the rules provider (\<open>inference_rules.cpp\<close>), the check of an
  interpretation against the retrieved evidence (\<open>validate_interpretation_scope\<close> in
  \<open>context_retrieval.cpp\<close>) and the selection of a provider (\<open>inference.cpp\<close>). A language-model
  provider is an argument: any function that may answer anything or throw.
\<close>

section \<open>Schema\<close>

definition provider_schema :: "string \<Rightarrow> exn" where
  "provider_schema msg = InferenceError ''provider_schema'' msg"

definition is_allowed :: "json \<Rightarrow> string list \<Rightarrow> bool" where
  "is_allowed object names \<longleftrightarrow>
     (if \<not> is_object object then False
      else list_all (\<lambda>(k, v). list_ex (\<lambda>name. k = name) names) (json_items object))"

definition is_task_kind :: "string \<Rightarrow> bool" where
  "is_task_kind kind \<longleftrightarrow> kind = ''overview'' \<or> kind = ''alarms''"

definition interpretation_fields :: "string list" where
  "interpretation_fields = [''status'', ''message'', ''candidates'', ''task'', ''interpreter'', ''prompt'',
     ''supported_tasks'']"

definition interpreted_task_fields :: "string list" where
  "interpreted_task_fields = [''kind'', ''anchor_asset_id'', ''measurement_roles'', ''model_revision'',
     ''original_request'', ''model_id'']"

definition nonempty_string :: "json \<Rightarrow> bool" where
  "nonempty_string v \<longleftrightarrow> \<not> (\<not> is_string v \<or> str_of v = [])"

text \<open>\<open>operator>\<close> between a JSON integer and \<open>4294967295ULL\<close>.\<close>

fun above_u32 :: "json \<Rightarrow> bool" where
  "above_u32 (JInt w) = (sint w > 4294967295)"
| "above_u32 (JUInt w) = (uint w > 4294967295)"
| "above_u32 _ = False"

definition check_ready_task :: "json \<Rightarrow> unit res" where
  "check_ready_task task =
     checks
       [throw_if (\<not> is_allowed task interpreted_task_fields)
          (provider_schema ''task contains unexpected properties''),
        throw_if (\<not> contains task ''kind'' \<or> \<not> is_string (fld task ''kind'') \<or>
                  \<not> is_task_kind (sfld task ''kind''))
          (provider_schema ''task kind is unsupported''),
        throw_if (contains task ''anchor_asset_id'' \<and> \<not> nonempty_string (fld task ''anchor_asset_id''))
          (provider_schema ''task anchor_asset_id must be a nonempty string when present''),
        throw_if (contains task ''model_id'' \<and> \<not> nonempty_string (fld task ''model_id''))
          (provider_schema ''task model_id must be a nonempty string when present''),
        (if contains task ''measurement_roles''
         then checks
           [throw_if (\<not> is_array (fld task ''measurement_roles'') \<or>
                      json_empty (fld task ''measurement_roles'') \<or>
                      json_size (fld task ''measurement_roles'') > 16)
              (provider_schema ''task measurement_roles must be a bounded nonempty array''),
            echeck (\<lambda>role. throw_if (\<not> is_string role \<or> str_of role = [] \<or> length (str_of role) > 128)
                (provider_schema ''task measurement role is invalid''))
              (json_values (fld task ''measurement_roles''))]
         else Inr ()),
        throw_if (\<not> contains task ''model_revision'' \<or> \<not> is_number_integer (fld task ''model_revision'') \<or>
                  (case get_i64 (fld task ''model_revision'') of Inr n \<Rightarrow> n < 0 | Inl _ \<Rightarrow> True) \<or>
                  above_u32 (fld task ''model_revision''))
          (provider_schema ''task model_revision must be a nonnegative 32-bit integer''),
        throw_if (\<not> contains task ''original_request'' \<or> \<not> is_string (fld task ''original_request'') \<or>
                  length (sfld task ''original_request'') > 8192)
          (provider_schema ''task original_request must be a string'')]"

definition check_candidate :: "json \<Rightarrow> unit res" where
  "check_candidate candidate =
     (if is_string candidate
      then throw_if (length (str_of candidate) > 256)
             (provider_schema ''clarification candidate is too long'')
      else if is_object candidate \<and> json_size candidate \<le> 2 \<and> contains candidate ''asset_id'' \<and>
              is_string (fld candidate ''asset_id'') \<and> contains candidate ''name'' \<and>
              is_string (fld candidate ''name'')
      then Inr ()
      else Inl (provider_schema ''clarification candidate has invalid shape''))"

definition check_clarification :: "json \<Rightarrow> unit res" where
  "check_clarification v =
     checks
       [throw_if (\<not> contains v ''message'' \<or> \<not> is_string (fld v ''message'') \<or>
                  sfld v ''message'' = [] \<or> length (sfld v ''message'') > 2048)
          (provider_schema ''clarification requires message''),
        throw_if (contains v ''task'') (provider_schema ''clarification cannot contain task''),
        (if contains v ''candidates''
         then checks
           [throw_if (\<not> is_array (fld v ''candidates'') \<or> json_size (fld v ''candidates'') > 32)
              (provider_schema ''clarification candidates must be a bounded array''),
            echeck check_candidate (json_values (fld v ''candidates''))]
         else Inr ())]"

definition check_ready :: "json \<Rightarrow> unit res" where
  "check_ready v =
     checks
       [throw_if (\<not> contains v ''task'' \<or> \<not> is_object (fld v ''task''))
          (provider_schema ''ready interpretation requires task''),
        check_ready_task (fld v ''task''),
        throw_if (contains v ''message'')
          (provider_schema ''ready interpretation cannot contain clarification fields'')]"

definition validate_interpretation :: "json \<Rightarrow> json res" where
  "validate_interpretation v =
     (if \<not> is_object v then Inl (provider_schema ''interpretation must be an object'')
      else if \<not> is_allowed v interpretation_fields
      then Inl (provider_schema ''interpretation contains unexpected properties'')
      else if \<not> contains v ''status'' \<or> \<not> is_string (fld v ''status'')
      then Inl (provider_schema ''interpretation status must be a string'')
      else ethen
        (checks
          [(if sfld v ''status'' = ''ready'' then check_ready v
            else if sfld v ''status'' = ''clarification'' then check_clarification v
            else Inl (provider_schema ''interpretation status must be ready or clarification'')),
           throw_if (contains v ''interpreter'' \<and> \<not> is_string (fld v ''interpreter''))
             (provider_schema ''interpreter must be a string''),
           throw_if (contains v ''prompt'' \<and>
                     (\<not> is_string (fld v ''prompt'') \<or> length (sfld v ''prompt'') > 8192))
             (provider_schema ''prompt must be a bounded string''),
           (if contains v ''supported_tasks''
            then checks
              [throw_if (\<not> is_array (fld v ''supported_tasks'') \<or> json_size (fld v ''supported_tasks'') > 16)
                 (provider_schema ''supported_tasks must be a bounded array''),
               echeck (\<lambda>item. throw_if (\<not> is_string item)
                   (provider_schema ''supported_tasks entries must be strings''))
                 (json_values (fld v ''supported_tasks''))]
            else Inr ())])
        (Inr v))"

section \<open>Rules provider\<close>

text \<open>\<open>array.at(i)\<close>.\<close>

definition array_at :: "json \<Rightarrow> nat \<Rightarrow> json res" where
  "array_at j i =
     (if \<not> is_array j then Inl (JsonException 304)
      else if i < length (elements_of j) then Inr (elements_of j ! i)
      else Inl (JsonException 401))"

definition clarification_base :: "string \<Rightarrow> json list \<Rightarrow> json" where
  "clarification_base prompt candidates =
     jobj [(''interpreter'', JStr ''rules''), (''prompt'', JStr prompt), (''status'', JStr ''clarification''),
           (''message'', JStr ''Specify whether to show measurements or alarms''),
           (''candidates'', JArr candidates),
           (''supported_tasks'', JArr [JStr ''overview'', JStr ''alarms''])]"

definition rules_task :: "json \<Rightarrow> string \<Rightarrow> json \<Rightarrow> json \<Rightarrow> json res" where
  "rules_task model prompt retrieval task_hints =
     ebind (array_at task_hints 0) (\<lambda>kind.
     ebind (copy_members model [(''model_id'', ''model_id''), (''model_revision'', ''revision'')]) (\<lambda>ms.
     let task = jobj ([(''kind'', kind), (''original_request'', JStr prompt)] @ ms)
     in ebind (json_at retrieval ''eligible_asset_ids'') (\<lambda>eligible.
        ebind (if json_size eligible = 1
               then ebind (array_at eligible 0) (\<lambda>a. Inr (oset task ''anchor_asset_id'' a))
               else Inr task) (\<lambda>task.
        ebind (json_at retrieval ''measurement_role_hints'') (\<lambda>roles.
        Inr (if \<not> json_empty roles then oset task ''measurement_roles'' roles else task))))))"

definition rule_interpretation :: "json \<Rightarrow> string \<Rightarrow> json \<Rightarrow> json res" where
  "rule_interpretation model prompt retrieval =
     ebind (json_at retrieval ''candidates'') (\<lambda>cs.
     ebind (emap (\<lambda>c. ebind (copy_members c [(''asset_id'', ''asset_id''), (''name'', ''name'')])
              (\<lambda>ms. Inr (jobj ms))) (json_values cs)) (\<lambda>candidates.
     let result = clarification_base prompt candidates
     in ebind (value_bool retrieval ''requires_clarification'' False) (\<lambda>clarify.
        if clarify
        then ebind (json_at retrieval ''eligible_asset_ids'') (\<lambda>eligible.
          Inr (oset result ''message''
            (JStr (if json_size eligible > 1
                   then ''The equipment reference is ambiguous; choose one asset''
                   else ''The equipment reference does not match declared context''))))
        else ebind (json_at retrieval ''task_hints'') (\<lambda>task_hints.
          if json_size task_hints \<noteq> 1 then Inr result
          else ebind (rules_task model prompt retrieval task_hints) (\<lambda>task.
            Inr (oset (oerase (oset result ''status'' (JStr ''ready'')) ''message'') ''task'' task))))))"

definition rules_interpret :: "(exn \<Rightarrow> string) \<Rightarrow> json \<Rightarrow> string \<Rightarrow> json \<Rightarrow> json res" where
  "rules_interpret what model prompt retrieval =
     (if length prompt > 8192
      then Inl (InferenceError ''prompt_too_large'' ''prompt exceeds maximum size'')
      else case ebind (rule_interpretation model prompt retrieval) validate_interpretation of
        Inr r \<Rightarrow> Inr r
      | Inl (InferenceError code msg) \<Rightarrow> Inl (InferenceError code msg)
      | Inl e \<Rightarrow> Inl (InferenceError ''interpreter_error'' (what e)))"

section \<open>Scope\<close>

definition model_has_asset :: "json \<Rightarrow> string \<Rightarrow> bool res" where
  "model_has_asset model k =
     ebind (json_at model ''assets'') (\<lambda>assets.
       efold (\<lambda>found asset. if found then Inr True
                else ebind (json_at asset ''id'') (\<lambda>v. Inr (jeq v (JStr k)))) False (json_values assets))"

definition mismatch :: "string \<Rightarrow> exn" where
  "mismatch details = DomainError ''interpretation_mismatch'' details"

definition scope_roles :: "json \<Rightarrow> string list res" where
  "scope_roles retrieval =
     ebind (json_at retrieval ''scope'') (\<lambda>scope.
     ebind (json_at scope ''tags'') (\<lambda>tags.
     emap (\<lambda>tag. string_at tag ''role'') (json_values tags)))"

definition anchor_in_scope :: "json \<Rightarrow> json \<Rightarrow> json \<Rightarrow> unit res" where
  "anchor_in_scope model retrieval task =
     (if \<not> contains task ''anchor_asset_id''
      then ebind (value_bool retrieval ''specific_asset_reference'' False) (\<lambda>specific.
        throw_if specific (mismatch ''provider omitted the asset identified by the operator request''))
      else ebind (string_at task ''anchor_asset_id'') (\<lambda>k.
        ebind (model_has_asset model k) (\<lambda>declared.
        if \<not> declared then Inr ()
        else ebind (value_json retrieval ''eligible_asset_ids'' (JArr [])) (\<lambda>eligible.
          throw_if (\<not> (is_array eligible \<and> list_ex (\<lambda>v. jeq v (JStr k)) (elements_of eligible)))
            (mismatch ''provider selected an asset outside the retrieved operator scope'')))))"

definition roles_in_scope :: "json \<Rightarrow> json \<Rightarrow> unit res" where
  "roles_in_scope retrieval task =
     (if \<not> contains task ''measurement_roles''
      then ebind (value_json retrieval ''measurement_role_hints'' (JArr [])) (\<lambda>hints.
        throw_if (\<not> json_empty hints)
          (mismatch ''provider omitted measurements identified by the operator request''))
      else ebind (scope_roles retrieval) (\<lambda>available.
        ebind (json_at task ''measurement_roles'') (\<lambda>roles.
        ebind (emap (\<lambda>role. ebind (get_string role) (\<lambda>v.
                 if v \<notin> set available
                 then Inl (mismatch ''provider selected a measurement outside the retrieved operator scope'')
                 else Inr v)) (json_values roles)) (\<lambda>selected.
        ebind (value_json retrieval ''measurement_role_hints'' (JArr [])) (\<lambda>hints.
        echeck (\<lambda>role. ebind (get_string role) (\<lambda>v. throw_if (v \<notin> set selected)
            (mismatch ''provider omitted a requested measurement role''))) (json_values hints))))))"

definition validate_interpretation_scope :: "json \<Rightarrow> json \<Rightarrow> json \<Rightarrow> unit res" where
  "validate_interpretation_scope model retrieval interpretation =
     ebind (value_string interpretation ''status'' []) (\<lambda>status.
     if status \<noteq> ''ready'' then Inr ()
     else ebind (json_at interpretation ''task'') (\<lambda>task.
       ebind (value_json retrieval ''task_hints'' (JArr [])) (\<lambda>hints.
       ebind (if is_array hints \<and> json_size hints = 1
              then ebind (json_at task ''kind'') (\<lambda>kind.
                ebind (array_at hints 0) (\<lambda>h. Inr (\<not> jeq kind h)))
              else Inr False) (\<lambda>conflict.
       if conflict
       then Inl (mismatch ''provider task kind conflicts with retrieved request evidence'')
       else ebind (value_bool retrieval ''requires_clarification'' False) (\<lambda>clarify.
         if clarify
         then Inl (mismatch ''provider answered ready when retrieved context requires clarification'')
         else ethen (anchor_in_scope model retrieval task) (roles_in_scope retrieval task))))))"

section \<open>Choosing a provider\<close>

type_synonym provider = "json \<Rightarrow> string \<Rightarrow> json \<Rightarrow> json res"

definition provider_answer ::
  "(exn \<Rightarrow> string) \<Rightarrow> (string \<times> provider) option \<Rightarrow> json \<Rightarrow> string \<Rightarrow> json \<Rightarrow> string \<Rightarrow> json res" where
  "provider_answer what llama model prompt retrieval requested_mode =
     (let mode = (if requested_mode = [] then (if llama \<noteq> None then ''llama'' else ''rules'')
                  else requested_mode)
      in if mode = ''rules''
         then ebind (rules_interpret what model prompt retrieval) (\<lambda>r.
           ebind (json_set r ''interpreter'' (JStr ''rules'')) (\<lambda>r.
           json_set r ''provider_usage''
             (jobj [(''reported'', JBool False), (''provider_call'', JBool False)])))
         else if mode = ''llama'' \<or> mode = ''llama.cpp''
         then (case llama of
             None \<Rightarrow> Inl (InferenceError ''provider_unconfigured'' ''AI interpreter was not configured'')
           | Some np \<Rightarrow>
               ebind (snd np model prompt retrieval) (\<lambda>r. json_set r ''interpreter'' (JStr (fst np))))
         else Inl (InferenceError ''invalid_interpreter'' ''interpreter must be rules or llama''))"

fun as_inference_error :: "exn \<Rightarrow> exn" where
  "as_inference_error (DomainError code details) = InferenceError code details"
| "as_inference_error e = e"

definition interpret_prompt ::
  "(exn \<Rightarrow> string) \<Rightarrow> (string \<times> provider) option \<Rightarrow> json \<Rightarrow> string \<Rightarrow> json \<Rightarrow> string \<Rightarrow> json res" where
  "interpret_prompt what llama model prompt retrieval requested_mode =
     ebind (provider_answer what llama model prompt retrieval requested_mode) (\<lambda>result.
     case validate_interpretation_scope model retrieval result of
       Inl e \<Rightarrow> Inl (as_inference_error e)
     | Inr _ \<Rightarrow> json_set result ''retrieval'' retrieval)"

definition inference_mode :: "(string \<times> provider) option \<Rightarrow> string" where
  "inference_mode llama = (case llama of Some (name, _) \<Rightarrow> name | None \<Rightarrow> ''rules'')"

section \<open>Facts about the checks\<close>

lemma value_json_Inr:
  "value_json j k d = Inr v \<longleftrightarrow> is_object j \<and> v = (case find_key j k of None \<Rightarrow> d | Some x \<Rightarrow> x)"
  by (auto simp: value_json_def split: option.splits)

lemma value_bool_Inr:
  "value_bool j k d = Inr b \<longleftrightarrow> is_object j \<and>
     (case find_key j k of None \<Rightarrow> b = d | Some x \<Rightarrow> x = JBool b)"
  by (auto simp: value_bool_def split: option.splits)

lemma value_string_iff:
  "value_string j k d = Inr t \<longleftrightarrow> is_object j \<and>
     (case find_key j k of None \<Rightarrow> t = d | Some x \<Rightarrow> x = JStr t)"
  by (auto simp: value_string_def split: option.splits)

lemma is_allowed_iff: "is_allowed j names \<longleftrightarrow> only_keys j names"
  by (cases j) (auto simp: is_allowed_def only_keys_def json_items_def list_all_iff list_ex_iff)

definition declared_asset :: "json \<Rightarrow> string \<Rightarrow> bool" where
  "declared_asset m k \<longleftrightarrow> (\<exists>a \<in> set (json_values (fld m ''assets'')). fld a ''id'' = JStr k)"

lemma has_asset_fold:
  "efold (\<lambda>found asset. if found then Inr True
      else ebind (json_at asset ''id'') (\<lambda>v. Inr (jeq v (JStr k)))) b xs = Inr b' \<Longrightarrow>
     b' \<longleftrightarrow> b \<or> (\<exists>a \<in> set xs. fld a ''id'' = JStr k)"
proof (induction xs arbitrary: b)
  case (Cons x xs)
  show ?case
  proof (cases b)
    case True
    with Cons show ?thesis by auto
  next
    case False
    with Cons.prems obtain v where v: "find_key x ''id'' = Some v"
      "efold (\<lambda>found asset. if found then Inr True
         else ebind (json_at asset ''id'') (\<lambda>v. Inr (jeq v (JStr k)))) (jeq v (JStr k)) xs = Inr b'"
      by auto
    from Cons.IH [OF v(2)] v(1) False show ?thesis by (simp add: fld_eq)
  qed
qed simp

lemma model_has_asset_Inr: "model_has_asset m k = Inr b \<Longrightarrow> b \<longleftrightarrow> declared_asset m k"
  by (auto simp: model_has_asset_def declared_asset_def fld_eq dest: has_asset_fold)

section \<open>Properties\<close>

text \<open>What the evidence allows a ready task to be.\<close>

definition roles_of :: "json \<Rightarrow> string list" where
  "roles_of j = map str_of (json_values j)"

definition in_scope :: "json \<Rightarrow> json \<Rightarrow> json \<Rightarrow> bool" where
  "in_scope m retrieval task \<longleftrightarrow>
     (\<forall>h. find_key retrieval ''task_hints'' = Some (JArr [h]) \<longrightarrow> jeq (fld task ''kind'') h) \<and>
     find_key retrieval ''requires_clarification'' \<noteq> Some (JBool True) \<and>
     (if contains task ''anchor_asset_id''
      then declared_asset m (sfld task ''anchor_asset_id'') \<longrightarrow>
        JStr (sfld task ''anchor_asset_id'') \<in> set (elements_of (fld retrieval ''eligible_asset_ids''))
      else find_key retrieval ''specific_asset_reference'' \<noteq> Some (JBool True)) \<and>
     (if contains task ''measurement_roles''
      then set (roles_of (fld task ''measurement_roles'')) \<subseteq>
             (\<lambda>t. sfld t ''role'') ` set (json_values (fld (fld retrieval ''scope'') ''tags'')) \<and>
           set (roles_of (fld retrieval ''measurement_role_hints'')) \<subseteq>
             set (roles_of (fld task ''measurement_roles''))
      else json_empty (fld retrieval ''measurement_role_hints''))"

lemma emap_strings:
  "emap (\<lambda>x. string_at x k) xs = Inr ys \<Longrightarrow> ys = map (\<lambda>x. sfld x k) xs"
  by (induction xs arbitrary: ys) (auto simp: sfld_eq)

lemma emap_subset:
  "emap (\<lambda>x. ebind (get_string x) (\<lambda>v. if v \<notin> A then Inl (e v) else Inr v)) xs = Inr ys \<Longrightarrow>
     ys = map str_of xs \<and> (\<forall>x \<in> set xs. str_of x \<in> A)"
  by (induction xs arbitrary: ys) auto

lemma roles_in_scope_Inr:
  assumes "roles_in_scope retrieval task = Inr u"
  shows "if contains task ''measurement_roles''
      then set (roles_of (fld task ''measurement_roles'')) \<subseteq>
             (\<lambda>t. sfld t ''role'') ` set (json_values (fld (fld retrieval ''scope'') ''tags'')) \<and>
           set (roles_of (fld retrieval ''measurement_role_hints'')) \<subseteq>
             set (roles_of (fld task ''measurement_roles''))
      else json_empty (fld retrieval ''measurement_role_hints'')"
proof (cases "contains task ''measurement_roles''")
  case False
  with assms show ?thesis
    by (auto simp: roles_in_scope_def value_json_Inr fld_def json_empty_def split: option.splits)
next
  case True
  with assms obtain available roles selected hints where
    a: "scope_roles retrieval = Inr available" and r: "find_key task ''measurement_roles'' = Some roles"
    and s: "emap (\<lambda>role. ebind (get_string role) (\<lambda>v.
        if v \<notin> set available
        then Inl (mismatch ''provider selected a measurement outside the retrieved operator scope'')
        else Inr v)) (json_values roles) = Inr selected"
    and h: "value_json retrieval ''measurement_role_hints'' (JArr []) = Inr hints"
    and c: "\<forall>role \<in> set (json_values hints). ebind (get_string role) (\<lambda>v. throw_if (v \<notin> set selected)
        (mismatch ''provider omitted a requested measurement role'')) = Inr ()"
    by (auto simp: roles_in_scope_def)
  have sel: "selected = roles_of (fld task ''measurement_roles'')" "set selected \<subseteq> set available"
    using emap_subset [OF s] r by (auto simp: roles_of_def fld_eq)
  have "available = map (\<lambda>t. sfld t ''role'') (json_values (fld (fld retrieval ''scope'') ''tags''))"
    using a by (auto simp: scope_roles_def fld_eq dest: emap_strings)
  moreover have "set (roles_of (fld retrieval ''measurement_role_hints'')) \<subseteq> set selected"
  proof (cases "find_key retrieval ''measurement_role_hints''")
    case None
    then show ?thesis by (simp add: roles_of_def fld_def)
  next
    case (Some hs)
    with h have "hints = hs" by (simp add: value_json_Inr)
    with c Some show ?thesis by (fastforce simp: roles_of_def fld_def)
  qed
  ultimately show ?thesis using True sel by auto
qed

lemma anchor_in_scope_Inr:
  assumes "anchor_in_scope m retrieval task = Inr u"
  shows "if contains task ''anchor_asset_id''
      then declared_asset m (sfld task ''anchor_asset_id'') \<longrightarrow>
        JStr (sfld task ''anchor_asset_id'') \<in> set (elements_of (fld retrieval ''eligible_asset_ids''))
      else find_key retrieval ''specific_asset_reference'' \<noteq> Some (JBool True)"
proof (cases "contains task ''anchor_asset_id''")
  case False
  with assms show ?thesis by (auto simp: anchor_in_scope_def value_bool_Inr)
next
  case True
  with assms obtain k declared where k: "find_key task ''anchor_asset_id'' = Some (JStr k)"
    and d: "model_has_asset m k = Inr declared"
    and e: "declared \<Longrightarrow> \<exists>eligible. value_json retrieval ''eligible_asset_ids'' (JArr []) = Inr eligible \<and>
        is_array eligible \<and> list_ex (\<lambda>v. jeq v (JStr k)) (elements_of eligible)"
    by (auto simp: anchor_in_scope_def split: if_splits)
  have "JStr k \<in> set (elements_of (fld retrieval ''eligible_asset_ids''))" if "declared_asset m k"
  proof -
    from e that model_has_asset_Inr [OF d] obtain eligible where
      "value_json retrieval ''eligible_asset_ids'' (JArr []) = Inr eligible"
      "JStr k \<in> set (elements_of eligible)" by (auto simp: list_ex_iff)
    then show ?thesis by (auto simp: value_json_Inr fld_def split: option.splits)
  qed
  with True k show ?thesis by (simp add: sfld_eq)
qed

lemma scope_check_sound:
  assumes "validate_interpretation_scope m retrieval r = Inr u" and "sfld r ''status'' = ''ready''"
  shows "\<exists>task. find_key r ''task'' = Some task \<and> in_scope m retrieval task"
proof -
  from assms obtain st where "value_string r ''status'' [] = Inr st"
    by (auto simp: validate_interpretation_scope_def)
  then have "value_string r ''status'' [] = Inr ''ready''"
    using assms(2) by (auto simp: value_string_iff sfld_def fld_def split: option.splits)
  with assms(1) obtain task hints conflict clarify where
    t: "find_key r ''task'' = Some task" and h: "value_json retrieval ''task_hints'' (JArr []) = Inr hints"
    and c: "(if is_array hints \<and> json_size hints = 1
          then ebind (json_at task ''kind'') (\<lambda>kind. ebind (array_at hints 0) (\<lambda>h. Inr (\<not> jeq kind h)))
          else Inr False) = Inr conflict" "\<not> conflict"
    and q: "value_bool retrieval ''requires_clarification'' False = Inr clarify" "\<not> clarify"
    and a: "anchor_in_scope m retrieval task = Inr ()" and ro: "roles_in_scope retrieval task = Inr ()"
    by (auto simp: validate_interpretation_scope_def)
  have "jeq (fld task ''kind'') h" if "find_key retrieval ''task_hints'' = Some (JArr [h])" for h
  proof -
    have "hints = JArr [h]" using h that by (simp add: value_json_Inr)
    with c show ?thesis by (auto simp: array_at_def fld_eq)
  qed
  moreover have "find_key retrieval ''requires_clarification'' \<noteq> Some (JBool True)"
    using q by (auto simp: value_bool_Inr)
  ultimately show ?thesis
    using t anchor_in_scope_Inr [OF a] roles_in_scope_Inr [OF ro] by (auto simp: in_scope_def)
qed

text \<open>
  C17. Whatever a provider answers, a ready interpretation stays inside the retrieved evidence:
  its kind is the only hinted kind, no clarification was required, an anchored asset of the
  model is one of the eligible ones and is not left out when the request named one, and its
  roles are roles of retrieved tags and cover every hinted role. Provider failures are never
  turned into answers of another provider.
\<close>

theorem interpretation_stays_in_scope:
  assumes "interpret_prompt what llama m prompt retrieval mode = Inr r" and "sfld r ''status'' = ''ready''"
  shows "(\<exists>task. find_key r ''task'' = Some task \<and> in_scope m retrieval task) \<and>
    find_key r ''retrieval'' = Some retrieval \<and>
    (mode = ''rules'' \<or> mode = [] \<and> llama = None \<or>
     (\<exists>name provider answer. llama = Some (name, provider) \<and> provider m prompt retrieval = Inr answer))"
proof -
  from assms(1) obtain x where p: "provider_answer what llama m prompt retrieval mode = Inr x"
    and s: "validate_interpretation_scope m retrieval x = Inr ()"
    and r: "json_set x ''retrieval'' retrieval = Inr r"
    by (auto simp: interpret_prompt_def split: sum.splits)
  have src: "mode = ''rules'' \<or> mode = [] \<and> llama = None \<or>
      (\<exists>name provider answer. llama = Some (name, provider) \<and> provider m prompt retrieval = Inr answer)"
    using p by (cases llama) (auto simp: provider_answer_def Let_def split: if_splits)
  have rx: "r = oset x ''retrieval'' retrieval" using json_set_Inr [OF r] .
  then have "sfld x ''status'' = ''ready''" using assms(2) by (simp add: sfld_def fld_def)
  from scope_check_sound [OF s this] rx src show ?thesis by auto
qed

definition demo_answer :: json where
  "demo_answer = JObj [(''status'', JStr ''ready''), (''task'', JObj [(''kind'', JStr ''overview'')])]"

theorem interpretation_stays_in_scope_witness:
  "\<exists>r. interpret_prompt (\<lambda>_. []) (Some (''llama.cpp'', \<lambda>_ _ _. Inr demo_answer)) JNull ''p'' (JObj []) [] = Inr r \<and>
     in_scope JNull (JObj []) (fld demo_answer ''task'')"
proof -
  obtain r where r: "interpret_prompt (\<lambda>_. []) (Some (''llama.cpp'', \<lambda>_ _ _. Inr demo_answer)) JNull ''p'' (JObj []) [] = Inr r"
    and st: "find_key r ''status'' = Some (JStr ''ready'')" "find_key r ''task'' = Some (fld demo_answer ''task'')"
    apply atomize_elim
    by (simp add: interpret_prompt_def provider_answer_def demo_answer_def validate_interpretation_scope_def
        value_string_def value_json_def value_bool_def anchor_in_scope_def roles_in_scope_def contains_def
        json_empty_def fld_def)
  then have "sfld r ''status'' = ''ready''" by (simp add: sfld_eq)
  from interpretation_stays_in_scope [OF r this] r st show ?thesis by auto
qed

lemma sint_small: "uint w \<le> 4294967295 \<Longrightarrow> sint w = uint w"
  for w :: u64
proof -
  assume "uint w \<le> 4294967295"
  then have "uint w < 2 ^ 63" by simp
  moreover have "- (2 ^ 63) \<le> uint w" by (rule order_trans [of _ 0]) simp_all
  ultimately have "signed_take_bit 63 (uint w) = uint w" by (intro signed_take_bit_int_eq_self)
  then show ?thesis by (simp add: sint_uint)
qed

text \<open>What the check of a ready interpretation's task has shown.\<close>

lemma checked_task_bounds:
  assumes "check_ready_task task = Inr ()"
  shows "only_keys task interpreted_task_fields \<and> sfld task ''kind'' \<in> {''overview'', ''alarms''} \<and>
    (\<exists>n. get_i64 (fld task ''model_revision'') = Inr n \<and> 0 \<le> n \<and> n < 2 ^ 32 \<and>
       get_u64 (fld task ''model_revision'') = Inr (of_int n)) \<and>
    length (sfld task ''original_request'') \<le> 8192 \<and>
    (contains task ''measurement_roles'' \<longrightarrow>
       length (roles_of (fld task ''measurement_roles'')) \<in> {1..16} \<and>
       (\<forall>role \<in> set (roles_of (fld task ''measurement_roles'')). length role \<in> {1..128}))"
proof -
  have kind: "only_keys task interpreted_task_fields" "sfld task ''kind'' \<in> {''overview'', ''alarms''}"
    "length (sfld task ''original_request'') \<le> 8192"
    using assms by (auto simp: check_ready_task_def is_allowed_iff is_task_kind_def)
  have roles: "length (roles_of (fld task ''measurement_roles'')) \<in> {1..16} \<and>
      (\<forall>role \<in> set (roles_of (fld task ''measurement_roles'')). length role \<in> {1..128})"
    if "contains task ''measurement_roles''"
  proof -
    have ck: "is_array (fld task ''measurement_roles'')" "\<not> json_empty (fld task ''measurement_roles'')"
      "json_size (fld task ''measurement_roles'') \<le> 16"
      "\<forall>role \<in> set (json_values (fld task ''measurement_roles'')). str_of role \<noteq> [] \<and> length (str_of role) \<le> 128"
      using assms that by (auto simp: check_ready_task_def)
    then show ?thesis
      by (cases "fld task ''measurement_roles''") (auto simp: roles_of_def json_empty_def Suc_le_eq)
  qed
  have rv: "is_number_integer (fld task ''model_revision'')" "\<not> above_u32 (fld task ''model_revision'')"
    "\<not> (case get_i64 (fld task ''model_revision'') of Inr n \<Rightarrow> n < 0 | Inl _ \<Rightarrow> True)"
    using assms by (auto simp: check_ready_task_def)
  then obtain w where w: "fld task ''model_revision'' = JInt w \<or> fld task ''model_revision'' = JUInt w"
    by (auto simp: is_number_integer_iff)
  then have "get_u64 (fld task ''model_revision'') = Inr w" by auto
  moreover have "0 \<le> sint w" using rv(3) w by (auto simp: get_i64_def)
  moreover have "sint w \<le> 4294967295" using rv(2) w by (auto simp: sint_small)
  ultimately have "\<exists>n. get_i64 (fld task ''model_revision'') = Inr n \<and> 0 \<le> n \<and> n < 2 ^ 32 \<and>
      get_u64 (fld task ''model_revision'') = Inr (of_int n)"
    by (auto simp: get_i64_def)
  then show ?thesis using kind roles by simp
qed


definition demo_clarification :: json where
  "demo_clarification = JObj [(''message'', JStr ''which?''), (''status'', JStr ''clarification'')]"


definition named_candidates :: "json list \<Rightarrow> bool" where
  "named_candidates cs \<longleftrightarrow>
     (\<forall>c \<in> set cs. \<exists>a n. find_key c ''asset_id'' = Some (JStr a) \<and> find_key c ''name'' = Some (JStr n))"

text \<open>Evidence of the shape \<open>retrieve\<close> produces, within the bounds an interpretation may have.\<close>

definition evidence ::
  "json \<Rightarrow> json list \<Rightarrow> string list \<Rightarrow> string list \<Rightarrow> string list \<Rightarrow> bool \<Rightarrow> bool \<Rightarrow> json list \<Rightarrow> bool" where
  "evidence r cs hints roles ids clar specific tags \<longleftrightarrow> is_object r \<and>
     find_key r ''candidates'' = Some (JArr cs) \<and> length cs \<le> 32 \<and> named_candidates cs \<and>
     find_key r ''task_hints'' = Some (JArr (map JStr hints)) \<and> set hints \<subseteq> {''overview'', ''alarms''} \<and>
     find_key r ''measurement_role_hints'' = Some (JArr (map JStr roles)) \<and> length roles \<le> 16 \<and>
     (\<forall>role \<in> set roles. role \<noteq> [] \<and> length role \<le> 128) \<and>
     find_key r ''eligible_asset_ids'' = Some (JArr (map JStr ids)) \<and> [] \<notin> set ids \<and>
     find_key r ''requires_clarification'' = Some (JBool clar) \<and>
     find_key r ''specific_asset_reference'' = Some (JBool specific) \<and>
     (specific \<and> length ids \<noteq> 1 \<longrightarrow> clar) \<and>
     (\<exists>scope. find_key r ''scope'' = Some scope \<and> find_key scope ''tags'' = Some (JArr tags)) \<and>
     (\<forall>t \<in> set tags. \<exists>role. find_key t ''role'' = Some (JStr role)) \<and>
     set roles \<subseteq> (\<lambda>t. sfld t ''role'') ` set tags"

definition plain_candidate :: "json \<Rightarrow> json" where
  "plain_candidate c = jobj [(''asset_id'', fld c ''asset_id''), (''name'', fld c ''name'')]"

lemma plain_candidate_copied:
  assumes "find_key c ''asset_id'' = Some (JStr a)" and "find_key c ''name'' = Some (JStr n)"
  shows "ebind (copy_members c [(''asset_id'', ''asset_id''), (''name'', ''name'')]) (\<lambda>ms. Inr (jobj ms)) =
    Inr (plain_candidate c)"
  using assms by (simp add: copy_members_def plain_candidate_def fld_def)

lemma candidates_copied:
  assumes "named_candidates cs"
  shows "emap (\<lambda>c. ebind (copy_members c [(''asset_id'', ''asset_id''), (''name'', ''name'')])
      (\<lambda>ms. Inr (jobj ms))) cs = Inr (map plain_candidate cs)"
proof (rule emap_pure)
  fix c assume "c \<in> set cs"
  with assms obtain a n where "find_key c ''asset_id'' = Some (JStr a)" "find_key c ''name'' = Some (JStr n)"
    unfolding named_candidates_def by blast
  then show "ebind (copy_members c [(''asset_id'', ''asset_id''), (''name'', ''name'')])
      (\<lambda>ms. Inr (jobj ms)) = Inr (plain_candidate c)"
    by (rule plain_candidate_copied)
qed

lemma check_plain_candidates:
  assumes "named_candidates cs"
  shows "echeck check_candidate (map plain_candidate cs) = Inr ()"
proof -
  have "check_candidate (plain_candidate c) = Inr ()" if "c \<in> set cs" for c
  proof -
    have "json_size (plain_candidate c) \<le> 2"
      using json_size_jobj [of "[(''asset_id'', fld c ''asset_id''), (''name'', fld c ''name'')]"]
      by (simp add: plain_candidate_def)
    moreover obtain a n where "find_key c ''asset_id'' = Some (JStr a)" "find_key c ''name'' = Some (JStr n)"
      using assms \<open>c \<in> set cs\<close> unfolding named_candidates_def by blast
    moreover have "is_object (plain_candidate c)" "\<not> is_string (plain_candidate c)"
      by (simp_all add: plain_candidate_def jobj_def)
    ultimately show ?thesis
      by (simp add: check_candidate_def) (simp add: plain_candidate_def fld_def)
  qed
  then show ?thesis by simp
qed

lemma base_validates:
  assumes "length prompt \<le> 8192" and "length cs \<le> 32" and "named_candidates cs"
    and "msg \<noteq> []" and "length msg \<le> 2048"
  shows "validate_interpretation (oset (clarification_base prompt (map plain_candidate cs)) ''message'' (JStr msg)) =
    Inr (oset (clarification_base prompt (map plain_candidate cs)) ''message'' (JStr msg))"
proof -
  let ?v = "oset (clarification_base prompt (map plain_candidate cs)) ''message'' (JStr msg)"
  have "is_allowed ?v interpretation_fields"
    by (simp add: is_allowed_iff only_keys_def clarification_base_def interpretation_fields_def)
  moreover have "check_clarification ?v = Inr ()"
    using assms(2,4,5) check_plain_candidates [OF assms(3)]
    by (simp add: check_clarification_def clarification_base_def fld_def sfld_def del: echeck_Inr_iff)
  moreover have "sfld ?v ''status'' = ''clarification''" by (simp add: clarification_base_def sfld_def fld_def)
  ultimately show ?thesis
    using assms(1) by (simp add: validate_interpretation_def clarification_base_def fld_def sfld_def)
qed

definition ready_task :: "json \<Rightarrow> string \<Rightarrow> string \<Rightarrow> string list \<Rightarrow> string list \<Rightarrow> json" where
  "ready_task m prompt kind ids roles =
     (let task = jobj [(''kind'', JStr kind), (''original_request'', JStr prompt),
            (''model_id'', fld m ''model_id''), (''model_revision'', fld m ''revision'')];
          task = (if length ids = 1 then oset task ''anchor_asset_id'' (JStr (ids ! 0)) else task)
      in if roles = [] then task else oset task ''measurement_roles'' (JArr (map JStr roles)))"

lemma rules_task_evidence:
  assumes ev: "evidence r cs hints roles ids clar specific tags"
    and m: "find_key m ''model_id'' = Some mid" "find_key m ''revision'' = Some rv"
  shows "rules_task m prompt r (JArr (map JStr (h # hs))) = Inr (ready_task m prompt h ids roles)"
proof -
  have "copy_members m [(''model_id'', ''model_id''), (''model_revision'', ''revision'')] =
      Inr [(''model_id'', mid), (''model_revision'', rv)]"
    using m by (simp add: copy_members_def)
  moreover have "fld m ''model_id'' = mid" "fld m ''revision'' = rv" using m by (simp_all add: fld_def)
  moreover have "json_at r ''eligible_asset_ids'' = Inr (JArr (map JStr ids))"
    "json_at r ''measurement_role_hints'' = Inr (JArr (map JStr roles))"
    using ev by (simp_all add: evidence_def)
  ultimately show ?thesis
    by (cases roles) (auto simp: rules_task_def ready_task_def array_at_def Let_def json_empty_def)
qed

lemma rule_interpretation_evidence:
  assumes ev: "evidence r cs hints roles ids clar specific tags"
    and m: "find_key m ''model_id'' = Some mid" "find_key m ''revision'' = Some rv"
  shows "rule_interpretation m prompt r =
    (let base = clarification_base prompt (map plain_candidate cs) in
     Inr (if clar
          then oset base ''message'' (JStr (if length ids > 1
                   then ''The equipment reference is ambiguous; choose one asset''
                   else ''The equipment reference does not match declared context''))
          else if length hints \<noteq> 1 then base
          else oset (oerase (oset base ''status'' (JStr ''ready'')) ''message'') ''task''
                 (ready_task m prompt (hints ! 0) ids roles)))"
proof -
  have f: "json_at r ''candidates'' = Inr (JArr cs)" "value_bool r ''requires_clarification'' False = Inr clar"
    "json_at r ''eligible_asset_ids'' = Inr (JArr (map JStr ids))"
    "json_at r ''task_hints'' = Inr (JArr (map JStr hints))" "named_candidates cs"
    using ev by (simp_all add: evidence_def value_bool_def)
  show ?thesis
  proof (cases "clar \<or> length hints \<noteq> 1")
    case True
    then show ?thesis
      using f by (auto simp: rule_interpretation_def candidates_copied Let_def)
  next
    case False
    then obtain h where h: "hints = [h]" by (auto simp: length_Suc_conv)
    then show ?thesis
      using False f rules_task_evidence [OF ev m, of prompt h "[]"]
      by (simp add: rule_interpretation_def candidates_copied Let_def)
  qed
qed

lemma ready_task_fields:
  "find_key (ready_task m prompt h ids roles) ''kind'' = Some (JStr h)"
  "find_key (ready_task m prompt h ids roles) ''original_request'' = Some (JStr prompt)"
  "find_key (ready_task m prompt h ids roles) ''model_id'' = Some (fld m ''model_id'')"
  "find_key (ready_task m prompt h ids roles) ''model_revision'' = Some (fld m ''revision'')"
  "find_key (ready_task m prompt h ids roles) ''anchor_asset_id'' =
     (if length ids = 1 then Some (JStr (ids ! 0)) else None)"
  "find_key (ready_task m prompt h ids roles) ''measurement_roles'' =
     (if roles = [] then None else Some (JArr (map JStr roles)))"
  by (simp_all add: ready_task_def Let_def)

lemma ready_task_keys: "only_keys (ready_task m prompt h ids roles) interpreted_task_fields"
  by (auto simp: only_keys_def ready_task_def Let_def interpreted_task_fields_def)

definition revision_ok :: "json \<Rightarrow> bool" where
  "revision_ok rv \<longleftrightarrow> (\<exists>w. (rv = JInt w \<or> rv = JUInt w) \<and> 0 \<le> sint w \<and> uint w \<le> 4294967295)"

lemma check_ready_task_ok:
  assumes "h \<in> {''overview'', ''alarms''}" and "length prompt \<le> 8192"
    and "[] \<notin> set ids" and "length roles \<le> 16" and "\<forall>role \<in> set roles. role \<noteq> [] \<and> length role \<le> 128"
    and "nonempty_string (fld m ''model_id'')" and "revision_ok (fld m ''revision'')"
  shows "check_ready_task (ready_task m prompt h ids roles) = Inr ()"
proof -
  let ?t = "ready_task m prompt h ids roles"
  have fs: "fld ?t ''kind'' = JStr h" "fld ?t ''original_request'' = JStr prompt"
    "fld ?t ''model_id'' = fld m ''model_id''" "fld ?t ''model_revision'' = fld m ''revision''"
    "length ids = 1 \<Longrightarrow> fld ?t ''anchor_asset_id'' = JStr (ids ! 0)"
    "roles \<noteq> [] \<Longrightarrow> fld ?t ''measurement_roles'' = JArr (map JStr roles)"
    by (simp_all add: fld_def ready_task_fields)
  have cs: "contains ?t ''kind''" "contains ?t ''original_request''" "contains ?t ''model_id''"
    "contains ?t ''model_revision''" "contains ?t ''anchor_asset_id'' \<longleftrightarrow> length ids = 1"
    "contains ?t ''measurement_roles'' \<longleftrightarrow> roles \<noteq> []"
    by (simp_all add: contains_def ready_task_fields)
  have "length ids = 1 \<Longrightarrow> ids ! 0 \<noteq> []" using assms(3) by (cases ids) auto
  then have anchor: "\<not> (contains ?t ''anchor_asset_id'' \<and> \<not> nonempty_string (fld ?t ''anchor_asset_id''))"
    using cs(5) fs(5) by (simp add: nonempty_string_def del: One_nat_def)
  have rl: "(if contains ?t ''measurement_roles''
         then checks
           [throw_if (\<not> is_array (fld ?t ''measurement_roles'') \<or> json_empty (fld ?t ''measurement_roles'') \<or>
                      json_size (fld ?t ''measurement_roles'') > 16)
              (provider_schema ''task measurement_roles must be a bounded nonempty array''),
            echeck (\<lambda>role. throw_if (\<not> is_string role \<or> str_of role = [] \<or> length (str_of role) > 128)
                (provider_schema ''task measurement role is invalid''))
              (json_values (fld ?t ''measurement_roles''))]
         else Inr ()) = Inr ()"
  proof (cases "roles = []")
    case False
    with assms(4,5) fs(6) [OF False] cs(6) show ?thesis by (auto simp: json_empty_def)
  qed (use cs(6) in simp)
  obtain w where w: "fld m ''revision'' = JInt w \<or> fld m ''revision'' = JUInt w" "0 \<le> sint w"
    "uint w \<le> 4294967295" using assms(7) by (auto simp: revision_ok_def)
  have rv: "is_number_integer (fld m ''revision'')" "\<not> above_u32 (fld m ''revision'')"
    "\<not> (case get_i64 (fld m ''revision'') of Inr n \<Rightarrow> n < 0 | Inl _ \<Rightarrow> True)"
    using w sint_small [OF w(3)] by (auto simp: get_i64_def)
  have "sfld ?t ''kind'' = h" "sfld ?t ''original_request'' = prompt" using fs(1,2) by (simp_all add: sfld_def)
  then show ?thesis
    unfolding check_ready_task_def rl
    using assms(1,2,6) rv fs(1-4) cs(1-4) anchor ready_task_keys [of m prompt h ids roles]
    by (simp add: is_allowed_iff is_task_kind_def)
qed

lemma ready_validates:
  assumes "check_ready_task task = Inr ()" and "is_object task" and "length prompt \<le> 8192"
  shows "validate_interpretation (oset (oerase (oset (clarification_base prompt cs) ''status'' (JStr ''ready''))
      ''message'') ''task'' task) =
    Inr (oset (oerase (oset (clarification_base prompt cs) ''status'' (JStr ''ready'')) ''message'') ''task'' task)"
proof -
  let ?v = "oset (oerase (oset (clarification_base prompt cs) ''status'' (JStr ''ready'')) ''message'') ''task'' task"
  have "is_allowed ?v interpretation_fields"
    by (auto simp: is_allowed_iff only_keys_def clarification_base_def interpretation_fields_def)
  moreover have "check_ready ?v = Inr ()"
    using assms(1,2) by (simp add: check_ready_def fld_def)
  moreover have "sfld ?v ''status'' = ''ready''" by (simp add: sfld_def fld_def)
  ultimately show ?thesis
    using assms(3) by (simp add: validate_interpretation_def clarification_base_def fld_def sfld_def)
qed

lemma emap_strings_total:
  "\<forall>t \<in> set ts. \<exists>s. find_key t k = Some (JStr s) \<Longrightarrow>
     emap (\<lambda>t. string_at t k) ts = Inr (map (\<lambda>t. sfld t k) ts)"
  by (rule emap_pure) (auto simp: string_at_def sfld_eq dest!: bspec)

lemma emap_members:
  "set xs \<subseteq> A \<Longrightarrow>
     emap (\<lambda>x. ebind (get_string x) (\<lambda>v. if v \<notin> A then Inl (e v) else Inr v)) (map JStr xs) = Inr xs"
  by (induction xs) auto

lemma has_asset_total:
  "\<forall>a \<in> set xs. \<exists>v. find_key a ''id'' = Some v \<Longrightarrow>
     \<exists>b'. efold (\<lambda>found asset. if found then Inr True
        else ebind (json_at asset ''id'') (\<lambda>v. Inr (jeq v (JStr k)))) b xs = Inr b'"
proof (induction xs arbitrary: b)
  case (Cons x xs)
  then obtain v where v: "json_at x ''id'' = Inr v" by auto
  show ?case
  proof (cases b)
    case True
    with Cons show ?thesis by auto
  next
    case False
    with Cons.IH [of "jeq v (JStr k)"] Cons.prems v show ?thesis by simp
  qed
qed simp

lemma model_has_asset_total:
  assumes "wf_model dump m"
  shows "\<exists>b. model_has_asset m k = Inr b"
proof -
  have "contains m ''assets''" "is_array (fld m ''assets'')"
    using assms by (auto simp: wf_model_def wf_header_def array_upto_def Let_def)
  then obtain xs where xs: "find_key m ''assets'' = Some (JArr xs)"
    by (auto simp: contains_def fld_def is_array_iff)
  then have "set xs = set (decls m ''assets'')" by (simp add: decls_def fld_def)
  then have "\<forall>a \<in> set xs. \<exists>v. find_key a ''id'' = Some v"
    using assms by (auto simp: wf_model_def wf_asset_def has_ident_def has_text_def Let_def)
  from has_asset_total [OF this, of k False] xs show ?thesis
    by (simp add: model_has_asset_def)
qed

lemma rules_answer_in_scope:
  assumes ev: "evidence r cs hints roles ids clar specific tags" and wf: "wf_model dump m"
    and h: "hints = [h]" and nc: "\<not> clar"
  shows "anchor_in_scope m r (ready_task m prompt h ids roles) = Inr ()"
    and "roles_in_scope r (ready_task m prompt h ids roles) = Inr ()"
proof -
  let ?t = "ready_task m prompt h ids roles"
  have f: "value_bool r ''specific_asset_reference'' False = Inr specific"
    "value_json r ''eligible_asset_ids'' (JArr []) = Inr (JArr (map JStr ids))"
    "value_json r ''measurement_role_hints'' (JArr []) = Inr (JArr (map JStr roles))"
    using ev by (simp_all add: evidence_def value_bool_def value_json_def)
  show "anchor_in_scope m r ?t = Inr ()"
  proof (cases "length ids = 1")
    case True
    obtain b where "model_has_asset m (ids ! 0) = Inr b" using model_has_asset_total [OF wf] by blast
    moreover have "ids ! 0 \<in> set ids" using True by (cases ids) auto
    moreover have "contains ?t ''anchor_asset_id''" using True by (simp add: contains_def ready_task_fields)
    moreover have "string_at ?t ''anchor_asset_id'' = Inr (ids ! 0)"
      using True by (simp add: ready_task_fields)
    ultimately show ?thesis using f(2) by (auto simp: anchor_in_scope_def list_ex_iff)
  next
    case False
    then have "\<not> specific" using ev nc by (auto simp: evidence_def)
    moreover have "\<not> contains ?t ''anchor_asset_id''" using False by (simp add: contains_def ready_task_fields)
    ultimately show ?thesis using f(1) by (simp add: anchor_in_scope_def)
  qed
  show "roles_in_scope r ?t = Inr ()"
  proof (cases "roles = []")
    case True
    then show ?thesis
      using f(3) by (simp add: roles_in_scope_def contains_def ready_task_fields json_empty_def)
  next
    case False
    obtain scope where sc: "json_at r ''scope'' = Inr scope" "json_at scope ''tags'' = Inr (JArr tags)"
      using ev by (auto simp: evidence_def)
    have "scope_roles r = Inr (map (\<lambda>t. sfld t ''role'') tags)"
      using ev sc emap_strings_total [of tags "''role''"] by (simp add: scope_roles_def evidence_def)
    moreover have "set roles \<subseteq> set (map (\<lambda>t. sfld t ''role'') tags)" using ev by (simp add: evidence_def)
    note emap_members [OF this]
    moreover have "contains ?t ''measurement_roles''" "json_at ?t ''measurement_roles'' = Inr (JArr (map JStr roles))"
      using False by (simp_all add: contains_def ready_task_fields)
    ultimately show ?thesis using f(3) by (simp add: roles_in_scope_def)
  qed
qed

lemma wf_model_task_header:
  assumes "wf_model dump m"
  shows "nonempty_string (fld m ''model_id'')" and "revision_ok (fld m ''revision'')"
    and "\<exists>mid rv. find_key m ''model_id'' = Some mid \<and> find_key m ''revision'' = Some rv"
proof -
  have hd: "wf_header dump m" using assms by (simp add: wf_model_def Let_def)
  then have mid: "find_key m ''model_id'' = Some (JStr (sfld m ''model_id''))" "sfld m ''model_id'' \<noteq> []"
    by (simp_all add: wf_header_def has_ident_def has_text_def ok_text_def)
  then show "nonempty_string (fld m ''model_id'')"
    unfolding nonempty_string_def fld_eq [OF mid(1)] by simp
  obtain rv w where rv: "find_key m ''revision'' = Some rv" "is_nonnegative_integer rv" "get_u64 rv = Inr w"
    "unat w < 2 ^ 32" using hd unfolding wf_header_def by blast
  have "uint w = int (unat w)" by (rule uint_nat)
  moreover have "unat w < 4294967296" using rv(4) by simp
  ultimately have u: "uint w \<le> 4294967295" by linarith
  have "rv = JInt w \<or> rv = JUInt w"
    using rv(2,3) by (cases rv) (auto simp: is_nonnegative_integer_def is_integer_def)
  moreover have "0 \<le> sint w" using sint_small [OF u] by simp
  ultimately show "revision_ok (fld m ''revision'')"
    using u unfolding revision_ok_def fld_eq [OF rv(1)] by blast
  show "\<exists>mid rv. find_key m ''model_id'' = Some mid \<and> find_key m ''revision'' = Some rv"
    using mid(1) rv(1) by blast
qed

lemma rules_interpret_evidence:
  assumes ev: "evidence r cs hints roles ids clar specific tags" and wf: "wf_model dump m"
    and p: "length prompt \<le> 8192"
  shows "\<exists>x. rules_interpret what m prompt r = Inr x \<and> is_object x \<and>
    (if clar \<or> length hints \<noteq> 1
     then find_key x ''status'' = Some (JStr ''clarification'') \<and> find_key x ''task'' = None
     else find_key x ''status'' = Some (JStr ''ready'') \<and>
       find_key x ''task'' = Some (ready_task m prompt (hints ! 0) ids roles))"
proof -
  obtain mid rv where m: "find_key m ''model_id'' = Some mid" "find_key m ''revision'' = Some rv"
    using wf_model_task_header(3) [OF wf] by blast
  note ri = rule_interpretation_evidence [OF ev m, of prompt]
  have b: "length cs \<le> 32" "named_candidates cs" using ev by (simp_all add: evidence_def)
  note base = base_validates [OF p b]
  let ?base = "clarification_base prompt (map plain_candidate cs)"
  have id0: "oset ?base ''message'' (JStr ''Specify whether to show measurements or alarms'') = ?base"
    by (simp add: clarification_base_def oset_def jobj_def members_from_def madd_key_def)
  show ?thesis
  proof (cases "clar \<or> length hints \<noteq> 1")
    case True
    then obtain msg where msg: "rule_interpretation m prompt r = Inr (oset ?base ''message'' (JStr msg))"
      "msg \<noteq> []" "length msg \<le> 2048"
      using ri id0 [symmetric] by (cases clar) (auto simp: Let_def split: if_splits)
    have "find_key (oset ?base ''message'' (JStr msg)) ''status'' = Some (JStr ''clarification'')"
      "find_key (oset ?base ''message'' (JStr msg)) ''task'' = None"
      by (simp_all add: clarification_base_def)
    then show ?thesis
      using True p msg(1) base [OF msg(2,3)] by (simp add: rules_interpret_def)
  next
    case False
    then obtain h where h: "hints = [h]" by (auto simp: length_Suc_conv)
    have hk: "h \<in> {''overview'', ''alarms''}" "[] \<notin> set ids" "length roles \<le> 16"
      "\<forall>role \<in> set roles. role \<noteq> [] \<and> length role \<le> 128"
      using ev h by (simp_all add: evidence_def)
    have "is_object (ready_task m prompt h ids roles)" by (simp add: ready_task_def Let_def)
    note rd = ready_validates [OF check_ready_task_ok [OF hk(1) p hk(2-4) wf_model_task_header(1,2) [OF wf]] this p]
    show ?thesis
      using False p h ri rd by (simp add: rules_interpret_def Let_def)
  qed
qed

lemma rules_mode_evidence:
  assumes "evidence r cs hints roles ids clar specific tags" and wf: "wf_model dump m"
    and "length prompt \<le> 8192"
  shows "\<exists>x. interpret_prompt what llama m prompt r ''rules'' = Inr x \<and> find_key x ''retrieval'' = Some r \<and>
    (if clar \<or> length hints \<noteq> 1
     then sfld x ''status'' = ''clarification'' \<and> \<not> contains x ''task''
     else sfld x ''status'' = ''ready'' \<and> sfld (fld x ''task'') ''kind'' = hints ! 0 \<and>
       sfld (fld x ''task'') ''original_request'' = prompt \<and>
       fld (fld x ''task'') ''model_id'' = fld m ''model_id'' \<and>
       fld (fld x ''task'') ''model_revision'' = fld m ''revision'' \<and>
       (if length ids = 1 then fld (fld x ''task'') ''anchor_asset_id'' = JStr (ids ! 0)
        else \<not> contains (fld x ''task'') ''anchor_asset_id'') \<and>
       roles_of (fld (fld x ''task'') ''measurement_roles'') = roles)"
proof -
  obtain x where x: "rules_interpret what m prompt r = Inr x" "is_object x"
    and st: "if clar \<or> length hints \<noteq> 1
     then find_key x ''status'' = Some (JStr ''clarification'') \<and> find_key x ''task'' = None
     else find_key x ''status'' = Some (JStr ''ready'') \<and>
       find_key x ''task'' = Some (ready_task m prompt (hints ! 0) ids roles)"
    using rules_interpret_evidence [OF assms(1) wf assms(3), of what] by blast
  define y where "y = oset (oset x ''interpreter'' (JStr ''rules'')) ''provider_usage''
      (jobj [(''reported'', JBool False), (''provider_call'', JBool False)])"
  have y: "provider_answer what llama m prompt r ''rules'' = Inr y" "is_object y"
    using x by (simp_all add: provider_answer_def y_def json_set_object)
  have k: "find_key y ''status'' = find_key x ''status''" "find_key y ''task'' = find_key x ''task''"
    by (simp_all add: y_def)
  have "validate_interpretation_scope m r y = Inr ()"
  proof (cases "clar \<or> length hints \<noteq> 1")
    case True
    with st k y(2) show ?thesis by (simp add: validate_interpretation_scope_def value_string_def)
  next
    case False
    then obtain h where h: "hints = [h]" by (auto simp: length_Suc_conv)
    have "value_json r ''task_hints'' (JArr []) = Inr (JArr [JStr h])"
      "value_bool r ''requires_clarification'' False = Inr False"
      using assms(1) h False by (simp_all add: evidence_def value_json_def value_bool_def)
    then show ?thesis
      using rules_answer_in_scope [OF assms(1) wf h, of prompt] False st h k y(2) ready_task_fields(1)
      by (auto simp: validate_interpretation_scope_def value_string_def array_at_def)
  qed
  then have "interpret_prompt what llama m prompt r ''rules'' = Inr (oset y ''retrieval'' r)"
    using y by (simp add: interpret_prompt_def json_set_object)
  moreover have "sfld (oset y ''retrieval'' r) ''status'' = str_of (fld x ''status'')"
    "fld (oset y ''retrieval'' r) ''task'' = fld x ''task''"
    "contains (oset y ''retrieval'' r) ''task'' \<longleftrightarrow> contains x ''task''"
    by (simp_all add: sfld_def fld_def contains_def k)
  ultimately show ?thesis
    using st by (auto simp: contains_def fld_def sfld_def ready_task_fields roles_of_def comp_def)
qed

text \<open>
  On evidence within the bounds of an interpretation and for an accepted model, the rules
  provider never fails: the whole interpretation, schema and scope checks included, returns an
  answer that carries the evidence. It asks for clarification exactly when the evidence
  requires it or does not name exactly one task, and is otherwise ready with the hinted kind,
  the operator's words, the model's identity, the only eligible asset as anchor and exactly the
  hinted roles.
\<close>

theorem rules_mode_answers:
  assumes "evidence r cs hints roles ids clar specific tags" and "index_model dump m = Inr ix"
    and "length prompt \<le> 8192"
  shows "\<exists>x. interpret_prompt what llama m prompt r ''rules'' = Inr x \<and> find_key x ''retrieval'' = Some r \<and>
    (if clar \<or> length hints \<noteq> 1
     then sfld x ''status'' = ''clarification'' \<and> \<not> contains x ''task''
     else sfld x ''status'' = ''ready'' \<and> sfld (fld x ''task'') ''kind'' = hints ! 0 \<and>
       sfld (fld x ''task'') ''original_request'' = prompt \<and>
       fld (fld x ''task'') ''model_id'' = fld m ''model_id'' \<and>
       fld (fld x ''task'') ''model_revision'' = fld m ''revision'' \<and>
       (if length ids = 1 then fld (fld x ''task'') ''anchor_asset_id'' = JStr (ids ! 0)
        else \<not> contains (fld x ''task'') ''anchor_asset_id'') \<and>
       roles_of (fld (fld x ''task'') ''measurement_roles'') = roles)"
  by (rule rules_mode_evidence [OF assms(1) conjunct1 [OF assms(2) [unfolded index_model_Inr]] assms(3)])

definition demo_evidence :: json where
  "demo_evidence = JObj [(''candidates'', JArr []), (''eligible_asset_ids'', JArr [JStr ''tank'']),
     (''measurement_role_hints'', JArr [JStr ''level'']), (''requires_clarification'', JBool False),
     (''scope'', JObj [(''tags'', JArr [demo_tag])]), (''specific_asset_reference'', JBool True),
     (''task_hints'', JArr [JStr ''overview''])]"

lemma demo_evidence_ok:
  "evidence demo_evidence [] [''overview''] [''level''] [''tank''] False True [demo_tag]"
  by (simp add: evidence_def demo_evidence_def named_candidates_def demo_tag_def sfld_def fld_def)

theorem rules_mode_answers_witness:
  "\<exists>x. interpret_prompt (\<lambda>_. []) None demo_model ''tank level'' demo_evidence ''rules'' = Inr x \<and>
     sfld x ''status'' = ''ready''"
  using rules_mode_answers [OF demo_evidence_ok demo_model_index [of "\<lambda>_. Inr []"], of "''tank level''" "\<lambda>_. []" None]
  by auto

end
