(* ===== verification/Csv_Import.thy ===== *)
theory Csv_Import
  imports Prelude
begin

text \<open>
  Reading of CSV artifacts (\<open>context_import_csv.cpp\<close>, with \<open>fail\<close> and \<open>trim\<close> of
  \<open>context_import_common.cpp\<close> and the limits of \<open>context_import.hpp\<close>). The loop over the
  bytes is a function of the parser's local variables and the remaining input; the \<open>++index\<close>
  inside the body is the flag that the next byte is skipped.
\<close>

section \<open>Limits and failures\<close>

record limits =
  max_file_bytes :: nat
  max_artifacts :: nat
  max_records_per_artifact :: nat
  max_columns :: nat
  max_field_bytes :: nat
  max_total_records :: nat
  max_string_bytes :: nat
  max_json_depth :: nat
  max_json_nodes :: nat

definition default_limits :: limits where
  "default_limits = \<lparr>max_file_bytes = 1024 * 1024, max_artifacts = 32, max_records_per_artifact = 8192,
     max_columns = 32, max_field_bytes = 4096, max_total_records = 32768, max_string_bytes = 4096,
     max_json_depth = 32, max_json_nodes = 32768\<rparr>"

definition fail :: "string \<Rightarrow> string \<Rightarrow> string \<Rightarrow> exn" where
  "fail code path message = ImportError code path message"

definition quote_char :: char where "quote_char = CHR 0x22"
definition cr :: char where "cr = CHR 0x0D"
definition lf :: char where "lf = CHR 0x0A"
definition comma :: char where "comma = CHR 0x2C"

lemmas csv_chars = quote_char_def cr_def lf_def comma_def

section \<open>The parser\<close>

record csv =
  c_rows :: "string list list"
  c_row :: "string list"
  c_field :: string
  c_quoted :: bool
  c_after_quote :: bool
  c_saw :: bool

definition csv_start :: csv where
  "csv_start = \<lparr>c_rows = [], c_row = [], c_field = [], c_quoted = False, c_after_quote = False, c_saw = False\<rparr>"

definition check_field :: "limits \<Rightarrow> string \<Rightarrow> csv \<Rightarrow> unit res" where
  "check_field lm path s =
     throw_if (length (c_field s) > max_field_bytes lm)
       (fail ''field_too_large'' path ''CSV field exceeds the configured byte limit'')"

definition finish_row :: "limits \<Rightarrow> string \<Rightarrow> csv \<Rightarrow> csv res" where
  "finish_row lm path s =
     ethen (check_field lm path s)
     (let row = c_row s @ [c_field s]
      in if length row > max_columns lm
         then Inl (fail ''too_many_columns'' path ''CSV row exceeds the configured column limit'')
         else if length row = 1 \<and> hd row = [] \<and> \<not> c_saw s
         then Inr (s\<lparr>c_row := [], c_field := []\<rparr>)
         else if length (c_rows s @ [row]) > max_records_per_artifact lm + 1
         then Inl (fail ''too_many_records'' path ''CSV artifact exceeds the configured record limit'')
         else Inr (s\<lparr>c_rows := c_rows s @ [row], c_row := [], c_field := [], c_saw := False\<rparr>))"

definition finish_field :: "limits \<Rightarrow> string \<Rightarrow> csv \<Rightarrow> csv res" where
  "finish_field lm path s =
     ethen (check_field lm path s)
     (let row = c_row s @ [c_field s]
      in if length row \<ge> max_columns lm
         then Inl (fail ''too_many_columns'' path ''CSV row exceeds the configured column limit'')
         else Inr (s\<lparr>c_row := row, c_field := []\<rparr>))"

definition push_char :: "limits \<Rightarrow> string \<Rightarrow> csv \<Rightarrow> char \<Rightarrow> csv res" where
  "push_char lm path s c =
     (let s' = s\<lparr>c_field := c_field s @ [c], c_saw := True\<rparr>
      in ethen (check_field lm path s') (Inr s'))"

text \<open>\<open>index + 1 < contents.size() && contents[index + 1] == c\<close>.\<close>

definition next_is :: "char \<Rightarrow> string \<Rightarrow> bool" where
  "next_is c rest \<longleftrightarrow> rest \<noteq> [] \<and> hd rest = c"

text \<open>The three states of the loop body; the flag tells whether the next byte is skipped.\<close>

definition csv_in_quotes :: "limits \<Rightarrow> string \<Rightarrow> csv \<Rightarrow> char \<Rightarrow> string \<Rightarrow> (csv \<times> bool) res" where
  "csv_in_quotes lm path s c rest =
     (if c = quote_char
      then if next_is quote_char rest
           then Inr (s\<lparr>c_field := c_field s @ [quote_char]\<rparr>, True)
           else Inr (s\<lparr>c_quoted := False, c_after_quote := True\<rparr>, False)
      else ebind (push_char lm path s c) (\<lambda>s. Inr (s, False)))"

definition csv_after_quotes :: "limits \<Rightarrow> string \<Rightarrow> csv \<Rightarrow> char \<Rightarrow> string \<Rightarrow> (csv \<times> bool) res" where
  "csv_after_quotes lm path s c rest =
     (if c = comma
      then ebind (finish_field lm path s) (\<lambda>s. Inr (s\<lparr>c_after_quote := False\<rparr>, False))
      else if c = cr \<or> c = lf
      then ebind (finish_row lm path (s\<lparr>c_after_quote := False\<rparr>)) (\<lambda>s.
             Inr (s, c = cr \<and> next_is lf rest))
      else if c = CHR '' '' \<or> c = CHR 0x09
      then Inl (fail ''invalid_csv'' path ''whitespace after a quoted field is not accepted'')
      else Inl (fail ''invalid_csv'' path ''characters after a quoted field are not accepted''))"

definition csv_plain :: "limits \<Rightarrow> string \<Rightarrow> csv \<Rightarrow> char \<Rightarrow> string \<Rightarrow> (csv \<times> bool) res" where
  "csv_plain lm path s c rest =
     (if c = quote_char
      then if c_field s \<noteq> []
           then Inl (fail ''invalid_csv'' path ''a quote may start only an empty field'')
           else Inr (s\<lparr>c_quoted := True, c_saw := True\<rparr>, False)
      else if c = comma then ebind (finish_field lm path s) (\<lambda>s. Inr (s, False))
      else if c = cr \<or> c = lf
      then ebind (finish_row lm path s) (\<lambda>s. Inr (s, c = cr \<and> next_is lf rest))
      else ebind (push_char lm path s c) (\<lambda>s. Inr (s, False)))"

definition csv_byte :: "limits \<Rightarrow> string \<Rightarrow> csv \<Rightarrow> char \<Rightarrow> string \<Rightarrow> (csv \<times> bool) res" where
  "csv_byte lm path s c rest =
     (if c_quoted s then csv_in_quotes lm path s c rest
      else if c_after_quote s then csv_after_quotes lm path s c rest
      else csv_plain lm path s c rest)"

function csv_loop :: "limits \<Rightarrow> string \<Rightarrow> csv \<Rightarrow> string \<Rightarrow> csv res" where
  "csv_loop lm path s [] = Inr s"
| "csv_loop lm path s (c # rest) =
     ebind (csv_byte lm path s c rest) (\<lambda>(s', skip).
       csv_loop lm path s' (if skip then tl rest else rest))"
  by pat_completeness auto
termination by (relation "measure (\<lambda>(lm, path, s, text). length text)") auto

definition parse_csv :: "string \<Rightarrow> string \<Rightarrow> limits \<Rightarrow> string list list res" where
  "parse_csv contents path lm =
     ebind (csv_loop lm path csv_start contents) (\<lambda>s.
     if c_quoted s then Inl (fail ''invalid_csv'' path ''quoted field is not closed'')
     else ebind (if c_after_quote s \<or> c_field s \<noteq> [] \<or> c_row s \<noteq> [] then finish_row lm path s else Inr s)
       (\<lambda>s. if c_rows s = [] then Inl (fail ''invalid_csv'' path ''CSV artifact has no header row'')
            else Inr (c_rows s)))"

section \<open>Headers and cells\<close>

definition is_blank :: "char \<Rightarrow> bool" where
  "is_blank c \<longleftrightarrow> c = CHR '' '' \<or> c = CHR 0x09 \<or> c = cr \<or> c = lf"

definition trim :: "string \<Rightarrow> string" where
  "trim s = rev (dropWhile is_blank (rev (dropWhile is_blank s)))"

type_synonym headers = "(string \<times> nat) list"

definition header_map :: "string list list \<Rightarrow> string \<Rightarrow> limits \<Rightarrow> headers res" where
  "header_map rows path lm =
     efold (\<lambda>headers (index, text).
        let header = trim text
        in if header = [] \<or> length header > max_string_bytes lm \<or> map_of headers header \<noteq> None
           then Inl (fail ''invalid_csv'' path ''CSV header is empty, oversized or duplicated'')
           else Inr (headers @ [(header, index)]))
       [] (enumerate 0 (hd rows))"

definition cell :: "string list \<Rightarrow> headers \<Rightarrow> string \<Rightarrow> string \<Rightarrow> limits \<Rightarrow> bool \<Rightarrow> string res" where
  "cell row headers key path lm needed =
     (case map_of headers key of
        None \<Rightarrow> if needed then Inl (fail ''invalid_csv'' path (''required column is missing: '' @ key)) else Inr []
      | Some i \<Rightarrow>
          if i \<ge> length row
          then if needed then Inl (fail ''invalid_csv'' path ''row has fewer cells than its header'') else Inr []
          else if length (row ! i) > min (max_field_bytes lm) 256
          then Inl (fail ''field_too_large'' path ''CSV field exceeds the configured byte limit'')
          else if needed \<and> row ! i = []
          then Inl (fail ''invalid_field'' path ''required CSV field is empty'')
          else if list_ex is_cntrl (row ! i)
          then Inl (fail ''invalid_field'' path ''CSV field contains a control character'')
          else Inr (row ! i))"

definition require_columns :: "headers \<Rightarrow> string list \<Rightarrow> string \<Rightarrow> unit res" where
  "require_columns headers names path =
     echeck (\<lambda>name. throw_if (map_of headers name = None)
       (fail ''invalid_csv'' path (''required column is missing: '' @ name))) names"

definition check_row_width :: "string list list \<Rightarrow> string \<Rightarrow> limits \<Rightarrow> unit res" where
  "check_row_width rows path lm =
     checks
       [echeck (\<lambda>row. throw_if (length row \<noteq> length (hd rows))
          (fail ''invalid_csv'' path ''row has a different number of cells than its header'')) (tl rows),
        throw_if (length rows - 1 > max_records_per_artifact lm)
          (fail ''too_many_records'' path ''CSV artifact exceeds the configured record limit'')]"

section \<open>Bounds\<close>

text \<open>What every state the parser passes through satisfies.\<close>

definition row_ok :: "limits \<Rightarrow> string list \<Rightarrow> bool" where
  "row_ok lm row \<longleftrightarrow> row \<noteq> [] \<and> length row \<le> max_columns lm \<and> (\<forall>f \<in> set row. length f \<le> max_field_bytes lm)"

definition csv_inv :: "limits \<Rightarrow> csv \<Rightarrow> bool" where
  "csv_inv lm s \<longleftrightarrow> (\<forall>row \<in> set (c_rows s). row_ok lm row) \<and>
     length (c_rows s) \<le> max_records_per_artifact lm + 1 \<and>
     (\<forall>f \<in> set (c_row s). length f \<le> max_field_bytes lm)"

lemma finish_row_inv: "finish_row lm path s = Inr s' \<Longrightarrow> csv_inv lm s \<Longrightarrow> csv_inv lm s'"
  by (auto simp: finish_row_def check_field_def csv_inv_def row_ok_def Let_def split: if_splits)

lemma finish_field_inv: "finish_field lm path s = Inr s' \<Longrightarrow> csv_inv lm s \<Longrightarrow> csv_inv lm s'"
  by (auto simp: finish_field_def check_field_def csv_inv_def Let_def split: if_splits)

lemma push_char_inv: "push_char lm path s c = Inr s' \<Longrightarrow> csv_inv lm s \<Longrightarrow> csv_inv lm s'"
  by (auto simp: push_char_def check_field_def csv_inv_def Let_def)

lemma csv_inv_fields [simp]:
  "csv_inv lm (s\<lparr>c_after_quote := b\<rparr>) = csv_inv lm s"
  "csv_inv lm (s\<lparr>c_field := f\<rparr>) = csv_inv lm s"
  "csv_inv lm (s\<lparr>c_quoted := q\<rparr>) = csv_inv lm s"
  "csv_inv lm (s\<lparr>c_saw := w\<rparr>) = csv_inv lm s"
  by (simp_all add: csv_inv_def)

lemma csv_in_quotes_inv:
  "csv_in_quotes lm path s c rest = Inr (s', skip) \<Longrightarrow> csv_inv lm s \<Longrightarrow> csv_inv lm s'"
  by (auto simp: csv_in_quotes_def dest: push_char_inv split: if_splits)

lemma csv_after_quotes_inv:
  "csv_after_quotes lm path s c rest = Inr (s', skip) \<Longrightarrow> csv_inv lm s \<Longrightarrow> csv_inv lm s'"
  by (auto simp: csv_after_quotes_def dest: finish_row_inv finish_field_inv split: if_splits)

lemma csv_plain_inv:
  "csv_plain lm path s c rest = Inr (s', skip) \<Longrightarrow> csv_inv lm s \<Longrightarrow> csv_inv lm s'"
  by (auto simp: csv_plain_def dest: finish_row_inv finish_field_inv push_char_inv split: if_splits)

lemma csv_byte_inv:
  "csv_byte lm path s c rest = Inr (s', skip) \<Longrightarrow> csv_inv lm s \<Longrightarrow> csv_inv lm s'"
  using csv_in_quotes_inv csv_after_quotes_inv csv_plain_inv
  by (simp add: csv_byte_def split: if_splits)

lemma csv_loop_inv: "csv_loop lm path s bs = Inr s' \<Longrightarrow> csv_inv lm s \<Longrightarrow> csv_inv lm s'"
proof (induction lm path s bs rule: csv_loop.induct)
  case (2 lm path s c rest)
  then obtain t skip where t: "csv_byte lm path s c rest = Inr (t, skip)"
    "csv_loop lm path t (if skip then tl rest else rest) = Inr s'"
    by auto
  from 2(1) [OF t(1) refl t(2) csv_byte_inv [OF t(1) 2(3)]] show ?case .
qed simp

text \<open>
  Whatever the bytes of a CSV artifact, the parser returns or throws, and what it returns is
  within the limits: at least one row and at most the record limit plus the header, every row
  with one to \<open>max_columns\<close> fields, every field within the byte limit.
\<close>

theorem csv_result_bounded:
  assumes "parse_csv contents path lm = Inr rows"
  shows "rows \<noteq> [] \<and> length rows \<le> max_records_per_artifact lm + 1 \<and>
    (\<forall>row \<in> set rows. length row \<in> {1..max_columns lm} \<and> (\<forall>f \<in> set row. length f \<le> max_field_bytes lm))"
proof -
  have start: "csv_inv lm csv_start" by (simp add: csv_inv_def csv_start_def)
  from assms obtain s s' where s: "csv_loop lm path csv_start contents = Inr s"
    and s': "(if c_after_quote s \<or> c_field s \<noteq> [] \<or> c_row s \<noteq> [] then finish_row lm path s else Inr s) = Inr s'"
    and r: "rows = c_rows s'" "rows \<noteq> []"
    by (auto simp: parse_csv_def)
  have "csv_inv lm s'"
    using csv_loop_inv [OF s start] s' finish_row_inv by (auto split: if_splits)
  with r show ?thesis by (auto simp: csv_inv_def row_ok_def Suc_le_eq)
qed

theorem csv_result_bounded_witness:
  "\<exists>rows. parse_csv ''id,name'' [] default_limits = Inr rows \<and> length rows \<le> 8193"
proof -
  have p: "parse_csv ''id,name'' [] default_limits = Inr [[''id'', ''name'']]"
    by (simp add: parse_csv_def csv_byte_def csv_plain_def push_char_def check_field_def finish_field_def
        finish_row_def csv_start_def default_limits_def csv_chars)
  show ?thesis using csv_result_bounded [OF p] p by (simp add: default_limits_def)
qed

section \<open>Round trip\<close>

text \<open>
  The texts RFC 4180 allows for a table: a field is quoted with its quotes doubled, or plain when
  it holds no quote, comma or line break; fields are separated by commas; a row ends with CRLF
  or LF, which the last row may leave out; blank lines are ignored. (A row of one empty field
  has to be quoted.)
\<close>

definition escaped :: "string \<Rightarrow> string" where
  "escaped f = concat (map (\<lambda>c. if c = quote_char then [c, c] else [c]) f)"

definition plain_field :: "string \<Rightarrow> bool" where
  "plain_field f \<longleftrightarrow> (\<forall>c \<in> set f. c \<noteq> quote_char \<and> c \<noteq> comma \<and> c \<noteq> cr \<and> c \<noteq> lf)"

definition field_text :: "string \<Rightarrow> string \<Rightarrow> bool" where
  "field_text f t \<longleftrightarrow> t = quote_char # escaped f @ [quote_char] \<or> plain_field f \<and> t = f"

inductive row_text :: "string list \<Rightarrow> string \<Rightarrow> bool" where
  "field_text f t \<Longrightarrow> row_text [f] t"
| "field_text f t \<Longrightarrow> row_text fs u \<Longrightarrow> row_text (f # fs) (t @ comma # u)"

definition end_of_line :: "string \<Rightarrow> bool" where
  "end_of_line e \<longleftrightarrow> e = [lf] \<or> e = [cr, lf]"

inductive csv_text :: "string list list \<Rightarrow> string \<Rightarrow> bool" where
  "csv_text [] []"
| "row_text row t \<Longrightarrow> t \<noteq> [] \<Longrightarrow> csv_text [row] t"
| "row_text row t \<Longrightarrow> t \<noteq> [] \<Longrightarrow> end_of_line e \<Longrightarrow> csv_text rows u \<Longrightarrow> csv_text (row # rows) (t @ e @ u)"
| "end_of_line e \<Longrightarrow> csv_text rows u \<Longrightarrow> csv_text rows (e @ u)"

definition rows_within :: "limits \<Rightarrow> string list list \<Rightarrow> bool" where
  "rows_within lm rows \<longleftrightarrow> length rows \<le> max_records_per_artifact lm + 1 \<and> (\<forall>row \<in> set rows. row_ok lm row)"

lemma csv_chars_distinct [simp]:
  "quote_char \<noteq> comma" "comma \<noteq> quote_char" "quote_char \<noteq> cr" "cr \<noteq> quote_char" "quote_char \<noteq> lf" "lf \<noteq> quote_char"
  "comma \<noteq> cr" "cr \<noteq> comma" "comma \<noteq> lf" "lf \<noteq> comma" "cr \<noteq> lf" "lf \<noteq> cr"
  by (simp_all add: csv_chars)

lemma loop_quoted:
  assumes "c_quoted s" and "length (c_field s @ f) \<le> max_field_bytes lm" and "\<not> next_is quote_char u"
  shows "\<exists>w. csv_loop lm path s (escaped f @ quote_char # u) =
    csv_loop lm path (s\<lparr>c_field := c_field s @ f, c_quoted := False, c_after_quote := True, c_saw := w\<rparr>) u \<and>
    (c_saw s \<longrightarrow> w)"
  using assms
proof (induction f arbitrary: s)
  case Nil
  then show ?case
    by (intro exI [of _ "c_saw s"]) (simp add: escaped_def csv_byte_def csv_in_quotes_def)
next
  case (Cons c f)
  show ?case
  proof (cases "c = quote_char")
    case True
    let ?s = "s\<lparr>c_field := c_field s @ [quote_char]\<rparr>"
    have "csv_loop lm path s (escaped (c # f) @ quote_char # u) = csv_loop lm path ?s (escaped f @ quote_char # u)"
      using True Cons.prems(1) by (simp add: escaped_def csv_byte_def csv_in_quotes_def next_is_def)
    with Cons.IH [of ?s] Cons.prems True show ?thesis by simp
  next
    case False
    let ?s = "s\<lparr>c_field := c_field s @ [c], c_saw := True\<rparr>"
    have "csv_loop lm path s (escaped (c # f) @ quote_char # u) = csv_loop lm path ?s (escaped f @ quote_char # u)"
      using False Cons.prems(1,2)
      by (simp add: escaped_def csv_byte_def csv_in_quotes_def push_char_def check_field_def)
    with Cons.IH [of ?s] Cons.prems show ?thesis by auto
  qed
qed

lemma loop_plain:
  assumes "\<not> c_quoted s" and "\<not> c_after_quote s" and "length (c_field s @ f) \<le> max_field_bytes lm"
    and "plain_field f"
  shows "csv_loop lm path s (f @ u) =
    csv_loop lm path (s\<lparr>c_field := c_field s @ f, c_saw := c_saw s \<or> f \<noteq> []\<rparr>) u"
  using assms
proof (induction f arbitrary: s)
  case (Cons c f)
  let ?s = "s\<lparr>c_field := c_field s @ [c], c_saw := True\<rparr>"
  have "csv_loop lm path s ((c # f) @ u) = csv_loop lm path ?s (f @ u)"
    using Cons.prems by (simp add: plain_field_def csv_byte_def csv_plain_def push_char_def check_field_def)
  with Cons.IH [of ?s] Cons.prems show ?case by (simp add: plain_field_def)
qed simp

text \<open>The parser at the start of a row after the rows \<open>R\<close>, and inside a row.\<close>

definition at_field :: "string list list \<Rightarrow> string list \<Rightarrow> string \<Rightarrow> bool \<Rightarrow> bool \<Rightarrow> csv" where
  "at_field R r f a w = \<lparr>c_rows = R, c_row = r, c_field = f, c_quoted = False, c_after_quote = a, c_saw = w\<rparr>"

lemma loop_field:
  assumes "field_text f t" and "length f \<le> max_field_bytes lm" and "\<not> next_is quote_char u"
  shows "\<exists>a w'. csv_loop lm path (at_field R r [] False w) (t @ u) = csv_loop lm path (at_field R r f a w') u \<and>
    (t \<noteq> [] \<longrightarrow> w' \<and> (a \<or> f \<noteq> [])) \<and> (w \<longrightarrow> w')"
proof -
  from assms(1) consider "t = quote_char # escaped f @ [quote_char]" | "plain_field f" "t = f"
    by (auto simp: field_text_def)
  then show ?thesis
  proof cases
    case 1
    let ?s = "at_field R r [] False w\<lparr>c_quoted := True, c_saw := True\<rparr>"
    have "csv_loop lm path (at_field R r [] False w) (t @ u) = csv_loop lm path ?s (escaped f @ quote_char # u)"
      using 1 by (simp add: at_field_def csv_byte_def csv_plain_def)
    moreover obtain w' where "csv_loop lm path ?s (escaped f @ quote_char # u) =
        csv_loop lm path (?s\<lparr>c_field := c_field ?s @ f, c_quoted := False, c_after_quote := True, c_saw := w'\<rparr>) u"
      "c_saw ?s \<longrightarrow> w'"
      using loop_quoted [of ?s f lm u path] assms(2,3) by (auto simp: at_field_def)
    ultimately show ?thesis
      by (intro exI [of _ True]) (simp add: at_field_def)
  next
    case 2
    then show ?thesis
      using loop_plain [of "at_field R r [] False w" f lm path u] assms(2)
      by (intro exI [of _ False] exI [of _ "w \<or> f \<noteq> []"]) (simp add: at_field_def)
  qed
qed

lemma loop_comma:
  assumes "length f \<le> max_field_bytes lm" and "Suc (length r) < max_columns lm"
  shows "csv_loop lm path (at_field R r f a w) (comma # u) = csv_loop lm path (at_field R (r @ [f]) [] False w) u"
  using assms
  by (simp add: at_field_def csv_byte_def csv_after_quotes_def csv_plain_def finish_field_def check_field_def Let_def)

lemma finish_row_keeps:
  assumes "row_ok lm (r @ [f])" and "length R \<le> max_records_per_artifact lm" and "r = [] \<longrightarrow> w"
  shows "finish_row lm path (at_field R r f a w) = Inr (at_field (R @ [r @ [f]]) [] [] a False)"
  using assms by (auto simp: finish_row_def at_field_def row_ok_def check_field_def Let_def)

lemma finish_row_blank: "finish_row lm path (at_field R [] [] False False) =
    (if max_columns lm = 0 then Inl (fail ''too_many_columns'' path ''CSV row exceeds the configured column limit'')
     else Inr (at_field R [] [] False False))"
  by (simp add: finish_row_def at_field_def check_field_def)

lemma at_field_simps [simp]:
  "at_field R r f a w\<lparr>c_after_quote := b\<rparr> = at_field R r f b w"
  "\<not> c_quoted (at_field R r f a w)" "c_after_quote (at_field R r f a w) = a"
  by (simp_all add: at_field_def)

lemma loop_end_of_line:
  assumes "end_of_line e" and "finish_row lm path (at_field R r f False w) = Inr s"
  shows "csv_loop lm path (at_field R r f a w) (e @ u) = csv_loop lm path s u"
  using assms
  by (cases a) (auto simp: end_of_line_def csv_byte_def csv_after_quotes_def csv_plain_def next_is_def
      simp del: csv_loop.simps(1))

lemma loop_row:
  assumes "row_text row t" and "row_ok lm (r @ row)" and "\<not> next_is quote_char u"
  shows "\<exists>a w'. csv_loop lm path (at_field R r [] False w) (t @ u) =
      csv_loop lm path (at_field R (r @ butlast row) (last row) a w') u \<and>
    (t \<noteq> [] \<longrightarrow> r @ butlast row = [] \<longrightarrow> w' \<and> (a \<or> last row \<noteq> []))"
  using assms
proof (induction row t arbitrary: r w)
  case (1 f t)
  then show ?case using loop_field [OF 1(1), of lm u path R r w] by (auto simp: row_ok_def)
next
  case (2 f t fs v)
  have ne: "fs \<noteq> []" using 2(2) by (cases) auto
  have len: "length f \<le> max_field_bytes lm" "Suc (length r) < max_columns lm"
    using 2(4) ne by (auto simp: row_ok_def Suc_le_eq neq_Nil_conv)
  have "\<not> next_is quote_char (comma # v @ u)" by (simp add: next_is_def)
  from loop_field [OF 2(1) len(1) this, of path R r w]
  obtain a w' where "csv_loop lm path (at_field R r [] False w) (t @ comma # v @ u) =
      csv_loop lm path (at_field R r f a w') (comma # v @ u)" by blast
  also have "\<dots> = csv_loop lm path (at_field R (r @ [f]) [] False w') (v @ u)"
    by (rule loop_comma [OF len])
  finally have step: "csv_loop lm path (at_field R r [] False w) ((t @ comma # v) @ u) =
      csv_loop lm path (at_field R (r @ [f]) [] False w') (v @ u)" by simp
  have "row_ok lm ((r @ [f]) @ fs)" using 2(4) by simp
  from 2(3) [OF this 2(5), of w'] ne step show ?case by auto
qed

definition csv_end :: "limits \<Rightarrow> string \<Rightarrow> csv \<Rightarrow> csv res" where
  "csv_end lm path s =
     (if c_after_quote s \<or> c_field s \<noteq> [] \<or> c_row s \<noteq> [] then finish_row lm path s else Inr s)"

lemma row_text_not_empty: "row_text row t \<Longrightarrow> row \<noteq> []"
  by (cases rule: row_text.cases) auto

lemma next_is_simps [simp]: "next_is c [] = False" "next_is c (x # xs) = (x = c)"
  by (auto simp: next_is_def)

lemma end_of_line_next: "end_of_line e \<Longrightarrow> \<not> next_is quote_char (e @ u)"
  by (auto simp: end_of_line_def)

lemma loop_table:
  assumes "csv_text rows t" and "rows_within lm (R @ rows)" and "0 < max_columns lm"
  shows "\<exists>s. csv_loop lm path (at_field R [] [] False False) t = Inr s \<and> \<not> c_quoted s \<and>
    (\<exists>a. csv_end lm path s = Inr (at_field (R @ rows) [] [] a False))"
  using assms
proof (induction rows t arbitrary: R)
  case 1
  then show ?case by (auto simp: csv_end_def at_field_def)
next
  case (2 row t)
  have ok: "row_ok lm row" "length R \<le> max_records_per_artifact lm"
    using 2(3) by (simp_all add: rows_within_def)
  have ne: "row \<noteq> []" using 2(1) by (rule row_text_not_empty)
  obtain a w' where r: "csv_loop lm path (at_field R [] [] False False) t =
      Inr (at_field R (butlast row) (last row) a w')"
    "butlast row = [] \<longrightarrow> w' \<and> (a \<or> last row \<noteq> [])"
    using loop_row [OF 2(1), of lm "[]" "[]" path R False] ok(1) 2(2) by auto
  let ?s = "at_field R (butlast row) (last row) a w'"
  have "csv_end lm path ?s = finish_row lm path ?s"
    using r(2) by (cases "butlast row") (auto simp: csv_end_def at_field_def)
  also have "\<dots> = Inr (at_field (R @ [butlast row @ [last row]]) [] [] a False)"
    by (rule finish_row_keeps) (use ok ne r(2) in simp_all)
  finally show ?case using r(1) ne by auto
next
  case (3 row t e rows u)
  have ok: "row_ok lm row" "length R \<le> max_records_per_artifact lm"
    using 3(6) by (simp_all add: rows_within_def)
  have ne: "row \<noteq> []" using 3(1) by (rule row_text_not_empty)
  obtain a w' where r: "csv_loop lm path (at_field R [] [] False False) (t @ e @ u) =
      csv_loop lm path (at_field R (butlast row) (last row) a w') (e @ u)"
    "butlast row = [] \<longrightarrow> w'"
    using loop_row [OF 3(1), of lm "[]" "e @ u" path R False] ok(1) 3(2) end_of_line_next [OF 3(3)] by auto
  have "finish_row lm path (at_field R (butlast row) (last row) False w') =
      Inr (at_field (R @ [butlast row @ [last row]]) [] [] False False)"
    by (rule finish_row_keeps) (use ok ne r(2) in simp_all)
  from loop_end_of_line [OF 3(3) this] r(1) ne
  have "csv_loop lm path (at_field R [] [] False False) (t @ e @ u) =
      csv_loop lm path (at_field (R @ [row]) [] [] False False) u"
    by simp
  with 3(5) [of "R @ [row]"] 3(6,7) show ?case by simp
next
  case (4 e rows u)
  have "finish_row lm path (at_field R [] [] False False) = Inr (at_field R [] [] False False)"
    using 4(5) by (simp add: finish_row_blank)
  from loop_end_of_line [OF 4(1) this] 4(3) [OF 4(4,5)] show ?case by simp
qed

text \<open>
  C19. Round trip: every text RFC 4180 allows for a table (fields quoted or plain, CRLF or LF, blank
  lines, with or without a last line break) parses back to exactly that table, whatever bytes
  its fields hold, as long as the table is within the limits.
\<close>

theorem csv_round_trip:
  assumes "csv_text rows contents" and "rows \<noteq> []" and "rows_within lm rows"
  shows "parse_csv contents path lm = Inr rows"
proof -
  have "0 < max_columns lm"
    using assms(2,3) by (cases rows) (auto simp: rows_within_def row_ok_def neq_Nil_conv)
  moreover have "csv_start = at_field [] [] [] False False" by (simp add: csv_start_def at_field_def)
  ultimately obtain s a where s: "csv_loop lm path csv_start contents = Inr s" "\<not> c_quoted s"
    "csv_end lm path s = Inr (at_field rows [] [] a False)"
    using loop_table [OF assms(1), of lm "[]" path] assms(3) by auto
  then show ?thesis
    using assms(2) by (simp add: parse_csv_def csv_end_def at_field_def)
qed

theorem csv_round_trip_witness:
  "parse_csv (''id,'' @ [quote_char, quote_char, quote_char, comma, quote_char, cr, lf]) [] default_limits =
    Inr [[''id'', [quote_char, comma]]]"
proof (rule csv_round_trip)
  have "row_text [[quote_char, comma]] [quote_char, quote_char, quote_char, comma, quote_char]"
    by (rule row_text.intros) (simp add: field_text_def escaped_def)
  moreover have "field_text ''id'' ''id''" by (simp add: field_text_def plain_field_def csv_chars)
  ultimately have "row_text [''id'', [quote_char, comma]]
      (''id'' @ comma # [quote_char, quote_char, quote_char, comma, quote_char])"
    by (intro row_text.intros(2))
  from csv_text.intros(3) [OF this _ _ csv_text.intros(1), of "[cr, lf]"]
  show "csv_text [[''id'', [quote_char, comma]]]
      (''id,'' @ [quote_char, quote_char, quote_char, comma, quote_char, cr, lf])"
    by (simp add: end_of_line_def comma_def)
qed (simp_all add: rows_within_def row_ok_def default_limits_def)

end
