(* ===== verification/Engineering_Import.thy ===== *)
theory Engineering_Import
  imports Model_Index Csv_Import "HOL-Library.Multiset"
begin

text \<open>
  Import of an engineering bundle: shared checks and path containment
  (\<open>context_import_common.cpp\<close>), the readers of the seven artifact kinds
  (\<open>context_import_records.cpp\<close>) and the whole import (\<open>context_import.cpp\<close>). The file system,
  the JSON parser and \<open>std::from_chars\<close> for doubles are arguments. \<open>std::unordered_set\<close>s are lists
  used through membership only.
\<close>

section \<open>Paths and files\<close>

text \<open>A path in normal form: whether it is absolute, and its components.\<close>

datatype fpath = FPath bool "string list"

record filesystem =
  fs_regular :: "string \<Rightarrow> bool"
  fs_directory :: "string \<Rightarrow> bool"
  fs_size :: "string \<Rightarrow> nat option"
  fs_stream :: "string \<Rightarrow> string option"
  fs_canonical :: "string \<Rightarrow> fpath option"

definition is_absolute :: "string \<Rightarrow> bool" where
  "is_absolute p \<longleftrightarrow> p \<noteq> [] \<and> hd p = slash"

definition filename :: "string \<Rightarrow> string" where
  "filename p = rev (takeWhile (\<lambda>c. c \<noteq> slash) (rev p))"

definition path_append :: "string \<Rightarrow> string \<Rightarrow> string" where
  "path_append base p = (if base = [] \<or> last base = slash then base @ p else base @ slash # p)"

fun join_path :: "string list \<Rightarrow> string" where
  "join_path [] = []"
| "join_path [c] = c"
| "join_path (c # cs) = c @ slash # join_path cs"

fun path_string :: "fpath \<Rightarrow> string" where
  "path_string (FPath absolute cs) = (if absolute then slash # join_path cs else join_path cs)"

fun drop_common :: "string list \<Rightarrow> string list \<Rightarrow> string list \<times> string list" where
  "drop_common (a # as) (b # bs) = (if a = b then drop_common as bs else (a # as, b # bs))"
| "drop_common as bs = (as, bs)"

text \<open>\<open>std::filesystem::path::lexically_relative\<close>; the empty list is the empty path.\<close>

fun lexically_relative :: "fpath \<Rightarrow> fpath \<Rightarrow> string list" where
  "lexically_relative (FPath a f) (FPath b r) =
     (if a \<noteq> b then []
      else let (f', r') = drop_common f r in
        if f' = [] \<and> r' = [] then [''.'']
        else let n = int (length (filter (\<lambda>c. c \<noteq> [] \<and> c \<noteq> ''.'' \<and> c \<noteq> ''..'') r')) -
                     int (length (filter (\<lambda>c. c = ''..'') r'))
          in if n < 0 then []
             else if n = 0 \<and> (f' = [] \<or> hd f' = []) then [''.'']
             else replicate (nat n) ''..'' @ f')"

definition contained_path :: "filesystem \<Rightarrow> string \<Rightarrow> string \<Rightarrow> string \<Rightarrow> fpath res" where
  "contained_path fs base relative path =
     (if relative = [] \<or> is_absolute relative
      then Inl (fail ''invalid_artifact_path'' path ''artifact path must be a non-empty relative path'')
      else case fs_canonical fs base of
        None \<Rightarrow> Inl (fail ''bundle_unavailable'' base ''bundle path cannot be resolved'')
      | Some root_real \<Rightarrow>
        (case fs_canonical fs (path_append base relative) of
           None \<Rightarrow> Inl (fail ''artifact_unavailable'' path ''artifact path cannot be resolved'')
         | Some file_real \<Rightarrow>
             let r = lexically_relative file_real root_real
             in if r = [] \<or> r = [''..''] \<or> hd r = ''..''
                then Inl (fail ''invalid_artifact_path'' path ''artifact path escapes the bundle directory'')
                else Inr file_real))"

definition read_bounded :: "filesystem \<Rightarrow> string \<Rightarrow> limits \<Rightarrow> string res" where
  "read_bounded fs path lm =
     (if \<not> fs_regular fs path
      then Inl (fail ''artifact_unavailable'' path ''artifact is not a regular file'')
      else case fs_size fs path of
        None \<Rightarrow> Inl (fail ''artifact_too_large'' path ''artifact exceeds the configured byte limit'')
      | Some bytes \<Rightarrow>
          if bytes > max_file_bytes lm
          then Inl (fail ''artifact_too_large'' path ''artifact exceeds the configured byte limit'')
          else (case fs_stream fs path of
            None \<Rightarrow> Inl (fail ''artifact_unavailable'' path ''artifact cannot be opened'')
          | Some content \<Rightarrow>
              if bytes \<noteq> 0 \<and> length content < bytes
              then Inl (fail ''artifact_unavailable'' path ''artifact could not be read completely'')
              else Inr (take bytes content)))"

section \<open>JSON artifacts\<close>

text \<open>The stack of \<open>validate_json_limits\<close>, its top at the head.\<close>

definition json_children :: "json \<Rightarrow> json list" where
  "json_children j = (case j of JObj m \<Rightarrow> map snd m | JArr xs \<Rightarrow> xs | _ \<Rightarrow> [])"

lemma json_children_smaller: "sum_list (map (\<lambda>c. Suc (size c)) (json_children j)) \<le> size j"
proof -
  have "sum_list (map (\<lambda>c. Suc (size c)) (map snd m)) \<le> size_list (size_prod (\<lambda>_. 0) size) m" for m :: members
    by (induction m) auto
  moreover have "sum_list (map (\<lambda>c. Suc (size c)) xs) \<le> size_list size xs" for xs :: "json list"
    by (induction xs) auto
  ultimately show ?thesis
    by (cases j) (auto simp: json_children_def simp del: map_map intro: le_SucI)
qed

function validate_pending :: "limits \<Rightarrow> string \<Rightarrow> (json \<times> nat) list \<Rightarrow> nat \<Rightarrow> unit res" where
  "validate_pending lm path [] nodes = Inr ()"
| "validate_pending lm path ((current, depth) # pending) nodes =
     (if Suc nodes > max_json_nodes lm \<or> depth > max_json_depth lm
      then Inl (fail ''json_too_complex'' path ''JSON artifact exceeds the configured depth or node limit'')
      else if is_string current \<and> length (str_of current) > max_string_bytes lm
      then Inl (fail ''field_too_large'' path ''JSON string exceeds the configured byte limit'')
      else if list_ex (\<lambda>(k, v). length k > max_string_bytes lm) (members_of current)
      then Inl (fail ''field_too_large'' path ''JSON key exceeds the configured byte limit'')
      else validate_pending lm path (rev (map (\<lambda>c. (c, Suc depth)) (json_children current)) @ pending)
             (Suc nodes))"
  by pat_completeness auto
termination
proof (relation "measure (\<lambda>(lm, path, pending, nodes). sum_list (map (\<lambda>(j, d). Suc (size j)) pending))")
  fix lm path current depth pending nodes
  have "sum_list (map (\<lambda>(j, d). Suc (size j)) (map (\<lambda>c. (c, Suc depth)) (json_children current))) \<le> size current"
    using json_children_smaller [of current] by (simp add: comp_def)
  then show "((lm, path, rev (map (\<lambda>c. (c, Suc depth)) (json_children current)) @ pending, Suc nodes),
      lm, path, (current, depth) # pending, nodes)
    \<in> measure (\<lambda>(lm, path, pending, nodes). sum_list (map (\<lambda>(j, d). Suc (size j)) pending))"
    by (simp add: sum_list_rev rev_map [symmetric] del: rev_map)
qed simp

definition validate_json_limits :: "json \<Rightarrow> string \<Rightarrow> limits \<Rightarrow> unit res" where
  "validate_json_limits v path lm = validate_pending lm path [(v, 0)] 0"

text \<open>\<open>Json::parse\<close> is an argument: the value, or the text of its parse error.\<close>

definition parse_json :: "(string \<Rightarrow> string + json) \<Rightarrow> string \<Rightarrow> string \<Rightarrow> limits \<Rightarrow> json res" where
  "parse_json parse contents path lm =
     (case parse contents of
        Inl what \<Rightarrow> Inl (fail ''invalid_json'' path what)
      | Inr v \<Rightarrow> ethen (validate_json_limits v path lm) (Inr v))"

section \<open>Shared checks\<close>

definition identity_limit :: nat where "identity_limit = 256"

definition require_string :: "json \<Rightarrow> string \<Rightarrow> string \<Rightarrow> nat \<Rightarrow> bool \<Rightarrow> unit res" where
  "require_string object key path limit allow_empty =
     (if \<not> contains object key \<or> \<not> is_string (fld object key)
      then Inl (fail ''invalid_field'' path ''required string field is missing'')
      else throw_if ((\<not> allow_empty \<and> sfld object key = []) \<or>
                     length (sfld object key) > min limit identity_limit \<or>
                     list_ex is_cntrl (sfld object key))
             (fail ''invalid_field'' path ''string field is empty or exceeds its bound''))"

definition import_string_field :: "json \<Rightarrow> string \<Rightarrow> string \<Rightarrow> nat \<Rightarrow> bool \<Rightarrow> string res" where
  "import_string_field object key path limit allow_empty =
     ethen (require_string object key path limit allow_empty) (string_at object key)"

definition allowed_keys :: "json \<Rightarrow> string list \<Rightarrow> string \<Rightarrow> unit res" where
  "allowed_keys object allowed path =
     echeck (\<lambda>(key, v). throw_if (key \<notin> set allowed)
       (fail ''unknown_field'' path (''field is not accepted: '' @ key))) (json_items object)"

definition import_fingerprint :: "string \<Rightarrow> string" where
  "import_fingerprint contents = ''fnv1a64:'' @ fnv_hex contents"

definition import_identity :: "string \<Rightarrow> bool" where
  "import_identity v \<longleftrightarrow>
     (if v = [] \<or> length v > identity_limit \<or> \<not> (is_lower (hd v) \<or> is_upper (hd v) \<or> is_digit (hd v)) then False
      else list_all (\<lambda>c. c = CHR ''_'' \<or> c = CHR ''-'' \<or> c = CHR ''.'' \<or> is_lower c \<or> is_upper c \<or> is_digit c) v)"

definition records_array :: "json \<Rightarrow> string \<Rightarrow> limits \<Rightarrow> json res" where
  "records_array v path lm =
     (if is_array v
      then if json_size v > max_records_per_artifact lm
           then Inl (fail ''too_many_records'' path ''JSON artifact exceeds the configured record limit'')
           else Inr v
      else if is_object v \<and> contains v ''records'' \<and> is_array (fld v ''records'')
      then if json_size (fld v ''records'') > max_records_per_artifact lm
           then Inl (fail ''too_many_records'' path ''JSON artifact exceeds the configured record limit'')
           else Inr (fld v ''records'')
      else Inl (fail ''invalid_json_shape'' path ''artifact must be an array or an object with records''))"

section \<open>The state of an import\<close>

record artifact =
  a_id :: string
  a_kind :: string
  a_format :: string
  a_path :: string
  a_contents :: string

record import_state =
  i_model :: json
  i_report :: json
  i_assets :: "string list"
  i_relationships :: "string list"
  i_tags :: "string list"
  i_emitted_tags :: "string list"
  i_alarms :: "string list"
  i_total_records :: nat

text \<open>\<open>object.at(key).push_back(v)\<close>.\<close>

definition push_at :: "json \<Rightarrow> string \<Rightarrow> json \<Rightarrow> json res" where
  "push_at j k v =
     ebind (json_at j k) (\<lambda>a. case a of
         JArr xs \<Rightarrow> Inr (oset j k (JArr (xs @ [v])))
       | JNull \<Rightarrow> Inr (oset j k (JArr [v]))
       | _ \<Rightarrow> Inl (JsonException 308))"

definition add_unresolved :: "json \<Rightarrow> string \<Rightarrow> string \<Rightarrow> string \<Rightarrow> json res" where
  "add_unresolved report code path message =
     push_at report ''unresolved''
       (jobj [(''code'', JStr code), (''path'', JStr path), (''message'', JStr message),
              (''severity'', JStr ''warning'')])"

definition unresolved :: "import_state \<Rightarrow> string \<Rightarrow> string \<Rightarrow> string \<Rightarrow> import_state res" where
  "unresolved st code path message =
     ebind (add_unresolved (i_report st) code path message) (\<lambda>r. Inr (st\<lparr>i_report := r\<rparr>))"

definition emit :: "import_state \<Rightarrow> string \<Rightarrow> json \<Rightarrow> import_state res" where
  "emit st key item = ebind (push_at (i_model st) key item) (\<lambda>m. Inr (st\<lparr>i_model := m\<rparr>))"

definition source_record :: "artifact \<Rightarrow> nat \<Rightarrow> json" where
  "source_record a records =
     jobj [(''id'', JStr (a_id a)), (''kind'', JStr (a_kind a)), (''format'', JStr (a_format a)),
           (''path'', JStr (filename (a_path a))), (''bytes'', JUInt (of_nat (length (a_contents a)))),
           (''records'', JUInt (of_nat records)), (''fingerprint'', JStr (import_fingerprint (a_contents a)))]"

definition record_source :: "limits \<Rightarrow> import_state \<Rightarrow> artifact \<Rightarrow> nat \<Rightarrow> import_state res" where
  "record_source lm st a records =
     (let st = st\<lparr>i_total_records := i_total_records st + records\<rparr>
      in if i_total_records st > max_total_records lm
         then Inl (fail ''too_many_records'' ''manifest.artifacts'' ''bundle exceeds total record limit'')
         else ebind (push_at (i_report st) ''artifacts'' (source_record a records)) (\<lambda>r.
           Inr (st\<lparr>i_report := r\<rparr>)))"

definition set_count :: "json \<Rightarrow> string \<Rightarrow> nat \<Rightarrow> json res" where
  "set_count report key n =
     ebind (json_at report ''counts'') (\<lambda>c.
     ebind (json_set c key (JUInt (of_nat n))) (\<lambda>c. json_set report ''counts'' c))"

definition sort_by_id :: "json \<Rightarrow> string \<Rightarrow> json res" where
  "sort_by_id j key =
     ebind (json_at j key) (\<lambda>a.
     ebind (echeck (\<lambda>x. ebind (string_at x ''id'') (\<lambda>_. Inr ())) (elements_of a)) (\<lambda>_.
     Inr (oset j key (JArr (sort_key (\<lambda>x. sfld x ''id'') (elements_of a))))))"

definition record_path :: "artifact \<Rightarrow> nat \<Rightarrow> string" where
  "record_path a index = filename (a_path a) @ ''['' @ show_nat index @ '']''"

section \<open>Assets\<close>

definition import_alias_ok :: "limits \<Rightarrow> json \<Rightarrow> bool" where
  "import_alias_ok lm alias \<longleftrightarrow>
     \<not> (\<not> is_string alias \<or> str_of alias = [] \<or> length (str_of alias) > min (max_string_bytes lm) 256 \<or>
        list_ex is_cntrl (str_of alias))"

definition import_aliases :: "limits \<Rightarrow> string \<Rightarrow> json \<Rightarrow> json \<Rightarrow> json res" where
  "import_aliases lm path item asset =
     (if \<not> contains item ''aliases'' then Inr asset
      else let aliases = fld item ''aliases''
        in if \<not> is_array aliases \<or> json_size aliases > 32
           then Inl (fail ''invalid_field'' (path @ ''.aliases'') ''aliases must be a bounded array'')
           else ebind (emap (\<lambda>alias. if \<not> import_alias_ok lm alias
                    then Inl (fail ''invalid_field'' (path @ ''.aliases'') ''alias is invalid or oversized'')
                    else Inr alias) (elements_of aliases)) (\<lambda>xs.
             Inr (oset asset ''aliases'' (JArr xs))))"

definition import_asset :: "limits \<Rightarrow> artifact \<Rightarrow> import_state \<Rightarrow> nat \<times> json \<Rightarrow> import_state res" where
  "import_asset lm a st = (\<lambda>(index, item).
     let path = record_path a index
     in if \<not> is_object item then Inl (fail ''invalid_record'' path ''asset record must be an object'')
        else ethen (allowed_keys item [''id'', ''name'', ''kind'', ''aliases'', ''description''] path)
          (ebind (import_string_field item ''id'' path (max_string_bytes lm) False) (\<lambda>key.
           if \<not> import_identity key \<or> key \<in> set (i_assets st)
           then Inl (fail ''invalid_identity'' (path @ ''.id'') ''asset id is invalid or duplicated'')
           else let st = st\<lparr>i_assets := i_assets st @ [key]\<rparr>
             in ebind (import_string_field item ''name'' path (max_string_bytes lm) False) (\<lambda>name.
                ebind (import_string_field item ''kind'' path (max_string_bytes lm) False) (\<lambda>kind.
                ebind (import_aliases lm path item
                         (jobj [(''id'', JStr key), (''name'', JStr name), (''kind'', JStr kind)])) (\<lambda>asset.
                ebind (if contains item ''description''
                       then ebind (import_string_field item ''description'' path (max_string_bytes lm) True) (\<lambda>d.
                         Inr (oset asset ''metadata'' (jobj [(''description'', JStr d)])))
                       else Inr asset) (\<lambda>asset.
                emit st ''assets'' asset)))))))"

definition parse_assets ::
  "(string \<Rightarrow> string + json) \<Rightarrow> limits \<Rightarrow> artifact \<Rightarrow> import_state \<Rightarrow> import_state res" where
  "parse_assets parse lm a st =
     ebind (parse_json parse (a_contents a) (a_path a) lm) (\<lambda>v.
     ebind (records_array v (a_path a) lm) (\<lambda>records.
     ebind (efold (import_asset lm a) st (enumerate 0 (elements_of records))) (\<lambda>st.
     record_source lm st a (json_size records))))"

section \<open>CSV artifacts\<close>

text \<open>The common frame of the CSV readers: parse, check the header, then one step per data row.\<close>

definition read_rows ::
  "limits \<Rightarrow> artifact \<Rightarrow> string list \<Rightarrow> (headers \<Rightarrow> import_state \<Rightarrow> nat \<times> string list \<Rightarrow> import_state res) \<Rightarrow>
     import_state \<Rightarrow> (nat \<times> import_state) res" where
  "read_rows lm a columns step st =
     ebind (parse_csv (a_contents a) (a_path a) lm) (\<lambda>rows.
     ebind (header_map rows (a_path a) lm) (\<lambda>headers.
     ethen (require_columns headers columns (a_path a))
     (ethen (check_row_width rows (a_path a) lm)
     (ebind (efold (step headers) st (enumerate 1 (tl rows))) (\<lambda>st.
      Inr (length rows - 1, st))))))"

definition import_relationship ::
  "limits \<Rightarrow> artifact \<Rightarrow> headers \<Rightarrow> import_state \<Rightarrow> nat \<times> string list \<Rightarrow> import_state res" where
  "import_relationship lm a headers st = (\<lambda>(index, row).
     let path = record_path a index
     in ebind (cell row headers ''id'' path lm True) (\<lambda>key.
        ebind (cell row headers ''from'' path lm True) (\<lambda>frm.
        ebind (cell row headers ''to'' path lm True) (\<lambda>to.
        ebind (cell row headers ''kind'' path lm True) (\<lambda>kind.
        if \<not> import_identity key \<or> key \<in> set (i_relationships st)
        then Inl (fail ''invalid_identity'' (path @ ''.id'') ''relationship id is invalid or duplicated'')
        else let st = st\<lparr>i_relationships := i_relationships st @ [key]\<rparr>
          in if frm = to \<or> frm \<notin> set (i_assets st) \<or> to \<notin> set (i_assets st)
             then unresolved st ''unknown_relationship_endpoint'' path
                    ''relationship is not emitted because its endpoints are undeclared or identical''
             else emit st ''relationships''
                    (jobj [(''id'', JStr key), (''from'', JStr frm), (''to'', JStr to), (''kind'', JStr kind)]))))))"

definition parse_relationships :: "limits \<Rightarrow> artifact \<Rightarrow> import_state \<Rightarrow> import_state res" where
  "parse_relationships lm a st =
     ebind (read_rows lm a [''id'', ''from'', ''to'', ''kind''] (import_relationship lm a) st) (\<lambda>(n, st).
     record_source lm st a n)"

definition place_tag :: "import_state \<Rightarrow> string \<Rightarrow> string \<Rightarrow> string \<Rightarrow> json \<Rightarrow> string \<Rightarrow> import_state res" where
  "place_tag st key owner data_type item path =
     (if data_type \<notin> set [''number'', ''float'', ''double'', ''integer'', ''boolean'', ''bool'', ''string'']
      then unresolved st ''unsupported_tag_type'' path
             ''tag is not emitted because its data_type is not supported by the native model''
      else if owner \<notin> set (i_assets st)
      then unresolved st ''unknown_tag_owner'' path
             ''tag is not emitted because its asset_id is not declared in the asset hierarchy''
      else ebind (emit st ''tags'' item) (\<lambda>st.
             Inr (st\<lparr>i_emitted_tags := i_emitted_tags st @ [key]\<rparr>)))"

definition import_tag ::
  "limits \<Rightarrow> artifact \<Rightarrow> headers \<Rightarrow> import_state \<Rightarrow> nat \<times> string list \<Rightarrow> import_state res" where
  "import_tag lm a headers st = (\<lambda>(index, row).
     let path = record_path a index; text = (\<lambda>key. cell row headers key path lm True)
     in ebind (text ''id'') (\<lambda>key.
        ebind (text ''asset_id'') (\<lambda>owner.
        if \<not> import_identity key \<or> key \<in> set (i_tags st)
        then Inl (fail ''invalid_identity'' (path @ ''.id'') ''tag id is invalid or duplicated'')
        else let st = st\<lparr>i_tags := i_tags st @ [key]\<rparr>
          in ebind (text ''name'') (\<lambda>name.
             ebind (text ''role'') (\<lambda>role.
             ebind (text ''data_type'') (\<lambda>data_type.
             ebind (cell row headers ''unit'' path lm False) (\<lambda>unt.
             ebind (text ''server'') (\<lambda>server.
             ebind (text ''namespace_uri'') (\<lambda>namespace_uri.
             ebind (text ''identifier'') (\<lambda>identifier.
             place_tag st key owner (lower data_type)
               (jobj [(''id'', JStr key), (''asset_id'', JStr owner), (''name'', JStr name),
                   (''role'', JStr role), (''data_type'', JStr (lower data_type)), (''unit'', JStr unt),
                   (''source'', jobj [(''server'', JStr server), (''namespace_uri'', JStr namespace_uri),
                      (''identifier'', JStr identifier)])]) path))))))))))"

definition parse_tags :: "limits \<Rightarrow> artifact \<Rightarrow> import_state \<Rightarrow> import_state res" where
  "parse_tags lm a st =
     ebind (read_rows lm a [''id'', ''asset_id'', ''name'', ''role'', ''data_type'', ''unit'', ''server'',
              ''namespace_uri'', ''identifier''] (import_tag lm a) st) (\<lambda>(n, st).
     record_source lm st a n)"

definition import_io ::
  "limits \<Rightarrow> artifact \<Rightarrow> headers \<Rightarrow> import_state \<Rightarrow> nat \<times> string list \<Rightarrow> import_state res" where
  "import_io lm a headers st = (\<lambda>(index, row).
     let path = record_path a index
     in ebind (cell row headers ''id'' path lm True) (\<lambda>key.
        ebind (cell row headers ''tag_id'' path lm True) (\<lambda>tag_id.
        if \<not> import_identity key
        then Inl (fail ''invalid_identity'' (path @ ''.id'') ''I/O record id is invalid'')
        else if tag_id \<notin> set (i_emitted_tags st)
        then unresolved st ''unknown_io_tag'' path ''I/O metadata references a tag not declared in controller_tags''
        else Inr st)))"

definition parse_io :: "limits \<Rightarrow> artifact \<Rightarrow> import_state \<Rightarrow> import_state res" where
  "parse_io lm a st =
     ebind (read_rows lm a [''id'', ''tag_id'', ''signal_type'', ''address'', ''channel''] (import_io lm a) st) (\<lambda>(n, st).
     ebind (set_count (i_report st) ''io'' n) (\<lambda>r.
     record_source lm (st\<lparr>i_report := r\<rparr>) a n))"

text \<open>\<open>std::from_chars\<close>: the value and the number of characters read, or no number.\<close>

type_synonym from_chars = "string \<Rightarrow> (double \<times> nat) option"

definition threshold_of :: "from_chars \<Rightarrow> string \<Rightarrow> string \<Rightarrow> double res" where
  "threshold_of from_chars text path =
     (case from_chars text of
        None \<Rightarrow> Inl (fail ''invalid_number'' (path @ ''.threshold'') ''alarm threshold is invalid'')
      | Some (d, used) \<Rightarrow>
          if used \<noteq> length text \<or> \<not> isfinite d
          then Inl (fail ''invalid_number'' (path @ ''.threshold'') ''alarm threshold is invalid'')
          else Inr d)"

definition tag_with_id :: "json \<Rightarrow> string \<Rightarrow> json option res" where
  "tag_with_id model key =
     ebind (json_at model ''tags'') (\<lambda>tags.
     efold (\<lambda>found candidate. if found \<noteq> None then Inr found
         else ebind (string_at candidate ''id'') (\<lambda>k. Inr (if k = key then Some candidate else None)))
       None (json_values tags))"

definition alarm_unknown :: "import_state \<Rightarrow> string \<Rightarrow> json option \<Rightarrow> bool res" where
  "alarm_unknown st owner tag =
     (if owner \<notin> set (i_assets st) then Inr True
      else case tag of
        None \<Rightarrow> Inr True
      | Some t \<Rightarrow> ebind (string_at t ''asset_id'') (\<lambda>o'. Inr (o' \<noteq> owner)))"

definition place_alarm ::
  "from_chars \<Rightarrow> (string \<Rightarrow> string res) \<Rightarrow> import_state \<Rightarrow> string \<Rightarrow> string \<Rightarrow> string \<Rightarrow> string \<Rightarrow> import_state res" where
  "place_alarm from_chars text st key owner tag_id path =
     ebind (text ''threshold'') (\<lambda>threshold_text.
     ebind (threshold_of from_chars threshold_text path) (\<lambda>threshold.
     ebind (text ''operator'') (\<lambda>op.
     ebind (text ''severity'') (\<lambda>severity.
     if op \<notin> set [''>'', ''>='', ''<'', ''<='', ''=='', ''!=''] \<or>
        lower severity \<notin> set [''low'', ''medium'', ''high'', ''critical'']
     then unresolved st ''unsupported_alarm_definition'' path
            ''alarm is not emitted because its operator or severity is unsupported''
     else ebind (text ''name'') (\<lambda>name.
          emit st ''alarms''
            (jobj [(''id'', JStr key), (''asset_id'', JStr owner), (''name'', JStr name),
               (''tag_id'', JStr tag_id), (''operator'', JStr op), (''threshold'', JFloat threshold),
               (''severity'', JStr (lower severity))]))))))"

definition import_alarm ::
  "from_chars \<Rightarrow> limits \<Rightarrow> artifact \<Rightarrow> headers \<Rightarrow> import_state \<Rightarrow> nat \<times> string list \<Rightarrow> import_state res" where
  "import_alarm from_chars lm a headers st = (\<lambda>(index, row).
     let path = record_path a index; text = (\<lambda>key. cell row headers key path lm True)
     in ebind (text ''id'') (\<lambda>key.
        ebind (text ''asset_id'') (\<lambda>owner.
        ebind (text ''tag_id'') (\<lambda>tag_id.
        if \<not> import_identity key \<or> key \<in> set (i_alarms st)
        then Inl (fail ''invalid_identity'' (path @ ''.id'') ''alarm id is invalid or duplicated'')
        else let st = st\<lparr>i_alarms := i_alarms st @ [key]\<rparr>
          in ebind (tag_with_id (i_model st) tag_id) (\<lambda>tag.
             ebind (alarm_unknown st owner tag) (\<lambda>unknown.
             if unknown
             then unresolved st ''unknown_alarm_reference'' path
                    ''alarm is not emitted because its owner or tag is undeclared''
             else place_alarm from_chars text st key owner tag_id path))))))"

definition parse_alarms :: "from_chars \<Rightarrow> limits \<Rightarrow> artifact \<Rightarrow> import_state \<Rightarrow> import_state res" where
  "parse_alarms from_chars lm a st =
     ebind (read_rows lm a [''id'', ''asset_id'', ''name'', ''tag_id'', ''operator'', ''threshold'', ''severity'']
              (import_alarm from_chars lm a) st) (\<lambda>(n, st).
     record_source lm st a n)"

section \<open>Metadata artifacts\<close>

definition note_unknown_asset :: "import_state \<Rightarrow> string \<Rightarrow> json \<Rightarrow> import_state res" where
  "note_unknown_asset st path item =
     ebind (if contains item ''asset_id''
            then ebind (string_at item ''asset_id'') (\<lambda>o'. Inr (o' \<notin> set (i_assets st)))
            else Inr False) (\<lambda>unknown.
     if unknown
     then unresolved st ''unknown_metadata_asset'' path
            ''metadata references an asset absent from the explicit hierarchy''
     else Inr st)"

definition import_metadata ::
  "limits \<Rightarrow> artifact \<Rightarrow> string list \<Rightarrow> string list \<times> import_state \<Rightarrow> nat \<times> json \<Rightarrow> (string list \<times> import_state) res" where
  "import_metadata lm a names = (\<lambda>(ids, st) (index, item).
     let path = record_path a index
     in if \<not> is_object item then Inl (fail ''invalid_record'' path ''metadata record must be an object'')
        else ethen (allowed_keys item names path)
          (ethen (echeck (\<lambda>f. require_string item f path (max_string_bytes lm) (f = ''description'')) names)
          (ebind (string_at item ''id'') (\<lambda>key.
           if \<not> import_identity key \<or> key \<in> set ids
           then Inl (fail ''invalid_identity'' (path @ ''.id'') ''metadata record id is invalid or duplicated'')
           else ebind (note_unknown_asset st path item) (\<lambda>st. Inr (ids @ [key], st))))))"

definition parse_metadata ::
  "(string \<Rightarrow> string + json) \<Rightarrow> limits \<Rightarrow> artifact \<Rightarrow> string \<Rightarrow> string list \<Rightarrow> import_state \<Rightarrow> import_state res" where
  "parse_metadata parse lm a count_key names st =
     ebind (parse_json parse (a_contents a) (a_path a) lm) (\<lambda>v.
     ebind (records_array v (a_path a) lm) (\<lambda>records.
     ebind (efold (import_metadata lm a names) ([], st) (enumerate 0 (elements_of records))) (\<lambda>(ids, st).
     ebind (set_count (i_report st) count_key (json_size records)) (\<lambda>r.
     record_source lm (st\<lparr>i_report := r\<rparr>) a (json_size records)))))"

section \<open>The import\<close>

definition import_revision_ok :: "json \<Rightarrow> bool" where
  "import_revision_ok machine \<longleftrightarrow>
     \<not> (\<not> contains machine ''revision'' \<or> \<not> is_number_unsigned (fld machine ''revision'') \<or>
        jeq (fld machine ''revision'') (JUInt 0) \<or>
        (case get_u64 (fld machine ''revision'') of Inr w \<Rightarrow> w > 4294967295 | Inl _ \<Rightarrow> True))"

definition import_start :: "string \<Rightarrow> string \<Rightarrow> string \<Rightarrow> u64 \<Rightarrow> import_state" where
  "import_start manifest_path machine_id machine_name revision =
     \<lparr>i_model = jobj [(''model_id'', JStr machine_id), (''revision'', JUInt revision),
        (''name'', JStr machine_name), (''assets'', JArr []), (''relationships'', JArr []),
        (''tags'', JArr []), (''alarms'', JArr [])],
      i_report = jobj [(''schema_version'', JStr ''engineering-import-report/1''), (''status'', JStr ''ok''),
        (''machine'', jobj [(''id'', JStr machine_id), (''name'', JStr machine_name), (''revision'', JUInt revision)]),
        (''source'', jobj [(''manifest'', JStr (filename manifest_path)),
           (''bundle_format'', JStr ''engineering-bundle/1''), (''read_only'', JBool True)]),
        (''artifacts'', JArr []),
        (''counts'', jobj [(''assets'', JInt 0), (''relationships'', JInt 0), (''tags'', JInt 0), (''io'', JInt 0),
           (''alarms'', JInt 0), (''communications'', JInt 0), (''documents'', JInt 0)]),
        (''unresolved'', JArr []), (''errors'', JArr [])],
      i_assets = [], i_relationships = [], i_tags = [], i_emitted_tags = [], i_alarms = [],
      i_total_records = 0\<rparr>"

definition read_machine :: "limits \<Rightarrow> string \<Rightarrow> json \<Rightarrow> (json \<times> string \<times> string \<times> u64) res" where
  "read_machine lm manifest_path manifest =
     (if \<not> is_object manifest
      then Inl (fail ''invalid_manifest'' manifest_path ''manifest must be an object'')
      else ethen (allowed_keys manifest [''schema_version'', ''machine'', ''artifacts''] manifest_path)
        (ebind (value_string manifest ''schema_version'' []) (\<lambda>schema.
         if schema \<noteq> ''engineering-bundle/1''
         then Inl (fail ''unsupported_manifest'' manifest_path ''manifest schema_version is unsupported'')
         else ebind (json_at manifest ''machine'') (\<lambda>machine.
         if \<not> is_object machine
         then Inl (fail ''invalid_manifest'' manifest_path ''machine must be an object'')
         else ethen (allowed_keys machine [''id'', ''name'', ''description'', ''revision''] manifest_path)
           (ebind (import_string_field machine ''id'' ''manifest.machine'' (max_string_bytes lm) False) (\<lambda>machine_id.
            ebind (import_string_field machine ''name'' ''manifest.machine'' (max_string_bytes lm) False) (\<lambda>machine_name.
            ethen (if contains machine ''description''
                   then require_string machine ''description'' ''manifest.machine'' (max_string_bytes lm) True
                   else Inr ())
            (if \<not> import_identity machine_id
             then Inl (fail ''invalid_identity'' ''manifest.machine.id'' ''machine id contains unsupported characters'')
             else if \<not> import_revision_ok machine
             then Inl (fail ''invalid_revision'' ''manifest.machine.revision''
                    ''revision must be a positive unsigned integer'')
             else ebind (get_u64 (fld machine ''revision'')) (\<lambda>revision.
               if \<not> contains manifest ''artifacts'' \<or> \<not> is_array (fld manifest ''artifacts'') \<or>
                  json_empty (fld manifest ''artifacts'') \<or> json_size (fld manifest ''artifacts'') > max_artifacts lm
               then Inl (fail ''invalid_manifest'' manifest_path ''artifacts must be a bounded non-empty array'')
               else Inr (machine, machine_id, machine_name, revision))))))))))"

definition expected_format :: "string \<Rightarrow> string \<Rightarrow> string res" where
  "expected_format kind path =
     (if kind = ''asset_hierarchy'' \<or> kind = ''communications'' \<or> kind = ''machine_documents'' then Inr ''json''
      else if kind = ''relationships'' \<or> kind = ''controller_tags'' \<or> kind = ''io_configuration'' \<or>
              kind = ''alarm_definitions'' then Inr ''csv-rfc4180''
      else Inl (fail ''unsupported_artifact'' (path @ ''.kind'') ''artifact kind is not supported''))"

definition read_artifact ::
  "filesystem \<Rightarrow> limits \<Rightarrow> string \<Rightarrow> artifact list \<Rightarrow> nat \<times> json \<Rightarrow> artifact list res" where
  "read_artifact fs lm manifest_path artifacts = (\<lambda>(index, entry).
     let path = ''manifest.artifacts['' @ show_nat index @ '']''
     in if \<not> is_object entry then Inl (fail ''invalid_manifest'' path ''artifact entry must be an object'')
        else ethen (allowed_keys entry [''id'', ''kind'', ''format'', ''path''] path)
          (ebind (import_string_field entry ''id'' path (max_string_bytes lm) False) (\<lambda>key.
           ebind (import_string_field entry ''kind'' path (max_string_bytes lm) False) (\<lambda>kind.
           ebind (import_string_field entry ''format'' path (max_string_bytes lm) False) (\<lambda>form.
           if \<not> import_identity key \<or> key \<in> set (map a_id artifacts) \<or> kind \<in> set (map a_kind artifacts)
           then Inl (fail ''invalid_identity'' (path @ ''.id'') ''artifact id is invalid or duplicated'')
           else ebind (expected_format kind path) (\<lambda>expected.
             if form \<noteq> expected
             then Inl (fail ''unsupported_format'' (path @ ''.format'') ''artifact format does not match its kind'')
             else ebind (import_string_field entry ''path'' path (max_string_bytes lm) False) (\<lambda>relative.
               ebind (contained_path fs (parent_path manifest_path) relative (path @ ''.path'')) (\<lambda>file.
               ebind (read_bounded fs (path_string file) lm) (\<lambda>contents.
               Inr (artifacts @ [\<lparr>a_id = key, a_kind = kind, a_format = form, a_path = path_string file,
                                 a_contents = contents\<rparr>]))))))))))"

definition optional_artifact :: "artifact list \<Rightarrow> string \<Rightarrow> artifact option" where
  "optional_artifact artifacts kind = find (\<lambda>a. a_kind a = kind) artifacts"

definition find_artifact :: "artifact list \<Rightarrow> string \<Rightarrow> artifact res" where
  "find_artifact artifacts kind =
     (case find (\<lambda>a. a_kind a = kind) artifacts of
        Some a \<Rightarrow> Inr a
      | None \<Rightarrow> Inl (fail ''missing_artifact'' ''manifest.artifacts'' (''required artifact kind is missing: '' @ kind)))"

definition when_given ::
  "artifact list \<Rightarrow> string \<Rightarrow> (artifact \<Rightarrow> import_state \<Rightarrow> import_state res) \<Rightarrow> import_state \<Rightarrow> import_state res" where
  "when_given artifacts kind reader st =
     (case optional_artifact artifacts kind of None \<Rightarrow> Inr st | Some a \<Rightarrow> reader a st)"

definition read_contents ::
  "(string \<Rightarrow> string + json) \<Rightarrow> from_chars \<Rightarrow> limits \<Rightarrow> artifact list \<Rightarrow> import_state \<Rightarrow> import_state res" where
  "read_contents parse from_chars lm artifacts st =
     ebind (find_artifact artifacts ''asset_hierarchy'') (\<lambda>a.
     ebind (parse_assets parse lm a st) (\<lambda>st.
     ebind (find_artifact artifacts ''relationships'') (\<lambda>a.
     ebind (parse_relationships lm a st) (\<lambda>st.
     ebind (find_artifact artifacts ''controller_tags'') (\<lambda>a.
     ebind (parse_tags lm a st) (\<lambda>st.
     ebind (when_given artifacts ''io_configuration'' (parse_io lm) st) (\<lambda>st.
     ebind (find_artifact artifacts ''alarm_definitions'') (\<lambda>a.
     ebind (parse_alarms from_chars lm a st) (\<lambda>st.
     ebind (when_given artifacts ''communications''
              (\<lambda>a. parse_metadata parse lm a ''communications'' [''id'', ''protocol'', ''endpoint'', ''security_mode'']) st) (\<lambda>st.
     when_given artifacts ''machine_documents''
              (\<lambda>a. parse_metadata parse lm a ''documents'' [''id'', ''title'', ''path'', ''media_type'']) st))))))))))"

text \<open>Sorting, counts, status and provenance.\<close>

definition finish_import :: "string \<Rightarrow> import_state \<Rightarrow> (json \<times> json) res" where
  "finish_import manifest_path st =
     ebind (efold sort_by_id (i_model st) [''assets'', ''relationships'', ''tags'', ''alarms'']) (\<lambda>model.
     ebind (sort_by_id (i_report st) ''artifacts'') (\<lambda>report.
     ebind (efold (\<lambda>report key. set_count report key (json_size (fld model key))) report
              [''assets'', ''relationships'', ''tags'', ''alarms'']) (\<lambda>report.
     ebind (json_at report ''errors'') (\<lambda>errors.
     ebind (json_at report ''unresolved'') (\<lambda>open_records.
     let report = oset report ''status''
           (JStr (if json_empty errors then if json_empty open_records then ''ok'' else ''unresolved'' else ''error''))
     in ebind (json_at report ''artifacts'') (\<lambda>artifacts.
        Inr (oset model ''metadata''
               (jobj [(''provenance'', jobj [(''schema'', JStr ''engineering-bundle/1''),
                  (''manifest'', JStr (filename manifest_path)), (''artifacts'', artifacts)])]),
             report)))))))"

definition import_manifest ::
  "(string \<Rightarrow> string + json) \<Rightarrow> from_chars \<Rightarrow> filesystem \<Rightarrow> limits \<Rightarrow> string \<Rightarrow> (json \<times> json) res" where
  "import_manifest parse from_chars fs lm manifest_path =
     ebind (read_bounded fs manifest_path lm) (\<lambda>contents.
     ebind (parse_json parse contents manifest_path lm) (\<lambda>manifest.
     ebind (read_machine lm manifest_path manifest) (\<lambda>(machine, machine_id, machine_name, revision).
     let st = import_start manifest_path machine_id machine_name revision;
         st = (if contains machine ''description'' \<and> sfld machine ''description'' \<noteq> []
               then st\<lparr>i_model := oset (i_model st) ''description'' (fld machine ''description'')\<rparr> else st)
     in ebind (efold (read_artifact fs lm manifest_path) []
                 (enumerate 0 (elements_of (fld manifest ''artifacts'')))) (\<lambda>artifacts.
        ebind (read_contents parse from_chars lm artifacts st) (finish_import manifest_path)))))"

definition import_bundle ::
  "(string \<Rightarrow> string + json) \<Rightarrow> from_chars \<Rightarrow> filesystem \<Rightarrow> limits \<Rightarrow> string \<Rightarrow> (json \<times> json) res" where
  "import_bundle parse from_chars fs lm bundle =
     (if \<not> fs_directory fs bundle
      then Inl (fail ''bundle_unavailable'' bundle ''bundle is not a directory'')
      else import_manifest parse from_chars fs lm (path_append bundle ''manifest.json''))"

section \<open>Containment\<close>

lemma drop_common_prefix: "drop_common f r = (f', r') \<Longrightarrow> \<exists>c. f = c @ f' \<and> r = c @ r'"
proof (induction f r rule: drop_common.induct)
  case (1 a as b bs)
  show ?case
  proof (cases "a = b")
    case True
    with 1 obtain c where "as = c @ f' \<and> bs = c @ r'" by auto
    with True have "a # as = (a # c) @ f' \<and> b # bs = (a # c) @ r'" by simp
    then show ?thesis by blast
  next
    case False
    with 1(2) show ?thesis by auto
  qed
qed auto

text \<open>A canonical path: no empty, dot or dot-dot component.\<close>

definition canonical_components :: "string list \<Rightarrow> bool" where
  "canonical_components cs \<longleftrightarrow> (\<forall>c \<in> set cs. c \<noteq> [] \<and> c \<noteq> ''.'' \<and> c \<noteq> ''..'')"

lemma relative_inside:
  assumes "lexically_relative (FPath a f) (FPath b r) = cs" and "cs \<noteq> []" and "hd cs \<noteq> ''..''"
    and "canonical_components f" and "canonical_components r"
  shows "a = b \<and> (\<exists>rest. f = r @ rest)"
proof -
  have ab: "a = b" using assms(1,2) by (auto split: if_splits)
  obtain f' r' where d: "drop_common f r = (f', r')" by (cases "drop_common f r")
  obtain c where c: "f = c @ f'" "r = c @ r'" using drop_common_prefix [OF d] by blast
  have fr: "filter (\<lambda>c. c \<noteq> [] \<and> c \<noteq> ''.'' \<and> c \<noteq> ''..'') r' = r'" "filter (\<lambda>c. c = ''..'') r' = []"
    using assms(5) c(2) by (auto simp: canonical_components_def filter_id_conv filter_empty_conv)
  have "r' = []"
  proof (rule ccontr)
    assume ne: "r' \<noteq> []"
    then have "cs = replicate (length r') ''..'' @ f'"
      using assms(1) ab d fr by (simp add: Let_def)
    with ne assms(3) show False by (cases r') auto
  qed
  with c ab show ?thesis by auto
qed

text \<open>
  C20. An artifact path that is accepted resolves inside the bundle: whatever the file system
  (links included) resolves it to, as long as resolved paths are canonical, the components of
  the bundle's own resolved path are a prefix of the artifact's, and the path given in the
  manifest was relative.
\<close>

theorem artifact_paths_contained:
  assumes "contained_path fs base relative path = Inr file"
    and "\<And>p a cs. fs_canonical fs p = Some (FPath a cs) \<Longrightarrow> canonical_components cs"
  shows "\<not> is_absolute relative \<and> (\<exists>a cs rest. fs_canonical fs base = Some (FPath a cs) \<and>
    fs_canonical fs (path_append base relative) = Some file \<and> file = FPath a (cs @ rest))"
proof -
  from assms(1) obtain rr where rr: "fs_canonical fs base = Some rr"
    "fs_canonical fs (path_append base relative) = Some file" "\<not> is_absolute relative"
    "lexically_relative file rr \<noteq> []" "hd (lexically_relative file rr) \<noteq> ''..''"
    by (auto simp: contained_path_def Let_def)
  obtain a f where f: "file = FPath a f" using fpath.exhaust by blast
  obtain b r where r: "rr = FPath b r" using fpath.exhaust by blast
  have "a = b \<and> (\<exists>rest. f = r @ rest)"
    using relative_inside [OF refl] rr assms(2) unfolding f r by blast
  with rr f r show ?thesis by auto
qed

definition demo_fs :: filesystem where
  "demo_fs = \<lparr>fs_regular = (\<lambda>_. True), fs_directory = (\<lambda>_. True), fs_size = (\<lambda>_. Some 0), fs_stream = (\<lambda>_. Some []),
     fs_canonical = (\<lambda>p. if p = ''/b'' then Some (FPath True [''b'']) else Some (FPath True [''b'', ''x.csv'']))\<rparr>"

theorem artifact_paths_contained_witness:
  "\<exists>rest. contained_path demo_fs ''/b'' ''x.csv'' [] = Inr (FPath True ([''b''] @ rest))"
proof -
  have c: "contained_path demo_fs ''/b'' ''x.csv'' [] = Inr (FPath True [''b'', ''x.csv''])"
    by (simp add: contained_path_def demo_fs_def is_absolute_def slash_def path_append_def)
  show ?thesis
    using artifact_paths_contained [OF c] c
    by (auto simp: demo_fs_def canonical_components_def split: if_splits)
qed

section \<open>What the readers emit\<close>

definition arr :: "json \<Rightarrow> string \<Rightarrow> json list" where
  "arr j k = elements_of (fld j k)"

definition has_arr :: "json \<Rightarrow> string \<Rightarrow> bool" where
  "has_arr j k \<longleftrightarrow> (\<exists>xs. find_key j k = Some (JArr xs))"

lemma arr_oset [simp]: "arr (oset j k v) k' = (if k' = k then elements_of v else arr j k')"
  by (simp add: arr_def fld_def)

lemma has_arr_oset [simp]: "has_arr (oset j k v) k' \<longleftrightarrow> (if k' = k then is_array v else has_arr j k')"
  by (auto simp: has_arr_def is_array_iff)

lemma push_at_Inr: "has_arr j k \<Longrightarrow> push_at j k v = Inr j' \<longleftrightarrow> j' = oset j k (JArr (arr j k @ [v]))"
  by (auto simp: has_arr_def push_at_def arr_def fld_def)

lemma cell_Inr:
  assumes "cell row headers key path lm needed = Inr t"
  shows "length t \<le> k_max_string \<and> \<not> list_ex is_cntrl t \<and> (needed \<longrightarrow> t \<noteq> [])"
  using assms by (auto simp: cell_def k_max_string_def split: option.splits if_splits)

lemma cell_text: "cell row headers key path lm True = Inr t \<Longrightarrow> ok_text k_max_string t"
  using cell_Inr [of row headers key path lm True t] by (simp add: ok_text_def)

lemma import_field_text:
  "import_string_field j k path limit e = Inr t \<Longrightarrow> find_key j k = Some (JStr t) \<and>
     length t \<le> k_max_string \<and> \<not> list_ex is_cntrl t \<and> (e \<or> t \<noteq> [])"
  by (auto simp: import_string_field_def require_string_def identity_limit_def k_max_string_def sfld_eq
      split: if_splits)

lemma import_identity_iff: "import_identity v = valid_identity v"
  by (auto simp: import_identity_def valid_identity_def identity_limit_def k_max_string_def is_alnum_def
      list_all_iff)

text \<open>
  What the readers guarantee of the records they emit: everything the model check asks for,
  except the size of the metadata, and except that level and flow tags and the tags of alarms
  have to be numeric.
\<close>

definition base_asset :: "json \<Rightarrow> bool" where
  "base_asset a \<longleftrightarrow>
     only_keys a [''id'', ''name'', ''kind'', ''aliases'', ''metadata''] \<and>
     has_ident a ''id'' \<and> has_text a ''name'' k_max_string \<and> has_text a ''kind'' k_max_string \<and> aliases_ok a \<and>
     (contains a ''metadata'' \<longrightarrow> is_object (fld a ''metadata''))"

definition base_relationship :: "string set \<Rightarrow> json \<Rightarrow> bool" where
  "base_relationship ids r \<longleftrightarrow>
     only_keys r [''id'', ''from'', ''to'', ''kind'', ''metadata''] \<and> has_ident r ''id'' \<and>
     find_key r ''from'' = Some (JStr (sfld r ''from'')) \<and> find_key r ''to'' = Some (JStr (sfld r ''to'')) \<and>
     sfld r ''from'' \<in> ids \<and> sfld r ''to'' \<in> ids \<and> sfld r ''from'' \<noteq> sfld r ''to'' \<and>
     has_text r ''kind'' k_max_string"

definition base_tag :: "string set \<Rightarrow> json \<Rightarrow> bool" where
  "base_tag ids t \<longleftrightarrow>
     only_keys t [''id'', ''asset_id'', ''name'', ''role'', ''data_type'', ''unit'', ''source'', ''metadata''] \<and>
     has_ident t ''id'' \<and> find_key t ''asset_id'' = Some (JStr (sfld t ''asset_id'')) \<and> sfld t ''asset_id'' \<in> ids \<and>
     has_text t ''name'' k_max_string \<and> has_text t ''role'' k_max_string \<and> has_text t ''data_type'' k_max_string \<and>
     lower (sfld t ''data_type'') \<in> set data_types \<and> wf_unit t \<and>
     contains t ''source'' \<and> wf_source (fld t ''source'')"

definition base_alarm :: "string set \<Rightarrow> json list \<Rightarrow> json \<Rightarrow> bool" where
  "base_alarm ids tags a \<longleftrightarrow>
     only_keys a [''id'', ''asset_id'', ''name'', ''tag_id'', ''operator'', ''threshold'', ''severity'', ''metadata''] \<and>
     has_ident a ''id'' \<and> find_key a ''asset_id'' = Some (JStr (sfld a ''asset_id'')) \<and> sfld a ''asset_id'' \<in> ids \<and>
     find_key a ''tag_id'' = Some (JStr (sfld a ''tag_id'')) \<and>
     (\<exists>t \<in> set tags. sfld t ''id'' = sfld a ''tag_id'' \<and> sfld t ''asset_id'' = sfld a ''asset_id'') \<and>
     has_text a ''operator'' 8 \<and> has_text a ''severity'' 16 \<and> has_text a ''name'' k_max_string \<and>
     contains a ''threshold'' \<and> is_number (fld a ''threshold'') \<and>
     (\<exists>d. get_double (fld a ''threshold'') = Inr d \<and> isfinite d) \<and>
     sfld a ''operator'' \<in> set operators \<and> lower (sfld a ''severity'') \<in> set severities"

definition good :: "import_state \<Rightarrow> bool" where
  "good st \<longleftrightarrow> has_arr (i_model st) ''assets'' \<and> has_arr (i_model st) ''relationships'' \<and>
     has_arr (i_model st) ''tags'' \<and> has_arr (i_model st) ''alarms'' \<and>
     has_arr (i_report st) ''unresolved'' \<and> has_arr (i_report st) ''artifacts''"

text \<open>The two ways a record changes the state.\<close>

definition emitted :: "string \<Rightarrow> json \<Rightarrow> import_state \<Rightarrow> import_state" where
  "emitted key x st = st\<lparr>i_model := oset (i_model st) key (JArr (arr (i_model st) key @ [x]))\<rparr>"

definition set_aside :: "json \<Rightarrow> import_state \<Rightarrow> import_state" where
  "set_aside u st = st\<lparr>i_report := oset (i_report st) ''unresolved'' (JArr (arr (i_report st) ''unresolved'' @ [u]))\<rparr>"

lemma emit_Inr: "has_arr (i_model st) key \<Longrightarrow> emit st key x = Inr st' \<longleftrightarrow> st' = emitted key x st"
  by (auto simp: emit_def emitted_def push_at_Inr)

lemma unresolved_Inr:
  "has_arr (i_report st) ''unresolved'' \<Longrightarrow> unresolved st code path msg = Inr st' \<Longrightarrow> \<exists>u. st' = set_aside u st"
  by (auto simp: unresolved_def add_unresolved_def set_aside_def push_at_Inr)

lemma emitted_simps [simp]:
  "arr (i_model (emitted key x st)) k = (if k = key then arr (i_model st) key @ [x] else arr (i_model st) k)"
  "has_arr (i_model (emitted key x st)) k \<longleftrightarrow> k = key \<or> has_arr (i_model st) k"
  "find_key (i_model (emitted key x st)) k = (if k = key then Some (JArr (arr (i_model st) key @ [x])) else find_key (i_model st) k)"
  "i_report (emitted key x st) = i_report st" "i_assets (emitted key x st) = i_assets st"
  "i_relationships (emitted key x st) = i_relationships st" "i_tags (emitted key x st) = i_tags st"
  "i_emitted_tags (emitted key x st) = i_emitted_tags st" "i_alarms (emitted key x st) = i_alarms st"
  by (auto simp: emitted_def)

lemma set_aside_simps [simp]:
  "arr (i_report (set_aside u st)) k =
     (if k = ''unresolved'' then arr (i_report st) k @ [u] else arr (i_report st) k)"
  "has_arr (i_report (set_aside u st)) k \<longleftrightarrow> k = ''unresolved'' \<or> has_arr (i_report st) k"
  "find_key (i_report (set_aside u st)) k =
     (if k = ''unresolved'' then Some (JArr (arr (i_report st) k @ [u])) else find_key (i_report st) k)"
  "i_model (set_aside u st) = i_model st" "i_assets (set_aside u st) = i_assets st"
  "i_relationships (set_aside u st) = i_relationships st" "i_tags (set_aside u st) = i_tags st"
  "i_emitted_tags (set_aside u st) = i_emitted_tags st" "i_alarms (set_aside u st) = i_alarms st"
  by (auto simp: set_aside_def)

lemma import_aliases_Inr:
  assumes "import_aliases lm path item asset = Inr asset'" and "find_key asset ''aliases'' = None"
  shows "asset' = asset \<or> (\<exists>v. asset' = oset asset ''aliases'' v \<and> is_array v \<and>
    length (elements_of v) \<le> k_max_aliases \<and> list_all alias_ok (elements_of v))"
proof (cases "contains item ''aliases''")
  case False
  with assms show ?thesis by (simp add: import_aliases_def)
next
  case True
  with assms obtain xs where xs: "is_array (fld item ''aliases'')" "json_size (fld item ''aliases'') \<le> 32"
    "emap (\<lambda>alias. if \<not> import_alias_ok lm alias
       then Inl (fail ''invalid_field'' (path @ ''.aliases'') ''alias is invalid or oversized'')
       else Inr alias) (elements_of (fld item ''aliases'')) = Inr xs"
    "asset' = oset asset ''aliases'' (JArr xs)"
    by (auto simp: import_aliases_def Let_def)
  have "list_all2 (\<lambda>x y. y = x \<and> alias_ok y) (elements_of (fld item ''aliases'')) xs"
    by (rule emap_list_all2 [OF xs(3)])
      (auto simp: import_alias_ok_def alias_ok_def k_max_string_def split: if_splits)
  then have "list_all alias_ok xs" "length xs = length (elements_of (fld item ''aliases''))"
    by (auto simp: list_all2_conv_all_nth list_all_length)
  with xs(1,2,4) show ?thesis by (auto simp: json_size_array k_max_aliases_def)
qed

lemma only_keys_jobj [simp]: "only_keys (jobj kvs) names \<longleftrightarrow> fst ` set kvs \<subseteq> set names"
  unfolding only_keys_def keys_jobj by simp

lemma only_keys_oset: "only_keys j names \<Longrightarrow> k \<in> set names \<Longrightarrow> only_keys (oset j k v) names"
  unfolding only_keys_def keys_oset by simp

lemma import_asset_Inr:
  assumes "import_asset lm a st (index, item) = Inr st'" and "good st"
  shows "\<exists>x. st' = emitted ''assets'' x (st\<lparr>i_assets := i_assets st @ [sfld x ''id'']\<rparr>) \<and> base_asset x \<and>
    sfld x ''id'' \<notin> set (i_assets st)"
proof -
  let ?path = "record_path a index"
  from assms(1) obtain key name kind x0 x where
    k: "import_string_field item ''id'' ?path (max_string_bytes lm) False = Inr key"
      "import_identity key" "key \<notin> set (i_assets st)"
    and n: "import_string_field item ''name'' ?path (max_string_bytes lm) False = Inr name"
    and kd: "import_string_field item ''kind'' ?path (max_string_bytes lm) False = Inr kind"
    and x0: "import_aliases lm ?path item
      (jobj [(''id'', JStr key), (''name'', JStr name), (''kind'', JStr kind)]) = Inr x0"
    and x: "(if contains item ''description''
       then ebind (import_string_field item ''description'' ?path (max_string_bytes lm) True) (\<lambda>d.
         Inr (oset x0 ''metadata'' (jobj [(''description'', JStr d)])))
       else Inr x0) = Inr x"
    and st': "emit (st\<lparr>i_assets := i_assets st @ [key]\<rparr>) ''assets'' x = Inr st'"
    by (auto simp: import_asset_def Let_def)
  let ?o = "jobj [(''id'', JStr key), (''name'', JStr name), (''kind'', JStr kind)]"
  have t: "ok_text k_max_string key" "ok_text k_max_string name" "ok_text k_max_string kind"
    using import_field_text [OF k(1)] import_field_text [OF n] import_field_text [OF kd]
    by (simp_all add: ok_text_def)
  have al: "x0 = ?o \<or> (\<exists>v. x0 = oset ?o ''aliases'' v \<and> is_array v \<and>
      length (elements_of v) \<le> k_max_aliases \<and> list_all alias_ok (elements_of v))"
    using import_aliases_Inr [OF x0] by simp
  then have "base_asset x0" "find_key x0 ''metadata'' = None" "sfld x0 ''id'' = key"
    using t k(2) by (auto simp: base_asset_def only_keys_oset has_ident_def has_text_def sfld_def fld_def
        aliases_ok_def import_identity_iff contains_def)
  moreover have "x = x0 \<or> (\<exists>d. x = oset x0 ''metadata'' (jobj d))"
    using x by (auto split: if_splits)
  ultimately have "base_asset x" "sfld x ''id'' = key"
    by (auto simp: base_asset_def only_keys_oset has_ident_def has_text_def sfld_def fld_def aliases_ok_def)
  moreover have "has_arr (i_model st) ''assets''" using assms(2) by (simp add: good_def)
  ultimately show ?thesis using st' k(3) by (auto simp: emit_Inr)
qed

lemma import_relationship_Inr:
  assumes "import_relationship lm a headers st (index, row) = Inr st'" and "good st"
  shows "\<exists>key. valid_identity key \<and> key \<notin> set (i_relationships st) \<and>
    ((\<exists>x. st' = emitted ''relationships'' x (st\<lparr>i_relationships := i_relationships st @ [key]\<rparr>) \<and>
        base_relationship (set (i_assets st)) x \<and> sfld x ''id'' = key) \<or>
     (\<exists>u. st' = set_aside u (st\<lparr>i_relationships := i_relationships st @ [key]\<rparr>)))"
proof -
  let ?cell = "\<lambda>key. cell row headers key (record_path a index) lm True"
  from assms(1) obtain key frm to kind where
    c: "?cell ''id'' = Inr key" "?cell ''from'' = Inr frm" "?cell ''to'' = Inr to" "?cell ''kind'' = Inr kind"
    and k: "import_identity key" "key \<notin> set (i_relationships st)"
    and r: "(if frm = to \<or> frm \<notin> set (i_assets st) \<or> to \<notin> set (i_assets st)
       then unresolved (st\<lparr>i_relationships := i_relationships st @ [key]\<rparr>) ''unknown_relationship_endpoint''
              (record_path a index)
              ''relationship is not emitted because its endpoints are undeclared or identical''
       else emit (st\<lparr>i_relationships := i_relationships st @ [key]\<rparr>) ''relationships''
              (jobj [(''id'', JStr key), (''from'', JStr frm), (''to'', JStr to), (''kind'', JStr kind)])) = Inr st'"
    by (auto simp: import_relationship_def Let_def)
  let ?st = "st\<lparr>i_relationships := i_relationships st @ [key]\<rparr>"
  let ?x = "jobj [(''id'', JStr key), (''from'', JStr frm), (''to'', JStr to), (''kind'', JStr kind)]"
  have g: "has_arr (i_model ?st) ''relationships''" "has_arr (i_report ?st) ''unresolved''"
    using assms(2) by (simp_all add: good_def)
  show ?thesis
  proof (cases "frm = to \<or> frm \<notin> set (i_assets st) \<or> to \<notin> set (i_assets st)")
    case True
    with r have "\<exists>u. st' = set_aside u ?st" using unresolved_Inr [OF g(2)] by auto
    with k show ?thesis by (auto simp: import_identity_iff)
  next
    case False
    with r have "st' = emitted ''relationships'' ?x ?st" using emit_Inr [OF g(1)] by auto
    moreover have "base_relationship (set (i_assets st)) ?x" "sfld ?x ''id'' = key"
      using False k c cell_text by (auto simp: base_relationship_def has_ident_def has_text_def
          sfld_def fld_def import_identity_iff)
    ultimately show ?thesis using k by (auto simp: import_identity_iff)
  qed
qed

lemma lower_ok_text: "ok_text mx t \<Longrightarrow> lower t \<in> set names \<Longrightarrow> list_all (ok_text mx') names \<Longrightarrow> ok_text mx' (lower t)"
  by (simp add: list_all_iff)

lemma lower_lower: "lower (lower s) = lower s"
proof -
  have "to_lower (to_lower c) = to_lower c" for c
  proof (cases "is_upper c")
    case True
    then have "65 \<le> (of_char c :: nat)" "(of_char c :: nat) \<le> 90"
      by (simp_all add: is_upper_def less_eq_char_def)
    then have "(of_char (char_of ((of_char c :: nat) + 32)) :: nat) = of_char c + 32" by simp
    with \<open>65 \<le> (of_char c :: nat)\<close> have "\<not> is_upper (char_of ((of_char c :: nat) + 32))"
      by (simp add: is_upper_def less_eq_char_def)
    with True show ?thesis by (simp add: to_lower_def)
  qed (simp add: to_lower_def)
  then show ?thesis by (simp add: lower_def comp_def)
qed

lemma import_tag_Inr:
  assumes "import_tag lm a headers st (index, row) = Inr st'" and "good st"
  shows "\<exists>key. valid_identity key \<and> key \<notin> set (i_tags st) \<and>
    ((\<exists>x. st' = (emitted ''tags'' x (st\<lparr>i_tags := i_tags st @ [key]\<rparr>))
          \<lparr>i_emitted_tags := i_emitted_tags st @ [key]\<rparr> \<and>
        base_tag (set (i_assets st)) x \<and> sfld x ''id'' = key) \<or>
     (\<exists>u. st' = set_aside u (st\<lparr>i_tags := i_tags st @ [key]\<rparr>)))"
proof -
  let ?cell = "\<lambda>key. cell row headers key (record_path a index) lm True"
  from assms(1) obtain key owner name role data_type unt server uri ident where
    c: "?cell ''id'' = Inr key" "?cell ''asset_id'' = Inr owner" "?cell ''name'' = Inr name"
      "?cell ''role'' = Inr role" "?cell ''server'' = Inr server" "?cell ''namespace_uri'' = Inr uri"
      "?cell ''identifier'' = Inr ident"
    and u: "cell row headers ''unit'' (record_path a index) lm False = Inr unt"
    and k: "import_identity key" "key \<notin> set (i_tags st)"
    and r: "place_tag (st\<lparr>i_tags := i_tags st @ [key]\<rparr>) key owner (lower data_type)
      (jobj [(''id'', JStr key), (''asset_id'', JStr owner), (''name'', JStr name),
         (''role'', JStr role), (''data_type'', JStr (lower data_type)), (''unit'', JStr unt),
         (''source'', jobj [(''server'', JStr server), (''namespace_uri'', JStr uri),
            (''identifier'', JStr ident)])]) (record_path a index) = Inr st'"
    by (auto simp: import_tag_def Let_def)
  let ?st = "st\<lparr>i_tags := i_tags st @ [key]\<rparr>"
  let ?x = "jobj [(''id'', JStr key), (''asset_id'', JStr owner), (''name'', JStr name),
       (''role'', JStr role), (''data_type'', JStr (lower data_type)), (''unit'', JStr unt),
       (''source'', jobj [(''server'', JStr server), (''namespace_uri'', JStr uri), (''identifier'', JStr ident)])]"
  have g: "has_arr (i_model ?st) ''tags''" "has_arr (i_report ?st) ''unresolved''"
    using assms(2) by (simp_all add: good_def)
  show ?thesis
  proof (cases "lower data_type \<in> set data_types \<and> owner \<in> set (i_assets st)")
    case False
    with r have "\<exists>u. st' = set_aside u ?st"
      using unresolved_Inr [OF g(2)] by (auto simp: place_tag_def data_types_def simp del: ebind_eq_Inr split: if_splits)
    with k show ?thesis by (auto simp: import_identity_iff)
  next
    case True
    then have "st' = (emitted ''tags'' ?x ?st)\<lparr>i_emitted_tags := i_emitted_tags st @ [key]\<rparr>"
      using r emit_Inr [OF g(1)] unfolding data_types_def place_tag_def by (auto split: if_splits)
    moreover have "sfld ?x ''id'' = key" by (simp add: sfld_def fld_def)
    moreover have "base_tag (set (i_assets st)) ?x"
    proof -
      have t: "ok_text k_max_string key" "ok_text k_max_string name" "ok_text k_max_string role"
        "ok_text k_max_string server" "ok_text k_max_string uri" "ok_text k_max_string ident"
        using c cell_text by auto
      have "list_all (ok_text k_max_string) data_types"
        by (simp add: data_types_def ok_text_def k_max_string_def is_cntrl_def)
      then have "ok_text k_max_string (lower data_type)" using True by (auto simp: list_all_iff)
      then show ?thesis
        using True t k(1) cell_Inr [OF u]
        by (simp add: base_tag_def has_ident_def has_text_def sfld_def fld_def import_identity_iff
            lower_lower wf_unit_def wf_source_def)
    qed
    ultimately show ?thesis using k by (auto simp: import_identity_iff)
  qed
qed

lemma tag_with_id_Inr:
  assumes "tag_with_id m key = Inr (Some t)" and "has_arr m ''tags''"
  shows "t \<in> set (arr m ''tags'') \<and> find_key t ''id'' = Some (JStr key)"
proof -
  let ?f = "\<lambda>found candidate. if found \<noteq> None then Inr found
         else ebind (string_at candidate ''id'') (\<lambda>k. Inr (if k = key then Some candidate else None))"
  have "efold ?f z xs = Inr (Some t) \<Longrightarrow>
      z = Some t \<or> t \<in> set xs \<and> find_key t ''id'' = Some (JStr key)" for z xs
  proof (induction xs arbitrary: z)
    case (Cons x xs)
    from Cons.prems obtain z' where z': "?f z x = Inr z'" "efold ?f z' xs = Inr (Some t)" by auto
    from Cons.IH [OF z'(2)] z'(1) show ?case by (cases z) (auto split: if_splits)
  qed simp
  from this [of None "arr m ''tags''"] assms show ?thesis
    by (auto simp: tag_with_id_def has_arr_def arr_def fld_def)
qed

lemma place_alarm_Inr:
  assumes "place_alarm from_chars text st key owner tag_id path = Inr st'" and "good st"
    and cells: "\<And>k t. text k = Inr t \<Longrightarrow> ok_text k_max_string t"
    and key: "ok_text k_max_string key" "valid_identity key"
    and tag: "t \<in> set (arr (i_model st) ''tags'')" "sfld t ''id'' = tag_id" "sfld t ''asset_id'' = owner"
    and owner: "owner \<in> set (i_assets st)"
  shows "(\<exists>x. st' = emitted ''alarms'' x st \<and>
      base_alarm (set (i_assets st)) (arr (i_model st) ''tags'') x \<and> sfld x ''id'' = key) \<or>
    (\<exists>u. st' = set_aside u st)"
proof -
  from assms(1) obtain tt th op sv where
    th: "threshold_of from_chars tt path = Inr th" and op: "text ''operator'' = Inr op"
    and sv: "text ''severity'' = Inr sv"
    and r: "(if op \<notin> set [''>'', ''>='', ''<'', ''<='', ''=='', ''!=''] \<or>
        lower sv \<notin> set [''low'', ''medium'', ''high'', ''critical'']
     then unresolved st ''unsupported_alarm_definition'' path
            ''alarm is not emitted because its operator or severity is unsupported''
     else ebind (text ''name'') (\<lambda>name.
          emit st ''alarms''
            (jobj [(''id'', JStr key), (''asset_id'', JStr owner), (''name'', JStr name),
               (''tag_id'', JStr tag_id), (''operator'', JStr op), (''threshold'', JFloat th),
               (''severity'', JStr (lower sv))]))) = Inr st'"
    unfolding place_alarm_def ebind_eq_Inr by blast
  have g: "has_arr (i_model st) ''alarms''" "has_arr (i_report st) ''unresolved''"
    using assms(2) by (simp_all add: good_def)
  show ?thesis
  proof (cases "op \<in> set operators \<and> lower sv \<in> set severities")
    case False
    with r have "unresolved st ''unsupported_alarm_definition'' path
            ''alarm is not emitted because its operator or severity is unsupported'' = Inr st'"
      unfolding operators_def severities_def by presburger
    with unresolved_Inr [OF g(2)] show ?thesis by blast
  next
    case True
    with r obtain name where name: "text ''name'' = Inr name"
      and e: "emit st ''alarms''
            (jobj [(''id'', JStr key), (''asset_id'', JStr owner), (''name'', JStr name),
               (''tag_id'', JStr tag_id), (''operator'', JStr op), (''threshold'', JFloat th),
               (''severity'', JStr (lower sv))]) = Inr st'"
      unfolding operators_def severities_def by (auto split: if_splits)
    let ?x = "jobj [(''id'', JStr key), (''asset_id'', JStr owner), (''name'', JStr name),
               (''tag_id'', JStr tag_id), (''operator'', JStr op), (''threshold'', JFloat th),
               (''severity'', JStr (lower sv))]"
    have "list_all (ok_text 8) operators" "list_all (ok_text 16) severities"
      by (simp_all add: operators_def severities_def ok_text_def is_cntrl_def)
    then have "ok_text 8 op" "ok_text 16 (lower sv)" using True by (auto simp: list_all_iff)
    moreover have "isfinite th" using th by (auto simp: threshold_of_def split: option.splits)
    ultimately have "base_alarm (set (i_assets st)) (arr (i_model st) ''tags'') ?x"
      using True cells [OF name] key tag owner
      by (auto simp: base_alarm_def has_ident_def has_text_def sfld_def fld_def lower_lower)
    moreover have "sfld ?x ''id'' = key" by (simp add: sfld_def fld_def)
    ultimately show ?thesis using e emit_Inr [OF g(1)] by auto
  qed
qed

lemma import_alarm_Inr:
  assumes "import_alarm from_chars lm a headers st (index, row) = Inr st'" and "good st"
  shows "\<exists>key. valid_identity key \<and> key \<notin> set (i_alarms st) \<and>
    ((\<exists>x. st' = emitted ''alarms'' x (st\<lparr>i_alarms := i_alarms st @ [key]\<rparr>) \<and>
        base_alarm (set (i_assets st)) (arr (i_model st) ''tags'') x \<and> sfld x ''id'' = key) \<or>
     (\<exists>u. st' = set_aside u (st\<lparr>i_alarms := i_alarms st @ [key]\<rparr>)))"
proof -
  let ?cell = "\<lambda>key. cell row headers key (record_path a index) lm True"
  from assms(1) obtain key owner tag_id tag unknown where
    c: "?cell ''id'' = Inr key" and k: "import_identity key" "key \<notin> set (i_alarms st)"
    and tg: "tag_with_id (i_model st) tag_id = Inr tag"
    and un: "alarm_unknown (st\<lparr>i_alarms := i_alarms st @ [key]\<rparr>) owner tag = Inr unknown"
    and r: "(if unknown then unresolved (st\<lparr>i_alarms := i_alarms st @ [key]\<rparr>) ''unknown_alarm_reference''
               (record_path a index) ''alarm is not emitted because its owner or tag is undeclared''
       else place_alarm from_chars ?cell (st\<lparr>i_alarms := i_alarms st @ [key]\<rparr>) key owner tag_id
              (record_path a index)) = Inr st'"
    by (auto simp: import_alarm_def Let_def)
  let ?st = "st\<lparr>i_alarms := i_alarms st @ [key]\<rparr>"
  have g: "good ?st" "has_arr (i_report ?st) ''unresolved''" "has_arr (i_model st) ''tags''"
    using assms(2) by (simp_all add: good_def)
  show ?thesis
  proof (cases unknown)
    case True
    with r have "\<exists>u. st' = set_aside u ?st" using unresolved_Inr [OF g(2)] by auto
    with k show ?thesis by (auto simp: import_identity_iff)
  next
    case False
    then have "alarm_unknown ?st owner tag = Inr False" using un by simp
    then obtain t where t: "owner \<in> set (i_assets st)" "tag = Some t" "sfld t ''asset_id'' = owner"
      by (auto simp: alarm_unknown_def sfld_eq split: if_splits option.splits)
    with tag_with_id_Inr [OF _ g(3)] tg have "t \<in> set (arr (i_model st) ''tags'')" "sfld t ''id'' = tag_id"
      by (auto simp: sfld_eq)
    with place_alarm_Inr [of from_chars ?cell ?st key owner tag_id "record_path a index" st' t] False r g(1) t k
      cell_text [OF c] cell_text
    show ?thesis by (auto simp: import_identity_iff)
  qed
qed

section \<open>The invariant of an import\<close>

abbreviation ids_of :: "json list \<Rightarrow> string list" where
  "ids_of xs \<equiv> map (\<lambda>x. sfld x ''id'') xs"

definition import_ok :: "import_state \<Rightarrow> bool" where
  "import_ok st \<longleftrightarrow> good st \<and>
     list_all base_asset (arr (i_model st) ''assets'') \<and>
     ids_of (arr (i_model st) ''assets'') = i_assets st \<and> distinct (i_assets st) \<and>
     list_all (base_relationship (set (i_assets st))) (arr (i_model st) ''relationships'') \<and>
     distinct (ids_of (arr (i_model st) ''relationships'')) \<and>
     list_all (\<lambda>x. sfld x ''id'' \<in> set (i_relationships st)) (arr (i_model st) ''relationships'') \<and>
     list_all (base_tag (set (i_assets st))) (arr (i_model st) ''tags'') \<and>
     distinct (ids_of (arr (i_model st) ''tags'')) \<and>
     list_all (\<lambda>x. sfld x ''id'' \<in> set (i_tags st)) (arr (i_model st) ''tags'') \<and>
     list_all (base_alarm (set (i_assets st)) (arr (i_model st) ''tags'')) (arr (i_model st) ''alarms'') \<and>
     distinct (ids_of (arr (i_model st) ''alarms'')) \<and>
     list_all (\<lambda>x. sfld x ''id'' \<in> set (i_alarms st)) (arr (i_model st) ''alarms'')"

lemma base_mono:
  "base_relationship A r \<Longrightarrow> A \<subseteq> B \<Longrightarrow> base_relationship B r"
  "base_tag A t \<Longrightarrow> A \<subseteq> B \<Longrightarrow> base_tag B t"
  "base_alarm A ts a \<Longrightarrow> A \<subseteq> B \<Longrightarrow> set ts \<subseteq> set us \<Longrightarrow> base_alarm B us a"
  by (auto simp: base_relationship_def base_tag_def base_alarm_def)

lemma base_alarm_more: "base_alarm A ts a \<Longrightarrow> base_alarm A (ts @ us) a"
  by (auto simp: base_alarm_def)

lemma emitted_good [simp]: "good st \<Longrightarrow> good (emitted key x st)"
  by (auto simp: good_def)

lemma set_aside_good [simp]: "good (set_aside u st) \<longleftrightarrow> good st \<or>
    has_arr (i_model st) ''assets'' \<and> has_arr (i_model st) ''relationships'' \<and>
    has_arr (i_model st) ''tags'' \<and> has_arr (i_model st) ''alarms'' \<and> has_arr (i_report st) ''artifacts''"
  by (auto simp: good_def)

lemma good_ids [simp]:
  "good (st\<lparr>i_assets := x\<rparr>) = good st" "good (st\<lparr>i_relationships := x\<rparr>) = good st" "good (st\<lparr>i_tags := x\<rparr>) = good st"
  "good (st\<lparr>i_emitted_tags := x\<rparr>) = good st" "good (st\<lparr>i_alarms := x\<rparr>) = good st"
  "good (st\<lparr>i_total_records := n\<rparr>) = good st"
  by (simp_all add: good_def)

text \<open>How much a step may change: one array of the model and the unresolved records.\<close>

definition step_of :: "string \<Rightarrow> nat \<Rightarrow> import_state \<Rightarrow> import_state \<Rightarrow> bool" where
  "step_of key n st st' \<longleftrightarrow>
     (\<forall>k. k \<noteq> key \<longrightarrow> find_key (i_model st') k = find_key (i_model st) k) \<and>
     (\<forall>k. k \<noteq> ''unresolved'' \<longrightarrow> find_key (i_report st') k = find_key (i_report st) k) \<and>
     length (arr (i_model st) key) \<le> length (arr (i_model st') key) \<and>
     length (arr (i_report st) ''unresolved'') \<le> length (arr (i_report st') ''unresolved'') \<and>
     length (arr (i_model st') key) + length (arr (i_report st') ''unresolved'') =
       length (arr (i_model st) key) + length (arr (i_report st) ''unresolved'') + n"

lemma step_of_refl: "step_of key 0 st st"
  by (simp add: step_of_def)

lemma step_of_trans: "step_of key n st st' \<Longrightarrow> step_of key k st' st'' \<Longrightarrow> step_of key (n + k) st st''"
  by (simp add: step_of_def)

lemma efold_steps:
  assumes "efold f st xs = Inr st'" and "P st"
    and "\<And>st x st'. P st \<Longrightarrow> f st x = Inr st' \<Longrightarrow> P st' \<and> step_of key 1 st st'"
  shows "P st' \<and> step_of key (length xs) st st'"
  using assms(1,2)
proof (induction xs arbitrary: st)
  case Nil
  then show ?case by (simp add: step_of_refl)
next
  case (Cons x xs)
  then obtain t where t: "f st x = Inr t" "efold f t xs = Inr st'" by auto
  have "P t" "step_of key 1 st t" using assms(3) [OF Cons.prems(2) t(1)] by auto
  with Cons.IH [OF t(2)] step_of_trans [of key 1 st t] show ?case by auto
qed

lemma asset_step:
  assumes "import_asset lm a st x = Inr st'" and "import_ok st"
  shows "import_ok st' \<and> step_of ''assets'' 1 st st'"
proof -
  obtain index item where x: "x = (index, item)" by (cases x)
  have g: "good st" using assms(2) by (simp add: import_ok_def)
  obtain y where y: "st' = emitted ''assets'' y (st\<lparr>i_assets := i_assets st @ [sfld y ''id'']\<rparr>)" "base_asset y"
    "sfld y ''id'' \<notin> set (i_assets st)"
    using import_asset_Inr [OF assms(1) [unfolded x] g] by blast
  have "import_ok st'"
    using assms(2) y g by (auto simp: import_ok_def list_all_iff intro: base_mono)
  moreover have "step_of ''assets'' 1 st st'" by (simp add: step_of_def y(1))
  ultimately show ?thesis ..
qed

lemma relationship_step:
  assumes "import_relationship lm a headers st x = Inr st'" and "import_ok st"
  shows "import_ok st' \<and> step_of ''relationships'' 1 st st'"
proof -
  obtain index row where x: "x = (index, row)" by (cases x)
  have g: "good st" using assms(2) by (simp add: import_ok_def)
  obtain key where key: "key \<notin> set (i_relationships st)"
    and st': "(\<exists>y. st' = emitted ''relationships'' y (st\<lparr>i_relationships := i_relationships st @ [key]\<rparr>) \<and>
        base_relationship (set (i_assets st)) y \<and> sfld y ''id'' = key) \<or>
     (\<exists>u. st' = set_aside u (st\<lparr>i_relationships := i_relationships st @ [key]\<rparr>))"
    using import_relationship_Inr [OF assms(1) [unfolded x] g] by blast
  from st' have "step_of ''relationships'' 1 st st'" by (auto simp: step_of_def)
  moreover from st' have "import_ok st'" using assms(2) g key by (auto simp: import_ok_def list_all_iff)
  ultimately show ?thesis by simp
qed

lemma tag_step:
  assumes "import_tag lm a headers st x = Inr st'" and "import_ok st"
  shows "import_ok st' \<and> step_of ''tags'' 1 st st'"
proof -
  obtain index row where x: "x = (index, row)" by (cases x)
  have g: "good st" using assms(2) by (simp add: import_ok_def)
  obtain key where key: "key \<notin> set (i_tags st)"
    and st': "(\<exists>y. st' = (emitted ''tags'' y (st\<lparr>i_tags := i_tags st @ [key]\<rparr>))
          \<lparr>i_emitted_tags := i_emitted_tags st @ [key]\<rparr> \<and>
        base_tag (set (i_assets st)) y \<and> sfld y ''id'' = key) \<or>
     (\<exists>u. st' = set_aside u (st\<lparr>i_tags := i_tags st @ [key]\<rparr>))"
    using import_tag_Inr [OF assms(1) [unfolded x] g] by blast
  from st' have "step_of ''tags'' 1 st st'" by (auto simp: step_of_def)
  moreover from st' have "import_ok st'"
  proof
    assume "\<exists>u. st' = set_aside u (st\<lparr>i_tags := i_tags st @ [key]\<rparr>)"
    then show ?thesis using assms(2) g key by (auto simp: import_ok_def list_all_iff)
  next
    assume "\<exists>y. st' = (emitted ''tags'' y (st\<lparr>i_tags := i_tags st @ [key]\<rparr>))
          \<lparr>i_emitted_tags := i_emitted_tags st @ [key]\<rparr> \<and> base_tag (set (i_assets st)) y \<and> sfld y ''id'' = key"
    then show ?thesis using assms(2) g key by (auto simp: import_ok_def list_all_iff base_alarm_more)
  qed
  ultimately show ?thesis by simp
qed

lemma alarm_step:
  assumes "import_alarm from_chars lm a headers st x = Inr st'" and "import_ok st"
  shows "import_ok st' \<and> step_of ''alarms'' 1 st st'"
proof -
  obtain index row where x: "x = (index, row)" by (cases x)
  have g: "good st" using assms(2) by (simp add: import_ok_def)
  obtain key where key: "key \<notin> set (i_alarms st)"
    and st': "(\<exists>y. st' = emitted ''alarms'' y (st\<lparr>i_alarms := i_alarms st @ [key]\<rparr>) \<and>
        base_alarm (set (i_assets st)) (arr (i_model st) ''tags'') y \<and> sfld y ''id'' = key) \<or>
     (\<exists>u. st' = set_aside u (st\<lparr>i_alarms := i_alarms st @ [key]\<rparr>))"
    using import_alarm_Inr [OF assms(1) [unfolded x] g] by blast
  from st' have "step_of ''alarms'' 1 st st'" by (auto simp: step_of_def)
  moreover from st' have "import_ok st'" using assms(2) g key by (auto simp: import_ok_def list_all_iff)
  ultimately show ?thesis by simp
qed

section \<open>Whole artifacts\<close>

lemma import_ok_report:
  "import_ok st \<Longrightarrow> has_arr r ''unresolved'' \<Longrightarrow> has_arr r ''artifacts'' \<Longrightarrow>
     import_ok (st\<lparr>i_report := r, i_total_records := n\<rparr>)"
  by (simp add: import_ok_def good_def)

lemma record_source_Inr:
  assumes "record_source lm st a n = Inr st'" and "good st"
  shows "st' = st\<lparr>i_report := oset (i_report st) ''artifacts''
      (JArr (arr (i_report st) ''artifacts'' @ [source_record a n])),
    i_total_records := i_total_records st + n\<rparr>"
proof -
  have "has_arr (i_report st) ''artifacts''" using assms(2) by (simp add: good_def)
  with assms(1) show ?thesis by (auto simp: record_source_def Let_def push_at_Inr)
qed

lemma source_record_fields:
  "sfld (source_record a n) ''kind'' = a_kind a" "fld (source_record a n) ''records'' = JUInt (of_nat n)"
  by (simp_all add: source_record_def sfld_def fld_def)

lemma read_rows_steps:
  assumes "read_rows lm a columns step st = Inr (n, st')" and "P st"
    and "\<And>headers st x st'. P st \<Longrightarrow> step headers st x = Inr st' \<Longrightarrow> P st' \<and> step_of key 1 st st'"
  shows "P st' \<and> step_of key n st st'"
proof -
  from assms(1) obtain rows headers where "n = length rows - 1"
    and e: "efold (step headers) st (enumerate 1 (tl rows)) = Inr st'"
    by (auto simp: read_rows_def)
  moreover have "P st' \<and> step_of key (length (enumerate 1 (tl rows))) st st'"
    by (rule efold_steps [where P = P, OF e assms(2)]) (rule assms(3))
  ultimately show ?thesis by simp
qed

text \<open>Which array of the model the records of an artifact kind end in.\<close>

definition kinds :: "(string \<times> string) list" where
  "kinds = [(''asset_hierarchy'', ''assets''), (''relationships'', ''relationships''),
     (''controller_tags'', ''tags''), (''alarm_definitions'', ''alarms'')]"

definition kinds_read :: "import_state \<Rightarrow> string list" where
  "kinds_read st = map (\<lambda>s. sfld s ''kind'') (arr (i_report st) ''artifacts'')"

definition counts_for :: "import_state \<Rightarrow> json \<Rightarrow> string \<Rightarrow> bool" where
  "counts_for st src key \<longleftrightarrow>
     (\<exists>n. fld src ''records'' = JUInt (of_nat n) \<and> length (arr (i_model st) key) \<le> n \<and>
        n \<le> length (arr (i_model st) key) + length (arr (i_report st) ''unresolved''))"

definition accounted :: "import_state \<Rightarrow> bool" where
  "accounted st \<longleftrightarrow> (\<forall>src \<in> set (arr (i_report st) ''artifacts''). \<forall>(kind, key) \<in> set kinds.
     sfld src ''kind'' = kind \<longrightarrow> counts_for st src key)"

definition same_frame :: "import_state \<Rightarrow> import_state \<Rightarrow> bool" where
  "same_frame st st' \<longleftrightarrow> find_key (i_report st') ''errors'' = find_key (i_report st) ''errors'' \<and>
     (\<forall>k. k \<notin> snd ` set kinds \<longrightarrow> find_key (i_model st') k = find_key (i_model st) k)"

text \<open>The step from before an artifact to after it.\<close>

definition artifact_read :: "string \<Rightarrow> string set \<Rightarrow> import_state \<Rightarrow> import_state \<Rightarrow> bool" where
  "artifact_read kind keys st st' \<longleftrightarrow> import_ok st' \<and> accounted st' \<and> same_frame st st' \<and>
     kinds_read st' = kinds_read st @ [kind] \<and>
     (\<forall>k. k \<notin> keys \<longrightarrow> arr (i_model st') k = arr (i_model st) k)"

lemma kinds_inj: "(kind, key) \<in> set kinds \<Longrightarrow> (kind', key') \<in> set kinds \<Longrightarrow> kind = kind' \<longleftrightarrow> key = key'"
  by (auto simp: kinds_def)

lemma accounted_push:
  assumes "accounted st"
    and "arr (i_report st') ''artifacts'' = arr (i_report st) ''artifacts'' @ [src]"
    and "length (arr (i_report st) ''unresolved'') \<le> length (arr (i_report st') ''unresolved'')"
    and "\<And>kind key. (kind, key) \<in> set kinds \<Longrightarrow> kind \<in> set (kinds_read st) \<Longrightarrow>
      arr (i_model st') key = arr (i_model st) key"
    and "\<And>key. (sfld src ''kind'', key) \<in> set kinds \<Longrightarrow> counts_for st' src key"
  shows "accounted st'"
  unfolding accounted_def
proof (intro ballI)
  fix s p assume s: "s \<in> set (arr (i_report st') ''artifacts'')" and p: "p \<in> set kinds"
  obtain kind key where kk: "p = (kind, key)" by (cases p)
  have "counts_for st' s key" if k: "sfld s ''kind'' = kind"
  proof (cases "s = src")
    case True
    then show ?thesis using assms(5) k p kk by simp
  next
    case False
    then have old: "s \<in> set (arr (i_report st) ''artifacts'')" using s assms(2) by simp
    then have "counts_for st s key" using assms(1) k p kk by (auto simp: accounted_def)
    moreover have "kind \<in> set (kinds_read st)" using old k by (auto simp: kinds_read_def)
    then have "arr (i_model st') key = arr (i_model st) key" using assms(4) p kk by simp
    ultimately show ?thesis using assms(3) by (auto simp: counts_for_def)
  qed
  then show "case p of (kind, key) \<Rightarrow> sfld s ''kind'' = kind \<longrightarrow> counts_for st' s key"
    using kk by simp
qed

lemma read_kind:
  assumes "import_ok st1" and "step_of key n st st1" and "record_source lm st1 a n = Inr st'"
    and "(a_kind a, key) \<in> set kinds" and "accounted st" and "a_kind a \<notin> set (kinds_read st)"
    and "arr (i_model st) key = []"
  shows "artifact_read (a_kind a) {key} st st'"
proof -
  have g: "good st1" using assms(1) by (simp add: import_ok_def)
  note st' = record_source_Inr [OF assms(3) g]
  have r: "find_key (i_report st1) k = find_key (i_report st) k" if "k \<noteq> ''unresolved''" for k
    using assms(2) that by (simp add: step_of_def)
  have m: "find_key (i_model st1) k = find_key (i_model st) k" if "k \<noteq> key" for k
    using assms(2) that by (simp add: step_of_def)
  have arts: "arr (i_report st1) ''artifacts'' = arr (i_report st) ''artifacts''"
    using r by (simp add: arr_def fld_def)
  have mm: "arr (i_model st') k = arr (i_model st) k" if "k \<noteq> key" for k
    using m [OF that] by (simp add: st' arr_def fld_def)
  have ok: "import_ok st'"
    unfolding st' by (rule import_ok_report [OF assms(1)]) (use g in \<open>simp_all add: good_def\<close>)
  have acc: "accounted st'"
  proof (rule accounted_push [OF assms(5)])
    show "arr (i_report st') ''artifacts'' = arr (i_report st) ''artifacts'' @ [source_record a n]"
      by (simp add: st' arts)
    show "length (arr (i_report st) ''unresolved'') \<le> length (arr (i_report st') ''unresolved'')"
      using assms(2) by (simp add: st' step_of_def)
    fix kind k assume "(kind, k) \<in> set kinds" "kind \<in> set (kinds_read st)"
    then show "arr (i_model st') k = arr (i_model st) k"
      using mm kinds_inj [OF assms(4)] assms(6) by metis
  next
    fix k assume "(sfld (source_record a n) ''kind'', k) \<in> set kinds"
    then have "(a_kind a, k) \<in> set kinds" by (simp add: source_record_fields)
    then have k: "k = key" using kinds_inj [OF assms(4)] by blast
    have "counts_for st' (source_record a n) key"
      unfolding counts_for_def
      by (rule exI [of _ n]) (use assms(2,7) in \<open>auto simp: st' step_of_def source_record_fields\<close>)
    then show "counts_for st' (source_record a n) k" by (simp add: k)
  qed
  have "same_frame st st'"
    using assms(4) r m by (auto simp: same_frame_def st' image_iff dest: bspec)
  moreover have "kinds_read st' = kinds_read st @ [a_kind a]"
    by (simp add: kinds_read_def st' arts source_record_fields)
  ultimately show ?thesis using ok acc mm by (simp add: artifact_read_def)
qed

text \<open>Readers that only note unresolved references.\<close>

definition annotates :: "import_state \<Rightarrow> import_state \<Rightarrow> bool" where
  "annotates st st' \<longleftrightarrow> (\<exists>r. st' = st\<lparr>i_report := r\<rparr> \<and> has_arr r ''unresolved'' \<and>
     (\<forall>k. k \<noteq> ''unresolved'' \<longrightarrow> find_key r k = find_key (i_report st) k) \<and>
     length (arr (i_report st) ''unresolved'') \<le> length (arr r ''unresolved''))"

lemma annotates_refl: "good st \<Longrightarrow> annotates st st"
  unfolding annotates_def by (rule exI [of _ "i_report st"]) (simp add: good_def)

lemma annotates_set_aside: "annotates st (set_aside u st)"
  unfolding annotates_def set_aside_def by (rule exI, rule conjI, rule refl) simp

lemma annotates_good: "annotates st st' \<Longrightarrow> good st \<Longrightarrow> good st'"
  by (auto simp: annotates_def good_def has_arr_def)

lemma annotates_trans: "annotates st st' \<Longrightarrow> annotates st' st'' \<Longrightarrow> annotates st st''"
  unfolding annotates_def by auto

lemma efold_notes:
  assumes "efold f x xs = Inr x'" and "good (st x)"
    and "\<And>x y x'. good (st x) \<Longrightarrow> f x y = Inr x' \<Longrightarrow> annotates (st x) (st x')"
  shows "annotates (st x) (st x')"
  using assms(1,2)
proof (induction xs arbitrary: x)
  case Nil
  then show ?case by (simp add: annotates_refl)
next
  case (Cons y ys)
  then obtain t where t: "f x y = Inr t" "efold f t ys = Inr x'" by auto
  have "annotates (st x) (st t)" using assms(3) [OF Cons.prems(2) t(1)] .
  with Cons.IH [OF t(2)] annotates_good [OF this Cons.prems(2)] show ?case by (blast intro: annotates_trans)
qed

lemma import_io_notes:
  assumes "good st" and "import_io lm a headers st x = Inr st'"
  shows "annotates st st'"
proof -
  have u: "has_arr (i_report st) ''unresolved''" using assms(1) by (simp add: good_def)
  obtain index row where "x = (index, row)" by (cases x)
  with assms(2) have "st' = st \<or>
      (\<exists>path. unresolved st ''unknown_io_tag'' path
         ''I/O metadata references a tag not declared in controller_tags'' = Inr st')"
    by (auto simp: import_io_def Let_def split: if_splits)
  with unresolved_Inr [OF u] annotates_set_aside annotates_refl [OF assms(1)] show ?thesis by metis
qed

lemma import_metadata_notes:
  assumes "good (snd y)" and "import_metadata lm a names y x = Inr y'"
  shows "annotates (snd y) (snd y')"
proof -
  obtain ids st index item where y: "y = (ids, st)" "x = (index, item)" by (cases y, cases x)
  have u: "has_arr (i_report st) ''unresolved''" using assms(1) y by (simp add: good_def)
  from assms(2) y obtain ids' st' where "note_unknown_asset st (record_path a index) item = Inr st'"
    "y' = (ids', st')"
    by (auto simp: import_metadata_def Let_def)
  then show ?thesis
    using unresolved_Inr [OF u] annotates_set_aside annotates_refl assms(1) y
    by (auto simp: note_unknown_asset_def split: if_splits) metis+
qed

lemma set_count_Inr: "set_count r key n = Inr r' \<Longrightarrow> \<exists>c. r' = oset r ''counts'' c"
  by (auto simp: set_count_def dest: json_set_Inr)

lemma read_other:
  assumes "annotates st st1" and "set_count (i_report st1) count_key k = Inr r"
    and "record_source lm (st1\<lparr>i_report := r\<rparr>) a n = Inr st'" and "import_ok st" and "accounted st"
    and "a_kind a \<notin> fst ` set kinds"
  shows "artifact_read (a_kind a) {} st st'"
proof -
  obtain r1 where r1: "st1 = st\<lparr>i_report := r1\<rparr>" "has_arr r1 ''unresolved''"
    "\<And>k. k \<noteq> ''unresolved'' \<Longrightarrow> find_key r1 k = find_key (i_report st) k"
    "length (arr (i_report st) ''unresolved'') \<le> length (arr r1 ''unresolved'')"
    using assms(1) unfolding annotates_def by blast
  obtain c where r: "r = oset r1 ''counts'' c" using set_count_Inr [OF assms(2)] r1(1) by auto
  have g: "good st" using assms(4) by (simp add: import_ok_def)
  then have g1: "good (st1\<lparr>i_report := r\<rparr>)"
    using r1(2) r1(3) [of "''artifacts''"] by (auto simp: r1(1) r good_def has_arr_def)
  note st' = record_source_Inr [OF assms(3) g1]
  have rep: "i_report st' = oset r ''artifacts'' (JArr (arr r ''artifacts'' @ [source_record a n]))"
    and mod': "i_model st' = i_model st"
    by (simp_all add: st' r1(1))
  have arts: "arr r ''artifacts'' = arr (i_report st) ''artifacts''"
    using r1(3) [of "''artifacts''"] by (simp add: r arr_def fld_def)
  have eq: "st' = st\<lparr>i_report := i_report st', i_total_records := i_total_records st'\<rparr>" by (simp add: st' r1(1))
  have "import_ok st'"
    by (subst eq, rule import_ok_report [OF assms(4)]) (use r1(2) in \<open>simp_all add: rep r\<close>)
  moreover have "accounted st'"
  proof (rule accounted_push [OF assms(5)])
    show "arr (i_report st') ''artifacts'' = arr (i_report st) ''artifacts'' @ [source_record a n]"
      by (simp add: rep arts)
    show "length (arr (i_report st) ''unresolved'') \<le> length (arr (i_report st') ''unresolved'')"
      using r1(4) by (simp add: rep r)
    show "arr (i_model st') key = arr (i_model st) key" for key by (simp add: mod')
    show "counts_for st' (source_record a n) key" if "(sfld (source_record a n) ''kind'', key) \<in> set kinds" for key
      using that assms(6) by (force simp: source_record_fields)
  qed
  moreover have "same_frame st st'" using r1(3) by (simp add: same_frame_def mod' rep r)
  moreover have "kinds_read st' = kinds_read st @ [a_kind a]"
    by (simp add: kinds_read_def rep arts source_record_fields)
  ultimately show ?thesis by (simp add: artifact_read_def mod')
qed

lemma import_ok_good: "import_ok st \<Longrightarrow> good st"
  by (simp add: import_ok_def)

lemma parse_assets_read:
  assumes "parse_assets parse lm a st = Inr st'" and "import_ok st" and "accounted st"
    and "a_kind a = ''asset_hierarchy''" and "a_kind a \<notin> set (kinds_read st)" and "arr (i_model st) ''assets'' = []"
  shows "artifact_read (a_kind a) {''assets''} st st'"
proof -
  from assms(1) obtain v records st1 where rc: "records_array v (a_path a) lm = Inr records"
    and e: "efold (import_asset lm a) st (enumerate 0 (elements_of records)) = Inr st1"
    and r: "record_source lm st1 a (json_size records) = Inr st'"
    by (auto simp: parse_assets_def)
  have n: "json_size records = length (elements_of records)"
    using rc by (auto simp: records_array_def json_size_array split: if_splits)
  have st1: "import_ok st1 \<and> step_of ''assets'' (length (enumerate 0 (elements_of records))) st st1"
    by (rule efold_steps [where P = import_ok, OF e assms(2)]) (rule asset_step)
  show ?thesis
    by (rule read_kind [OF _ _ r _ assms(3,5,6)]) (use st1 n assms(4) in \<open>simp_all add: kinds_def\<close>)
qed

lemma parse_relationships_read:
  assumes "parse_relationships lm a st = Inr st'" and "import_ok st" and "accounted st"
    and "a_kind a = ''relationships''" and "a_kind a \<notin> set (kinds_read st)"
    and "arr (i_model st) ''relationships'' = []"
  shows "artifact_read (a_kind a) {''relationships''} st st'"
proof -
  from assms(1) obtain n st1 where
    e: "read_rows lm a [''id'', ''from'', ''to'', ''kind''] (import_relationship lm a) st = Inr (n, st1)"
    and r: "record_source lm st1 a n = Inr st'"
    by (auto simp: parse_relationships_def)
  have st1: "import_ok st1 \<and> step_of ''relationships'' n st st1"
    by (rule read_rows_steps [where P = import_ok, OF e assms(2)]) (rule relationship_step)
  show ?thesis
    by (rule read_kind [OF _ _ r _ assms(3,5,6)]) (use st1 assms(4) in \<open>simp_all add: kinds_def\<close>)
qed

lemma parse_tags_read:
  assumes "parse_tags lm a st = Inr st'" and "import_ok st" and "accounted st"
    and "a_kind a = ''controller_tags''" and "a_kind a \<notin> set (kinds_read st)" and "arr (i_model st) ''tags'' = []"
  shows "artifact_read (a_kind a) {''tags''} st st'"
proof -
  from assms(1) obtain n st1 where
    e: "read_rows lm a [''id'', ''asset_id'', ''name'', ''role'', ''data_type'', ''unit'', ''server'',
              ''namespace_uri'', ''identifier''] (import_tag lm a) st = Inr (n, st1)"
    and r: "record_source lm st1 a n = Inr st'"
    by (auto simp: parse_tags_def)
  have st1: "import_ok st1 \<and> step_of ''tags'' n st st1"
    by (rule read_rows_steps [where P = import_ok, OF e assms(2)]) (rule tag_step)
  show ?thesis
    by (rule read_kind [OF _ _ r _ assms(3,5,6)]) (use st1 assms(4) in \<open>simp_all add: kinds_def\<close>)
qed

lemma parse_alarms_read:
  assumes "parse_alarms from_chars lm a st = Inr st'" and "import_ok st" and "accounted st"
    and "a_kind a = ''alarm_definitions''" and "a_kind a \<notin> set (kinds_read st)" and "arr (i_model st) ''alarms'' = []"
  shows "artifact_read (a_kind a) {''alarms''} st st'"
proof -
  from assms(1) obtain n st1 where
    e: "read_rows lm a [''id'', ''asset_id'', ''name'', ''tag_id'', ''operator'', ''threshold'', ''severity'']
              (import_alarm from_chars lm a) st = Inr (n, st1)"
    and r: "record_source lm st1 a n = Inr st'"
    by (auto simp: parse_alarms_def)
  have st1: "import_ok st1 \<and> step_of ''alarms'' n st st1"
    by (rule read_rows_steps [where P = import_ok, OF e assms(2)]) (rule alarm_step)
  show ?thesis
    by (rule read_kind [OF _ _ r _ assms(3,5,6)]) (use st1 assms(4) in \<open>simp_all add: kinds_def\<close>)
qed

lemma parse_io_read:
  assumes "parse_io lm a st = Inr st'" and "import_ok st" and "accounted st" and "a_kind a = ''io_configuration''"
  shows "artifact_read (a_kind a) {} st st'"
proof -
  from assms(1) obtain rows headers n st1 r where
    e: "efold (import_io lm a headers) st (enumerate 1 (tl rows)) = Inr st1"
    and c: "set_count (i_report st1) ''io'' n = Inr r" "record_source lm (st1\<lparr>i_report := r\<rparr>) a n = Inr st'"
    by (auto simp: parse_io_def read_rows_def)
  have "annotates st st1"
    by (rule efold_notes [where st = "\<lambda>x. x", OF e import_ok_good [OF assms(2)]]) (rule import_io_notes)
  from read_other [OF this c assms(2,3)] assms(4) show ?thesis by (simp add: kinds_def)
qed

lemma parse_metadata_read:
  assumes "parse_metadata parse lm a count_key names st = Inr st'" and "import_ok st" and "accounted st"
    and "a_kind a \<notin> fst ` set kinds"
  shows "artifact_read (a_kind a) {} st st'"
proof -
  from assms(1) obtain records ids st1 r where
    e: "efold (import_metadata lm a names) ([], st) (enumerate 0 (elements_of records)) = Inr (ids, st1)"
    and c: "set_count (i_report st1) count_key (json_size records) = Inr r"
      "record_source lm (st1\<lparr>i_report := r\<rparr>) a (json_size records) = Inr st'"
    by (auto simp: parse_metadata_def)
  have g: "good (snd ([] :: string list, st))" using import_ok_good [OF assms(2)] by simp
  have "annotates (snd ([] :: string list, st)) (snd (ids, st1))"
    by (rule efold_notes [where st = snd, OF e g]) (rule import_metadata_notes)
  then have "annotates st st1" by simp
  from read_other [OF this c assms(2,3,4)] show ?thesis .
qed

lemma find_artifact_kind: "find_artifact artifacts kind = Inr a \<Longrightarrow> a_kind a = kind"
  by (auto simp: find_artifact_def find_Some_iff)

lemma optional_artifact_kind: "optional_artifact artifacts kind = Some a \<Longrightarrow> a_kind a = kind"
  by (auto simp: optional_artifact_def find_Some_iff)

text \<open>Several artifacts in a row.\<close>

definition progress :: "string set \<Rightarrow> string set \<Rightarrow> import_state \<Rightarrow> import_state \<Rightarrow> bool" where
  "progress ks keys st st' \<longleftrightarrow> import_ok st' \<and> accounted st' \<and> same_frame st st' \<and>
     set (kinds_read st') \<subseteq> set (kinds_read st) \<union> ks \<and>
     (\<forall>k. k \<notin> keys \<longrightarrow> arr (i_model st') k = arr (i_model st) k)"

lemma artifact_progress: "artifact_read kind keys st st' \<Longrightarrow> progress {kind} keys st st'"
  by (auto simp: artifact_read_def progress_def)

lemma progress_trans:
  "progress ks keys st st' \<Longrightarrow> progress ks' keys' st' st'' \<Longrightarrow> progress (ks \<union> ks') (keys \<union> keys') st st''"
  unfolding progress_def same_frame_def by auto

lemma when_given_progress:
  assumes "when_given artifacts kind reader st = Inr st'" and "import_ok st" and "accounted st"
    and "\<And>a st'. a_kind a = kind \<Longrightarrow> reader a st = Inr st' \<Longrightarrow> artifact_read (a_kind a) {} st st'"
  shows "progress {kind} {} st st'"
proof (cases "optional_artifact artifacts kind")
  case None
  with assms show ?thesis by (auto simp: when_given_def progress_def same_frame_def)
next
  case (Some a)
  then have "a_kind a = kind" by (rule optional_artifact_kind)
  with assms Some have "artifact_read kind {} st st'" by (auto simp: when_given_def)
  then show ?thesis by (rule artifact_progress)
qed

lemma read_contents_progress:
  assumes "read_contents parse from_chars lm artifacts st = Inr st'" and "import_ok st" and "kinds_read st = []"
    and "\<And>k. k \<in> snd ` set kinds \<Longrightarrow> arr (i_model st) k = []"
  shows "import_ok st' \<and> accounted st' \<and> same_frame st st'"
proof -
  from assms(1) obtain a1 a2 a3 a4 st1 st2 st3 st4 st5 st6 where
    f: "find_artifact artifacts ''asset_hierarchy'' = Inr a1" "find_artifact artifacts ''relationships'' = Inr a2"
      "find_artifact artifacts ''controller_tags'' = Inr a3" "find_artifact artifacts ''alarm_definitions'' = Inr a4"
    and r1: "parse_assets parse lm a1 st = Inr st1" and r2: "parse_relationships lm a2 st1 = Inr st2"
    and r3: "parse_tags lm a3 st2 = Inr st3"
    and r4: "when_given artifacts ''io_configuration'' (parse_io lm) st3 = Inr st4"
    and r5: "parse_alarms from_chars lm a4 st4 = Inr st5"
    and r6: "when_given artifacts ''communications''
        (\<lambda>a. parse_metadata parse lm a ''communications'' [''id'', ''protocol'', ''endpoint'', ''security_mode'']) st5 = Inr st6"
    and r7: "when_given artifacts ''machine_documents''
        (\<lambda>a. parse_metadata parse lm a ''documents'' [''id'', ''title'', ''path'', ''media_type'']) st6 = Inr st'"
    by (auto simp: read_contents_def)
  note k = f [THEN find_artifact_kind]
  have k0: "accounted st" using assms(3) by (simp add: accounted_def kinds_read_def)
  have em: "arr (i_model st) ''assets'' = []" "arr (i_model st) ''relationships'' = []"
    "arr (i_model st) ''tags'' = []" "arr (i_model st) ''alarms'' = []"
    using assms(4) by (simp_all add: kinds_def)
  have p1: "progress {''asset_hierarchy''} {''assets''} st st1"
    using artifact_progress [OF parse_assets_read [OF r1 assms(2) k0]] k em assms(3) by simp
  have p2: "progress {''relationships''} {''relationships''} st1 st2"
    using artifact_progress [OF parse_relationships_read [OF r2]] p1 k em assms(3)
    by (fastforce simp: progress_def)
  note p12 = progress_trans [OF p1 p2]
  have p3: "progress {''controller_tags''} {''tags''} st2 st3"
    using artifact_progress [OF parse_tags_read [OF r3]] p12 k em assms(3) by (fastforce simp: progress_def)
  note p13 = progress_trans [OF p12 p3]
  have p4: "progress {''io_configuration''} {} st3 st4"
    by (rule when_given_progress [OF r4]) (use p13 parse_io_read in \<open>auto simp: progress_def\<close>)
  note p14 = progress_trans [OF p13 p4]
  have p5: "progress {''alarm_definitions''} {''alarms''} st4 st5"
    using artifact_progress [OF parse_alarms_read [OF r5]] p14 k em assms(3) by (fastforce simp: progress_def)
  note p15 = progress_trans [OF p14 p5]
  have p6: "progress {''communications''} {} st5 st6"
    proof (rule when_given_progress [OF r6])
    show "import_ok st5" "accounted st5" using p15 by (simp_all add: progress_def)
    then show "artifact_read (a_kind a) {} st5 x" if "a_kind a = ''communications''"
      and "parse_metadata parse lm a ''communications'' [''id'', ''protocol'', ''endpoint'', ''security_mode''] st5 = Inr x" for a x
      using parse_metadata_read [OF that(2)] that(1) by (simp add: kinds_def)
  qed
  note p16 = progress_trans [OF p15 p6]
  have p7: "progress {''machine_documents''} {} st6 st'"
    proof (rule when_given_progress [OF r7])
    show "import_ok st6" "accounted st6" using p16 by (simp_all add: progress_def)
    then show "artifact_read (a_kind a) {} st6 x" if "a_kind a = ''machine_documents''"
      and "parse_metadata parse lm a ''documents'' [''id'', ''title'', ''path'', ''media_type''] st6 = Inr x" for a x
      using parse_metadata_read [OF that(2)] that(1) by (simp add: kinds_def)
  qed
  from progress_trans [OF p16 p7] show ?thesis by (simp add: progress_def)
qed

section \<open>The imported model\<close>

lemma map_of_keyed_iff: "map_of (keyed xs) k \<noteq> None \<longleftrightarrow> k \<in> set (ids_of xs)"
  by (induction xs) (auto simp: keyed_def)

lemma map_of_keyed_distinct:
  "distinct (ids_of xs) \<Longrightarrow> map_of (keyed xs) k = Some x \<longleftrightarrow> x \<in> set xs \<and> sfld x ''id'' = k"
  using map_of_keyed [of xs k x] map_of_keyed_mem [of xs x] by (auto simp: map_fst_keyed)

lemma base_asset_wf: "base_asset a \<Longrightarrow> wf_asset dump a \<longleftrightarrow> metadata_ok dump a 4096"
  by (simp add: base_asset_def wf_asset_def)

lemma known_ident:
  assumes "list_all base_asset as" and "k \<in> set (ids_of as)"
  shows "ok_text k_max_string k \<and> valid_identity k"
  using assms by (auto simp: list_all_iff base_asset_def has_ident_def has_text_def)

lemma base_relationship_wf:
  assumes "base_relationship (set (ids_of as)) r" and "list_all base_asset as"
  shows "wf_relationship (keyed as) r"
  using assms known_ident [OF assms(2)]
  by (auto simp: base_relationship_def wf_relationship_def has_ident_def has_text_def map_of_keyed_iff
      simp del: set_map not_None_eq)

lemma base_tag_wf:
  assumes "base_tag (set (ids_of as)) t" and "list_all base_asset as"
  shows "wf_tag (keyed as) t \<longleftrightarrow>
    (lower (sfld t ''role'') \<in> {''level'', ''flow''} \<longrightarrow> numeric_data_type (lower (sfld t ''data_type'')))"
  using assms known_ident [OF assms(2)]
  by (auto simp: base_tag_def wf_tag_def has_ident_def has_text_def map_of_keyed_iff
      simp del: set_map not_None_eq)

lemma base_alarm_wf:
  assumes "base_alarm (set (ids_of as)) ts a" and "list_all base_asset as"
    and "list_all (base_tag (set (ids_of as))) ts" and "distinct (ids_of ts)"
  shows "wf_alarm (keyed as) (keyed ts) a \<longleftrightarrow>
    (\<forall>t \<in> set ts. sfld t ''id'' = sfld a ''tag_id'' \<longrightarrow> numeric_data_type (lower (sfld t ''data_type'')))"
proof -
  obtain t where t: "t \<in> set ts" "sfld t ''id'' = sfld a ''tag_id''" "sfld t ''asset_id'' = sfld a ''asset_id''"
    using assms(1) by (auto simp: base_alarm_def)
  then have bt: "base_tag (set (ids_of as)) t" using assms(3) by (auto simp: list_all_iff)
  have uniq: "u = t" if "u \<in> set ts" "sfld u ''id'' = sfld a ''tag_id''" for u
    using that t assms(4) map_of_keyed_distinct [OF assms(4)] by (metis option.inject)
  have m: "map_of (keyed ts) (sfld a ''tag_id'') = Some t" using map_of_keyed_distinct [OF assms(4)] t by simp
  have "ok_text k_max_string (sfld a ''asset_id'') \<and> valid_identity (sfld a ''asset_id'')"
    by (rule known_ident [OF assms(2)]) (use assms(1) in \<open>simp add: base_alarm_def\<close>)
  moreover have "ok_text k_max_string (sfld a ''tag_id'') \<and> valid_identity (sfld a ''tag_id'')"
    using bt t(2) by (auto simp: base_tag_def has_ident_def has_text_def)
  moreover have "map_of (keyed as) (sfld a ''asset_id'') \<noteq> None"
    using assms(1) by (simp add: map_of_keyed_iff base_alarm_def del: not_None_eq)
  moreover have "find_key t ''asset_id'' = Some (JStr (sfld a ''asset_id''))"
    "find_key t ''data_type'' = Some (JStr (sfld t ''data_type''))"
    using bt t(3) unfolding base_tag_def has_text_def by metis+
  ultimately have "wf_alarm (keyed as) (keyed ts) a \<longleftrightarrow> numeric_data_type (lower (sfld t ''data_type''))"
    using assms(1) m unfolding wf_alarm_def base_alarm_def has_ident_def has_text_def by auto
  with uniq t show ?thesis by blast
qed

text \<open>The state the import ends in, and what sorting leaves of it.\<close>

lemma start_ok:
  "import_ok (import_start p mid name rv)" "kinds_read (import_start p mid name rv) = []"
  "k \<in> snd ` set kinds \<Longrightarrow> arr (i_model (import_start p mid name rv)) k = []"
  by (auto simp: import_ok_def good_def has_arr_def import_start_def kinds_read_def arr_def fld_def kinds_def)

lemma sort_by_id_Inr:
  assumes "sort_by_id j key = Inr j'"
  shows "j' = oset j key (JArr (sort_key (\<lambda>x. sfld x ''id'') (arr j key)))"
  using assms by (auto simp: sort_by_id_def arr_def fld_def)

definition sorted_arr :: "json \<Rightarrow> string \<Rightarrow> json list" where
  "sorted_arr j key = sort_key (\<lambda>x. sfld x ''id'') (arr j key)"

lemma finish_import_Inr:
  assumes "finish_import p st = Inr (model, report)"
  shows "k \<in> {''assets'', ''relationships'', ''tags'', ''alarms''} \<Longrightarrow>
      find_key model k = Some (JArr (sorted_arr (i_model st) k))"
    and "k \<notin> {''assets'', ''relationships'', ''tags'', ''alarms'', ''metadata''} \<Longrightarrow>
      find_key model k = find_key (i_model st) k"
    and "set (arr report ''artifacts'') = set (arr (i_report st) ''artifacts'')"
    and "find_key report ''unresolved'' = find_key (i_report st) ''unresolved''"
    and "sfld report ''status'' = ''ok'' \<Longrightarrow> json_empty (fld (i_report st) ''unresolved'')"
proof -
  from assms obtain md rp1 rp2 m2 errors opens where
    m: "efold sort_by_id (i_model st) [''assets'', ''relationships'', ''tags'', ''alarms''] = Inr md"
    and r1: "sort_by_id (i_report st) ''artifacts'' = Inr rp1"
    and r2: "efold (\<lambda>report key. set_count report key (json_size (fld md key))) rp1
        [''assets'', ''relationships'', ''tags'', ''alarms''] = Inr rp2"
    and o: "find_key rp2 ''unresolved'' = Some opens"
    and fin: "report = oset rp2 ''status''
           (JStr (if json_empty errors then if json_empty opens then ''ok'' else ''unresolved'' else ''error''))"
      "model = oset md ''metadata'' m2"
    by (auto simp: finish_import_def Let_def)
  have md: "find_key md k = (if k \<in> {''assets'', ''relationships'', ''tags'', ''alarms''}
      then Some (JArr (sorted_arr (i_model st) k)) else find_key (i_model st) k)" for k
    using m by (auto simp: sorted_arr_def dest!: sort_by_id_Inr)
  have "find_key rp2 k = find_key rp1 k" if "k \<noteq> ''counts''" for k
    using r2 that by (auto dest!: set_count_Inr)
  moreover note sort_by_id_Inr [OF r1]
  ultimately have rp: "find_key rp2 ''unresolved'' = find_key (i_report st) ''unresolved''"
    "set (arr rp2 ''artifacts'') = set (arr (i_report st) ''artifacts'')"
    by (simp_all add: arr_def fld_def)
  have "fld (i_report st) ''unresolved'' = opens" using o rp(1) by (simp add: fld_eq)
  then show "sfld report ''status'' = ''ok'' \<Longrightarrow> json_empty (fld (i_report st) ''unresolved'')"
    using fin(1) by (auto simp: sfld_def fld_def split: if_splits)
  show "k \<in> {''assets'', ''relationships'', ''tags'', ''alarms''} \<Longrightarrow>
      find_key model k = Some (JArr (sorted_arr (i_model st) k))"
    using md [of k] fin(2) by auto
  show "k \<notin> {''assets'', ''relationships'', ''tags'', ''alarms'', ''metadata''} \<Longrightarrow>
      find_key model k = find_key (i_model st) k"
    using md [of k] fin(2) by simp
  show "set (arr report ''artifacts'') = set (arr (i_report st) ''artifacts'')"
    "find_key report ''unresolved'' = find_key (i_report st) ''unresolved''"
    using rp fin(1) by simp_all
qed

text \<open>The machine's description in the manifest.\<close>

lemma read_machine_Inr:
  assumes "read_machine lm p manifest = Inr (machine, mid, name, rv)"
  shows "ok_text k_max_string mid \<and> valid_identity mid \<and> ok_text k_max_string name \<and> unat rv < 2 ^ 32 \<and>
    (contains machine ''description'' \<and> sfld machine ''description'' \<noteq> [] \<longrightarrow>
       has_text machine ''description'' k_max_string)"
proof -
  from assms have i: "import_string_field machine ''id'' ''manifest.machine'' (max_string_bytes lm) False = Inr mid"
    and n: "import_string_field machine ''name'' ''manifest.machine'' (max_string_bytes lm) False = Inr name"
    and d: "contains machine ''description'' \<longrightarrow>
      require_string machine ''description'' ''manifest.machine'' (max_string_bytes lm) True = Inr ()"
    and k: "import_identity mid" and r: "import_revision_ok machine" "get_u64 (fld machine ''revision'') = Inr rv"
    unfolding read_machine_def by (auto split: if_splits)
  from r have "\<not> 4294967295 < rv" by (auto simp: import_revision_ok_def)
  then have "unat rv \<le> unat (4294967295 :: u64)" by (simp add: word_le_nat_alt linorder_not_less)
  then have "unat rv < 2 ^ 32" by simp
  moreover have "has_text machine ''description'' k_max_string"
    if c: "contains machine ''description''" "sfld machine ''description'' \<noteq> []"
  proof -
    have q: "require_string machine ''description'' ''manifest.machine'' (max_string_bytes lm) True = Inr ()"
      using d c(1) by simp
    obtain v where v: "find_key machine ''description'' = Some v" using c(1) by (auto simp: contains_def)
    with q obtain t where "v = JStr t" by (auto simp: require_string_def is_string_iff fld_eq)
    with q v c(2) show ?thesis
      by (auto simp: require_string_def has_text_def ok_text_def k_max_string_def identity_limit_def sfld_def fld_def)
  qed
  ultimately show ?thesis
    using import_field_text [OF i] import_field_text [OF n] k by (simp add: import_identity_iff ok_text_def)
qed

lemma import_manifest_shape:
  assumes "import_manifest parse from_chars fs lm p = Inr (model, report)"
  shows "\<exists>st mid name rv. import_ok st \<and> accounted st \<and> finish_import p st = Inr (model, report) \<and>
    find_key (i_model st) ''model_id'' = Some (JStr mid) \<and> ok_text k_max_string mid \<and> valid_identity mid \<and>
    find_key (i_model st) ''name'' = Some (JStr name) \<and> ok_text k_max_string name \<and>
    find_key (i_model st) ''revision'' = Some (JUInt rv) \<and> unat rv < 2 ^ 32 \<and>
    optional_text (i_model st) ''description'' k_max_string \<and>
    (\<forall>k. k \<notin> set model_fields \<or> k = ''metadata'' \<or> k = ''scenario_name'' \<longrightarrow> find_key (i_model st) k = None)"
proof -
  from assms obtain machine mid name rv artifacts st0 st manifest where
    h: "read_machine lm p manifest = Inr (machine, mid, name, rv)"
    and st0: "st0 = (if contains machine ''description'' \<and> sfld machine ''description'' \<noteq> []
        then (import_start p mid name rv)\<lparr>i_model := oset (i_model (import_start p mid name rv)) ''description''
            (fld machine ''description'')\<rparr> else import_start p mid name rv)"
    and r: "read_contents parse from_chars lm artifacts st0 = Inr st"
    and f: "finish_import p st = Inr (model, report)"
    by (auto simp: import_manifest_def Let_def simp del: if_throw_Inr)
  have d: "contains machine ''description'' \<and> sfld machine ''description'' \<noteq> [] \<Longrightarrow>
      has_text machine ''description'' k_max_string"
    using read_machine_Inr [OF h] by blast
  have ok0: "import_ok st0" "kinds_read st0 = []" "\<And>k. k \<in> snd ` set kinds \<Longrightarrow> arr (i_model st0) k = []"
    by (auto simp: st0 import_ok_def good_def has_arr_def import_start_def kinds_read_def arr_def fld_def kinds_def)
  have st: "import_ok st" "accounted st" "same_frame st0 st"
    using read_contents_progress [OF r ok0] by auto
  have fk: "find_key (i_model st) k = find_key (i_model st0) k"
    if "k \<notin> {''assets'', ''relationships'', ''tags'', ''alarms''}" for k
    using st(3) that by (auto simp: same_frame_def kinds_def)
  have "optional_text (i_model st0) ''description'' k_max_string"
    using d by (auto simp: st0 optional_text_def import_start_def contains_def has_text_def sfld_def fld_def)
  then have "optional_text (i_model st) ''description'' k_max_string"
    using fk [of "''description''"] by (simp add: optional_text_def contains_def has_text_def sfld_def fld_def)
  moreover have "find_key (i_model st) k = None"
    if "k \<notin> set model_fields \<or> k = ''metadata'' \<or> k = ''scenario_name''" for k
    using that fk [of k] by (auto simp: st0 import_start_def model_fields_def)
  moreover have "find_key (i_model st) ''model_id'' = Some (JStr mid)" "find_key (i_model st) ''name'' = Some (JStr name)"
    "find_key (i_model st) ''revision'' = Some (JUInt rv)"
    using fk [of "''model_id''"] fk [of "''name''"] fk [of "''revision''"] by (simp_all add: st0 import_start_def)
  ultimately show ?thesis using st(1,2) f read_machine_Inr [OF h] by blast
qed

text \<open>The arrays of a finished model, and what the model check makes of them.\<close>

definition well_emitted :: "json list \<Rightarrow> json list \<Rightarrow> json list \<Rightarrow> json list \<Rightarrow> bool" where
  "well_emitted A R T L \<longleftrightarrow>
     list_all base_asset A \<and> list_all (base_relationship (set (ids_of A))) R \<and>
     list_all (base_tag (set (ids_of A))) T \<and> list_all (base_alarm (set (ids_of A)) T) L \<and>
     distinct (ids_of A) \<and> distinct (ids_of R) \<and> distinct (ids_of T) \<and> distinct (ids_of L)"

lemma sorted_arr_same:
  "set (sorted_arr j k) = set (arr j k)" "distinct (ids_of (sorted_arr j k)) = distinct (ids_of (arr j k))"
proof -
  show "set (sorted_arr j k) = set (arr j k)" by (simp add: sorted_arr_def)
  have "mset (ids_of (sorted_arr j k)) = mset (ids_of (arr j k))"
    by (simp only: sorted_arr_def mset_map mset_sort)
  then show "distinct (ids_of (sorted_arr j k)) = distinct (ids_of (arr j k))" by (rule mset_eq_imp_distinct_iff)
qed

lemma finished_decls:
  assumes "finish_import p st = Inr (model, report)" and "k \<in> {''assets'', ''relationships'', ''tags'', ''alarms''}"
  shows "decls model k = sorted_arr (i_model st) k"
  using finish_import_Inr(1) [OF assms] by (simp add: decls_def fld_def)

lemma finished_arrays:
  assumes ok: "import_ok st" and f: "finish_import p st = Inr (model, report)"
  shows "well_emitted (decls model ''assets'') (decls model ''relationships'') (decls model ''tags'') (decls model ''alarms'')"
proof -
  have d: "decls model ''assets'' = sorted_arr (i_model st) ''assets''"
    "decls model ''relationships'' = sorted_arr (i_model st) ''relationships''"
    "decls model ''tags'' = sorted_arr (i_model st) ''tags''" "decls model ''alarms'' = sorted_arr (i_model st) ''alarms''"
    using finished_decls [OF f] by simp_all
  have "i_assets st = ids_of (arr (i_model st) ''assets'')" using ok by (simp add: import_ok_def)
  then have ids: "set (i_assets st) = set (ids_of (sorted_arr (i_model st) ''assets''))"
    by (simp only: set_map sorted_arr_same(1))
  show ?thesis
    using ok unfolding well_emitted_def import_ok_def list_all_iff ids d sorted_arr_same
    by (auto simp: base_alarm_def sorted_arr_same)
qed

lemma well_emitted_wf:
  assumes w: "well_emitted (decls m ''assets'') (decls m ''relationships'') (decls m ''tags'') (decls m ''alarms'')"
  shows "wf_model dump m \<longleftrightarrow> wf_header dump m \<and> (\<forall>a \<in> set (decls m ''assets''). metadata_ok dump a 4096) \<and>
    (\<forall>t \<in> set (decls m ''tags''). lower (sfld t ''role'') \<in> {''level'', ''flow''} \<longrightarrow>
       numeric_data_type (lower (sfld t ''data_type''))) \<and>
    (\<forall>a \<in> set (decls m ''alarms''). \<forall>t \<in> set (decls m ''tags''). sfld t ''id'' = sfld a ''tag_id'' \<longrightarrow>
       numeric_data_type (lower (sfld t ''data_type'')))"
proof -
  let ?A = "decls m ''assets''" and ?R = "decls m ''relationships''" and ?T = "decls m ''tags''"
    and ?L = "decls m ''alarms''"
  have b: "list_all base_asset ?A" "list_all (base_tag (set (ids_of ?A))) ?T" "distinct (ids_of ?T)"
    using w by (simp_all add: well_emitted_def)
  have "(\<forall>a \<in> set ?A. wf_asset dump a) \<longleftrightarrow> (\<forall>a \<in> set ?A. metadata_ok dump a 4096)"
    using b(1) base_asset_wf by (auto simp: list_all_iff)
  moreover have "\<forall>r \<in> set ?R. wf_relationship (keyed ?A) r"
    using w base_relationship_wf [OF _ b(1)] by (auto simp: well_emitted_def list_all_iff)
  moreover have "(\<forall>t \<in> set ?T. wf_tag (keyed ?A) t) \<longleftrightarrow> (\<forall>t \<in> set ?T. lower (sfld t ''role'') \<in> {''level'', ''flow''} \<longrightarrow>
       numeric_data_type (lower (sfld t ''data_type'')))"
    using b(2) base_tag_wf [OF _ b(1)] by (auto simp: list_all_iff)
  moreover have "(\<forall>a \<in> set ?L. wf_alarm (keyed ?A) (keyed ?T) a) \<longleftrightarrow>
      (\<forall>a \<in> set ?L. \<forall>t \<in> set ?T. sfld t ''id'' = sfld a ''tag_id'' \<longrightarrow> numeric_data_type (lower (sfld t ''data_type'')))"
    using w base_alarm_wf [OF _ b] by (auto simp: well_emitted_def list_all_iff)
  ultimately show ?thesis
    using w unfolding wf_model_def Let_def map_fst_keyed by (simp add: well_emitted_def)
qed

lemma finished_keys:
  assumes f: "finish_import p st = Inr (model, report)"
    and none: "\<And>k. k \<notin> set model_fields \<Longrightarrow> find_key (i_model st) k = None"
  shows "only_keys model model_fields"
proof -
  have "is_object model" using finish_import_Inr(1) [OF f, of "''assets''"] by (cases model) (auto simp: find_key_def)
  moreover have "k \<in> set model_fields" if k: "find_key model k \<noteq> None" for k
  proof (rule ccontr)
    assume n: "k \<notin> set model_fields"
    then have "k \<notin> {''assets'', ''relationships'', ''tags'', ''alarms'', ''metadata''}"
      by (auto simp: model_fields_def)
    from finish_import_Inr(2) [OF f this] none [OF n] k show False by simp
  qed
  then have "dom (map_of (members_of model)) \<subseteq> set model_fields" by (auto simp: find_key_def)
  ultimately show ?thesis by (simp add: only_keys_def dom_map_of_conv_image_fst)
qed

lemma finished_header:
  assumes f: "finish_import p st = Inr (model, report)"
    and h: "find_key (i_model st) ''model_id'' = Some (JStr mid)" "ok_text k_max_string mid" "valid_identity mid"
      "find_key (i_model st) ''name'' = Some (JStr name)" "ok_text k_max_string name"
      "find_key (i_model st) ''revision'' = Some (JUInt rv)" "unat rv < 2 ^ 32"
      "optional_text (i_model st) ''description'' k_max_string"
    and none: "\<And>k. k \<notin> set model_fields \<or> k = ''metadata'' \<or> k = ''scenario_name'' \<Longrightarrow> find_key (i_model st) k = None"
  shows "wf_header dump model \<longleftrightarrow> metadata_ok dump model (16 * 1024) \<and>
      length (decls model ''assets'') \<le> 256 \<and> length (decls model ''relationships'') \<le> 512 \<and>
      length (decls model ''tags'') \<le> 2048 \<and> length (decls model ''alarms'') \<le> 2048"
proof -
  note same = finish_import_Inr(2) [OF f]
  have fk: "find_key model ''model_id'' = Some (JStr mid)" "find_key model ''name'' = Some (JStr name)"
    "find_key model ''revision'' = Some (JUInt rv)" "find_key model ''scenario_name'' = None"
    "find_key model ''description'' = find_key (i_model st) ''description''"
    using same h none by simp_all
  have "has_ident model ''model_id''" "has_text model ''name'' k_max_string"
    using fk(1,2) h by (simp_all add: has_ident_def has_text_def sfld_eq)
  moreover have "optional_text model ''scenario_name'' k_max_string"
    using fk(4) by (simp add: optional_text_def contains_def)
  moreover have "optional_text model ''description'' 2048"
    using h(8) fk(5) by (auto simp: optional_text_def contains_def has_text_def ok_text_def sfld_def fld_def limits)
  moreover have "\<exists>r w. find_key model ''revision'' = Some r \<and> is_nonnegative_integer r \<and> get_u64 r = Inr w \<and> unat w < 2 ^ 32"
    using fk(3) h(7) by (simp add: is_nonnegative_integer_def)
  moreover have "array_upto model k mx \<longleftrightarrow> length (decls model k) \<le> mx"
    if "k \<in> {''assets'', ''relationships'', ''tags'', ''alarms''}" for k mx
    using finish_import_Inr(1) [OF f that] by (simp add: array_upto_def contains_def fld_def decls_def)
  ultimately show ?thesis using finished_keys [OF f] none unfolding wf_header_def by (simp add: limits)
qed

text \<open>
  C21. The import emits only records the model check accepts. The model of a successful import,
  whatever the bundle, passes the check if and only if its numbers of declarations and its
  metadata are within the limits of the model and the tags that level and flow roles or alarms
  use are numeric: the two conditions on tags are the only checks on records that the importer
  does not make.
\<close>

theorem imported_model_accepted_iff:
  assumes "import_manifest parse from_chars fs lm p = Inr (model, report)"
  shows "(\<exists>ix. index_model dump model = Inr ix) \<longleftrightarrow>
    metadata_ok dump model (16 * 1024) \<and> (\<forall>a \<in> set (decls model ''assets''). metadata_ok dump a 4096) \<and>
    length (decls model ''assets'') \<le> 256 \<and> length (decls model ''relationships'') \<le> 512 \<and>
    length (decls model ''tags'') \<le> 2048 \<and> length (decls model ''alarms'') \<le> 2048 \<and>
    (\<forall>t \<in> set (decls model ''tags''). lower (sfld t ''role'') \<in> {''level'', ''flow''} \<longrightarrow>
       numeric_data_type (lower (sfld t ''data_type''))) \<and>
    (\<forall>a \<in> set (decls model ''alarms''). \<forall>t \<in> set (decls model ''tags''). sfld t ''id'' = sfld a ''tag_id'' \<longrightarrow>
       numeric_data_type (lower (sfld t ''data_type'')))"
proof -
  obtain st mid name rv where ok: "import_ok st" and f: "finish_import p st = Inr (model, report)"
    and h: "find_key (i_model st) ''model_id'' = Some (JStr mid)" "ok_text k_max_string mid" "valid_identity mid"
      "find_key (i_model st) ''name'' = Some (JStr name)" "ok_text k_max_string name"
      "find_key (i_model st) ''revision'' = Some (JUInt rv)" "unat rv < 2 ^ 32"
      "optional_text (i_model st) ''description'' k_max_string"
    and none: "\<And>k. k \<notin> set model_fields \<or> k = ''metadata'' \<or> k = ''scenario_name'' \<Longrightarrow> find_key (i_model st) k = None"
    using import_manifest_shape [OF assms] by blast
  have header: "wf_header dump model \<longleftrightarrow> metadata_ok dump model (16 * 1024) \<and>
      length (decls model ''assets'') \<le> 256 \<and> length (decls model ''relationships'') \<le> 512 \<and>
      length (decls model ''tags'') \<le> 2048 \<and> length (decls model ''alarms'') \<le> 2048"
    by (rule finished_header [OF f h]) (rule none)
  show ?thesis
    unfolding index_model_Inr well_emitted_wf [OF finished_arrays [OF ok f], of dump] header by blast
qed

text \<open>
  C22. No record is lost silently. For every artifact the report lists, the number of records
  read is the number of declarations of its kind in the model plus at most the number of
  unresolved entries; and when the report's status is ok, every record read of an asset
  hierarchy, a relationship table, a tag table or an alarm table is a declaration of the model.
\<close>

theorem import_accounts_for_records:
  assumes "import_manifest parse from_chars fs lm p = Inr (model, report)"
    and "src \<in> set (elements_of (fld report ''artifacts''))"
    and "(sfld src ''kind'', key) \<in> {(''asset_hierarchy'', ''assets''), (''relationships'', ''relationships''),
      (''controller_tags'', ''tags''), (''alarm_definitions'', ''alarms'')}"
  shows "\<exists>n. fld src ''records'' = JUInt (of_nat n) \<and> length (decls model key) \<le> n \<and>
    n \<le> length (decls model key) + length (elements_of (fld report ''unresolved'')) \<and>
    (sfld report ''status'' = ''ok'' \<longrightarrow> n = length (decls model key))"
proof -
  obtain st where ac: "accounted st" and f: "finish_import p st = Inr (model, report)"
    using import_manifest_shape [OF assms(1)] by blast
  note fin = finish_import_Inr [OF f]
  have "src \<in> set (arr (i_report st) ''artifacts'')" using assms(2) fin(3) by (simp add: arr_def)
  then have "counts_for st src key" using ac assms(3) by (fastforce simp: accounted_def kinds_def)
  moreover have "length (decls model key) = length (arr (i_model st) key)"
    using finished_decls [OF f, of key] assms(3) by (auto simp: sorted_arr_def)
  moreover have "fld report ''unresolved'' = fld (i_report st) ''unresolved''" using fin(4) by (simp add: fld_def)
  moreover have "sfld report ''status'' = ''ok'' \<Longrightarrow> arr (i_report st) ''unresolved'' = []"
    using fin(5) by (cases "fld (i_report st) ''unresolved''") (auto simp: json_empty_def arr_def)
  ultimately show ?thesis by (auto simp: counts_for_def arr_def)
qed

section \<open>A bundle\<close>

definition demo_entry :: "string \<Rightarrow> string \<Rightarrow> string \<Rightarrow> json" where
  "demo_entry k form file = JObj [(''format'', JStr form), (''id'', JStr k), (''kind'', JStr k), (''path'', JStr file)]"

definition demo_manifest :: json where
  "demo_manifest = JObj [
     (''artifacts'', JArr [demo_entry ''asset_hierarchy'' ''json'' ''a'', demo_entry ''relationships'' ''csv-rfc4180'' ''r'',
        demo_entry ''controller_tags'' ''csv-rfc4180'' ''t'', demo_entry ''alarm_definitions'' ''csv-rfc4180'' ''l'']),
     (''machine'', JObj [(''id'', JStr ''m''), (''name'', JStr ''M''), (''revision'', JUInt 1)]),
     (''schema_version'', JStr ''engineering-bundle/1'')]"

definition demo_parse :: "string \<Rightarrow> string + json" where
  "demo_parse s = (if s = ''M'' then Inr demo_manifest
     else Inr (JArr [JObj [(''id'', JStr ''tank''), (''kind'', JStr ''tank''), (''name'', JStr ''Tank'')]]))"

definition demo_contents :: "string \<Rightarrow> string" where
  "demo_contents p =
     (if p = ''/b/manifest.json'' then ''M'' else if p = ''/b/a'' then ''A''
      else if p = ''/b/r'' then ''id,from,to,kind'' else if p = ''/b/t''
      then ''id,asset_id,name,role,data_type,unit,server,namespace_uri,identifier'' @ [lf] @ ''lvl,tank,Level,level,number,m,s,n,i''
      else ''id,asset_id,name,tag_id,operator,threshold,severity'' @ [lf] @ ''hi,tank,High,lvl,>,9,high'')"

definition demo_bundle :: filesystem where
  "demo_bundle = \<lparr>fs_regular = (\<lambda>_. True), fs_directory = (\<lambda>_. True), fs_size = (\<lambda>p. Some (length (demo_contents p))),
     fs_stream = (\<lambda>p. Some (demo_contents p)),
     fs_canonical = (\<lambda>p. if p = ''/b'' then Some (FPath True [''b'']) else Some (FPath True [''b'', filename p]))\<rparr>"

definition demo_chars :: from_chars where "demo_chars s = Some (Fin 9, length s)"



lemmas csv_eval = parse_csv_def csv_byte_def csv_plain_def push_char_def check_field_def finish_field_def
  finish_row_def csv_start_def default_limits_def csv_chars

lemma demo_r: "parse_csv ''id,from,to,kind'' p default_limits = Inr [[''id'', ''from'', ''to'', ''kind'']]"
  by (simp add: csv_eval)

lemma demo_t: "parse_csv (''id,asset_id,name,role,data_type,unit,server,namespace_uri,identifier'' @ [lf] @ ''lvl,tank,Level,level,number,m,s,n,i'')
    p default_limits = Inr [[''id'', ''asset_id'', ''name'', ''role'', ''data_type'', ''unit'', ''server'',
   ''namespace_uri'', ''identifier''], [''lvl'', ''tank'', ''Level'', ''level'', ''number'', ''m'', ''s'', ''n'', ''i'']]"
  by (simp add: csv_eval)

lemma demo_l: "parse_csv (''id,asset_id,name,tag_id,operator,threshold,severity'' @ [lf] @ ''hi,tank,High,lvl,>,9,high'') p default_limits =
   Inr [[''id'', ''asset_id'', ''name'', ''tag_id'', ''operator'', ''threshold'', ''severity''], [''hi'', ''tank'', ''High'', ''lvl'', ''>'', ''9'', ''high'']]"
  by (simp add: csv_eval)

lemma demo_machine: "read_machine default_limits ''/b/manifest.json'' demo_manifest =
   Inr (JObj [(''id'', JStr ''m''), (''name'', JStr ''M''), (''revision'', JUInt 1)], ''m'', ''M'', 1)"
  by (simp add: read_machine_def demo_manifest_def allowed_keys_def json_items_def value_string_def default_limits_def
     import_string_field_def require_string_def contains_def fld_def sfld_def identity_limit_def string_at_def json_at_def import_identity_def
     char_classes import_revision_ok_def json_empty_def)

lemma default_limits_simps: "max_file_bytes default_limits = 1048576" "max_artifacts default_limits = 32"
  "max_records_per_artifact default_limits = 8192" "max_columns default_limits = 32" "max_field_bytes default_limits = 4096"
  "max_total_records default_limits = 32768" "max_string_bytes default_limits = 4096" "max_json_depth default_limits = 32"
  "max_json_nodes default_limits = 32768"
  by (simp_all add: default_limits_def)

lemma demo_files: "read_bounded demo_bundle p default_limits = Inr (demo_contents p)"
  by (auto simp: read_bounded_def demo_bundle_def demo_contents_def default_limits_def lf_def)

lemma checks_eval: "checks [] = Inr ()" "checks (c # cs) = ebind c (\<lambda>_. checks cs)"
  by (simp_all add: checks_def)

lemma json_at_find: "find_key j k = Some v \<Longrightarrow> json_at j k = Inr v" by simp

lemma demo_paths:
  "p \<in> {''a'', ''r'', ''t'', ''l''} \<Longrightarrow> contained_path demo_bundle ''/b'' p path = Inr (FPath True [''b'', p])"
  by (auto simp: contained_path_def is_absolute_def slash_def demo_bundle_def path_append_def filename_def)


lemma demo_json: "parse_json demo_parse (demo_contents ''/b/a'') p default_limits =
    Inr (JArr [JObj [(''id'', JStr ''tank''), (''kind'', JStr ''tank''), (''name'', JStr ''Tank'')]])"
  by (simp add: parse_json_def demo_parse_def demo_contents_def validate_json_limits_def default_limits_simps json_children_def)

lemma demo_json0: "parse_json demo_parse (demo_contents ''/b/manifest.json'') p default_limits = Inr demo_manifest"
  by (simp add: parse_json_def demo_parse_def demo_contents_def validate_json_limits_def default_limits_simps json_children_def
    demo_manifest_def demo_entry_def)

lemma demo_alarm_table: "parse_csv (demo_contents ''/b/l'') p default_limits =
   Inr [[''id'', ''asset_id'', ''name'', ''tag_id'', ''operator'', ''threshold'', ''severity''], [''hi'', ''tank'', ''High'', ''lvl'', ''>'', ''9'', ''high'']]"
  by (simp add: demo_contents_def demo_l [simplified append_Cons append_Nil])
lemma demo_tag_table: "parse_csv (demo_contents ''/b/t'') p default_limits = Inr [[''id'', ''asset_id'', ''name'', ''role'', ''data_type'', ''unit'', ''server'',
   ''namespace_uri'', ''identifier''], [''lvl'', ''tank'', ''Level'', ''level'', ''number'', ''m'', ''s'', ''n'', ''i'']]"
  by (simp add: demo_contents_def demo_t [simplified append_Cons append_Nil])
lemma demo_relationship_table: "parse_csv (demo_contents ''/b/r'') p default_limits = Inr [[''id'', ''from'', ''to'', ''kind'']]"
  by (simp add: demo_contents_def demo_r)

lemmas demo_eval = demo_alarm_table demo_tag_table demo_relationship_table demo_json demo_json0 demo_machine demo_paths demo_files demo_entry_def demo_manifest_def
  allowed_keys_def json_items_def import_string_field_def require_string_def contains_def fld_def sfld_def identity_limit_def
  string_at_def json_at_find import_identity_def char_classes expected_format_def default_limits_simps Let_def slash_def
  read_artifact_def parent_path_def checks_eval filename_def

lemma demo_artifacts:
  "efold (read_artifact demo_bundle default_limits ''/b/manifest.json'') [] (enumerate 0 (elements_of (fld demo_manifest ''artifacts''))) =
   Inr [\<lparr>a_id = ''asset_hierarchy'', a_kind = ''asset_hierarchy'', a_format = ''json'', a_path = ''/b/a'', a_contents = demo_contents ''/b/a''\<rparr>,
     \<lparr>a_id = ''relationships'', a_kind = ''relationships'', a_format = ''csv-rfc4180'', a_path = ''/b/r'', a_contents = demo_contents ''/b/r''\<rparr>,
     \<lparr>a_id = ''controller_tags'', a_kind = ''controller_tags'', a_format = ''csv-rfc4180'', a_path = ''/b/t'', a_contents = demo_contents ''/b/t''\<rparr>,
     \<lparr>a_id = ''alarm_definitions'', a_kind = ''alarm_definitions'', a_format = ''csv-rfc4180'', a_path = ''/b/l'', a_contents = demo_contents ''/b/l''\<rparr>]"
  by (simp add: demo_eval del: ebind_eq_Inr)

lemmas csv_reader_defs = read_rows_def header_map_def trim_def is_blank_def csv_chars require_columns_def
  check_row_width_def push_at_def record_source_def emit_def cell_def

lemma demo_import_runs:
  "\<exists>model report. import_manifest demo_parse demo_chars demo_bundle default_limits ''/b/manifest.json'' =
       Inr (model, report) \<and> sfld report ''status'' = ''ok'' \<and>
     (\<exists>src \<in> set (elements_of (fld report ''artifacts'')). sfld src ''kind'' = ''controller_tags'')"
  apply (simp add: import_manifest_def demo_files demo_json0 demo_machine demo_artifacts Let_def contains_def
      del: ebind_eq_Inr)
  apply (simp add: read_contents_def find_artifact_def when_given_def optional_artifact_def parse_assets_def
      demo_json records_array_def del: ebind_eq_Inr)
  apply (simp add: import_asset_def demo_eval import_start_def import_aliases_def csv_reader_defs del: ebind_eq_Inr)
  apply (simp add: demo_eval parse_relationships_def csv_reader_defs del: ebind_eq_Inr)
  apply (simp add: demo_eval parse_tags_def csv_reader_defs import_tag_def place_tag_def del: ebind_eq_Inr)
  apply (simp add: demo_eval parse_alarms_def csv_reader_defs import_alarm_def tag_with_id_def alarm_unknown_def
      threshold_of_def demo_chars_def place_alarm_def lower_def to_lower_def del: ebind_eq_Inr)
  apply (simp add: demo_eval finish_import_def sort_by_id_def source_record_def set_count_def json_set_object
      json_empty_def del: ebind_eq_Inr)
  done

theorem imported_model_accepted_iff_witness:
  "\<exists>model report. import_manifest demo_parse demo_chars demo_bundle default_limits ''/b/manifest.json'' = Inr (model, report) \<and>
     ((\<exists>ix. index_model (\<lambda>_. Inl (JsonException 316)) model = Inr ix) \<longrightarrow> length (decls model ''assets'') \<le> 256)"
proof -
  obtain model report where r:
    "import_manifest demo_parse demo_chars demo_bundle default_limits ''/b/manifest.json'' = Inr (model, report)"
    using demo_import_runs by auto
  from imported_model_accepted_iff [OF r] r show ?thesis by blast
qed

theorem import_accounts_for_records_witness:
  "\<exists>model report src. import_manifest demo_parse demo_chars demo_bundle default_limits ''/b/manifest.json'' =
       Inr (model, report) \<and> src \<in> set (elements_of (fld report ''artifacts'')) \<and>
     fld src ''records'' = JUInt (of_nat (length (decls model ''tags'')))"
proof -
  obtain model report src where r:
    "import_manifest demo_parse demo_chars demo_bundle default_limits ''/b/manifest.json'' = Inr (model, report)"
    "src \<in> set (elements_of (fld report ''artifacts''))" "sfld src ''kind'' = ''controller_tags''"
    "sfld report ''status'' = ''ok''"
    using demo_import_runs by blast
  from import_accounts_for_records [OF r(1,2), of "''tags''"] r show ?thesis by auto
qed

end
