(* ===== verification/Retrieval.thy ===== *)
theory Retrieval
  imports Inference "HOL-Library.Sublist"
begin

text \<open>
  Retrieval of the part of a model that an operator prompt is about
  (\<open>retrieve\<close> in \<open>context_retrieval.cpp\<close>): tokenisation, scoring of assets, scope, and the loop
  that drops evidence until the serialised result fits its budget. \<open>retrieve\<close> validates the
  model first, so every \<open>at(key).get<\<dots>>()\<close> it makes afterwards finds a member of the right kind;
  these accesses are the total \<open>fld\<close> and \<open>sfld\<close> here. Serialisation is an argument.
  \<open>std::unordered_set\<close>s are lists used through membership and size.
\<close>

section \<open>Terms\<close>

definition ascii_alphanumeric :: "char \<Rightarrow> bool" where
  "ascii_alphanumeric c \<longleftrightarrow> is_lower c \<or> is_upper c \<or> is_digit c"

definition synonyms :: "(string \<times> string) list" where
  "synonyms =
     [(''one'', ''1''), (''first'', ''1''), (''two'', ''2''), (''second'', ''2''), (''three'', ''3''), (''third'', ''3''),
      (''four'', ''4''), (''fourth'', ''4''), (''five'', ''5''), (''fifth'', ''5''), (''warning'', ''alarm''),
      (''warnings'', ''alarm''), (''alert'', ''alarm''), (''alerts'', ''alarm''), (''trips'', ''alarm''),
      (''reading'', ''overview''), (''readings'', ''overview''), (''measurements'', ''overview''),
      (''dashboard'', ''overview''), (''display'', ''overview''), (''show'', ''overview''),
      (''monitor'', ''overview''), (''inspect'', ''overview''), (''summary'', ''overview''),
      (''temp'', ''temperature'')]"

definition canonical_term :: "string \<Rightarrow> string" where
  "canonical_term term = (case map_of synonyms term of None \<Rightarrow> term | Some t \<Rightarrow> t)"

text \<open>The loop of \<open>terms_for\<close>: the terms so far and the current one.\<close>

fun split_terms :: "string \<Rightarrow> string \<Rightarrow> string list" where
  "split_terms current [] = (if current \<noteq> [] then [canonical_term current] else [])"
| "split_terms current (c # text) =
     (if ascii_alphanumeric c then split_terms (current @ [to_lower c]) text
      else if current \<noteq> [] then canonical_term current # split_terms [] text
      else split_terms [] text)"

definition terms_for :: "string \<Rightarrow> string list" where
  "terms_for text = remdups_adj (sort (split_terms [] text))"

definition has_scope_phrase :: "string \<Rightarrow> bool" where
  "has_scope_phrase prompt =
     (let normalized = '' '' @ map (\<lambda>c. if ascii_alphanumeric c then to_lower c else CHR '' '') prompt @ '' ''
      in has_substring '' for '' normalized \<or> has_substring '' on '' normalized \<or>
         has_substring '' from '' normalized \<or> has_substring '' at '' normalized)"

definition numeric_terms :: "string list \<Rightarrow> string list" where
  "numeric_terms terms = filter (\<lambda>t. t \<noteq> [] \<and> list_all is_digit t) terms"

definition alias_texts :: "json \<Rightarrow> string list" where
  "alias_texts asset = (if contains asset ''aliases'' then map str_of (elements_of (fld asset ''aliases'')) else [])"

definition asset_terms :: "json \<Rightarrow> string list" where
  "asset_terms asset =
     remdups_adj (sort (concat (map terms_for
       ([sfld asset ''id'', sfld asset ''name'', sfld asset ''kind''] @ alias_texts asset))))"

text \<open>Whether a text has terms and all of them are in the prompt.\<close>

definition all_present :: "string list \<Rightarrow> string list \<Rightarrow> bool" where
  "all_present prompt_terms terms \<longleftrightarrow> terms \<noteq> [] \<and> list_all (\<lambda>t. t \<in> set prompt_terms) terms"

definition task_hints :: "string list \<Rightarrow> string list" where
  "task_hints prompt_terms =
     (if ''alarm'' \<in> set prompt_terms then [''alarms'']
      else if ''overview'' \<in> set prompt_terms \<or> ''status'' \<in> set prompt_terms \<or> ''state'' \<in> set prompt_terms
      then [''overview''] else [])"

definition measurement_role_hints :: "json list \<Rightarrow> string list \<Rightarrow> string list" where
  "measurement_role_hints tags prompt_terms =
     remdups_adj (sort (map (\<lambda>tag. sfld tag ''role'')
       (filter (\<lambda>tag. all_present prompt_terms (terms_for (sfld tag ''role'')) \<or>
                      all_present prompt_terms (terms_for (sfld tag ''name''))) tags)))"

section \<open>Limits\<close>

record retrieval_limits =
  r_candidates :: nat
  r_assets :: nat
  r_relationships :: nat
  r_tags :: nat
  r_alarms :: nat
  r_max_serialized_bytes :: nat
  r_max_estimated_tokens :: nat

definition default_retrieval_limits :: retrieval_limits where
  "default_retrieval_limits = \<lparr>r_candidates = 12, r_assets = 16, r_relationships = 64, r_tags = 128,
     r_alarms = 128, r_max_serialized_bytes = 12288, r_max_estimated_tokens = 3072\<rparr>"

definition retrieval_limits_ok :: "retrieval_limits \<Rightarrow> bool" where
  "retrieval_limits_ok lm \<longleftrightarrow>
     \<not> (r_candidates lm = 0 \<or> r_assets lm = 0 \<or> r_relationships lm = 0 \<or> r_tags lm = 0 \<or> r_alarms lm = 0 \<or>
        r_max_serialized_bytes lm < 1024 \<or> r_max_serialized_bytes lm > 65536 \<or>
        r_max_estimated_tokens lm < 256 \<or> r_max_estimated_tokens lm > 16384)"

definition estimated_tokens :: "nat \<Rightarrow> nat" where
  "estimated_tokens bytes = (bytes + 3) div 4"

definition within_budget :: "(json \<Rightarrow> string res) \<Rightarrow> retrieval_limits \<Rightarrow> json \<Rightarrow> bool res" where
  "within_budget dump lm v =
     ebind (dump v) (\<lambda>text. Inr (length text \<le> r_max_serialized_bytes lm \<and>
       estimated_tokens (length text) \<le> r_max_estimated_tokens lm))"

section \<open>Scoring\<close>

record candidate =
  cd_asset :: json
  cd_score :: nat
  cd_reasons :: "string list"

definition term_score :: "string \<Rightarrow> nat" where
  "term_score t = (if length t > 2 then 12 else 4)"

definition number_conflict :: "string list \<Rightarrow> string list \<Rightarrow> bool" where
  "number_conflict prompt_numbers asset_numbers \<longleftrightarrow>
     prompt_numbers \<noteq> [] \<and> \<not> list_ex (\<lambda>n. n \<in> set asset_numbers) prompt_numbers"

definition score_asset :: "string list \<Rightarrow> json \<Rightarrow> candidate" where
  "score_asset prompt_terms asset =
     (let terms = asset_terms asset;
          hits = filter (\<lambda>t. t \<in> set prompt_terms) terms;
          declared = (if all_present prompt_terms (terms_for (sfld asset ''id'')) then [(80, ''declared-id'')] else []) @
            (if all_present prompt_terms (terms_for (sfld asset ''name'')) then [(100, ''declared-name'')] else []) @
            (if list_ex (\<lambda>alias. all_present prompt_terms (terms_for alias)) (alias_texts asset)
             then [(90, ''declared-alias'')] else [])
      in if number_conflict (numeric_terms prompt_terms) (numeric_terms terms)
         then \<lparr>cd_asset = asset, cd_score = 0, cd_reasons = []\<rparr>
         else \<lparr>cd_asset = asset, cd_score = sum_list (map term_score hits) + sum_list (map fst declared),
               cd_reasons = map (\<lambda>t. ''term:'' @ t) hits @ map snd declared\<rparr>)"

text \<open>
  \<open>std::sort\<close> by descending score, then by identifier: two stable sorts, the less significant
  key first.
\<close>

definition candidate_id :: "candidate \<Rightarrow> string" where
  "candidate_id c = sfld (cd_asset c) ''id''"

definition score_assets :: "string list \<Rightarrow> json list \<Rightarrow> candidate list" where
  "score_assets prompt_terms assets =
     sort_key (\<lambda>c. - int (cd_score c)) (sort_key candidate_id
       (filter (\<lambda>c. cd_score c > 0) (map (score_asset prompt_terms) assets)))"

definition kind_mentioned :: "string list \<Rightarrow> json list \<Rightarrow> bool" where
  "kind_mentioned prompt_terms assets \<longleftrightarrow>
     list_ex (\<lambda>t. t \<in> set (concat (map (\<lambda>a. terms_for (sfld a ''kind'')) assets))) prompt_terms"

definition specific_reference :: "string \<Rightarrow> string list \<Rightarrow> json list \<Rightarrow> candidate list \<Rightarrow> bool" where
  "specific_reference prompt prompt_terms assets scored \<longleftrightarrow>
     kind_mentioned prompt_terms assets \<or> numeric_terms prompt_terms \<noteq> [] \<or>
     (scored = [] \<and> has_scope_phrase prompt) \<or> list_ex (\<lambda>c. cd_score c \<ge> 80) scored"

definition eligibility_score :: "candidate list \<Rightarrow> nat" where
  "eligibility_score scored =
     (let best = (if scored = [] then 0 else cd_score (hd scored)) in if best < 12 then 0 else best)"

definition is_eligible :: "candidate list \<Rightarrow> candidate \<Rightarrow> bool" where
  "is_eligible scored c \<longleftrightarrow> eligibility_score scored > 0 \<and> cd_score c = eligibility_score scored"

text \<open>The first loop over the scored assets stops at the candidate limit.\<close>

definition shown_candidates :: "retrieval_limits \<Rightarrow> candidate list \<Rightarrow> candidate list" where
  "shown_candidates lm scored = take (r_candidates lm) scored"

definition candidate_json :: "candidate list \<Rightarrow> candidate \<Rightarrow> json" where
  "candidate_json scored c =
     jobj [(''asset_id'', JStr (candidate_id c)), (''name'', fld (cd_asset c) ''name''),
           (''kind'', fld (cd_asset c) ''kind''), (''score'', JInt (of_nat (cd_score c))),
           (''eligible'', JBool (is_eligible scored c)), (''reasons'', JArr (map JStr (cd_reasons c)))]"

definition eligible_ids :: "retrieval_limits \<Rightarrow> candidate list \<Rightarrow> string list" where
  "eligible_ids lm scored = map candidate_id (filter (is_eligible scored) (shown_candidates lm scored))"

text \<open>The second loop adds the eligible ones that the first did not show.\<close>

definition all_eligible_ids :: "retrieval_limits \<Rightarrow> candidate list \<Rightarrow> string list" where
  "all_eligible_ids lm scored =
     foldl (\<lambda>ids c. if cd_score c = eligibility_score scored \<and> candidate_id c \<notin> set ids
                     then ids @ [candidate_id c] else ids) (eligible_ids lm scored) scored"

section \<open>Scope\<close>

definition decl_id :: "json \<Rightarrow> string" where
  "decl_id j = sfld j ''id''"

text \<open>
  Without an eligible asset, a request that refers to no equipment in particular is about all of
  them, up to the limit. \<open>insert\<close> into the set of identifiers keeps it without duplicates.
\<close>

definition base_scope :: "retrieval_limits \<Rightarrow> bool \<Rightarrow> string list \<Rightarrow> json list \<Rightarrow> string list \<times> bool" where
  "base_scope lm specific eligible assets =
     (if eligible = [] \<and> \<not> specific
      then foldl (\<lambda>(ids, truncated) a.
             if length ids \<ge> r_assets lm then (ids, True) else (List.insert (decl_id a) ids, truncated))
           ([], False) assets
      else (eligible, False))"

definition grow_scope :: "retrieval_limits \<Rightarrow> string list \<times> bool \<Rightarrow> json \<Rightarrow> string list \<times> bool" where
  "grow_scope lm = (\<lambda>(ids, truncated) rel.
     let from = sfld rel ''from''; to = sfld rel ''to''
     in if from \<in> set ids \<and> length ids < r_assets lm then (List.insert to ids, truncated)
        else if to \<in> set ids \<and> length ids < r_assets lm then (List.insert from ids, truncated)
        else if (from \<in> set ids \<and> to \<notin> set ids) \<or> (to \<in> set ids \<and> from \<notin> set ids) then (ids, True)
        else (ids, truncated))"

definition scope_of ::
  "retrieval_limits \<Rightarrow> bool \<Rightarrow> string list \<Rightarrow> json list \<Rightarrow> json list \<Rightarrow> string list \<times> bool" where
  "scope_of lm specific eligible assets rels =
     (let base = base_scope lm specific eligible assets
      in if length (fst base) = 1 then foldl (grow_scope lm) base rels else base)"

definition ordered_scope :: "string list \<Rightarrow> string list \<Rightarrow> json list \<Rightarrow> string list" where
  "ordered_scope eligible scope assets =
     foldl (\<lambda>ids a. if decl_id a \<in> set scope \<and> decl_id a \<notin> set ids then ids @ [decl_id a] else ids)
       eligible assets"

text \<open>The compact copies of the declarations.\<close>

definition copy_of :: "json \<Rightarrow> string list \<Rightarrow> json" where
  "copy_of j ks = jobj (map (\<lambda>k. (k, fld j k)) ks)"

definition compact_asset :: "json \<Rightarrow> json" where
  "compact_asset a =
     (let compact = copy_of a [''id'', ''name'', ''kind'']
      in if contains a ''aliases'' then oset compact ''aliases'' (fld a ''aliases'') else compact)"

definition retrieved_assets :: "retrieval_limits \<Rightarrow> string list \<Rightarrow> json list \<Rightarrow> json list" where
  "retrieved_assets lm ordered assets =
     foldl (\<lambda>out k. if length out \<ge> r_assets lm then out
                     else case find (\<lambda>a. decl_id a = k) assets of
                       None \<Rightarrow> out | Some a \<Rightarrow> out @ [compact_asset a]) [] ordered"

definition relevant_relationships :: "string list \<Rightarrow> json list \<Rightarrow> json list" where
  "relevant_relationships scope rels =
     filter (\<lambda>r. sfld r ''from'' \<in> set scope \<and> sfld r ''to'' \<in> set scope) rels"

definition relationship_copy :: "json \<Rightarrow> json" where
  "relationship_copy r = copy_of r [''id'', ''from'', ''to'', ''kind'']"

definition owned_by :: "string list \<Rightarrow> json list \<Rightarrow> json list" where
  "owned_by ids ds = filter (\<lambda>d. sfld d ''asset_id'' \<in> set ids) ds"

definition tag_copy :: "json \<Rightarrow> json" where
  "tag_copy t = copy_of t [''id'', ''asset_id'', ''name'', ''role'', ''data_type'', ''unit'']"

definition alarm_copy :: "json \<Rightarrow> json" where
  "alarm_copy a = copy_of a [''id'', ''asset_id'', ''name'', ''tag_id'', ''severity'']"

text \<open>The first tag of each requested role comes first, then the others in document order.\<close>

definition listed :: "json list \<Rightarrow> json \<Rightarrow> bool" where
  "listed ts t \<longleftrightarrow> list_ex (\<lambda>u. decl_id u = decl_id t) ts"

definition place_role :: "json list \<Rightarrow> json list \<Rightarrow> string \<Rightarrow> json list" where
  "place_role tags out role =
     (case find (\<lambda>t. sfld t ''role'' = role \<and> \<not> listed out t) tags of
        None \<Rightarrow> out | Some t \<Rightarrow> out @ [t])"

definition ordered_tags :: "string list \<Rightarrow> json list \<Rightarrow> json list" where
  "ordered_tags roles tags =
     foldl (\<lambda>out t. if listed out t then out else out @ [t]) (foldl (place_role tags) [] roles) tags"

section \<open>The result\<close>

text \<open>
  What \<open>retrieve\<close> fixes before its loop, and the variables the loop changes: the arrays, the
  role hints, the prompt terms of the result and the flags under \<open>truncated\<close>.
\<close>

record retrieval_facts =
  rf_model :: json
  rf_limits :: retrieval_limits
  rf_hints :: "string list"
  rf_requested_roles :: nat
  rf_specific :: bool
  rf_all_eligible :: nat

record retrieval_state =
  rs_candidates :: "json list"
  rs_assets :: "json list"
  rs_relationships :: "json list"
  rs_tags :: "json list"
  rs_alarms :: "json list"
  rs_roles :: "string list"
  rs_terms :: "string list"
  rs_eligible :: "string list"
  rs_clarify :: bool
  rs_cut_candidates :: bool
  rs_cut_assets :: bool
  rs_cut_relationships :: bool
  rs_cut_tags :: bool
  rs_cut_alarms :: bool
  rs_cut_roles :: bool
  rs_cut_budget :: bool

definition jstrs :: "string list \<Rightarrow> json" where
  "jstrs xs = JArr (map JStr xs)"

definition jcount :: "nat \<Rightarrow> json" where
  "jcount n = JUInt (of_nat n)"

definition limits_json :: "retrieval_limits \<Rightarrow> json" where
  "limits_json lm = jobj
     [(''candidate_limit'', jcount (r_candidates lm)), (''asset_limit'', jcount (r_assets lm)),
      (''relationship_limit'', jcount (r_relationships lm)), (''tag_limit'', jcount (r_tags lm)),
      (''alarm_limit'', jcount (r_alarms lm)), (''serialized_byte_limit'', jcount (r_max_serialized_bytes lm)),
      (''estimated_token_limit'', jcount (r_max_estimated_tokens lm))]"

definition scope_json :: "retrieval_state \<Rightarrow> json" where
  "scope_json st = jobj [(''assets'', JArr (rs_assets st)), (''relationships'', JArr (rs_relationships st)),
     (''tags'', JArr (rs_tags st)), (''alarms'', JArr (rs_alarms st))]"

definition truncated_json :: "retrieval_state \<Rightarrow> json" where
  "truncated_json st = jobj
     [(''candidates'', JBool (rs_cut_candidates st)), (''assets'', JBool (rs_cut_assets st)),
      (''relationships'', JBool (rs_cut_relationships st)), (''tags'', JBool (rs_cut_tags st)),
      (''alarms'', JBool (rs_cut_alarms st)), (''measurement_roles'', JBool (rs_cut_roles st)),
      (''serialized_bytes'', JBool (rs_cut_budget st)), (''estimated_tokens'', JBool (rs_cut_budget st))]"

definition retrieval_json :: "retrieval_facts \<Rightarrow> retrieval_state \<Rightarrow> json" where
  "retrieval_json fx st = jobj
     [(''schema_version'', JStr ''context-retrieval/1''), (''model_id'', fld (rf_model fx) ''model_id''),
      (''model_revision'', fld (rf_model fx) ''revision''), (''prompt_terms'', jstrs (rs_terms st)),
      (''task_hints'', jstrs (rf_hints fx)), (''measurement_role_hints'', jstrs (rs_roles st)),
      (''requested_measurement_role_count'', jcount (rf_requested_roles fx)),
      (''specific_asset_reference'', JBool (rf_specific fx)), (''requires_clarification'', JBool (rs_clarify st)),
      (''eligible_asset_ids'', jstrs (rs_eligible st)), (''eligible_asset_count'', jcount (rf_all_eligible fx)),
      (''candidates'', JArr (rs_candidates st)), (''scope'', scope_json st),
      (''limits'', limits_json (rf_limits fx)), (''truncated'', truncated_json st)]"

section \<open>Fitting the budget\<close>

text \<open>\<open>erase\<close> of the last element that satisfies a test, as the reverse loops do.\<close>

fun erase_last :: "('a \<Rightarrow> bool) \<Rightarrow> 'a list \<Rightarrow> 'a list option" where
  "erase_last P [] = None"
| "erase_last P (x # xs) =
     (case erase_last P xs of Some ys \<Rightarrow> Some (x # ys) | None \<Rightarrow> if P x then Some xs else None)"

type_synonym shrink_step = "retrieval_state \<Rightarrow> retrieval_state option"

definition drop_candidate :: shrink_step where
  "drop_candidate st =
     map_option (\<lambda>cs. st\<lparr>rs_candidates := cs, rs_cut_candidates := True\<rparr>)
       (erase_last (\<lambda>c. fld c ''eligible'' \<noteq> JBool True) (rs_candidates st))"

definition drop_asset :: shrink_step where
  "drop_asset st =
     map_option (\<lambda>as. st\<lparr>rs_assets := as, rs_cut_assets := True\<rparr>)
       (erase_last (\<lambda>a. decl_id a \<notin> set (rs_eligible st)) (rs_assets st))"

definition drop_relationship :: shrink_step where
  "drop_relationship st =
     (if rs_relationships st = [] then None
      else Some (st\<lparr>rs_relationships := butlast (rs_relationships st), rs_cut_relationships := True\<rparr>))"

definition drop_alarm :: shrink_step where
  "drop_alarm st =
     (if rs_alarms st = [] then None
      else Some (st\<lparr>rs_alarms := butlast (rs_alarms st), rs_cut_alarms := True\<rparr>))"

definition drop_tag :: shrink_step where
  "drop_tag st =
     (if length (rs_tags st) > length (rs_roles st)
      then Some (st\<lparr>rs_tags := butlast (rs_tags st), rs_cut_tags := True\<rparr>) else None)"

definition drop_role :: shrink_step where
  "drop_role st =
     (if rs_roles st = [] then None
      else Some (st\<lparr>rs_roles := butlast (rs_roles st), rs_clarify := True, rs_cut_roles := True\<rparr>))"

fun erase_first_aliases :: "json list \<Rightarrow> json list option" where
  "erase_first_aliases [] = None"
| "erase_first_aliases (a # as) =
     (if contains a ''aliases'' then Some (oerase a ''aliases'' # as)
      else map_option ((#) a) (erase_first_aliases as))"

definition drop_aliases :: shrink_step where
  "drop_aliases st =
     map_option (\<lambda>as. st\<lparr>rs_assets := as, rs_cut_assets := True\<rparr>) (erase_first_aliases (rs_assets st))"

definition drop_term :: shrink_step where
  "drop_term st =
     (if rs_terms st = [] then None else Some (st\<lparr>rs_terms := butlast (rs_terms st)\<rparr>))"

definition drop_eligible :: "retrieval_facts \<Rightarrow> shrink_step" where
  "drop_eligible fx st =
     (if rs_eligible st \<noteq> [] \<and> rf_all_eligible fx > 1
      then Some (st\<lparr>rs_eligible := butlast (rs_eligible st)\<rparr>) else None)"

text \<open>The body of the loop: the first change that applies (\<open>changed\<close>).\<close>

fun first_change :: "shrink_step list \<Rightarrow> shrink_step" where
  "first_change [] st = None"
| "first_change (f # fs) st = (case f st of Some st' \<Rightarrow> Some st' | None \<Rightarrow> first_change fs st)"

definition shrink_steps :: "retrieval_facts \<Rightarrow> shrink_step list" where
  "shrink_steps fx = [drop_candidate, drop_asset, drop_relationship, drop_alarm, drop_tag, drop_role,
     drop_aliases, drop_term, drop_eligible fx]"

definition shrink :: "retrieval_facts \<Rightarrow> shrink_step" where
  "shrink fx st = map_option (rs_cut_budget_update (\<lambda>_. True)) (first_change (shrink_steps fx) st)"

definition budget_too_small :: exn where
  "budget_too_small =
     DomainError ''invalid_request'' ''retrieval budget is too small for declared identity''"

definition evidence_size :: "retrieval_state \<Rightarrow> nat" where
  "evidence_size st =
     length (rs_candidates st) + length (rs_assets st) + length (rs_relationships st) +
     length (rs_alarms st) + length (rs_tags st) + length (rs_roles st) +
     length (filter (\<lambda>a. contains a ''aliases'') (rs_assets st)) + length (rs_terms st) +
     length (rs_eligible st)"

text \<open>Every step takes something away.\<close>

lemma erase_last_Some:
  "erase_last P xs = Some ys \<Longrightarrow> \<exists>as x bs. xs = as @ x # bs \<and> ys = as @ bs \<and> P x"
proof (induction xs arbitrary: ys)
  case (Cons z zs)
  show ?case
  proof (cases "erase_last P zs")
    case None
    with Cons.prems have "ys = zs" "P z" by (auto split: if_splits)
    then show ?thesis by (intro exI [of _ "[]"]) simp
  next
    case (Some ws)
    then obtain as x bs where "zs = as @ x # bs" "ws = as @ bs" "P x" using Cons.IH by blast
    with Some Cons.prems show ?thesis by (intro exI [of _ "z # as"]) auto
  qed
qed simp

lemma erase_last_None: "erase_last P xs = None \<longleftrightarrow> list_all (\<lambda>x. \<not> P x) xs"
  by (induction xs) (auto split: option.splits)

lemma erase_first_aliases_Some:
  "erase_first_aliases xs = Some ys \<Longrightarrow>
     \<exists>as x bs. xs = as @ x # bs \<and> ys = as @ oerase x ''aliases'' # bs \<and> contains x ''aliases''"
proof (induction xs arbitrary: ys)
  case (Cons z zs)
  show ?case
  proof (cases "contains z ''aliases''")
    case True
    with Cons.prems show ?thesis by (intro exI [of _ "[]"]) auto
  next
    case False
    with Cons.prems obtain ws where "erase_first_aliases zs = Some ws" "ys = z # ws" by auto
    moreover from this obtain as x bs where "zs = as @ x # bs" "ws = as @ oerase x ''aliases'' # bs"
      "contains x ''aliases''" using Cons.IH by blast
    ultimately show ?thesis by (intro exI [of _ "z # as"]) simp
  qed
qed simp

lemma first_change_invariant:
  assumes "first_change fs st = Some st'" and "\<And>f st'. f \<in> set fs \<Longrightarrow> f st = Some st' \<Longrightarrow> P st'"
  shows "P st'"
  using assms by (induction fs) (auto split: option.splits)

lemma first_change_None: "first_change fs st = None \<longleftrightarrow> (\<forall>f \<in> set fs. f st = None)"
  by (induction fs) (auto split: option.splits)

lemmas shrink_step_defs = drop_candidate_def drop_asset_def drop_relationship_def drop_alarm_def
  drop_tag_def drop_role_def drop_aliases_def drop_term_def drop_eligible_def

lemma shrink_smaller: "shrink fx st = Some st' \<Longrightarrow> evidence_size st' < evidence_size st"
proof -
  assume "shrink fx st = Some st'"
  then obtain s where s: "first_change (shrink_steps fx) st = Some s" "st' = s\<lparr>rs_cut_budget := True\<rparr>"
    by (auto simp: shrink_def)
  have "evidence_size s < evidence_size st"
    using s(1)
  proof (rule first_change_invariant)
    fix f s' assume "f \<in> set (shrink_steps fx)" and f: "f st = Some s'"
    then consider "f = drop_candidate" | "f = drop_asset" | "f = drop_aliases"
      | "f \<in> {drop_relationship, drop_alarm, drop_tag, drop_role, drop_term, drop_eligible fx}"
      by (auto simp: shrink_steps_def)
    then show "evidence_size s' < evidence_size st"
      by cases (use f in \<open>auto simp: shrink_step_defs evidence_size_def split: if_splits
          dest!: erase_last_Some erase_first_aliases_Some\<close>)
  qed
  with s(2) show ?thesis by (simp add: evidence_size_def)
qed

function budget_loop ::
  "(json \<Rightarrow> string res) \<Rightarrow> retrieval_facts \<Rightarrow> retrieval_state \<Rightarrow> retrieval_state res" where
  "budget_loop dump fx st =
     ebind (within_budget dump (rf_limits fx) (retrieval_json fx st)) (\<lambda>fits.
       if fits then Inr st
       else case shrink fx st of
              None \<Rightarrow> Inl budget_too_small
            | Some st' \<Rightarrow> budget_loop dump fx st')"
  by pat_completeness auto
termination
  by (relation "measure (\<lambda>(dump, fx, st). evidence_size st)") (auto dest: shrink_smaller)

declare budget_loop.simps [simp del]

section \<open>Retrieval\<close>

definition retrieval_prompt_ok :: "string \<Rightarrow> bool" where
  "retrieval_prompt_ok prompt \<longleftrightarrow> \<not> (prompt = [] \<or> length prompt > 8192)"

text \<open>The tags and alarms in scope belong to the eligible assets when there are any.\<close>

definition measurement_scope :: "string list \<Rightarrow> string list \<Rightarrow> string list" where
  "measurement_scope scope eligible = (if eligible \<noteq> [] then eligible else scope)"

definition request_hints :: "string list \<Rightarrow> string list \<Rightarrow> string list" where
  "request_hints prompt_terms roles =
     (let hints = task_hints prompt_terms in if hints = [] \<and> roles \<noteq> [] then [''overview''] else hints)"

definition retrieval_facts_of :: "json \<Rightarrow> string \<Rightarrow> retrieval_limits \<Rightarrow> string list \<Rightarrow> retrieval_facts" where
  "retrieval_facts_of model prompt lm roles =
     (let terms = terms_for prompt; assets = elements_of (fld model ''assets'');
          scored = score_assets terms assets
      in \<lparr>rf_model = model, rf_limits = lm, rf_hints = request_hints terms roles,
          rf_requested_roles = length roles, rf_specific = specific_reference prompt terms assets scored,
          rf_all_eligible = length (all_eligible_ids lm scored)\<rparr>)"

definition asked_roles :: "json \<Rightarrow> string list \<Rightarrow> string list \<Rightarrow> string list" where
  "asked_roles model terms measured =
     measurement_role_hints (owned_by measured (elements_of (fld model ''tags''))) terms"

definition initial_evidence ::
  "json \<Rightarrow> retrieval_limits \<Rightarrow> string list \<Rightarrow> bool \<Rightarrow> candidate list \<Rightarrow> retrieval_state" where
  "initial_evidence model lm terms specific scored =
     (let assets = elements_of (fld model ''assets''); rels = elements_of (fld model ''relationships'');
          eligible = eligible_ids lm scored; all_eligible = all_eligible_ids lm scored;
          (scope, scope_truncated) = scope_of lm specific eligible assets rels;
          measured = measurement_scope scope eligible;
          shown = retrieved_assets lm (ordered_scope eligible scope assets) assets;
          relevant = relevant_relationships scope rels;
          tags = owned_by measured (elements_of (fld model ''tags''));
          alarms = owned_by measured (elements_of (fld model ''alarms''));
          roles = asked_roles model terms measured
      in \<lparr>rs_candidates = map (candidate_json scored) (shown_candidates lm scored),
          rs_assets = shown,
          rs_relationships = map relationship_copy (take (r_relationships lm) relevant),
          rs_tags = map tag_copy (take (r_tags lm) (ordered_tags roles tags)),
          rs_alarms = map alarm_copy (take (r_alarms lm) alarms),
          rs_roles = roles, rs_terms = terms, rs_eligible = eligible,
          rs_clarify = (length all_eligible > 1 \<or> (specific \<and> eligible = [])),
          rs_cut_candidates = (length scored > length (shown_candidates lm scored) \<or>
            length all_eligible > length eligible),
          rs_cut_assets = (scope_truncated \<or> length scope > length shown),
          rs_cut_relationships = (length relevant > r_relationships lm),
          rs_cut_tags = (length tags > length (take (r_tags lm) (ordered_tags roles tags))),
          rs_cut_alarms = (length alarms > r_alarms lm),
          rs_cut_roles = False, rs_cut_budget = False\<rparr>)"

definition initial_state :: "json \<Rightarrow> string \<Rightarrow> retrieval_limits \<Rightarrow> retrieval_state" where
  "initial_state model prompt lm =
     (let terms = terms_for prompt; assets = elements_of (fld model ''assets'');
          scored = score_assets terms assets
      in initial_evidence model lm terms (specific_reference prompt terms assets scored) scored)"

definition retrieve :: "(json \<Rightarrow> string res) \<Rightarrow> json \<Rightarrow> string \<Rightarrow> retrieval_limits \<Rightarrow> json res" where
  "retrieve dump model prompt lm =
     ebind (validate_model dump model) (\<lambda>_.
     if \<not> retrieval_prompt_ok prompt
     then Inl (DomainError ''invalid_request'' ''retrieval prompt must be nonempty and bounded'')
     else if \<not> retrieval_limits_ok lm
     then Inl (DomainError ''invalid_request'' ''retrieval limits must be positive'')
     else let st = initial_state model prompt lm;
              fx = retrieval_facts_of model prompt lm (rs_roles st)
          in ebind (budget_loop dump fx st) (\<lambda>st'. Inr (retrieval_json fx st')))"

section \<open>What the loop keeps\<close>

definition marked_eligible :: "json \<Rightarrow> bool" where
  "marked_eligible c \<longleftrightarrow> fld c ''eligible'' = JBool True"

definition same_asset :: "json \<Rightarrow> json \<Rightarrow> bool" where
  "same_asset a b \<longleftrightarrow> a = b \<or> a = oerase b ''aliases''"

definition kept_candidates :: "retrieval_state \<Rightarrow> retrieval_state \<Rightarrow> bool" where
  "kept_candidates s0 st \<longleftrightarrow>
     set (rs_candidates st) \<subseteq> set (rs_candidates s0) \<and>
     length (rs_candidates st) \<le> length (rs_candidates s0) \<and>
     filter marked_eligible (rs_candidates st) = filter marked_eligible (rs_candidates s0)"

definition kept_assets :: "retrieval_state \<Rightarrow> retrieval_state \<Rightarrow> bool" where
  "kept_assets s0 st \<longleftrightarrow>
     length (rs_assets st) \<le> length (rs_assets s0) \<and>
     (\<forall>a \<in> set (rs_assets st). \<exists>b \<in> set (rs_assets s0). same_asset a b) \<and>
     (\<forall>b \<in> set (rs_assets s0). decl_id b \<in> set (rs_eligible st) \<longrightarrow>
        (\<exists>a \<in> set (rs_assets st). same_asset a b))"

definition kept_prefixes :: "retrieval_state \<Rightarrow> retrieval_state \<Rightarrow> bool" where
  "kept_prefixes s0 st \<longleftrightarrow>
     prefix (rs_relationships st) (rs_relationships s0) \<and> prefix (rs_alarms st) (rs_alarms s0)"

definition kept_eligible :: "retrieval_facts \<Rightarrow> retrieval_state \<Rightarrow> retrieval_state \<Rightarrow> bool" where
  "kept_eligible fx s0 st \<longleftrightarrow>
     prefix (rs_eligible st) (rs_eligible s0) \<and>
     (rs_eligible st = rs_eligible s0 \<or> rf_all_eligible fx > 1)"

definition kept_roles :: "retrieval_state \<Rightarrow> retrieval_state \<Rightarrow> bool" where
  "kept_roles s0 st \<longleftrightarrow>
     prefix (rs_tags st) (rs_tags s0) \<and> prefix (rs_roles st) (rs_roles s0) \<and>
     min (length (rs_tags s0)) (length (rs_roles st)) \<le> length (rs_tags st) \<and>
     rs_clarify st = (rs_clarify s0 \<or> rs_roles st \<noteq> rs_roles s0)"

definition shrunk :: "retrieval_facts \<Rightarrow> retrieval_state \<Rightarrow> retrieval_state \<Rightarrow> bool" where
  "shrunk fx s0 st \<longleftrightarrow> kept_candidates s0 st \<and> kept_assets s0 st \<and> kept_prefixes s0 st \<and>
     kept_eligible fx s0 st \<and> kept_roles s0 st"

lemmas kept_defs = kept_candidates_def kept_assets_def kept_prefixes_def kept_eligible_def kept_roles_def

lemma same_asset_refl [simp]: "same_asset a a"
  by (simp add: same_asset_def)

lemma shrunk_refl: "shrunk fx st st"
  unfolding shrunk_def kept_defs by (auto intro: same_asset_refl)

lemma same_asset_erase: "same_asset a b \<Longrightarrow> same_asset (oerase a ''aliases'') b"
  by (auto simp: same_asset_def oerase_def)

lemma same_asset_id: "same_asset a b \<Longrightarrow> decl_id a = decl_id b"
  by (auto simp: same_asset_def decl_id_def sfld_def fld_def)

lemma prefix_butlast: "prefix xs ys \<Longrightarrow> prefix (butlast xs) ys"
  using prefix_order.trans prefixeq_butlast by blast

lemma butlast_less: "xs \<noteq> [] \<Longrightarrow> prefix xs ys \<Longrightarrow> butlast xs \<noteq> ys"
proof
  assume "xs \<noteq> []" "prefix xs ys" "butlast xs = ys"
  then have "length xs \<le> length ys" "length ys = length xs - 1" "0 < length xs"
    by (auto dest: prefix_length_le)
  then show False by (cases xs) simp_all
qed

lemma drop_candidate_shrunk:
  assumes inv: "shrunk fx s0 st" and step: "drop_candidate st = Some st'"
  shows "shrunk fx s0 st'"
proof -
  from step obtain as x bs where
    st': "st' = st\<lparr>rs_candidates := as @ bs, rs_cut_candidates := True\<rparr>"
    "rs_candidates st = as @ x # bs" "\<not> marked_eligible x"
    by (auto simp: drop_candidate_def marked_eligible_def dest!: erase_last_Some)
  have "kept_candidates s0 st'" using inv st' by (simp add: shrunk_def kept_candidates_def)
  with inv st'(1) show ?thesis unfolding shrunk_def kept_defs by simp
qed

lemma drop_asset_shrunk:
  assumes inv: "shrunk fx s0 st" and step: "drop_asset st = Some st'"
  shows "shrunk fx s0 st'"
proof -
  from step obtain as x bs where st': "st' = st\<lparr>rs_assets := as @ bs, rs_cut_assets := True\<rparr>"
    "rs_assets st = as @ x # bs" "decl_id x \<notin> set (rs_eligible st)"
    by (auto simp: drop_asset_def dest!: erase_last_Some)
  have ka: "kept_assets s0 st" using inv by (simp add: shrunk_def)
  have "\<exists>a \<in> set (as @ bs). same_asset a b"
    if b: "b \<in> set (rs_assets s0)" "decl_id b \<in> set (rs_eligible st)" for b
  proof -
    from ka b obtain a where a: "a \<in> set (rs_assets st)" "same_asset a b"
      unfolding kept_assets_def by blast
    with b st'(3) have "a \<noteq> x" by (auto dest: same_asset_id)
    with a st'(2) show ?thesis by auto
  qed
  with ka st' have "kept_assets s0 st'" by (simp add: kept_assets_def)
  with inv st'(1) show ?thesis unfolding shrunk_def kept_defs by simp
qed

lemma drop_aliases_shrunk:
  assumes inv: "shrunk fx s0 st" and step: "drop_aliases st = Some st'"
  shows "shrunk fx s0 st'"
proof -
  from step obtain as x bs where
    st': "st' = st\<lparr>rs_assets := as @ oerase x ''aliases'' # bs, rs_cut_assets := True\<rparr>"
    "rs_assets st = as @ x # bs"
    by (auto simp: drop_aliases_def dest!: erase_first_aliases_Some)
  have ka: "kept_assets s0 st" using inv by (simp add: shrunk_def)
  have "\<exists>a \<in> set (as @ oerase x ''aliases'' # bs). same_asset a b"
    if b: "b \<in> set (rs_assets s0)" "decl_id b \<in> set (rs_eligible st)" for b
  proof -
    from ka b obtain a where a: "a \<in> set (rs_assets st)" "same_asset a b"
      unfolding kept_assets_def by blast
    then show ?thesis using st'(2) same_asset_erase by (cases "a = x") auto
  qed
  moreover have "\<forall>a \<in> set (as @ oerase x ''aliases'' # bs). \<exists>b \<in> set (rs_assets s0). same_asset a b"
    using ka st'(2) same_asset_erase unfolding kept_assets_def by fastforce
  ultimately have "kept_assets s0 st'" using ka st' by (simp add: kept_assets_def)
  with inv st'(1) show ?thesis unfolding shrunk_def kept_defs by simp
qed

lemma drop_role_shrunk:
  assumes inv: "shrunk fx s0 st" and step: "drop_role st = Some st'"
  shows "shrunk fx s0 st'"
proof -
  from step have st': "rs_roles st \<noteq> []"
    "st' = st\<lparr>rs_roles := butlast (rs_roles st), rs_clarify := True, rs_cut_roles := True\<rparr>"
    by (simp_all add: drop_role_def split: if_splits)
  have "kept_roles s0 st" using inv by (simp add: shrunk_def)
  with st' have "kept_roles s0 st'" by (auto simp: kept_roles_def prefix_butlast butlast_less)
  with inv st'(2) show ?thesis unfolding shrunk_def kept_defs by simp
qed

lemma drop_tag_shrunk:
  assumes inv: "shrunk fx s0 st" and step: "drop_tag st = Some st'"
  shows "shrunk fx s0 st'"
proof -
  from step have st': "length (rs_tags st) > length (rs_roles st)"
    "st' = st\<lparr>rs_tags := butlast (rs_tags st), rs_cut_tags := True\<rparr>"
    by (simp_all add: drop_tag_def split: if_splits)
  have "kept_roles s0 st" using inv by (simp add: shrunk_def)
  with st' have "kept_roles s0 st'" by (auto simp: kept_roles_def prefix_butlast)
  with inv st'(2) show ?thesis unfolding shrunk_def kept_defs by simp
qed

lemma drop_eligible_shrunk:
  assumes inv: "shrunk fx s0 st" and step: "drop_eligible fx st = Some st'"
  shows "shrunk fx s0 st'"
proof -
  from step have st': "rf_all_eligible fx > 1" "st' = st\<lparr>rs_eligible := butlast (rs_eligible st)\<rparr>"
    by (simp_all add: drop_eligible_def split: if_splits)
  have "kept_eligible fx s0 st" "kept_assets s0 st" using inv by (simp_all add: shrunk_def)
  with st' have "kept_eligible fx s0 st'" "kept_assets s0 st'"
    by (simp_all add: kept_eligible_def kept_assets_def prefix_butlast in_set_butlastD)
  with inv st'(2) show ?thesis unfolding shrunk_def kept_defs by simp
qed

lemma drop_last_shrunk:
  assumes inv: "shrunk fx s0 st" and step: "f st = Some st'"
    and f: "f \<in> {drop_relationship, drop_alarm, drop_term}"
  shows "shrunk fx s0 st'"
proof -
  from step f obtain rels as ts b c where
    st': "st' = st\<lparr>rs_relationships := rels, rs_alarms := as, rs_terms := ts, rs_cut_relationships := b, rs_cut_alarms := c\<rparr>"
    "rels \<in> {rs_relationships st, butlast (rs_relationships st)}" "as \<in> {rs_alarms st, butlast (rs_alarms st)}"
    by (cases st) (force simp: shrink_step_defs split: if_splits)
  have "kept_prefixes s0 st" using inv by (simp add: shrunk_def)
  with st' have "kept_prefixes s0 st'" by (auto simp: kept_prefixes_def prefix_butlast)
  with inv st'(1) show ?thesis unfolding shrunk_def kept_defs by simp
qed

lemma shrink_shrunk:
  assumes inv: "shrunk fx s0 st" and step: "shrink fx st = Some st'"
  shows "shrunk fx s0 st'"
proof -
  from step obtain s where s: "first_change (shrink_steps fx) st = Some s" "st' = s\<lparr>rs_cut_budget := True\<rparr>"
    by (auto simp: shrink_def)
  from s(1) have "shrunk fx s0 s"
  proof (rule first_change_invariant)
    fix f s' assume "f \<in> set (shrink_steps fx)" and f: "f st = Some s'"
    then consider "f = drop_candidate" | "f = drop_asset" | "f = drop_aliases" | "f = drop_role"
      | "f = drop_eligible fx" | "f = drop_tag" | "f \<in> {drop_relationship, drop_alarm, drop_term}"
      by (auto simp: shrink_steps_def)
    then show "shrunk fx s0 s'"
      using f by cases (blast intro: inv drop_candidate_shrunk drop_asset_shrunk drop_aliases_shrunk
          drop_role_shrunk drop_eligible_shrunk drop_tag_shrunk drop_last_shrunk)+
  qed
  with s(2) show ?thesis unfolding shrunk_def kept_defs by simp
qed

lemma budget_loop_Inr:
  assumes "budget_loop dump fx st = Inr st'" and "shrunk fx s0 st"
  shows "shrunk fx s0 st' \<and> within_budget dump (rf_limits fx) (retrieval_json fx st') = Inr True"
  using assms
proof (induction dump fx st rule: budget_loop.induct)
  case (1 dump fx st)
  from 1(2) obtain b where b: "within_budget dump (rf_limits fx) (retrieval_json fx st) = Inr b"
    by (subst (asm) budget_loop.simps) auto
  show ?case
  proof (cases b)
    case True
    with 1(2,3) b show ?thesis by (subst (asm) budget_loop.simps) auto
  next
    case False
    then obtain s where s: "shrink fx st = Some s" "budget_loop dump fx s = Inr st'"
      using 1(2) b by (subst (asm) budget_loop.simps) (auto split: option.splits)
    show ?thesis using 1(1) [OF b _ s(1,2) shrink_shrunk [OF 1(3) s(1)]] False by simp
  qed
qed

section \<open>Where the evidence starts\<close>

lemma retrieved_assets_length: "length (retrieved_assets lm ordered assets) \<le> r_assets lm"
  unfolding retrieved_assets_def
  by (rule foldl_invariant [where P = "\<lambda>out. length out \<le> r_assets lm"]) (auto split: option.splits)

lemma retrieved_assets_declared: "set (retrieved_assets lm ordered assets) \<subseteq> compact_asset ` set assets"
  unfolding retrieved_assets_def
  by (rule foldl_invariant [where P = "\<lambda>out. set out \<subseteq> compact_asset ` set assets"])
    (auto split: option.splits dest!: find_Some_iff [THEN iffD1])

lemma scored_declared: "c \<in> set (score_assets terms assets) \<Longrightarrow> cd_asset c \<in> set assets"
  by (auto simp: score_assets_def score_asset_def Let_def split: if_splits)

lemma eligible_ids_declared:
  "set (eligible_ids lm (score_assets terms assets)) \<subseteq> decl_id ` set assets"
  by (auto simp: eligible_ids_def shown_candidates_def candidate_id_def decl_id_def
      dest!: in_set_takeD scored_declared)

lemma all_eligible_prefix: "prefix (eligible_ids lm scored) (all_eligible_ids lm scored)"
  unfolding all_eligible_ids_def
  by (rule foldl_invariant) (auto simp: prefix_def)

text \<open>The ids of the eligible candidates are among those shown, unless a limit hides some.\<close>

lemma owned_declared: "set (owned_by ids ds) \<subseteq> set ds"
  by (auto simp: owned_by_def)

lemma place_role_subset: "set out \<subseteq> set tags \<Longrightarrow> set (place_role tags out role) \<subseteq> set tags"
  by (auto simp: place_role_def split: option.splits dest!: find_Some_iff [THEN iffD1])

lemma set_ordered_tags: "set (ordered_tags roles tags) \<subseteq> set tags"
  unfolding ordered_tags_def
proof (rule foldl_invariant [where P = "\<lambda>out. set out \<subseteq> set tags"])
  show "set (foldl (place_role tags) [] roles) \<subseteq> set tags"
    by (rule foldl_invariant) (simp_all add: place_role_subset)
qed auto

text \<open>The tags that answer the requested roles come first, one for each, in their order.\<close>

lemma place_roles:
  assumes "distinct roles" and "set roles \<subseteq> (\<lambda>t. sfld t ''role'') ` set tags"
    and "distinct (map decl_id tags)" and "set out \<subseteq> set tags"
    and "\<forall>t \<in> set out. sfld t ''role'' \<notin> set roles"
  shows "\<exists>ts. foldl (place_role tags) out roles = out @ ts \<and> map (\<lambda>t. sfld t ''role'') ts = roles"
  using assms(1,2,4,5)
proof (induction roles arbitrary: out)
  case (Cons role roles)
  from Cons.prems(2) obtain t0 where t0: "t0 \<in> set tags" "sfld t0 ''role'' = role" by auto
  have fresh: "\<not> listed out t0"
  proof
    assume "listed out t0"
    then obtain u where u: "u \<in> set out" "decl_id u = decl_id t0"
      by (auto simp: listed_def list_ex_iff)
    with Cons.prems(3) t0(1) assms(3) have "u = t0" by (auto simp: distinct_map inj_on_def)
    with u(1) Cons.prems(4) t0(2) show False by simp
  qed
  with t0 have "find (\<lambda>t. sfld t ''role'' = role \<and> \<not> listed out t) tags \<noteq> None"
    by (auto simp: find_None_iff)
  then obtain t where "find (\<lambda>t. sfld t ''role'' = role \<and> \<not> listed out t) tags = Some t" by blast
  then have t: "place_role tags out role = out @ [t]" "sfld t ''role'' = role" "t \<in> set tags"
    by (auto simp: place_role_def dest: find_Some_iff [THEN iffD1])
  have "\<exists>ts. foldl (place_role tags) (out @ [t]) roles = (out @ [t]) @ ts \<and> map (\<lambda>t. sfld t ''role'') ts = roles"
    by (rule Cons.IH) (use Cons.prems t in auto)
  then obtain ts where "foldl (place_role tags) (out @ [t]) roles = (out @ [t]) @ ts"
    "map (\<lambda>t. sfld t ''role'') ts = roles" by blast
  with t show ?case by (intro exI [of _ "t # ts"]) simp
qed simp

lemma ordered_tags_roles:
  assumes "distinct roles" and "set roles \<subseteq> (\<lambda>t. sfld t ''role'') ` set tags"
    and "distinct (map decl_id tags)"
  shows "map (\<lambda>t. sfld t ''role'') (take (length roles) (ordered_tags roles tags)) = roles"
proof -
  obtain ts where ts: "foldl (place_role tags) [] roles = ts" "map (\<lambda>t. sfld t ''role'') ts = roles"
    using place_roles [OF assms, of "[]"] by auto
  have "prefix ts (ordered_tags roles tags)"
    unfolding ordered_tags_def ts(1) by (rule foldl_invariant) (auto simp: prefix_def)
  then obtain us where "ordered_tags roles tags = ts @ us" by (auto simp: prefix_def)
  moreover have "length ts = length roles" using ts(2) by (metis length_map)
  ultimately show ?thesis using ts(2) by simp
qed

lemma distinct_remdups_adj_sorted: "sorted xs \<Longrightarrow> distinct (remdups_adj xs)"
  by (induction xs rule: remdups_adj.induct) (auto simp: order.antisym)

lemma role_hints_facts:
  "distinct (measurement_role_hints tags terms)"
  "set (measurement_role_hints tags terms) \<subseteq> (\<lambda>t. sfld t ''role'') ` set tags"
  unfolding measurement_role_hints_def by (auto simp: distinct_remdups_adj_sorted)

text \<open>The initial evidence, stated by what the properties need of it.\<close>

definition start_ok :: "json \<Rightarrow> retrieval_limits \<Rightarrow> retrieval_facts \<Rightarrow> retrieval_state \<Rightarrow> bool" where
  "start_ok m lm fx s0 \<longleftrightarrow>
     length (rs_candidates s0) \<le> r_candidates lm \<and> length (rs_assets s0) \<le> r_assets lm \<and>
     length (rs_relationships s0) \<le> r_relationships lm \<and> length (rs_tags s0) \<le> r_tags lm \<and>
     length (rs_alarms s0) \<le> r_alarms lm \<and>
     (\<forall>c \<in> set (rs_candidates s0). \<exists>a \<in> set (decls m ''assets'').
        find_key c ''asset_id'' = Some (JStr (decl_id a)) \<and> find_key c ''name'' = Some (fld a ''name'')) \<and>
     set (rs_assets s0) \<subseteq> compact_asset ` set (decls m ''assets'') \<and>
     set (rs_relationships s0) \<subseteq> relationship_copy ` set (decls m ''relationships'') \<and>
     set (rs_tags s0) \<subseteq> tag_copy ` set (decls m ''tags'') \<and>
     set (rs_alarms s0) \<subseteq> alarm_copy ` set (decls m ''alarms'') \<and>
     set (rs_eligible s0) \<subseteq> decl_id ` set (decls m ''assets'') \<and>
     length (rs_eligible s0) \<le> rf_all_eligible fx \<and>
     (rs_clarify s0 \<longleftrightarrow> rf_all_eligible fx > 1 \<or> rf_specific fx \<and> rs_eligible s0 = [])"

lemma initial_state_start:
  "start_ok m lm (retrieval_facts_of m prompt lm roles) (initial_state m prompt lm)"
  unfolding start_ok_def
proof (intro conjI)
  show "length (rs_candidates (initial_state m prompt lm)) \<le> r_candidates lm"
    by (simp add: initial_state_def initial_evidence_def shown_candidates_def Let_def split_def)
  show "length (rs_assets (initial_state m prompt lm)) \<le> r_assets lm"
    by (simp add: initial_state_def initial_evidence_def retrieved_assets_length Let_def split_def)
  show "length (rs_relationships (initial_state m prompt lm)) \<le> r_relationships lm"
    by (simp add: initial_state_def initial_evidence_def Let_def split_def)
  show "length (rs_tags (initial_state m prompt lm)) \<le> r_tags lm"
    by (simp add: initial_state_def initial_evidence_def Let_def split_def)
  show "length (rs_alarms (initial_state m prompt lm)) \<le> r_alarms lm"
    by (simp add: initial_state_def initial_evidence_def Let_def split_def)
  show "\<forall>c \<in> set (rs_candidates (initial_state m prompt lm)). \<exists>a \<in> set (decls m ''assets'').
        find_key c ''asset_id'' = Some (JStr (decl_id a)) \<and> find_key c ''name'' = Some (fld a ''name'')"
    by (auto simp: initial_state_def initial_evidence_def shown_candidates_def Let_def split_def
        candidate_json_def decls_def candidate_id_def decl_id_def dest!: in_set_takeD scored_declared)
  show "set (rs_assets (initial_state m prompt lm)) \<subseteq> compact_asset ` set (decls m ''assets'')"
    by (simp add: initial_state_def initial_evidence_def retrieved_assets_declared Let_def split_def decls_def)
  show "set (rs_relationships (initial_state m prompt lm)) \<subseteq> relationship_copy ` set (decls m ''relationships'')"
    by (auto simp: initial_state_def initial_evidence_def relevant_relationships_def Let_def split_def decls_def
        dest!: in_set_takeD)
  show "set (rs_tags (initial_state m prompt lm)) \<subseteq> tag_copy ` set (decls m ''tags'')"
    by (auto simp: initial_state_def initial_evidence_def Let_def split_def decls_def
        dest!: in_set_takeD subsetD [OF set_ordered_tags] subsetD [OF owned_declared])
  show "set (rs_alarms (initial_state m prompt lm)) \<subseteq> alarm_copy ` set (decls m ''alarms'')"
    by (auto simp: initial_state_def initial_evidence_def Let_def split_def decls_def
        dest!: in_set_takeD subsetD [OF owned_declared])
  show "set (rs_eligible (initial_state m prompt lm)) \<subseteq> decl_id ` set (decls m ''assets'')"
    using eligible_ids_declared by (simp add: initial_state_def initial_evidence_def Let_def split_def decls_def)
  show "length (rs_eligible (initial_state m prompt lm)) \<le> rf_all_eligible (retrieval_facts_of m prompt lm roles)"
    by (simp add: initial_state_def initial_evidence_def retrieval_facts_of_def Let_def split_def
        prefix_length_le [OF all_eligible_prefix])
  show "rs_clarify (initial_state m prompt lm) \<longleftrightarrow>
      rf_all_eligible (retrieval_facts_of m prompt lm roles) > 1 \<or>
      rf_specific (retrieval_facts_of m prompt lm roles) \<and> rs_eligible (initial_state m prompt lm) = []"
    by (simp add: initial_state_def initial_evidence_def retrieval_facts_of_def Let_def split_def)
qed

text \<open>In an accepted model each requested role is answered by the tag in its place.\<close>

lemma sfld_tag_copy [simp]: "sfld (tag_copy t) ''role'' = sfld t ''role''"
  by (simp add: tag_copy_def copy_of_def sfld_def fld_def)

lemma initial_roles:
  assumes "wf_model dump m"
  shows "let s0 = initial_state m prompt lm in
    map (\<lambda>t. sfld t ''role'') (take (length (rs_roles s0)) (rs_tags s0)) = take (r_tags lm) (rs_roles s0)"
proof -
  obtain terms measured where r: "rs_roles (initial_state m prompt lm) = asked_roles m terms measured"
    "rs_tags (initial_state m prompt lm) =
       map tag_copy (take (r_tags lm) (ordered_tags (asked_roles m terms measured)
         (owned_by measured (elements_of (fld m ''tags'')))))"
    by (simp add: initial_state_def initial_evidence_def Let_def split_def)
  let ?tags = "owned_by measured (elements_of (fld m ''tags''))"
  have "distinct (map decl_id (decls m ''tags''))"
    using assms by (simp add: wf_model_def Let_def keyed_def comp_def decl_id_def cong: map_cong)
  then have "distinct (map decl_id ?tags)"
    by (simp add: decls_def owned_by_def distinct_map_filter)
  with role_hints_facts have "map (\<lambda>t. sfld t ''role'') (take (length (asked_roles m terms measured))
      (ordered_tags (asked_roles m terms measured) ?tags)) = asked_roles m terms measured"
    unfolding asked_roles_def by (intro ordered_tags_roles)
  then have "take (r_tags lm) (map (\<lambda>t. sfld t ''role'') (take (length (asked_roles m terms measured))
      (ordered_tags (asked_roles m terms measured) ?tags))) = take (r_tags lm) (asked_roles m terms measured)"
    by simp
  then show ?thesis by (simp add: r take_map Let_def comp_def min.commute)
qed

section \<open>Properties\<close>

definition final_state :: "(json \<Rightarrow> string res) \<Rightarrow> json \<Rightarrow> string \<Rightarrow> retrieval_limits \<Rightarrow> retrieval_state res" where
  "final_state dump m prompt lm =
     (let s0 = initial_state m prompt lm
      in budget_loop dump (retrieval_facts_of m prompt lm (rs_roles s0)) s0)"

lemma retrieve_final:
  "retrieve dump m prompt lm = Inr r \<longleftrightarrow>
     wf_model dump m \<and> retrieval_prompt_ok prompt \<and> retrieval_limits_ok lm \<and>
     (\<exists>st. final_state dump m prompt lm = Inr st \<and>
        r = retrieval_json (retrieval_facts_of m prompt lm (rs_roles (initial_state m prompt lm))) st)"
proof -
  have "(\<exists>v. validate_model dump m = Inr v) \<longleftrightarrow> wf_model dump m"
  proof
    assume wf: "wf_model dump m"
    then obtain mid rv where "find_key m ''model_id'' = Some mid" "find_key m ''revision'' = Some rv"
      using wf_model_task_header(3) by blast
    with wf show "\<exists>v. validate_model dump m = Inr v"
      by (simp add: validate_model_def index_model_Inr)
  qed (auto simp: validate_model_def index_model_Inr)
  then show ?thesis by (simp add: retrieve_def final_state_def Let_def) blast
qed

lemma retrieve_parts:
  assumes "retrieve dump m prompt lm = Inr r"
  obtains s0 st fx where "s0 = initial_state m prompt lm" "fx = retrieval_facts_of m prompt lm (rs_roles s0)"
    "r = retrieval_json fx st" "rf_limits fx = lm" "shrunk fx s0 st" "start_ok m lm fx s0" "wf_model dump m"
    "within_budget dump lm r = Inr True" "retrieval_prompt_ok prompt" "retrieval_limits_ok lm"
    "final_state dump m prompt lm = Inr st"
proof -
  let ?s0 = "initial_state m prompt lm"
  let ?fx = "retrieval_facts_of m prompt lm (rs_roles ?s0)"
  obtain st where st: "final_state dump m prompt lm = Inr st" "r = retrieval_json ?fx st" "wf_model dump m"
    "retrieval_prompt_ok prompt" "retrieval_limits_ok lm"
    using assms by (auto simp: retrieve_final)
  have lm: "rf_limits ?fx = lm" by (simp add: retrieval_facts_of_def Let_def)
  have "shrunk ?fx ?s0 st \<and> within_budget dump (rf_limits ?fx) (retrieval_json ?fx st) = Inr True"
    using st(1) shrunk_refl by (intro budget_loop_Inr) (simp_all add: final_state_def Let_def)
  then show ?thesis using that [OF refl refl st(2) lm] st lm initial_state_start by simp
qed

lemma retrieval_json_members:
  "elements_of (fld (retrieval_json fx st) ''candidates'') = rs_candidates st"
  "elements_of (fld (retrieval_json fx st) ''eligible_asset_ids'') = map JStr (rs_eligible st)"
  "elements_of (fld (retrieval_json fx st) ''measurement_role_hints'') = map JStr (rs_roles st)"
  "elements_of (fld (retrieval_json fx st) ''task_hints'') = map JStr (rf_hints fx)"
  "fld (retrieval_json fx st) ''requires_clarification'' = JBool (rs_clarify st)"
  "fld (retrieval_json fx st) ''specific_asset_reference'' = JBool (rf_specific fx)"
  "elements_of (fld (fld (retrieval_json fx st) ''scope'') ''assets'') = rs_assets st"
  "elements_of (fld (fld (retrieval_json fx st) ''scope'') ''relationships'') = rs_relationships st"
  "elements_of (fld (fld (retrieval_json fx st) ''scope'') ''tags'') = rs_tags st"
  "elements_of (fld (fld (retrieval_json fx st) ''scope'') ''alarms'') = rs_alarms st"
  by (simp_all add: retrieval_json_def scope_json_def fld_def jstrs_def)

definition scope_part :: "json \<Rightarrow> string \<Rightarrow> json list" where
  "scope_part r k = elements_of (fld (fld r ''scope'') k)"

text \<open>
  C23. What \<open>retrieve\<close> returns fits its budget when serialised, holds no more candidates, assets,
  relationships, tags and alarms than the limits allow, and is evidence from the model: every
  asset of the scope is a compact copy of a declared asset (at most its aliases dropped),
  relationships, tags and alarms are copies of declarations, and eligible assets are declared.
\<close>

theorem retrieval_is_bounded_evidence:
  assumes "retrieve dump m prompt lm = Inr r"
  shows "within_budget dump lm r = Inr True \<and>
    length (elements_of (fld r ''candidates'')) \<le> r_candidates lm \<and>
    length (scope_part r ''assets'') \<le> r_assets lm \<and>
    length (scope_part r ''relationships'') \<le> r_relationships lm \<and>
    length (scope_part r ''tags'') \<le> r_tags lm \<and> length (scope_part r ''alarms'') \<le> r_alarms lm \<and>
    (\<forall>x \<in> set (scope_part r ''assets''). \<exists>a \<in> set (decls m ''assets''). same_asset x (compact_asset a)) \<and>
    set (scope_part r ''relationships'') \<subseteq> relationship_copy ` set (decls m ''relationships'') \<and>
    set (scope_part r ''tags'') \<subseteq> tag_copy ` set (decls m ''tags'') \<and>
    set (scope_part r ''alarms'') \<subseteq> alarm_copy ` set (decls m ''alarms'') \<and>
    set (elements_of (fld r ''eligible_asset_ids'')) \<subseteq> (\<lambda>a. JStr (decl_id a)) ` set (decls m ''assets'')"
proof -
  obtain s0 st fx where r: "r = retrieval_json fx st" and sh: "shrunk fx s0 st" and ok: "start_ok m lm fx s0"
    and fit: "within_budget dump lm r = Inr True"
    using assms by (rule retrieve_parts)
  have cands: "length (rs_candidates st) \<le> r_candidates lm"
    using sh ok unfolding shrunk_def kept_candidates_def start_ok_def by linarith
  have assets: "length (rs_assets st) \<le> r_assets lm"
    "\<forall>x \<in> set (rs_assets st). \<exists>a \<in> set (decls m ''assets''). same_asset x (compact_asset a)"
    using sh ok unfolding shrunk_def kept_assets_def start_ok_def by (auto dest!: bspec)
  have pre: "prefix (rs_relationships st) (rs_relationships s0)" "prefix (rs_alarms st) (rs_alarms s0)"
    "prefix (rs_tags st) (rs_tags s0)" "prefix (rs_eligible st) (rs_eligible s0)"
    using sh by (simp_all add: shrunk_def kept_prefixes_def kept_roles_def kept_eligible_def)
  have len: "length (rs_relationships st) \<le> r_relationships lm" "length (rs_tags st) \<le> r_tags lm"
    "length (rs_alarms st) \<le> r_alarms lm"
    using pre [THEN prefix_length_le] ok unfolding start_ok_def by linarith+
  have "set (rs_relationships st) \<subseteq> relationship_copy ` set (decls m ''relationships'')"
    "set (rs_tags st) \<subseteq> tag_copy ` set (decls m ''tags'')"
    "set (rs_alarms st) \<subseteq> alarm_copy ` set (decls m ''alarms'')"
    "set (rs_eligible st) \<subseteq> decl_id ` set (decls m ''assets'')"
    using pre [THEN set_mono_prefix] ok unfolding start_ok_def by blast+
  with fit cands assets len show ?thesis
    unfolding r scope_part_def retrieval_json_members by (auto simp: image_image)
qed

definition bare :: "retrieval_state \<Rightarrow> bool" where
  "bare st \<longleftrightarrow> rs_relationships st = [] \<and> rs_alarms st = [] \<and> rs_tags st = [] \<and> rs_roles st = [] \<and>
     rs_terms st = [] \<and> list_all marked_eligible (rs_candidates st) \<and>
     (\<forall>a \<in> set (rs_assets st). decl_id a \<in> set (rs_eligible st) \<and> \<not> contains a ''aliases'')"

lemma erase_first_aliases_None:
  "erase_first_aliases xs = None \<longleftrightarrow> (\<forall>a \<in> set xs. \<not> contains a ''aliases'')"
  by (induction xs) auto

lemma shrink_None_bare: "shrink fx st = None \<Longrightarrow> bare st"
proof -
  assume "shrink fx st = None"
  then have "\<forall>f \<in> set (shrink_steps fx). f st = None" by (simp only: shrink_def first_change_None option.map_disc_iff)
  then have n: "drop_candidate st = None" "drop_asset st = None" "drop_relationship st = None"
    "drop_alarm st = None" "drop_tag st = None" "drop_role st = None" "drop_aliases st = None" "drop_term st = None"
    by (simp_all add: shrink_steps_def)
  from n(1) have "list_all marked_eligible (rs_candidates st)"
    by (simp add: drop_candidate_def erase_last_None marked_eligible_def [abs_def])
  moreover from n(2,7) have "\<forall>a \<in> set (rs_assets st). decl_id a \<in> set (rs_eligible st) \<and> \<not> contains a ''aliases''"
    by (simp add: drop_asset_def drop_aliases_def erase_last_None erase_first_aliases_None list_all_iff)
  moreover from n have "rs_relationships st = []" "rs_alarms st = []" "rs_roles st = []" "rs_terms st = []"
    by (simp_all add: shrink_step_defs split: if_splits)
  moreover from this n(5) have "rs_tags st = []" by (simp add: drop_tag_def split: if_splits)
  ultimately show ?thesis by (simp add: bare_def)
qed

lemma budget_loop_ends:
  assumes "\<And>j. \<exists>t. dump j = Inr t" and "shrunk fx s0 st"
  shows "(\<exists>st'. budget_loop dump fx st = Inr st') \<or>
    budget_loop dump fx st = Inl budget_too_small \<and>
    (\<exists>st'. within_budget dump (rf_limits fx) (retrieval_json fx st') = Inr False \<and> shrunk fx s0 st' \<and> bare st')"
  using assms
proof (induction dump fx st rule: budget_loop.induct)
  case (1 dump fx st)
  obtain t where "dump (retrieval_json fx st) = Inr t" using 1(2) by blast
  then obtain b where b: "within_budget dump (rf_limits fx) (retrieval_json fx st) = Inr b"
    by (simp add: within_budget_def)
  show ?case
  proof (cases b)
    case True
    with b show ?thesis by (subst budget_loop.simps) simp
  next
    case False
    show ?thesis
    proof (cases "shrink fx st")
      case None
      with False b 1(3) shrink_None_bare show ?thesis by (subst (1 2) budget_loop.simps) auto
    next
      case (Some s)
      have "budget_loop dump fx st = budget_loop dump fx s"
        using False b Some by (subst budget_loop.simps) simp
      then show ?thesis
        using 1(1) [OF b _ Some 1(2) shrink_shrunk [OF 1(3) Some]] False by simp
    qed
  qed
qed


text \<open>
  C25. A result that does not ask for clarification answers the request in full: it names at most
  one eligible asset, exactly one when the request refers to specific equipment, that asset is
  the only one with the best score, it is in the scope when any eligible asset was put there, and
  no requested role was dropped; the first tags of the scope have the requested roles, in order,
  unless the tag limit is below their number.
\<close>

theorem clear_retrieval_is_complete:
  assumes "retrieve dump m prompt lm = Inr r" and "fld r ''requires_clarification'' = JBool False"
  shows "let s0 = initial_state m prompt lm; fx = retrieval_facts_of m prompt lm (rs_roles s0);
      eligible = elements_of (fld r ''eligible_asset_ids''); roles = map str_of (elements_of (fld r ''measurement_role_hints''))
    in rf_all_eligible fx \<le> 1 \<and> eligible = map JStr (rs_eligible s0) \<and> length eligible \<le> 1 \<and>
      (fld r ''specific_asset_reference'' = JBool True \<longrightarrow> length eligible = 1) \<and>
      (\<forall>b \<in> set (rs_assets s0). JStr (decl_id b) \<in> set eligible \<longrightarrow>
         (\<exists>a \<in> set (scope_part r ''assets''). decl_id a = decl_id b)) \<and>
      roles = rs_roles s0 \<and>
      map (\<lambda>t. sfld t ''role'') (take (length roles) (scope_part r ''tags'')) = take (r_tags lm) roles"
proof -
  obtain s0 st fx where s0: "s0 = initial_state m prompt lm" and fx: "fx = retrieval_facts_of m prompt lm (rs_roles s0)"
    and r: "r = retrieval_json fx st" and sh: "shrunk fx s0 st" and ok: "start_ok m lm fx s0" and wf: "wf_model dump m"
    using assms(1) by (rule retrieve_parts)
  have "\<not> rs_clarify st" using assms(2) by (simp add: r retrieval_json_members)
  then have c: "\<not> rs_clarify s0" "rs_roles st = rs_roles s0"
    using sh by (simp_all add: shrunk_def kept_roles_def)
  then have all: "rf_all_eligible fx \<le> 1" "rf_specific fx \<longrightarrow> rs_eligible s0 \<noteq> []"
    "length (rs_eligible s0) \<le> rf_all_eligible fx"
    using ok by (auto simp: start_ok_def)
  have el: "rs_eligible st = rs_eligible s0" using sh all by (auto simp: shrunk_def kept_eligible_def)
  have tags: "map (\<lambda>t. sfld t ''role'') (take (length (rs_roles s0)) (rs_tags s0)) = take (r_tags lm) (rs_roles s0)"
    using initial_roles [OF wf, of prompt lm] by (simp add: Let_def s0)
  have kept: "prefix (rs_tags st) (rs_tags s0)" "min (length (rs_tags s0)) (length (rs_roles s0)) \<le> length (rs_tags st)"
    using sh c by (simp_all add: shrunk_def kept_roles_def)
  then have "take (length (rs_roles s0)) (rs_tags st) = take (length (rs_roles s0)) (rs_tags s0)"
    by (auto simp: prefix_def min_def split: if_splits)
  moreover have "\<forall>b \<in> set (rs_assets s0). decl_id b \<in> set (rs_eligible s0) \<longrightarrow>
      (\<exists>a \<in> set (rs_assets st). decl_id a = decl_id b)"
    using sh el same_asset_id unfolding shrunk_def kept_assets_def by metis
  moreover have "rf_specific fx \<longrightarrow> length (rs_eligible s0) = 1"
  proof
    assume "rf_specific fx"
    with all have "0 < length (rs_eligible s0)" "length (rs_eligible s0) \<le> 1" by (simp, linarith)
    then show "length (rs_eligible s0) = 1" by linarith
  qed
  ultimately show ?thesis
    using all el c tags unfolding r scope_part_def retrieval_json_members Let_def
    by (auto simp: s0 [symmetric] fx [symmetric] comp_def)
qed

text \<open>What \<open>retrieve\<close> returns is evidence in the sense of the rules provider.\<close>

lemma asset_texts:
  assumes "wf_model dump m" and "a \<in> set (decls m ''assets'')"
  shows "\<exists>n. find_key a ''name'' = Some (JStr n)" and "decl_id a \<noteq> []"
proof -
  have "wf_asset dump a" using assms by (simp add: wf_model_def Let_def)
  then have "has_ident a ''id''" "has_text a ''name'' k_max_string" by (simp_all add: wf_asset_def)
  then show "\<exists>n. find_key a ''name'' = Some (JStr n)" "decl_id a \<noteq> []"
    by (auto simp: has_ident_def has_text_def ok_text_def decl_id_def)
qed

lemma tag_role_text:
  assumes "wf_model dump m" and "t \<in> set (decls m ''tags'')"
  shows "fld t ''role'' = JStr (sfld t ''role'')" and "sfld t ''role'' \<noteq> []"
proof -
  have "wf_tag (keyed (decls m ''assets'')) t" using assms by (simp add: wf_model_def Let_def)
  then have "has_text t ''role'' k_max_string" by (simp add: wf_tag_def)
  then show "fld t ''role'' = JStr (sfld t ''role'')" "sfld t ''role'' \<noteq> []"
    by (auto simp: has_text_def ok_text_def fld_eq)
qed

lemma roles_answered:
  assumes "map f (take (length rs0) ts0) = take n rs0" and "prefix ts ts0 \<and> prefix rs rs0 \<and>
      min (length ts0) (length rs) \<le> length ts" and "length rs \<le> n"
  shows "set rs \<subseteq> f ` set ts"
proof -
  have rs: "rs = take (length rs) rs0" "length rs \<le> length rs0"
    using assms(2) by (auto simp: prefix_def)
  have ts: "ts = take (length ts) ts0" using assms(2) by (auto simp: prefix_def)
  have "length (take n rs0) = length (take (length rs0) ts0)" using assms(1) by (metis length_map)
  then have long: "length rs \<le> length ts" using assms(2,3) rs(2) by auto
  have "rs = take (length rs) (take n rs0)" using rs(1) assms(3) by (simp add: min_def)
  also have "\<dots> = map f (take (length rs) ts0)"
    unfolding assms(1) [symmetric] using rs(2) by (simp add: take_map min_def)
  also have "take (length rs) ts0 = take (length rs) ts"
    using long by (subst ts) (simp add: min_def)
  finally have "set rs = f ` set (take (length rs) ts)" by (metis set_map)
  then show ?thesis using set_take_subset by fast
qed

text \<open>What the steps that shrink the evidence leave of what a model's check guarantees.\<close>

lemma kept_tag_roles:
  assumes wf: "wf_model dump m" and ok: "start_ok m lm fx s0"
    and kept: "kept_roles s0 st" and short: "\<forall>t \<in> set (decls m ''tags''). length (sfld t ''role'') \<le> 128"
  shows "\<forall>t \<in> set (rs_tags st). \<exists>role. find_key t ''role'' = Some (JStr role) \<and> role \<noteq> [] \<and> length role \<le> 128"
proof
  fix t assume "t \<in> set (rs_tags st)"
  then have "t \<in> set (rs_tags s0)" using kept by (auto simp: kept_roles_def dest: set_mono_prefix)
  then obtain d where d: "d \<in> set (decls m ''tags'')" "t = tag_copy d"
    using ok unfolding start_ok_def by blast
  have "find_key t ''role'' = Some (fld d ''role'')" by (simp add: d(2) tag_copy_def copy_of_def)
  with tag_role_text [OF wf d(1)] short d(1) show
    "\<exists>role. find_key t ''role'' = Some (JStr role) \<and> role \<noteq> [] \<and> length role \<le> 128" by auto
qed

lemma kept_candidate_names:
  assumes wf: "wf_model dump m" and ok: "start_ok m lm fx s0"
    and kept: "kept_candidates s0 st"
  shows "named_candidates (rs_candidates st)"
  unfolding named_candidates_def
proof
  fix c assume "c \<in> set (rs_candidates st)"
  then have "c \<in> set (rs_candidates s0)" using kept by (auto simp: kept_candidates_def)
  then obtain a where "a \<in> set (decls m ''assets'')" "find_key c ''asset_id'' = Some (JStr (decl_id a))"
    "find_key c ''name'' = Some (fld a ''name'')" using ok unfolding start_ok_def by blast
  with asset_texts(1) [OF wf, of a] fld_eq show
    "\<exists>a n. find_key c ''asset_id'' = Some (JStr a) \<and> find_key c ''name'' = Some (JStr n)" by fastforce
qed

lemma kept_ids_named:
  assumes wf: "wf_model dump m" and ok: "start_ok m lm fx s0"
    and kept: "kept_eligible fx s0 st"
  shows "[] \<notin> set (rs_eligible st)"
proof
  assume "[] \<in> set (rs_eligible st)"
  then have "[] \<in> set (rs_eligible s0)" using kept by (auto simp: kept_eligible_def dest: set_mono_prefix)
  moreover have "set (rs_eligible s0) \<subseteq> decl_id ` set (decls m ''assets'')"
    using ok unfolding start_ok_def by blast
  ultimately obtain a where "a \<in> set (decls m ''assets'')" "decl_id a = []" by fastforce
  with asset_texts(2) [OF wf] show False by blast
qed

lemma kept_clarify:
  assumes ok: "start_ok m lm fx s0" and kept: "kept_roles s0 st" "kept_eligible fx s0 st"
  shows "rf_specific fx \<and> length (rs_eligible st) \<noteq> 1 \<longrightarrow> rs_clarify st"
proof (intro impI)
  assume one: "rf_specific fx \<and> length (rs_eligible st) \<noteq> 1"
  have c0: "rs_clarify s0 \<longleftrightarrow> rf_all_eligible fx > 1 \<or> rf_specific fx \<and> rs_eligible s0 = []"
    and le: "length (rs_eligible s0) \<le> rf_all_eligible fx"
    using ok unfolding start_ok_def by blast+
  have "rs_clarify s0"
  proof (cases "rf_all_eligible fx > 1")
    case False
    then have "rs_eligible st = rs_eligible s0" using kept(2) by (simp add: kept_eligible_def)
    with one have "length (rs_eligible s0) \<noteq> 1" by simp
    with False le have "length (rs_eligible s0) = 0" by linarith
    with c0 one show ?thesis by simp
  qed (use c0 in simp)
  then show "rs_clarify st" using kept(1) by (simp add: kept_roles_def)
qed

lemma retrieved_evidence:
  assumes ret: "retrieve dump m prompt lm = Inr r" and small: "r_candidates lm \<le> 32"
    and roles: "length (elements_of (fld r ''measurement_role_hints'')) \<le> min 16 (r_tags lm)"
    and short: "\<forall>t \<in> set (decls m ''tags''). length (sfld t ''role'') \<le> 128"
  obtains ids rs hs clar specific where
    "evidence r (elements_of (fld r ''candidates'')) hs rs ids clar specific (scope_part r ''tags'')"
    "fld r ''requires_clarification'' = JBool clar" "elements_of (fld r ''eligible_asset_ids'') = map JStr ids"
    "elements_of (fld r ''measurement_role_hints'') = map JStr rs" "elements_of (fld r ''task_hints'') = map JStr hs"
proof -
  obtain s0 st fx where s0: "s0 = initial_state m prompt lm" and fx: "fx = retrieval_facts_of m prompt lm (rs_roles s0)"
    and r: "r = retrieval_json fx st" and sh: "shrunk fx s0 st" and ok: "start_ok m lm fx s0" and wf: "wf_model dump m"
    using ret by (rule retrieve_parts)
  have kr: "kept_roles s0 st" "kept_eligible fx s0 st" "kept_candidates s0 st"
    using sh by (simp_all add: shrunk_def)
  have lr: "length (rs_roles st) \<le> 16" "length (rs_roles st) \<le> r_tags lm"
    using roles by (simp_all add: r retrieval_json_members)
  have al: "map (\<lambda>t. sfld t ''role'') (take (length (rs_roles s0)) (rs_tags s0)) = take (r_tags lm) (rs_roles s0)"
    using initial_roles [OF wf, of prompt lm] by (simp add: Let_def s0)
  have answered: "set (rs_roles st) \<subseteq> (\<lambda>t. sfld t ''role'') ` set (rs_tags st)"
    by (rule roles_answered [OF al _ lr(2)]) (use kr(1) in \<open>simp_all add: kept_roles_def\<close>)
  note tagdecl = kept_tag_roles [OF wf ok kr(1) short]
  note names = kept_candidate_names [OF wf ok kr(3)] and ids = kept_ids_named [OF wf ok kr(2)]
    and clar = kept_clarify [OF ok kr(1,2)]
  have hints: "set (rf_hints fx) \<subseteq> {''overview'', ''alarms''}"
    by (simp add: fx retrieval_facts_of_def request_hints_def task_hints_def Let_def)
  have "length (rs_candidates st) \<le> 32"
    using kr(3) ok small unfolding kept_candidates_def start_ok_def by linarith
  note short_list = this
  have keys: "is_object r" "find_key r ''candidates'' = Some (JArr (rs_candidates st))"
    "find_key r ''task_hints'' = Some (JArr (map JStr (rf_hints fx)))"
    "find_key r ''measurement_role_hints'' = Some (JArr (map JStr (rs_roles st)))"
    "find_key r ''eligible_asset_ids'' = Some (JArr (map JStr (rs_eligible st)))"
    "find_key r ''requires_clarification'' = Some (JBool (rs_clarify st))"
    "find_key r ''specific_asset_reference'' = Some (JBool (rf_specific fx))"
    and scope: "\<exists>scope. find_key r ''scope'' = Some scope \<and> find_key scope ''tags'' = Some (JArr (rs_tags st))"
    by (simp_all add: r retrieval_json_def jstrs_def scope_json_def)
  have roletexts: "\<forall>t \<in> set (rs_tags st). \<exists>role. find_key t ''role'' = Some (JStr role)" using tagdecl by blast
  have "\<forall>role \<in> set (rs_roles st). role \<noteq> [] \<and> length role \<le> 128"
  proof
    fix role assume "role \<in> set (rs_roles st)"
    then obtain t where t: "t \<in> set (rs_tags st)" "role = sfld t ''role''" using answered by blast
    then obtain v where "find_key t ''role'' = Some (JStr v)" "v \<noteq> []" "length v \<le> 128" using tagdecl by blast
    with t(2) show "role \<noteq> [] \<and> length role \<le> 128" by (simp add: sfld_eq)
  qed
  then have "evidence r (rs_candidates st) (rf_hints fx) (rs_roles st)
      (rs_eligible st) (rs_clarify st) (rf_specific fx) (rs_tags st)"
    unfolding evidence_def
    by (intro conjI keys scope roletexts lr(1) names ids clar hints answered short_list)
  then show ?thesis
    by (intro that) (simp_all add: r retrieval_json_members scope_part_def)
qed

lemma status_only:
  "\<exists>x. A x \<and> B x \<and> (if c then S x = s1 \<and> P x else S x = s2 \<and> Q x) \<Longrightarrow>
     \<exists>x. A x \<and> B x \<and> S x = (if c then s1 else s2)"
  by auto

text \<open>
  C26. Retrieval and the rules provider fit together: whatever \<open>retrieve\<close> returns under a
  candidate limit of at most 32, with at most 16 requested roles (and no more than the tag
  limit) and roles of at most 128 bytes, the rules interpretation of the same prompt succeeds,
  its own schema and scope checks included. It asks for clarification exactly when the result
  asks for it or hints at no single task, and is ready otherwise.
\<close>

theorem rules_answer_retrieved:
  assumes "retrieve dump m prompt lm = Inr r" and "r_candidates lm \<le> 32"
    and "length (elements_of (fld r ''measurement_role_hints'')) \<le> min 16 (r_tags lm)"
    and "\<forall>t \<in> set (decls m ''tags''). length (sfld t ''role'') \<le> 128"
  shows "\<exists>x. interpret_prompt what llama m prompt r ''rules'' = Inr x \<and> find_key x ''retrieval'' = Some r \<and>
    sfld x ''status'' =
      (if fld r ''requires_clarification'' = JBool True \<or> length (elements_of (fld r ''task_hints'')) \<noteq> 1
       then ''clarification'' else ''ready'')"
proof -
  obtain ids rs hs clar specific where
    ev: "evidence r (elements_of (fld r ''candidates'')) hs rs ids clar specific (scope_part r ''tags'')"
    and r: "fld r ''requires_clarification'' = JBool clar" "elements_of (fld r ''eligible_asset_ids'') = map JStr ids"
      "elements_of (fld r ''measurement_role_hints'') = map JStr rs" "elements_of (fld r ''task_hints'') = map JStr hs"
    using assms by (rule retrieved_evidence)
  have "wf_model dump m" "length prompt \<le> 8192"
    using assms(1) by (auto simp: retrieve_final retrieval_prompt_ok_def)
  from status_only [OF rules_mode_evidence [OF ev this, of what llama]] show ?thesis
    by (simp only: r length_map json.inject simp_thms)
qed

section \<open>Examples\<close>

text \<open>A request for the level of the tank of the small model, with a serialiser that writes nothing.\<close>

definition no_text :: "json \<Rightarrow> string res" where
  "no_text j = Inr []"

lemma tank_level_terms: "terms_for ''tank level'' = [''level'', ''tank'']"
  by (simp add: terms_for_def ascii_alphanumeric_def char_classes to_lower_def canonical_term_def synonyms_def
      remdups_adj.simps)

lemmas term_simps = terms_for_def ascii_alphanumeric_def char_classes to_lower_def canonical_term_def synonyms_def
  remdups_adj.simps

lemma char_of_116: "char_of (116 :: nat) = CHR ''t''"
  by code_simp

lemma tank_terms: "terms_for ''tank'' = [''tank'']" "terms_for ''Tank'' = [''tank'']"
  "terms_for ''level'' = [''level'']"
  by (simp_all add: term_simps char_of_116)

lemma demo_lists: "elements_of (fld demo_model ''assets'') = [demo_asset]"
  "elements_of (fld demo_model ''relationships'') = []" "elements_of (fld demo_model ''tags'') = [demo_tag]"
  by (simp_all add: demo_model_def fld_def)

lemma demo_asset_texts: "sfld demo_asset ''id'' = ''tank''" "sfld demo_asset ''name'' = ''Tank''"
  "sfld demo_asset ''kind'' = ''tank''" "alias_texts demo_asset = []" "sfld demo_tag ''role'' = ''level''"
  "sfld demo_tag ''name'' = ''Level''" "sfld demo_tag ''asset_id'' = ''tank''"
  by (simp_all add: demo_asset_def demo_tag_def sfld_def fld_def alias_texts_def contains_def)

lemma tank_scored:
  "score_assets [''level'', ''tank''] [demo_asset] =
     [\<lparr>cd_asset = demo_asset, cd_score = 192, cd_reasons = [''term:tank'', ''declared-id'', ''declared-name'']\<rparr>]"
  by (simp add: score_assets_def score_asset_def asset_terms_def demo_asset_texts tank_terms all_present_def
      number_conflict_def numeric_terms_def char_classes term_score_def remdups_adj.simps Let_def)

lemma default_retrieval_simps [simp]:
  "r_candidates default_retrieval_limits = 12" "r_assets default_retrieval_limits = 16"
  "r_tags default_retrieval_limits = 128" "r_max_serialized_bytes default_retrieval_limits = 12288"
  "r_max_estimated_tokens default_retrieval_limits = 3072"
  by (simp_all add: default_retrieval_limits_def)

lemma tank_eligible:
  "eligible_ids default_retrieval_limits (score_assets [''level'', ''tank''] [demo_asset]) = [''tank'']"
  "all_eligible_ids default_retrieval_limits (score_assets [''level'', ''tank''] [demo_asset]) = [''tank'']"
  by (simp_all add: tank_scored eligible_ids_def all_eligible_ids_def shown_candidates_def is_eligible_def
      eligibility_score_def candidate_id_def demo_asset_texts)

lemma tank_roles: "asked_roles demo_model [''level'', ''tank''] [''tank''] = [''level'']"
  by (simp add: asked_roles_def measurement_role_hints_def owned_by_def all_present_def demo_lists
      demo_asset_texts tank_terms remdups_adj.simps)

lemma tank_initial:
  "rs_eligible (initial_state demo_model ''tank level'' default_retrieval_limits) = [''tank'']"
  "rs_roles (initial_state demo_model ''tank level'' default_retrieval_limits) = [''level'']"
  "\<not> rs_clarify (initial_state demo_model ''tank level'' default_retrieval_limits)"
  unfolding initial_state_def initial_evidence_def tank_level_terms demo_lists Let_def split_def tank_eligible
    measurement_scope_def by (simp_all add: tank_roles)

lemma demo_final: "final_state no_text demo_model prompt default_retrieval_limits =
    Inr (initial_state demo_model prompt default_retrieval_limits)"
  by (simp add: final_state_def budget_loop.simps [of no_text] within_budget_def no_text_def Let_def
      retrieval_facts_of_def estimated_tokens_def)

lemma demo_retrieve:
  "retrieve no_text demo_model ''tank level'' default_retrieval_limits =
     Inr (retrieval_json (retrieval_facts_of demo_model ''tank level'' default_retrieval_limits [''level''])
       (initial_state demo_model ''tank level'' default_retrieval_limits))"
  by (simp add: retrieve_final demo_final demo_model_wf retrieval_prompt_ok_def retrieval_limits_ok_def tank_initial)
    (simp add: default_retrieval_limits_def)

theorem retrieval_is_bounded_evidence_witness:
  "\<exists>r. retrieve no_text demo_model ''tank level'' default_retrieval_limits = Inr r \<and>
     length (scope_part r ''assets'') \<le> 16"
  using retrieval_is_bounded_evidence [OF demo_retrieve] demo_retrieve
  by (auto simp: default_retrieval_limits_def)


theorem clear_retrieval_is_complete_witness:
  "\<exists>r. retrieve no_text demo_model ''tank level'' default_retrieval_limits = Inr r \<and>
     elements_of (fld r ''eligible_asset_ids'') = [JStr ''tank'']"
  using clear_retrieval_is_complete [OF demo_retrieve] demo_retrieve
  by (auto simp: retrieval_json_members tank_initial Let_def)

lemma tank_hints:
  "rf_hints (retrieval_facts_of demo_model ''tank level'' default_retrieval_limits [''level'']) = [''overview'']"
  by (simp add: retrieval_facts_of_def request_hints_def task_hints_def tank_level_terms Let_def)

theorem rules_answer_retrieved_witness:
  "\<exists>r x. retrieve no_text demo_model ''tank level'' default_retrieval_limits = Inr r \<and>
     interpret_prompt (\<lambda>_. []) None demo_model ''tank level'' r ''rules'' = Inr x \<and>
     sfld x ''status'' = ''ready''"
proof -
  have short: "\<forall>t \<in> set (decls demo_model ''tags''). length (sfld t ''role'') \<le> 128"
    by (simp add: decls_def demo_lists demo_asset_texts)
  have "\<exists>x. interpret_prompt (\<lambda>_. []) None demo_model ''tank level''
      (retrieval_json (retrieval_facts_of demo_model ''tank level'' default_retrieval_limits [''level''])
        (initial_state demo_model ''tank level'' default_retrieval_limits)) ''rules'' = Inr x \<and>
      sfld x ''status'' = ''ready''"
    using rules_answer_retrieved [OF demo_retrieve _ _ short, of "\<lambda>_. []" None]
    by (auto simp: retrieval_json_members tank_initial tank_hints)
  with demo_retrieve show ?thesis by blast
qed

end
