(* ===== verification/Options.thy ===== *)
theory Options
  imports Prelude Json_Value
begin

text \<open>
  The options of the service (\<open>options.cpp\<close>, \<open>options_config.cpp\<close>, \<open>options_cli.cpp\<close>,
  \<open>options_validation.cpp\<close>): defaults, the strict JSON configuration, the command line that
  overrides it, and the final validation. The file system, the JSON parser (with the nesting
  limit its callback enforces) and the environment are arguments. A sequence of assignments to
  fields is a list of actions; the chain of comparisons of the command line is a table.
\<close>

section \<open>The options\<close>

record runtime_options =
  o_host :: string
  o_port :: int
  o_model :: string
  o_models_dir :: string
  o_watch_model :: bool
  o_model_rescan_ms :: int
  o_telemetry_stale_after_ms :: u64
  o_telemetry_max_values :: int
  o_telemetry_max_batch_bytes :: int
  o_web_dir :: string
  o_provider_url :: string
  o_provider_model :: string
  o_provider_api_key :: string
  o_provider_api_key_env :: string
  o_provider_timeout_ms :: int
  o_provider_context_bytes :: int
  o_provider_max_output_tokens :: int
  o_retrieval_cache_capacity :: int
  o_interpretation_cache_capacity :: int
  o_cache_ttl_ms :: int
  o_allow_remote :: bool
  o_allow_remote_inference :: bool
  o_workbench_origin :: string
  o_store_file :: string
  o_store_sync :: bool
  o_store_max_bytes :: u64
  o_diagnostic_log_file :: string
  o_diagnostic_queue_capacity :: int
  o_diagnostic_rotation_bytes :: u64
  o_diagnostic_rotation_files :: int
  o_operator_actor :: string
  o_config_file :: string

definition default_options :: runtime_options where
  "default_options =
     \<lparr>o_host = ''127.0.0.1'', o_port = 8080, o_model = ''examples/machines/assembly-line.json'',
      o_models_dir = ''examples/machines'', o_watch_model = True, o_model_rescan_ms = 500,
      o_telemetry_stale_after_ms = 3000, o_telemetry_max_values = 512, o_telemetry_max_batch_bytes = 65536,
      o_web_dir = [], o_provider_url = [], o_provider_model = ''local-model'', o_provider_api_key = [],
      o_provider_api_key_env = [], o_provider_timeout_ms = 5000, o_provider_context_bytes = 12288,
      o_provider_max_output_tokens = 256, o_retrieval_cache_capacity = 256,
      o_interpretation_cache_capacity = 128, o_cache_ttl_ms = 300000, o_allow_remote = False,
      o_allow_remote_inference = False, o_workbench_origin = [], o_store_file = [], o_store_sync = True,
      o_store_max_bytes = 64 * 1024 * 1024, o_diagnostic_log_file = [], o_diagnostic_queue_capacity = 1024,
      o_diagnostic_rotation_bytes = 8 * 1024 * 1024, o_diagnostic_rotation_files = 3,
      o_operator_actor = ''local-operator'', o_config_file = []\<rparr>"

section \<open>Numbers on the command line\<close>

text \<open>
  \<open>std::from_chars\<close> into an \<open>int\<close>: an optional minus sign and the longest run of digits; nothing
  when there is no digit or the value has no 32-bit representation. The rest is what it left.
\<close>

definition from_chars_int :: "string \<Rightarrow> (int \<times> string) option" where
  "from_chars_int text =
     (let neg = (text \<noteq> [] \<and> hd text = CHR ''-''); body = (if neg then tl text else text);
          ds = takeWhile is_digit body; n = int (digits_value ds); v = (if neg then - n else n)
      in if ds = [] \<or> v < - (2 ^ 31) \<or> v > 2 ^ 31 - 1 then None else Some (v, dropWhile is_digit body))"

definition bounded_integer :: "string \<Rightarrow> int \<Rightarrow> int \<Rightarrow> string \<Rightarrow> int res" where
  "bounded_integer text minimum maximum name =
     (let out_of_range = RuntimeError (name @ '' must be between '' @ show_nat (nat minimum) @ '' and '' @
            show_nat (nat maximum))
      in case from_chars_int text of
           None \<Rightarrow> Inl out_of_range
         | Some (v, rest) \<Rightarrow>
             if text = [] \<or> rest \<noteq> [] \<or> v < minimum \<or> v > maximum then Inl out_of_range else Inr v)"

section \<open>The configuration file\<close>

definition max_config_bytes :: nat where "max_config_bytes = 64 * 1024"
definition max_config_string :: nat where "max_config_string = 4096"

definition require_allowed :: "json \<Rightarrow> string list \<Rightarrow> string \<Rightarrow> unit res" where
  "require_allowed v names location =
     (if \<not> is_object v then Inl (RuntimeError (location @ '' must be an object''))
      else echeck (\<lambda>(k, _). throw_if (k \<notin> set names)
             (RuntimeError (location @ '' contains unsupported field '' @ quoted k))) (json_items v))"

definition config_string :: "json \<Rightarrow> string \<Rightarrow> string \<Rightarrow> string \<Rightarrow> string res" where
  "config_string object key fallback location =
     (case find_key object key of
        None \<Rightarrow> Inr fallback
      | Some v \<Rightarrow>
          if \<not> is_string v \<or> length (str_of v) > max_config_string
          then Inl (RuntimeError (location @ ''.'' @ key @ '' must be a bounded string''))
          else get_string v)"

definition config_boolean :: "json \<Rightarrow> string \<Rightarrow> bool \<Rightarrow> string \<Rightarrow> bool res" where
  "config_boolean object key fallback location =
     (case find_key object key of
        None \<Rightarrow> Inr fallback
      | Some v \<Rightarrow>
          if \<not> is_boolean v then Inl (RuntimeError (location @ ''.'' @ key @ '' must be boolean''))
          else get_bool v)"

definition config_integer :: "json \<Rightarrow> string \<Rightarrow> int \<Rightarrow> int \<Rightarrow> int \<Rightarrow> string \<Rightarrow> int res" where
  "config_integer object key fallback minimum maximum location =
     (case find_key object key of
        None \<Rightarrow> Inr fallback
      | Some v \<Rightarrow>
          if \<not> is_number_integer v then Inl (RuntimeError (location @ ''.'' @ key @ '' must be an integer''))
          else ebind (get_i64 v) (\<lambda>number.
            if number < minimum \<or> number > maximum
            then Inl (RuntimeError (location @ ''.'' @ key @ '' is out of range''))
            else Inr number))"

text \<open>One assignment \<open>options.x = optional_\<dots>(section, key, options.x, \<dots>)\<close>.\<close>

type_synonym field_action = "json \<Rightarrow> string \<Rightarrow> runtime_options \<Rightarrow> runtime_options res"

definition text_field ::
  "string \<Rightarrow> (runtime_options \<Rightarrow> string) \<Rightarrow> (string \<Rightarrow> runtime_options \<Rightarrow> runtime_options) \<Rightarrow> field_action" where
  "text_field key get upd j location o1 =
     ebind (config_string j key (get o1) location) (\<lambda>v. Inr (upd v o1))"

definition flag_field ::
  "string \<Rightarrow> (runtime_options \<Rightarrow> bool) \<Rightarrow> (bool \<Rightarrow> runtime_options \<Rightarrow> runtime_options) \<Rightarrow> field_action" where
  "flag_field key get upd j location o1 =
     ebind (config_boolean j key (get o1) location) (\<lambda>v. Inr (upd v o1))"

definition int_field ::
  "string \<Rightarrow> int \<Rightarrow> int \<Rightarrow> (runtime_options \<Rightarrow> int) \<Rightarrow> (int \<Rightarrow> runtime_options \<Rightarrow> runtime_options) \<Rightarrow> field_action" where
  "int_field key minimum maximum get upd j location o1 =
     ebind (config_integer j key (get o1) minimum maximum location) (\<lambda>v. Inr (upd v o1))"

text \<open>\<open>static_cast<int>\<close> of a 64-bit value: its low 32 bits, signed.\<close>

definition cast_int :: "u64 \<Rightarrow> int" where
  "cast_int w = sint (ucast w :: u32)"

definition int_max :: int where "int_max = 2 ^ 31 - 1"

definition max_store_field :: field_action where
  "max_store_field storage location o1 =
     (case find_key storage ''maximum_bytes'' of
        None \<Rightarrow> Inr o1
      | Some v \<Rightarrow>
          if \<not> is_number_unsigned v
          then Inl (RuntimeError ''configuration.storage.maximum_bytes must be unsigned'')
          else ebind (get_u64 v) (\<lambda>w. Inr (o1\<lparr>o_store_max_bytes := w\<rparr>)))"

definition server_fields :: "field_action list" where
  "server_fields =
     [text_field ''host'' o_host (\<lambda>v. o_host_update (\<lambda>_. v)),
      int_field ''port'' 1 65535 o_port (\<lambda>v. o_port_update (\<lambda>_. v)),
      flag_field ''allow_remote'' o_allow_remote (\<lambda>v. o_allow_remote_update (\<lambda>_. v)),
      text_field ''workbench_origin'' o_workbench_origin (\<lambda>v. o_workbench_origin_update (\<lambda>_. v)),
      text_field ''web_dir'' o_web_dir (\<lambda>v. o_web_dir_update (\<lambda>_. v))]"

definition machine_fields :: "field_action list" where
  "machine_fields =
     [text_field ''model'' o_model (\<lambda>v. o_model_update (\<lambda>_. v)),
      text_field ''models_dir'' o_models_dir (\<lambda>v. o_models_dir_update (\<lambda>_. v)),
      flag_field ''watch'' o_watch_model (\<lambda>v. o_watch_model_update (\<lambda>_. v)),
      int_field ''rescan_ms'' 100 60000 o_model_rescan_ms (\<lambda>v. o_model_rescan_ms_update (\<lambda>_. v))]"

definition telemetry_fields :: "field_action list" where
  "telemetry_fields =
     [int_field ''stale_after_ms'' 100 300000 (\<lambda>o1. cast_int (o_telemetry_stale_after_ms o1))
        (\<lambda>v. o_telemetry_stale_after_ms_update (\<lambda>_. of_int v)),
      int_field ''max_values'' 1 4096 o_telemetry_max_values (\<lambda>v. o_telemetry_max_values_update (\<lambda>_. v)),
      int_field ''max_batch_bytes'' 1024 1048576 o_telemetry_max_batch_bytes
        (\<lambda>v. o_telemetry_max_batch_bytes_update (\<lambda>_. v))]"

definition inference_fields :: "field_action list" where
  "inference_fields =
     [text_field ''endpoint'' o_provider_url (\<lambda>v. o_provider_url_update (\<lambda>_. v)),
      text_field ''model'' o_provider_model (\<lambda>v. o_provider_model_update (\<lambda>_. v)),
      int_field ''timeout_ms'' 100 30000 o_provider_timeout_ms (\<lambda>v. o_provider_timeout_ms_update (\<lambda>_. v)),
      int_field ''context_bytes'' 1024 65536 o_provider_context_bytes
        (\<lambda>v. o_provider_context_bytes_update (\<lambda>_. v)),
      int_field ''max_output_tokens'' 64 2048 o_provider_max_output_tokens
        (\<lambda>v. o_provider_max_output_tokens_update (\<lambda>_. v)),
      flag_field ''allow_remote'' o_allow_remote_inference (\<lambda>v. o_allow_remote_inference_update (\<lambda>_. v)),
      text_field ''key_env'' o_provider_api_key_env (\<lambda>v. o_provider_api_key_env_update (\<lambda>_. v))]"

definition cache_fields :: "field_action list" where
  "cache_fields =
     [int_field ''retrieval_capacity'' 1 4096 o_retrieval_cache_capacity
        (\<lambda>v. o_retrieval_cache_capacity_update (\<lambda>_. v)),
      int_field ''interpretation_capacity'' 1 4096 o_interpretation_cache_capacity
        (\<lambda>v. o_interpretation_cache_capacity_update (\<lambda>_. v)),
      int_field ''ttl_seconds'' 1 86400 (\<lambda>o1. o_cache_ttl_ms o1 div 1000)
        (\<lambda>v. o_cache_ttl_ms_update (\<lambda>_. v * 1000))]"

definition audit_fields :: "field_action list" where
  "audit_fields = [text_field ''actor'' o_operator_actor (\<lambda>v. o_operator_actor_update (\<lambda>_. v))]"

definition storage_fields :: "field_action list" where
  "storage_fields =
     [text_field ''file'' o_store_file (\<lambda>v. o_store_file_update (\<lambda>_. v)),
      flag_field ''synchronize'' o_store_sync (\<lambda>v. o_store_sync_update (\<lambda>_. v)),
      max_store_field]"

definition diagnostics_fields :: "field_action list" where
  "diagnostics_fields =
     [text_field ''file'' o_diagnostic_log_file (\<lambda>v. o_diagnostic_log_file_update (\<lambda>_. v)),
      int_field ''queue_capacity'' 16 65536 o_diagnostic_queue_capacity
        (\<lambda>v. o_diagnostic_queue_capacity_update (\<lambda>_. v)),
      int_field ''rotation_bytes'' 4096 int_max (\<lambda>o1. cast_int (o_diagnostic_rotation_bytes o1))
        (\<lambda>v. o_diagnostic_rotation_bytes_update (\<lambda>_. of_int v)),
      int_field ''rotation_files'' 1 32 o_diagnostic_rotation_files
        (\<lambda>v. o_diagnostic_rotation_files_update (\<lambda>_. v))]"

text \<open>The sections in order, with the fields each allows.\<close>

definition config_sections :: "(string \<times> string list \<times> field_action list) list" where
  "config_sections =
     [(''server'', [''host'', ''port'', ''allow_remote'', ''workbench_origin'', ''web_dir''], server_fields),
      (''machine'', [''model'', ''models_dir'', ''watch'', ''rescan_ms''], machine_fields),
      (''telemetry'', [''stale_after_ms'', ''max_values'', ''max_batch_bytes''], telemetry_fields),
      (''inference'', [''endpoint'', ''model'', ''timeout_ms'', ''allow_remote'', ''key_env'', ''context_bytes'',
         ''max_output_tokens''], inference_fields),
      (''cache'', [''retrieval_capacity'', ''interpretation_capacity'', ''ttl_seconds''], cache_fields),
      (''audit'', [''actor''], audit_fields),
      (''storage'', [''file'', ''synchronize'', ''maximum_bytes''], storage_fields),
      (''diagnostics'', [''file'', ''queue_capacity'', ''rotation_bytes'', ''rotation_files''], diagnostics_fields)]"

definition load_section ::
  "json \<Rightarrow> runtime_options \<Rightarrow> string \<times> string list \<times> field_action list \<Rightarrow> runtime_options res" where
  "load_section config o1 = (\<lambda>(name, names, actions).
     if \<not> contains config name then Inr o1
     else ebind (json_at config name) (\<lambda>j.
       let location = ''configuration.'' @ name
       in ethen (require_allowed j names location) (efold (\<lambda>o2 act. act j location o2) o1 actions)))"

definition config_keys :: "string list" where
  "config_keys = [''schema_version'', ''server'', ''machine'', ''telemetry'', ''inference'', ''cache'', ''audit'',
     ''storage'', ''diagnostics'']"

text \<open>The file system as the reader sees it.\<close>

record config_files =
  cf_regular :: "string \<Rightarrow> bool"
  cf_size :: "string \<Rightarrow> nat option"
  cf_contents :: "string \<Rightarrow> string option"

definition read_config_file :: "config_files \<Rightarrow> string \<Rightarrow> string res" where
  "read_config_file cf path =
     (if \<not> cf_regular cf path
      then Inl (RuntimeError ''configuration file is missing or is not a regular file'')
      else case cf_size cf path of
        None \<Rightarrow> Inl (RuntimeError ''configuration file exceeds 64 KiB'')
      | Some n \<Rightarrow>
          if n > max_config_bytes then Inl (RuntimeError ''configuration file exceeds 64 KiB'')
          else case cf_contents cf path of
            None \<Rightarrow> Inl (RuntimeError ''could not open configuration file'')
          | Some body \<Rightarrow>
              if length body > max_config_bytes then Inl (RuntimeError ''configuration file exceeds 64 KiB'')
              else Inr body)"

definition config_options :: "json \<Rightarrow> runtime_options res" where
  "config_options config =
     ethen (require_allowed config config_keys ''configuration'')
     (ethen (throw_if (\<not> contains config ''schema_version'' \<or>
          \<not> is_number_integer (fld config ''schema_version'') \<or>
          \<not> jeq (fld config ''schema_version'') (JInt 1))
        (RuntimeError ''configuration.schema_version must be 1''))
      (efold (load_section config) default_options config_sections))"

definition load_config ::
  "config_files \<Rightarrow> (nat \<Rightarrow> string \<Rightarrow> string + json) \<Rightarrow> string \<Rightarrow> runtime_options res" where
  "load_config cf parse path =
     ebind (read_config_file cf path) (\<lambda>body.
       case parse 32 body of
         Inl msg \<Rightarrow> Inl (RuntimeError (''invalid configuration: '' @ msg))
       | Inr config \<Rightarrow> ebind (config_options config) (\<lambda>o1. Inr (o1\<lparr>o_config_file := path\<rparr>)))"

section \<open>The command line\<close>

fun find_config_from :: "string \<Rightarrow> string list \<Rightarrow> string res" where
  "find_config_from path [] = Inr path"
| "find_config_from path (a # rest) =
     (if a = ''--config''
      then (case rest of
              [] \<Rightarrow> Inl (RuntimeError ''missing value for --config'')
            | v # others \<Rightarrow> find_config_from v others)
      else find_config_from path rest)"

definition find_config_path :: "string list \<Rightarrow> string res" where
  "find_config_path args = find_config_from [] args"

text \<open>What an option does: set a flag, or take the next argument.\<close>

datatype cli_action =
    Sets "runtime_options \<Rightarrow> runtime_options"
  | Takes "string \<Rightarrow> runtime_options \<Rightarrow> runtime_options res"
  | ShowsHelp

definition takes_text :: "(string \<Rightarrow> runtime_options \<Rightarrow> runtime_options) \<Rightarrow> cli_action" where
  "takes_text upd = Takes (\<lambda>v o1. Inr (upd v o1))"

definition takes_int ::
  "int \<Rightarrow> int \<Rightarrow> string \<Rightarrow> (int \<Rightarrow> runtime_options \<Rightarrow> runtime_options) \<Rightarrow> cli_action" where
  "takes_int minimum maximum name upd =
     Takes (\<lambda>v o1. ebind (bounded_integer v minimum maximum name) (\<lambda>n. Inr (upd n o1)))"

definition cli_table :: "(string \<times> cli_action) list" where
  "cli_table =
     [(''--config'', Takes (\<lambda>v o1. Inr o1)),
      (''--host'', takes_text (\<lambda>v. o_host_update (\<lambda>_. v))),
      (''--port'', takes_int 1 65535 ''port'' (\<lambda>v. o_port_update (\<lambda>_. v))),
      (''--model'', takes_text (\<lambda>v. o_model_update (\<lambda>_. v))),
      (''--models'', takes_text (\<lambda>v. o_models_dir_update (\<lambda>_. v))),
      (''--no-model-watch'', Sets (o_watch_model_update (\<lambda>_. False))),
      (''--model-rescan-ms'', takes_int 100 60000 ''model rescan interval'' (\<lambda>v. o_model_rescan_ms_update (\<lambda>_. v))),
      (''--telemetry-stale-after-ms'', takes_int 100 300000 ''telemetry stale interval''
         (\<lambda>v. o_telemetry_stale_after_ms_update (\<lambda>_. of_int v))),
      (''--telemetry-max-values'', takes_int 1 4096 ''telemetry value limit''
         (\<lambda>v. o_telemetry_max_values_update (\<lambda>_. v))),
      (''--telemetry-max-batch-bytes'', takes_int 1024 1048576 ''telemetry batch byte limit''
         (\<lambda>v. o_telemetry_max_batch_bytes_update (\<lambda>_. v))),
      (''--web-dir'', takes_text (\<lambda>v. o_web_dir_update (\<lambda>_. v))),
      (''--llama-url'', takes_text (\<lambda>v. o_provider_url_update (\<lambda>_. v))),
      (''--provider-url'', takes_text (\<lambda>v. o_provider_url_update (\<lambda>_. v))),
      (''--provider-model'', takes_text (\<lambda>v. o_provider_model_update (\<lambda>_. v))),
      (''--provider-context-bytes'', takes_int 1024 65536 ''provider context bytes''
         (\<lambda>v. o_provider_context_bytes_update (\<lambda>_. v))),
      (''--provider-max-output-tokens'', takes_int 64 2048 ''provider maximum output tokens''
         (\<lambda>v. o_provider_max_output_tokens_update (\<lambda>_. v))),
      (''--provider-key-env'', takes_text (\<lambda>v. o_provider_api_key_env_update (\<lambda>_. v))),
      (''--llama-timeout-ms'', takes_int 100 30000 ''provider timeout'' (\<lambda>v. o_provider_timeout_ms_update (\<lambda>_. v))),
      (''--provider-timeout-ms'', takes_int 100 30000 ''provider timeout'' (\<lambda>v. o_provider_timeout_ms_update (\<lambda>_. v))),
      (''--allow-remote'', Sets (o_allow_remote_update (\<lambda>_. True))),
      (''--allow-remote-inference'', Sets (o_allow_remote_inference_update (\<lambda>_. True))),
      (''--retrieval-cache-capacity'', takes_int 1 4096 ''retrieval cache capacity''
         (\<lambda>v. o_retrieval_cache_capacity_update (\<lambda>_. v))),
      (''--interpretation-cache-capacity'', takes_int 1 4096 ''interpretation cache capacity''
         (\<lambda>v. o_interpretation_cache_capacity_update (\<lambda>_. v))),
      (''--cache-ttl-ms'', takes_int 1000 86400000 ''cache TTL'' (\<lambda>v. o_cache_ttl_ms_update (\<lambda>_. v))),
      (''--workbench-origin'', takes_text (\<lambda>v. o_workbench_origin_update (\<lambda>_. v))),
      (''--store-file'', takes_text (\<lambda>v. o_store_file_update (\<lambda>_. v))),
      (''--store-no-sync'', Sets (o_store_sync_update (\<lambda>_. False))),
      (''--store-max-bytes'', takes_int (1024 * 1024) int_max ''operational store maximum''
         (\<lambda>v. o_store_max_bytes_update (\<lambda>_. of_int v))),
      (''--log-file'', takes_text (\<lambda>v. o_diagnostic_log_file_update (\<lambda>_. v))),
      (''--log-queue'', takes_int 16 65536 ''diagnostic queue'' (\<lambda>v. o_diagnostic_queue_capacity_update (\<lambda>_. v))),
      (''--log-rotation-bytes'', takes_int 4096 int_max ''diagnostic rotation bytes''
         (\<lambda>v. o_diagnostic_rotation_bytes_update (\<lambda>_. of_int v))),
      (''--log-rotation-files'', takes_int 1 32 ''diagnostic rotation files''
         (\<lambda>v. o_diagnostic_rotation_files_update (\<lambda>_. v))),
      (''--operator-actor'', takes_text (\<lambda>v. o_operator_actor_update (\<lambda>_. v))),
      (''--help'', ShowsHelp)]"

fun apply_overrides :: "runtime_options \<Rightarrow> bool \<Rightarrow> string list \<Rightarrow> (runtime_options \<times> bool) res" where
  "apply_overrides o1 help [] = Inr (o1, help)"
| "apply_overrides o1 help (a # rest) =
     (case map_of cli_table a of
        None \<Rightarrow> Inl (RuntimeError (''unknown option: '' @ a))
      | Some (Sets f) \<Rightarrow> apply_overrides (f o1) help rest
      | Some ShowsHelp \<Rightarrow> apply_overrides o1 True rest
      | Some (Takes f) \<Rightarrow>
          (case rest of
             [] \<Rightarrow> Inl (RuntimeError (''missing value for '' @ a))
           | v # others \<Rightarrow> ebind (f v o1) (\<lambda>o2. apply_overrides o2 help others)))"

section \<open>Validation\<close>

definition loopback_host :: "string \<Rightarrow> bool" where
  "loopback_host host \<longleftrightarrow> host = ''127.0.0.1'' \<or> host = ''localhost'' \<or> host = ''::1''"

definition valid_environment_name :: "string \<Rightarrow> bool" where
  "valid_environment_name name \<longleftrightarrow>
     (if name = [] \<or> length name > 128 \<or> \<not> (hd name = CHR ''_'' \<or> is_upper (hd name)) then False
      else list_all (\<lambda>c. c = CHR ''_'' \<or> is_upper c \<or> is_digit c) (tl name))"

text \<open>The text before and after the last colon (\<open>rfind(':')\<close>).\<close>

definition split_last_colon :: "string \<Rightarrow> (string \<times> string) option" where
  "split_last_colon s =
     (if CHR '':'' \<notin> set s then None
      else let after = rev (takeWhile (\<lambda>c. c \<noteq> CHR '':'') (rev s))
           in Some (take (length s - length after - 1) s, after))"

definition valid_workbench_origin :: "string \<Rightarrow> bool" where
  "valid_workbench_origin origin \<longleftrightarrow>
     (if \<not> is_prefix_of ''http://'' origin then False
      else let authority = drop 7 origin
           in if authority = [] \<or> CHR ''/'' \<in> set authority \<or> CHR ''@'' \<in> set authority then False
              else case split_last_colon authority of
                None \<Rightarrow> False
              | Some (host, port) \<Rightarrow>
                  loopback_host host \<and> (case bounded_integer port 1 65535 ''origin port'' of Inr _ \<Rightarrow> True | Inl _ \<Rightarrow> False))"

definition check_options :: "runtime_options \<Rightarrow> unit res" where
  "check_options o1 = checks
     [throw_if (o_port o1 < 1 \<or> o_port o1 > 65535) (RuntimeError ''port out of range''),
      throw_if (o_provider_timeout_ms o1 < 100 \<or> o_provider_timeout_ms o1 > 30000)
        (RuntimeError ''provider timeout must be between 100 and 30000 ms''),
      throw_if (o_model o1 = [] \<or> o_models_dir o1 = [])
        (RuntimeError ''model and models directory must not be empty''),
      throw_if (o_operator_actor o1 = [] \<or> length (o_operator_actor o1) > 128)
        (RuntimeError ''audit actor must be a nonempty string of at most 128 bytes''),
      throw_if (o_store_max_bytes o1 < 1024 * 1024 \<or> o_store_max_bytes o1 > 4 * 1024 * 1024 * 1024)
        (RuntimeError ''operational store maximum must be from 1 MiB through 4 GiB''),
      throw_if (o_diagnostic_queue_capacity o1 < 16 \<or> o_diagnostic_queue_capacity o1 > 65536 \<or>
          o_diagnostic_rotation_bytes o1 < 4096 \<or> o_diagnostic_rotation_files o1 < 1 \<or>
          o_diagnostic_rotation_files o1 > 32)
        (RuntimeError ''diagnostic logger limits are out of range''),
      throw_if (o_workbench_origin o1 \<noteq> [] \<and> \<not> valid_workbench_origin (o_workbench_origin o1))
        (RuntimeError ''workbench_origin must be an http:// loopback origin with a port''),
      throw_if (\<not> o_allow_remote o1 \<and> \<not> loopback_host (o_host o1))
        (RuntimeError ''non-loopback bind requires explicit allow_remote'')]"

definition validate_options :: "(string \<Rightarrow> string option) \<Rightarrow> runtime_options \<Rightarrow> runtime_options res" where
  "validate_options getenv o1 =
     ethen (check_options o1)
     (if o_provider_api_key_env o1 = [] then Inr o1
      else if \<not> valid_environment_name (o_provider_api_key_env o1)
      then Inl (RuntimeError ''provider key environment name is invalid'')
      else case getenv (o_provider_api_key_env o1) of
        None \<Rightarrow> Inl (RuntimeError ''configured provider key environment variable is empty'')
      | Some key \<Rightarrow>
          if key = [] then Inl (RuntimeError ''configured provider key environment variable is empty'')
          else Inr (o1\<lparr>o_provider_api_key := key\<rparr>))"

text \<open>The arguments are those after the program's name.\<close>

definition parse_options ::
  "config_files \<Rightarrow> (nat \<Rightarrow> string \<Rightarrow> string + json) \<Rightarrow> (string \<Rightarrow> string option) \<Rightarrow> string list \<Rightarrow>
     (runtime_options \<times> bool) res" where
  "parse_options cf parse getenv args =
     ebind (find_config_path args) (\<lambda>path.
     ebind (if path \<noteq> [] then load_config cf parse path else Inr default_options) (\<lambda>o1.
     ebind (apply_overrides o1 False args) (\<lambda>(o2, help).
     ebind (validate_options getenv o2) (\<lambda>o3. Inr (o3, help)))))"

section \<open>What every assignment keeps\<close>

definition act_keeps :: "(runtime_options \<Rightarrow> bool) \<Rightarrow> cli_action \<Rightarrow> bool" where
  "act_keeps P a \<longleftrightarrow>
     (case a of
        Sets f \<Rightarrow> \<forall>o1. P o1 \<longrightarrow> P (f o1)
      | Takes f \<Rightarrow> \<forall>v o1 o2. P o1 \<longrightarrow> f v o1 = Inr o2 \<longrightarrow> P o2
      | ShowsHelp \<Rightarrow> True)"

definition field_keeps :: "json \<Rightarrow> (runtime_options \<Rightarrow> bool) \<Rightarrow> field_action \<Rightarrow> bool" where
  "field_keeps j P f \<longleftrightarrow> (\<forall>location o1 o2. P o1 \<longrightarrow> f j location o1 = Inr o2 \<longrightarrow> P o2)"

lemma bounded_integer_Inr: "bounded_integer text lo hi name = Inr v \<Longrightarrow> lo \<le> v \<and> v \<le> hi"
  by (auto simp: bounded_integer_def Let_def split: option.splits if_splits)

lemma act_keeps_simps [simp]:
  "act_keeps P (Sets f) \<longleftrightarrow> (\<forall>o1. P o1 \<longrightarrow> P (f o1))"
  "act_keeps P ShowsHelp"
  "act_keeps P (takes_text upd) \<longleftrightarrow> (\<forall>v o1. P o1 \<longrightarrow> P (upd v o1))"
  "act_keeps P (Takes (\<lambda>v o1. Inr o1))"
  by (auto simp: act_keeps_def takes_text_def)

lemma act_keeps_int:
  "(\<And>v o1. P o1 \<Longrightarrow> lo \<le> v \<Longrightarrow> v \<le> hi \<Longrightarrow> P (upd v o1)) \<Longrightarrow> act_keeps P (takes_int lo hi name upd)"
  by (auto simp: act_keeps_def takes_int_def dest: bounded_integer_Inr)

lemma apply_overrides_keeps:
  assumes "apply_overrides o1 h args = Inr (o2, h2)" and "P o1"
    and "\<And>a act. (a, act) \<in> set cli_table \<Longrightarrow> a \<in> set args \<Longrightarrow> act_keeps P act"
  shows "P o2"
  using assms
proof (induction o1 h args rule: apply_overrides.induct)
  case (2 o1 hlp a rest)
  from 2(4) obtain act where act: "map_of cli_table a = Some act" by (auto split: option.splits)
  then have k: "act_keeps P act" using 2(6) by (auto dest: map_of_SomeD)
  show ?case
  proof (cases act)
    case (Sets f)
    with 2(1) [OF act Sets] 2(4-6) act k show ?thesis by simp
  next
    case (Takes f)
    then obtain v others o3 where v: "rest = v # others" "f v o1 = Inr o3" "apply_overrides o3 hlp others = Inr (o2, h2)"
      using 2(4) act by (auto split: list.splits)
    then have "P o3" using k Takes 2(5) by (auto simp: act_keeps_def)
    then show ?thesis using 2(2) [OF act Takes v(1,2,3)] 2(6) v(1) by simp
  next
    case ShowsHelp
    with 2(3) [OF act ShowsHelp] 2(4-6) act show ?thesis by simp
  qed
qed simp

lemma config_integer_Inr:
  "config_integer j key fallback lo hi location = Inr v \<Longrightarrow> lo \<le> fallback \<Longrightarrow> fallback \<le> hi \<Longrightarrow> lo \<le> v \<and> v \<le> hi"
  by (auto simp: config_integer_def split: option.splits if_splits)

lemma field_keeps_text [simp]:
  "(\<And>v o1. P o1 \<Longrightarrow> P (upd v o1)) \<Longrightarrow> field_keeps j P (text_field key get upd)"
  by (auto simp: field_keeps_def text_field_def)

lemma field_keeps_flag:
  "(\<And>v o1. P o1 \<Longrightarrow> (v = get o1 \<or> find_key j key = Some (JBool v)) \<Longrightarrow> P (upd v o1)) \<Longrightarrow>
     field_keeps j P (flag_field key get upd)"
  by (auto simp: field_keeps_def flag_field_def config_boolean_def split: option.splits if_splits)

lemma field_keeps_int:
  assumes "\<And>v o1. P o1 \<Longrightarrow> lo \<le> v \<Longrightarrow> v \<le> hi \<Longrightarrow> P (upd v o1)"
    and "\<And>o1. P o1 \<Longrightarrow> lo \<le> get o1 \<and> get o1 \<le> hi"
  shows "field_keeps j P (int_field key lo hi get upd)"
  unfolding field_keeps_def int_field_def
  using assms config_integer_Inr by auto

lemma field_keeps_unbounded:
  "(\<And>v o1. P o1 \<Longrightarrow> P (upd v o1)) \<Longrightarrow> field_keeps j P (int_field key lo hi get upd)"
  by (auto simp: field_keeps_def int_field_def)

lemma efold_fields_keep:
  "efold (\<lambda>o2 act. act j location o2) o1 actions = Inr o3 \<Longrightarrow> P o1 \<Longrightarrow>
     (\<And>f. f \<in> set actions \<Longrightarrow> field_keeps j P f) \<Longrightarrow> P o3"
  by (erule efold_invariant) (auto simp: field_keeps_def)

lemma config_options_keep:
  assumes "config_options config = Inr o2" and "P default_options"
    and "\<And>name names actions f. (name, names, actions) \<in> set config_sections \<Longrightarrow> f \<in> set actions \<Longrightarrow>
      field_keeps (fld config name) P f"
  shows "P o2"
proof -
  have "efold (load_section config) default_options config_sections = Inr o2"
    using assms(1) by (simp add: config_options_def)
  then show ?thesis using assms(2)
  proof (rule efold_invariant)
    fix o3 s o4 assume s: "s \<in> set config_sections" "P o3" "load_section config o3 s = Inr o4"
    obtain name names actions where sn: "s = (name, names, actions)" by (cases s)
    show "P o4"
    proof (cases "contains config name")
      case False
      with s sn show ?thesis by (simp add: load_section_def)
    next
      case True
      then obtain j where j: "find_key config name = Some j" by (auto simp: contains_def)
      with True s sn obtain loc where "efold (\<lambda>o2 act. act j loc o2) o3 actions = Inr o4"
        by (auto simp: load_section_def Let_def)
      then show ?thesis
        using assms(3) s(1,2) sn fld_eq [OF j] by (auto intro: efold_fields_keep)
    qed
  qed
qed

section \<open>Properties\<close>

definition between :: "int \<Rightarrow> int \<Rightarrow> int \<Rightarrow> bool" where
  "between lo hi v \<longleftrightarrow> lo \<le> v \<and> v \<le> hi"

definition in_ranges :: "runtime_options \<Rightarrow> bool" where
  "in_ranges o1 \<longleftrightarrow>
     between 1 65535 (o_port o1) \<and> between 100 60000 (o_model_rescan_ms o1) \<and>
     between 100 300000 (uint (o_telemetry_stale_after_ms o1)) \<and> between 1 4096 (o_telemetry_max_values o1) \<and>
     between 1024 1048576 (o_telemetry_max_batch_bytes o1) \<and> between 100 30000 (o_provider_timeout_ms o1) \<and>
     between 1024 65536 (o_provider_context_bytes o1) \<and> between 64 2048 (o_provider_max_output_tokens o1) \<and>
     between 1 4096 (o_retrieval_cache_capacity o1) \<and> between 1 4096 (o_interpretation_cache_capacity o1) \<and>
     between 1000 86400000 (o_cache_ttl_ms o1) \<and> between 16 65536 (o_diagnostic_queue_capacity o1) \<and>
     between 4096 int_max (uint (o_diagnostic_rotation_bytes o1)) \<and> between 1 32 (o_diagnostic_rotation_files o1)"

lemma uint_of_int: "0 \<le> v \<Longrightarrow> v \<le> int_max \<Longrightarrow> uint (of_int v :: u64) = v"
  by (simp add: uint_word_of_int int_max_def)

lemma cast_int_small: "uint w \<le> int_max \<Longrightarrow> cast_int w = uint w"
proof -
  assume w: "uint w \<le> int_max"
  then have "uint (ucast w :: u32) = uint w"
    by (simp add: int_max_def unsigned_ucast_eq take_bit_int_eq_self)
  moreover have "- 2147483648 \<le> uint w" by (rule order.trans [of _ 0]) simp_all
  ultimately show ?thesis using w unfolding cast_int_def int_max_def
    by (simp add: sint_uint signed_take_bit_int_eq_self_iff)
qed

lemma default_in_ranges: "in_ranges default_options"
  by (simp add: in_ranges_def default_options_def between_def int_max_def)

lemma cli_in_ranges: "(a, act) \<in> set cli_table \<Longrightarrow> act_keeps in_ranges act"
  unfolding cli_table_def
  by (auto simp: in_ranges_def between_def uint_of_int int_max_def intro!: act_keeps_int)

lemma in_ranges_int:
  assumes "\<And>v o1. in_ranges o1 \<Longrightarrow> between lo hi v \<Longrightarrow> in_ranges (upd v o1)"
    and "\<And>o1. in_ranges o1 \<Longrightarrow> between lo hi (get o1)"
  shows "field_keeps j in_ranges (int_field key lo hi get upd)"
  using assms by (intro field_keeps_int) (simp_all add: between_def)

lemma ranges_unchanged:
  "in_ranges (o1\<lparr>o_host := s\<rparr>) = in_ranges o1" "in_ranges (o1\<lparr>o_workbench_origin := s\<rparr>) = in_ranges o1"
  "in_ranges (o1\<lparr>o_web_dir := s\<rparr>) = in_ranges o1" "in_ranges (o1\<lparr>o_model := s\<rparr>) = in_ranges o1"
  "in_ranges (o1\<lparr>o_models_dir := s\<rparr>) = in_ranges o1" "in_ranges (o1\<lparr>o_provider_url := s\<rparr>) = in_ranges o1"
  "in_ranges (o1\<lparr>o_provider_model := s\<rparr>) = in_ranges o1" "in_ranges (o1\<lparr>o_provider_api_key_env := s\<rparr>) = in_ranges o1"
  "in_ranges (o1\<lparr>o_operator_actor := s\<rparr>) = in_ranges o1" "in_ranges (o1\<lparr>o_store_file := s\<rparr>) = in_ranges o1"
  "in_ranges (o1\<lparr>o_diagnostic_log_file := s\<rparr>) = in_ranges o1" "in_ranges (o1\<lparr>o_allow_remote := b\<rparr>) = in_ranges o1"
  "in_ranges (o1\<lparr>o_watch_model := b\<rparr>) = in_ranges o1" "in_ranges (o1\<lparr>o_store_sync := b\<rparr>) = in_ranges o1"
  "in_ranges (o1\<lparr>o_allow_remote_inference := b\<rparr>) = in_ranges o1" "in_ranges (o1\<lparr>o_store_max_bytes := w\<rparr>) = in_ranges o1"
  "in_ranges (o1\<lparr>o_config_file := s\<rparr>) = in_ranges o1" "in_ranges (o1\<lparr>o_provider_api_key := s\<rparr>) = in_ranges o1"
  by (simp_all add: in_ranges_def)

lemma max_store_keeps: "(\<And>o1 w. P o1 \<Longrightarrow> P (o1\<lparr>o_store_max_bytes := w\<rparr>)) \<Longrightarrow> field_keeps j P max_store_field"
  by (auto simp: field_keeps_def max_store_field_def split: option.splits if_splits)

lemmas section_fields = server_fields_def machine_fields_def telemetry_fields_def inference_fields_def
  cache_fields_def audit_fields_def storage_fields_def diagnostics_fields_def

lemma plain_ints_in_ranges:
  "field_keeps j in_ranges (int_field key 1 65535 o_port (\<lambda>v. o_port_update (\<lambda>_. v)))"
  "field_keeps j in_ranges (int_field key 100 60000 o_model_rescan_ms (\<lambda>v. o_model_rescan_ms_update (\<lambda>_. v)))"
  "field_keeps j in_ranges (int_field key 1 4096 o_telemetry_max_values (\<lambda>v. o_telemetry_max_values_update (\<lambda>_. v)))"
  "field_keeps j in_ranges (int_field key 1024 1048576 o_telemetry_max_batch_bytes
     (\<lambda>v. o_telemetry_max_batch_bytes_update (\<lambda>_. v)))"
  "field_keeps j in_ranges (int_field key 100 30000 o_provider_timeout_ms (\<lambda>v. o_provider_timeout_ms_update (\<lambda>_. v)))"
  "field_keeps j in_ranges (int_field key 1024 65536 o_provider_context_bytes
     (\<lambda>v. o_provider_context_bytes_update (\<lambda>_. v)))"
  "field_keeps j in_ranges (int_field key 64 2048 o_provider_max_output_tokens
     (\<lambda>v. o_provider_max_output_tokens_update (\<lambda>_. v)))"
  "field_keeps j in_ranges (int_field key 1 4096 o_retrieval_cache_capacity
     (\<lambda>v. o_retrieval_cache_capacity_update (\<lambda>_. v)))"
  "field_keeps j in_ranges (int_field key 1 4096 o_interpretation_cache_capacity
     (\<lambda>v. o_interpretation_cache_capacity_update (\<lambda>_. v)))"
  "field_keeps j in_ranges (int_field key 16 65536 o_diagnostic_queue_capacity
     (\<lambda>v. o_diagnostic_queue_capacity_update (\<lambda>_. v)))"
  "field_keeps j in_ranges (int_field key 1 32 o_diagnostic_rotation_files
     (\<lambda>v. o_diagnostic_rotation_files_update (\<lambda>_. v)))"
  by (intro in_ranges_int; simp add: in_ranges_def)+

lemma scaled_ints_in_ranges:
  "field_keeps j in_ranges (int_field key 1 86400 (\<lambda>o1. o_cache_ttl_ms o1 div 1000)
     (\<lambda>v. o_cache_ttl_ms_update (\<lambda>_. v * 1000)))"
  "field_keeps j in_ranges (int_field key 100 300000 (\<lambda>o1. cast_int (o_telemetry_stale_after_ms o1))
     (\<lambda>v. o_telemetry_stale_after_ms_update (\<lambda>_. of_int v)))"
  "field_keeps j in_ranges (int_field key 4096 int_max (\<lambda>o1. cast_int (o_diagnostic_rotation_bytes o1))
     (\<lambda>v. o_diagnostic_rotation_bytes_update (\<lambda>_. of_int v)))"
  by (intro in_ranges_int; auto simp: in_ranges_def between_def uint_of_int cast_int_small int_max_def)+

lemma config_in_ranges:
  assumes "(name, names, actions) \<in> set config_sections" and "f \<in> set actions"
  shows "field_keeps j in_ranges f"
  using assms unfolding config_sections_def section_fields
  by (auto simp: ranges_unchanged intro!: field_keeps_flag max_store_keeps plain_ints_in_ranges scaled_ints_in_ranges)

lemma validate_options_Inr:
  "validate_options getenv o1 = Inr o2 \<longleftrightarrow>
     check_options o1 = Inr () \<and>
     (if o_provider_api_key_env o1 = [] then o2 = o1
      else valid_environment_name (o_provider_api_key_env o1) \<and>
        (\<exists>key. getenv (o_provider_api_key_env o1) = Some key \<and> key \<noteq> [] \<and> o2 = o1\<lparr>o_provider_api_key := key\<rparr>))"
  by (auto simp: validate_options_def split: option.splits if_splits)

lemma parse_options_parts:
  assumes "parse_options cf parse getenv args = Inr (o3, help)"
  obtains path o1 o2 where "find_config_path args = Inr path"
    "(if path \<noteq> [] then load_config cf parse path else Inr default_options) = Inr o1"
    "apply_overrides o1 False args = Inr (o2, help)" "validate_options getenv o2 = Inr o3"
  using assms by (auto simp: parse_options_def)

lemma parse_options_keep:
  assumes "parse_options cf parse getenv args = Inr (o3, help)" and "P default_options"
    and cli: "\<And>a act. (a, act) \<in> set cli_table \<Longrightarrow> a \<in> set args \<Longrightarrow> act_keeps P act"
    and conf: "\<And>path body config name names actions f. find_config_path args = Inr path \<Longrightarrow> path \<noteq> [] \<Longrightarrow>
      read_config_file cf path = Inr body \<Longrightarrow> parse 32 body = Inr config \<Longrightarrow>
      (name, names, actions) \<in> set config_sections \<Longrightarrow> f \<in> set actions \<Longrightarrow> field_keeps (fld config name) P f"
    and rest: "\<And>o1 s. P o1 \<Longrightarrow> P (o1\<lparr>o_config_file := s\<rparr>)" "\<And>o1 s. P o1 \<Longrightarrow> P (o1\<lparr>o_provider_api_key := s\<rparr>)"
  shows "P o3"
proof -
  obtain path o1 o2 where path: "find_config_path args = Inr path"
    and o1: "(if path \<noteq> [] then load_config cf parse path else Inr default_options) = Inr o1"
    and o2: "apply_overrides o1 False args = Inr (o2, help)" and o3: "validate_options getenv o2 = Inr o3"
    using assms(1) by (rule parse_options_parts)
  have "P o1"
  proof (cases "path = []")
    case True
    with o1 assms(2) show ?thesis by simp
  next
    case False
    with o1 obtain body config o0 where c: "read_config_file cf path = Inr body" "parse 32 body = Inr config"
      "config_options config = Inr o0" "o1 = o0\<lparr>o_config_file := path\<rparr>"
      by (auto simp: load_config_def split: sum.splits)
    have "P o0" using c(3) assms(2) by (rule config_options_keep) (rule conf [OF path False c(1,2)])
    then show ?thesis by (simp add: c(4) rest)
  qed
  then have "P o2" by (rule apply_overrides_keeps [OF o2]) (rule cli)
  with o3 rest(2) show ?thesis by (auto simp: validate_options_Inr split: if_splits)
qed


text \<open>A section of the configuration file that grants remote access.\<close>

definition config_grants ::
  "config_files \<Rightarrow> (nat \<Rightarrow> string \<Rightarrow> string + json) \<Rightarrow> string list \<Rightarrow> string \<Rightarrow> bool" where
  "config_grants cf parse args name \<longleftrightarrow>
     (\<exists>path body config. find_config_path args = Inr path \<and> path \<noteq> [] \<and> read_config_file cf path = Inr body \<and>
        parse 32 body = Inr config \<and> find_key (fld config name) ''allow_remote'' = Some (JBool True))"

lemma remote_bind_granted:
  assumes "parse_options cf parse getenv args = Inr (opts, help)"
  shows "o_allow_remote opts \<longrightarrow> ''--allow-remote'' \<in> set args \<or> config_grants cf parse args ''server''"
    (is "_ \<longrightarrow> ?C")
  using assms
proof (rule parse_options_keep)
  fix a act assume "(a, act) \<in> set cli_table" "a \<in> set args"
  then show "act_keeps (\<lambda>o1. o_allow_remote o1 \<longrightarrow> ?C) act"
    unfolding cli_table_def by (auto intro!: act_keeps_int)
next
  fix path body config name names actions f
  assume "find_config_path args = Inr path" "path \<noteq> []" "read_config_file cf path = Inr body"
    "parse 32 body = Inr config"
  then have grant: "find_key (fld config ''server'') ''allow_remote'' = Some (JBool True) \<Longrightarrow> ?C"
    by (auto simp: config_grants_def)
  assume "(name, names, actions) \<in> set config_sections" "f \<in> set actions"
  then show "field_keeps (fld config name) (\<lambda>o1. o_allow_remote o1 \<longrightarrow> ?C) f"
    using grant unfolding config_sections_def section_fields
    by (auto intro!: field_keeps_flag field_keeps_text field_keeps_unbounded max_store_keeps)
qed (simp_all add: default_options_def)

lemma remote_inference_granted:
  assumes "parse_options cf parse getenv args = Inr (opts, help)"
  shows "o_allow_remote_inference opts \<longrightarrow> ''--allow-remote-inference'' \<in> set args \<or> config_grants cf parse args ''inference''"
    (is "_ \<longrightarrow> ?C")
  using assms
proof (rule parse_options_keep)
  fix a act assume "(a, act) \<in> set cli_table" "a \<in> set args"
  then show "act_keeps (\<lambda>o1. o_allow_remote_inference o1 \<longrightarrow> ?C) act"
    unfolding cli_table_def by (auto intro!: act_keeps_int)
next
  fix path body config name names actions f
  assume "find_config_path args = Inr path" "path \<noteq> []" "read_config_file cf path = Inr body"
    "parse 32 body = Inr config"
  then have grant: "find_key (fld config ''inference'') ''allow_remote'' = Some (JBool True) \<Longrightarrow> ?C"
    by (auto simp: config_grants_def)
  assume "(name, names, actions) \<in> set config_sections" "f \<in> set actions"
  then show "field_keeps (fld config name) (\<lambda>o1. o_allow_remote_inference o1 \<longrightarrow> ?C) f"
    using grant unfolding config_sections_def section_fields
    by (auto intro!: field_keeps_flag field_keeps_text field_keeps_unbounded max_store_keeps)
qed (simp_all add: default_options_def)

text \<open>
  C28. Nothing is remote without consent: the service binds to a loopback address unless
  \<open>--allow-remote\<close> is among the arguments or the configuration's server section grants it, and
  remote inference is allowed only by \<open>--allow-remote-inference\<close> or the inference section.
\<close>

theorem remote_needs_consent:
  assumes "parse_options cf parse getenv args = Inr (opts, help)"
  shows "(loopback_host (o_host opts) \<or> o_allow_remote opts) \<and>
    (o_allow_remote opts \<longrightarrow> ''--allow-remote'' \<in> set args \<or> config_grants cf parse args ''server'') \<and>
    (o_allow_remote_inference opts \<longrightarrow>
       ''--allow-remote-inference'' \<in> set args \<or> config_grants cf parse args ''inference'')"
proof -
  obtain o2 where "validate_options getenv o2 = Inr opts"
    using assms by (rule parse_options_parts)
  then have "loopback_host (o_host opts) \<or> o_allow_remote opts"
    by (auto simp: validate_options_Inr check_options_def split: if_splits)
  then show ?thesis using remote_bind_granted [OF assms] remote_inference_granted [OF assms] by blast
qed

text \<open>Examples: no arguments, and a remote bind with its consent.\<close>

definition no_files :: config_files where
  "no_files = \<lparr>cf_regular = \<lambda>_. False, cf_size = \<lambda>_. None, cf_contents = \<lambda>_. None\<rparr>"

lemma default_check: "check_options default_options = Inr ()"
  by (simp add: check_options_def default_options_def loopback_host_def)

lemma parse_nothing:
  "parse_options no_files parse getenv [] = Inr (default_options, False)"
  by (simp add: parse_options_def find_config_path_def validate_options_Inr default_check)
    (simp add: default_options_def)


lemma parse_remote:
  "parse_options no_files parse getenv [''--allow-remote'', ''--host'', ''0.0.0.0''] =
     Inr (default_options\<lparr>o_host := ''0.0.0.0'', o_allow_remote := True\<rparr>, False)"
  by (simp add: parse_options_def find_config_path_def cli_table_def takes_text_def validate_options_Inr
      check_options_def default_options_def)

theorem remote_needs_consent_witness:
  "\<not> loopback_host ''0.0.0.0'' \<and>
     o_allow_remote (default_options\<lparr>o_host := ''0.0.0.0'', o_allow_remote := True\<rparr>)"
  using remote_needs_consent [OF parse_remote [of undefined undefined]] by (simp add: loopback_host_def)

end
