(* ===== verification/Reconciliation.thy ===== *)
theory Reconciliation
  imports Screen_Composer
begin

text \<open>
  Reconciliation of a published view with the current model (\<open>reconciliation.cpp\<close>): the view's
  task is resolved again, and every component of the old view is either replaced by the fresh
  component of the same identifier or, when the tag, alarm or relationship it was bound to is
  gone or changed meaning, kept as it was and marked. The hash maps of old dependencies are
  iterated in the order \<open>ord\<close>; the hash sets are lists used through membership and emptiness.
  Declarations reached through the index are validated, so \<open>at\<close> on them is the total \<open>fld\<close>.
\<close>

section \<open>Checks and state\<close>

definition view_mismatch :: "string \<Rightarrow> exn" where
  "view_mismatch details = DomainError ''model_mismatch'' details"

definition array_member_bad :: "json \<Rightarrow> string \<Rightarrow> bool" where
  "array_member_bad v key \<longleftrightarrow>
     contains v key \<and> (\<not> is_array (fld v key) \<or> json_size (fld v key) > k_max_components)"

definition check_view :: "model_index \<Rightarrow> json \<Rightarrow> unit res" where
  "check_view index view = checks
     [throw_if (\<not> is_object view) (invalid_view ''previous_view must be an object''),
      throw_if (\<not> contains view ''task'' \<or> \<not> is_object (fld view ''task''))
        (invalid_view ''previous_view.task is required''),
      throw_if (\<not> contains view ''components'' \<or> array_member_bad view ''components'')
        (invalid_view ''previous_view.components is invalid or exceeds limit''),
      throw_if (array_member_bad view ''dependencies'')
        (invalid_view ''previous_view.dependencies is invalid or exceeds limit''),
      throw_if (array_member_bad view ''issues'')
        (invalid_view ''previous_view.issues is invalid or exceeds limit''),
      throw_if (array_member_bad view ''changes'')
        (invalid_view ''previous_view.changes is invalid or exceeds limit''),
      throw_if (contains view ''model_id'' \<and> fld view ''model_id'' \<noteq> JStr (sfld (ix_model index) ''model_id''))
        (view_mismatch ''a view from another model cannot be reconciled by revision alone''),
      throw_if (contains (fld view ''task'') ''model_id'' \<and>
          fld (fld view ''task'') ''model_id'' \<noteq> JStr (sfld (ix_model index) ''model_id''))
        (view_mismatch ''task belongs to another model'')]"

text \<open>The task resolved again: the old one, at the identity and revision of the current model.\<close>

definition current_task :: "model_index \<Rightarrow> json \<Rightarrow> json" where
  "current_task index view =
     oset (oset (fld view ''task'') ''model_id'' (JStr (sfld (ix_model index) ''model_id'')))
       ''model_revision'' (fld (ix_model index) ''revision'')"

definition add_once :: "json \<Rightarrow> json list \<Rightarrow> json list" where
  "add_once item xs = (if list_ex (\<lambda>e. jeq e item) xs then xs else xs @ [item])"

record marks =
  mk_changes :: "json list"
  mk_issues :: "json list"
  mk_conflicted_tags :: "string list"
  mk_removed_tags :: "string list"
  mk_conflicted_alarms :: "string list"
  mk_removed_alarms :: "string list"
  mk_changed_relationships :: "string list"
  mk_removed_relationships :: "string list"

definition add_change :: "json \<Rightarrow> marks \<Rightarrow> marks" where
  "add_change c mk = mk\<lparr>mk_changes := add_once c (mk_changes mk)\<rparr>"

definition add_issue :: "string \<Rightarrow> string \<Rightarrow> marks \<Rightarrow> marks" where
  "add_issue code message mk = mk\<lparr>mk_issues := add_once (issue code message ''error'') (mk_issues mk)\<rparr>"

definition start_marks :: "json \<Rightarrow> marks" where
  "start_marks view = \<lparr>mk_changes = elements_of (fld view ''changes''), mk_issues = elements_of (fld view ''issues''),
     mk_conflicted_tags = [], mk_removed_tags = [], mk_conflicted_alarms = [], mk_removed_alarms = [],
     mk_changed_relationships = [], mk_removed_relationships = []\<rparr>"

section \<open>Old dependencies\<close>

text \<open>The two maps: an alarm's dependency by its alarm, any other by its tag; the last one wins.\<close>

definition has_string :: "json \<Rightarrow> string \<Rightarrow> bool" where
  "has_string j k \<longleftrightarrow> contains j k \<and> is_string (fld j k)"

definition file_dependency :: "members \<times> members \<Rightarrow> json \<Rightarrow> members \<times> members" where
  "file_dependency = (\<lambda>(tags, alarms) dep.
     if \<not> is_object dep \<or> \<not> has_string dep ''tag_id'' then (tags, alarms)
     else if has_string dep ''alarm_id'' then (tags, mset_key (sfld dep ''alarm_id'') dep alarms)
     else (mset_key (sfld dep ''tag_id'') dep tags, alarms))"

definition old_dependencies :: "json \<Rightarrow> members \<times> members" where
  "old_dependencies view = foldl file_dependency ([], []) (elements_of (fld view ''dependencies''))"

section \<open>Tags\<close>

text \<open>A top-level summary that is not what the binding (or definition) it summarises says.\<close>

definition summary_differs :: "json \<Rightarrow> json \<Rightarrow> string \<times> string \<Rightarrow> bool" where
  "summary_differs dep b = (\<lambda>(key, inner). contains dep key \<and> \<not> jeq (fld dep key) (fld b inner))"

definition binding_differs :: "json \<Rightarrow> json \<Rightarrow> bool res" where
  "binding_differs dep current =
     (if contains dep ''binding''
      then ebind (tag_binding_snapshot current) (\<lambda>snap.
        let b = fld dep ''binding''
        in Inr (\<not> jeq b snap \<or> \<not> is_object b \<or>
             list_ex (summary_differs dep b)
               [(''owner'', ''owner''), (''role'', ''role''), (''unit'', ''unit''), (''source'', ''source'')]))
      else if contains dep ''owner'' \<and> contains dep ''role'' \<and> contains dep ''unit'' \<and> contains dep ''source''
      then Inr (\<not> jeq (fld dep ''owner'') (fld current ''asset_id'') \<or>
             \<not> jeq (fld dep ''role'') (fld current ''role'') \<or> \<not> jeq (fld dep ''unit'') (fld current ''unit'') \<or>
             \<not> jeq (fld dep ''source'') (fld current ''source'') \<or>
             (contains dep ''data_type'' \<and> \<not> jeq (fld dep ''data_type'') (fld current ''data_type'')))
      else Inr True)"

definition conflict_change :: "string \<Rightarrow> string \<Rightarrow> string \<Rightarrow> json" where
  "conflict_change tag_id previous current =
     jobj [(''kind'', JStr ''conflict''), (''tag_id'', JStr tag_id), (''previous_fingerprint'', JStr previous),
           (''current_fingerprint'', JStr current),
           (''message'', JStr ''The same tag ID changed owner, role, unit, type, or source'')]"

definition mark_removed_tag :: "string \<Rightarrow> marks \<Rightarrow> marks" where
  "mark_removed_tag tag_id mk =
     add_issue ''removed-tag'' (''Previously bound tag '' @ tag_id @ '' is unavailable'')
       (add_change (jobj [(''kind'', JStr ''removed''), (''tag_id'', JStr tag_id),
          (''message'', JStr ''Previously bound tag was removed'')])
        (mk\<lparr>mk_removed_tags := List.insert tag_id (mk_removed_tags mk)\<rparr>))"

definition mark_conflicted_tag ::
  "(json \<Rightarrow> string res) \<Rightarrow> string \<Rightarrow> json \<Rightarrow> json \<Rightarrow> marks \<Rightarrow> marks res" where
  "mark_conflicted_tag dump tag_id dep current mk =
     ebind (value_string dep ''fingerprint'' []) (\<lambda>previous.
     ebind (tag_fingerprint dump current) (\<lambda>now.
     Inr (add_issue ''binding-conflict''
            (''Tag '' @ tag_id @ '' retained its ID but changed meaning; review the binding'')
            (add_change (conflict_change tag_id previous now)
              (mk\<lparr>mk_conflicted_tags := List.insert tag_id (mk_conflicted_tags mk)\<rparr>)))))"

definition reconcile_tag ::
  "(json \<Rightarrow> string res) \<Rightarrow> model_index \<Rightarrow> marks \<Rightarrow> string \<times> json \<Rightarrow> marks res" where
  "reconcile_tag dump index mk = (\<lambda>(tag_id, dep).
     case map_of (ix_tags index) tag_id of
       None \<Rightarrow> Inr (mark_removed_tag tag_id mk)
     | Some current \<Rightarrow>
         ebind (binding_differs dep current) (\<lambda>differs.
           if differs then mark_conflicted_tag dump tag_id dep current mk else Inr mk))"

section \<open>Alarms\<close>

text \<open>A disjunction of tests that may throw, evaluated from the left.\<close>

fun any_differs :: "bool res list \<Rightarrow> bool res" where
  "any_differs [] = Inr False"
| "any_differs (t # ts) = ebind t (\<lambda>b. if b then Inr True else any_differs ts)"

definition text_differs :: "json \<Rightarrow> string \<Rightarrow> string \<Rightarrow> bool res" where
  "text_differs dep key now = ebind (value_string dep key []) (\<lambda>s. Inr (s \<noteq> now))"

definition definition_differs :: "json \<Rightarrow> json \<Rightarrow> bool res" where
  "definition_differs dep current =
     (if contains dep ''alarm_definition''
      then ebind (alarm_definition_snapshot current) (\<lambda>now. Inr (\<not> jeq (fld dep ''alarm_definition'') now))
      else any_differs
        [text_differs dep ''alarm_owner'' (sfld current ''asset_id''),
         text_differs dep ''alarm_name'' (sfld current ''name''), text_differs dep ''tag_id'' (sfld current ''tag_id''),
         text_differs dep ''operator'' (sfld current ''operator''),
         Inr (\<not> jeq (fld dep ''threshold'') (fld current ''threshold'')),
         text_differs dep ''severity'' (sfld current ''severity'')])"

definition alarm_differs :: "json \<Rightarrow> json \<Rightarrow> bool res" where
  "alarm_differs dep current =
     ebind (definition_differs dep current) (\<lambda>differs.
     Inr (differs \<or>
       (contains dep ''alarm_definition'' \<and> is_object (fld dep ''alarm_definition'') \<and>
        list_ex (summary_differs dep (fld dep ''alarm_definition''))
          [(''alarm_owner'', ''owner''), (''alarm_name'', ''name''), (''operator'', ''operator''),
           (''threshold'', ''threshold''), (''severity'', ''severity'')])))"

definition mark_removed_alarm :: "model_index \<Rightarrow> string \<Rightarrow> json \<Rightarrow> marks \<Rightarrow> marks" where
  "mark_removed_alarm index alarm_id dep mk =
     add_issue ''removed-alarm'' (''Previously bound alarm '' @ alarm_id @ '' is unavailable'')
       (add_change (jobj [(''kind'', JStr ''removed-alarm''), (''alarm_id'', JStr alarm_id),
          (''message'', JStr ''Previously bound alarm was removed'')])
        (mk\<lparr>mk_removed_tags :=
              (if has_string dep ''tag_id'' \<and> map_of (ix_tags index) (sfld dep ''tag_id'') = None
               then List.insert (sfld dep ''tag_id'') (mk_removed_tags mk) else mk_removed_tags mk),
            mk_removed_alarms := List.insert alarm_id (mk_removed_alarms mk)\<rparr>))"

text \<open>The tag of an alarm that is still declared.\<close>

definition check_alarm_tag :: "model_index \<Rightarrow> json \<Rightarrow> string \<Rightarrow> marks \<Rightarrow> marks res" where
  "check_alarm_tag index dep tag_id mk =
     (case map_of (ix_tags index) tag_id of
        None \<Rightarrow> Inr (add_issue ''removed-tag'' (''Previously bound alarm tag '' @ tag_id @ '' is unavailable'')
                  (mk\<lparr>mk_removed_tags := List.insert tag_id (mk_removed_tags mk)\<rparr>))
      | Some tag \<Rightarrow>
          if \<not> contains dep ''binding'' then Inr mk
          else ebind (tag_binding_snapshot tag) (\<lambda>snap.
            if jeq (fld dep ''binding'') snap then Inr mk
            else Inr (add_issue ''binding-conflict'' (''Alarm tag '' @ tag_id @ '' changed meaning; review the binding'')
              (add_change (jobj [(''kind'', JStr ''conflict''), (''tag_id'', JStr tag_id),
                 (''message'', JStr ''The alarm's tag ID retained its identity but changed meaning'')])
                (mk\<lparr>mk_conflicted_tags := List.insert tag_id (mk_conflicted_tags mk)\<rparr>)))))"

definition mark_conflicted_alarm :: "string \<Rightarrow> marks \<Rightarrow> marks" where
  "mark_conflicted_alarm alarm_id mk =
     add_issue ''alarm-conflict'' (''Alarm '' @ alarm_id @ '' changed meaning; review the binding'')
       (add_change (jobj [(''kind'', JStr ''alarm-conflict''), (''alarm_id'', JStr alarm_id),
          (''message'', JStr ''The same alarm ID changed its owner, threshold, operator, severity, or tag'')])
        (mk\<lparr>mk_conflicted_alarms := List.insert alarm_id (mk_conflicted_alarms mk)\<rparr>))"

definition reconcile_alarm :: "model_index \<Rightarrow> marks \<Rightarrow> string \<times> json \<Rightarrow> marks res" where
  "reconcile_alarm index mk = (\<lambda>(alarm_id, dep).
     case map_of (ix_alarms index) alarm_id of
       None \<Rightarrow> Inr (mark_removed_alarm index alarm_id dep mk)
     | Some current \<Rightarrow>
         ebind (check_alarm_tag index dep (sfld current ''tag_id'') mk) (\<lambda>mk.
         ebind (alarm_differs dep current) (\<lambda>differs.
           Inr (if differs then mark_conflicted_alarm alarm_id mk else mk))))"

section \<open>Relationships\<close>

definition mark_relationship :: "string \<Rightarrow> marks \<Rightarrow> marks" where
  "mark_relationship rel_id mk =
     add_issue ''relationship-conflict'' (''Relationship '' @ rel_id @ '' changed meaning; review the binding'')
       (add_change (jobj [(''kind'', JStr ''relationship-conflict''), (''relationship_id'', JStr rel_id),
          (''message'', JStr ''The same relationship ID changed endpoints or kind'')])
        (mk\<lparr>mk_changed_relationships := List.insert rel_id (mk_changed_relationships mk)\<rparr>))"

definition reconcile_relationship :: "model_index \<Rightarrow> marks \<Rightarrow> json \<Rightarrow> marks res" where
  "reconcile_relationship index mk c =
     (if \<not> is_object c \<or> \<not> has_string c ''relationship_id'' then Inr mk
      else let rel_id = sfld c ''relationship_id''
           in case map_of (ix_relationships index) rel_id of
                None \<Rightarrow> Inr (add_issue ''removed-relationship''
                    (''Previously declared feed relationship '' @ rel_id @ '' is unavailable'')
                    (add_change (jobj [(''kind'', JStr ''removed-relationship''), (''relationship_id'', JStr rel_id),
                       (''message'', JStr ''Previously declared feed relationship was removed'')])
                     (mk\<lparr>mk_removed_relationships := List.insert rel_id (mk_removed_relationships mk)\<rparr>)))
              | Some current \<Rightarrow>
                  ebind (any_differs
                    [text_differs c ''relationship_kind'' (sfld current ''kind''),
                     text_differs c ''relationship_from'' (sfld current ''from''),
                     text_differs c ''relationship_to'' (sfld current ''to'')]) (\<lambda>differs.
                  Inr (if differs then mark_relationship rel_id mk else mk)))"

section \<open>Components\<close>

definition set_status :: "string \<Rightarrow> string \<Rightarrow> json \<Rightarrow> json" where
  "set_status status reason c = oset (oset c ''status'' (JStr status)) ''reason'' (JStr reason)"

text \<open>The identifiers a component is bound to.\<close>

definition bound_to :: "json \<Rightarrow> (string \<times> string \<times> string) res" where
  "bound_to c =
     ebind (value_string c ''tag_id'' []) (\<lambda>t.
     ebind (value_string c ''alarm_id'' []) (\<lambda>a.
     ebind (value_string c ''relationship_id'' []) (\<lambda>r. Inr (t, a, r))))"

definition preserve_marked :: "marks \<Rightarrow> string \<times> string \<times> string \<Rightarrow> json \<Rightarrow> json" where
  "preserve_marked mk = (\<lambda>(t, a, r) c.
     foldl (\<lambda>c (hit, status, reason). if hit then set_status status reason c else c) c
       [(t \<noteq> [] \<and> t \<in> set (mk_removed_tags mk), ''unavailable'', ''Previously bound tag was removed from the model''),
        (t \<noteq> [] \<and> t \<in> set (mk_conflicted_tags mk), ''conflict'',
           ''Same-ID binding changed; no silent rebinding was performed''),
        (a \<noteq> [] \<and> a \<in> set (mk_removed_alarms mk), ''unavailable'',
           ''Previously bound alarm was removed from the model''),
        (a \<noteq> [] \<and> a \<in> set (mk_conflicted_alarms mk), ''conflict'',
           ''Same-ID alarm definition changed; no silent rebinding was performed''),
        (r \<noteq> [] \<and> r \<in> set (mk_removed_relationships mk), ''unavailable'',
           ''Declared relationship was removed; no replacement was inferred''),
        (r \<noteq> [] \<and> r \<in> set (mk_changed_relationships mk), ''conflict'',
           ''Same-ID relationship changed; no silent rebinding was performed'')])"

definition blocked :: "marks \<Rightarrow> string \<times> string \<times> string \<Rightarrow> bool" where
  "blocked mk = (\<lambda>(t, a, r).
     t \<in> set (mk_conflicted_tags mk) \<or> t \<in> set (mk_removed_tags mk) \<or> a \<in> set (mk_conflicted_alarms mk) \<or>
     a \<in> set (mk_removed_alarms mk) \<or> r \<in> set (mk_removed_relationships mk) \<or> r \<in> set (mk_changed_relationships mk))"

fun find_component :: "string \<Rightarrow> json list \<Rightarrow> json option res" where
  "find_component k [] = Inr None"
| "find_component k (c # cs) =
     (if \<not> is_object c then find_component k cs
      else ebind (value_string c ''id'' []) (\<lambda>v. if v = k then Inr (Some c) else find_component k cs))"

definition merge_component ::
  "marks \<Rightarrow> json list \<Rightarrow> json list \<times> string list \<Rightarrow> json \<Rightarrow> (json list \<times> string list) res" where
  "merge_component mk fresh = (\<lambda>(merged, emitted) c.
     if \<not> is_object c \<or> \<not> has_string c ''id'' then Inr (merged, emitted)
     else let k = sfld c ''id''
          in ebind (bound_to c) (\<lambda>b.
             ebind (value_string c ''status'' []) (\<lambda>status.
             let preserved = preserve_marked mk b c
             in if status = ''conflict'' \<or> status = ''unavailable'' \<or> blocked mk b
                then Inr (merged @ [preserved], List.insert k emitted)
                else ebind (find_component k fresh) (\<lambda>found.
                  Inr (merged @ [case found of Some f \<Rightarrow> f
                         | None \<Rightarrow> set_status ''unavailable'' ''Previously bound component is no longer declared'' preserved],
                       List.insert k emitted)))))"

definition add_fresh_component ::
  "string list \<Rightarrow> json list \<Rightarrow> json \<Rightarrow> json list res" where
  "add_fresh_component emitted merged c =
     ebind (value_string c ''id'' []) (\<lambda>k. Inr (if k \<in> set emitted then merged else merged @ [c]))"

definition merge_components :: "marks \<Rightarrow> json list \<Rightarrow> json list \<Rightarrow> json list res" where
  "merge_components mk fresh old =
     ebind (efold (merge_component mk fresh) ([], []) old) (\<lambda>(merged, emitted).
     ebind (efold (add_fresh_component emitted) merged fresh) (\<lambda>merged.
     if length merged > k_max_components
     then Inl (invalid_view ''reconciled component count exceeds limit'') else Inr merged))"

section \<open>Dependencies\<close>

definition dependency_key :: "json \<Rightarrow> string res" where
  "dependency_key d =
     ebind (value_string d ''alarm_id'' []) (\<lambda>a.
     if a = [] then ebind (value_string d ''tag_id'' []) (\<lambda>t. Inr (''tag:'' @ t)) else Inr (''alarm:'' @ a))"

fun find_dependency :: "string \<Rightarrow> json list \<Rightarrow> json option res" where
  "find_dependency k [] = Inr None"
| "find_dependency k (d # ds) =
     ebind (dependency_key d) (\<lambda>v. if v = k then Inr (Some d) else find_dependency k ds)"

definition merge_dependency ::
  "marks \<Rightarrow> json list \<Rightarrow> json list \<times> string list \<Rightarrow> json \<Rightarrow> (json list \<times> string list) res" where
  "merge_dependency mk fresh = (\<lambda>(merged, emitted) dep.
     if \<not> is_object dep \<or> \<not> has_string dep ''tag_id'' then Inr (merged, emitted)
     else let tag_id = sfld dep ''tag_id''
          in ebind (value_string dep ''alarm_id'' []) (\<lambda>alarm_id.
             let key = (if alarm_id = [] then ''tag:'' @ tag_id else ''alarm:'' @ alarm_id)
             in if tag_id \<in> set (mk_removed_tags mk) \<or> tag_id \<in> set (mk_conflicted_tags mk) \<or>
                   (alarm_id \<noteq> [] \<and> (alarm_id \<in> set (mk_removed_alarms mk) \<or> alarm_id \<in> set (mk_conflicted_alarms mk)))
                then Inr (merged @ [dep], List.insert key emitted)
                else ebind (find_dependency key fresh) (\<lambda>found.
                  Inr (merged @ [case found of Some f \<Rightarrow> f | None \<Rightarrow> dep], List.insert key emitted))))"

definition add_fresh_dependency ::
  "string list \<Rightarrow> json list \<Rightarrow> json \<Rightarrow> json list res" where
  "add_fresh_dependency emitted merged d =
     ebind (dependency_key d) (\<lambda>k. Inr (if k \<in> set emitted then merged else merged @ [d]))"

definition merge_dependencies :: "marks \<Rightarrow> json list \<Rightarrow> json list \<Rightarrow> json list res" where
  "merge_dependencies mk fresh old =
     ebind (efold (merge_dependency mk fresh) ([], []) old) (\<lambda>(merged, emitted).
     efold (add_fresh_dependency emitted) merged fresh)"

section \<open>Status\<close>

definition conflict_kind :: "json \<Rightarrow> bool res" where
  "conflict_kind change =
     ebind (value_string change ''kind'' []) (\<lambda>k.
     Inr (k = ''conflict'' \<or> k = ''relationship-conflict'' \<or> k = ''alarm-conflict''))"

definition in_conflict :: "json \<Rightarrow> bool res" where
  "in_conflict c = ebind (value_string c ''status'' []) (\<lambda>s. Inr (s = ''conflict''))"

definition prior_conflict :: "json \<Rightarrow> bool res" where
  "prior_conflict view =
     ebind (in_conflict view) (\<lambda>b.
     ebind (emap conflict_kind (elements_of (fld view ''changes''))) (\<lambda>ks.
     ebind (emap in_conflict (elements_of (fld view ''components''))) (\<lambda>cs.
     Inr (b \<or> list_ex id ks \<or> list_ex id cs))))"

definition reconciled_status :: "json \<Rightarrow> marks \<Rightarrow> bool \<Rightarrow> string res" where
  "reconciled_status view mk prior =
     (if mk_conflicted_tags mk \<noteq> [] \<or> mk_conflicted_alarms mk \<noteq> [] \<or> mk_changed_relationships mk \<noteq> [] \<or> prior
      then Inr ''conflict''
      else if mk_removed_tags mk \<noteq> [] \<or> mk_removed_alarms mk \<noteq> [] \<or> mk_removed_relationships mk \<noteq> [] \<or>
        mk_issues mk \<noteq> [] then Inr ''needs-review''
      else ebind (value_string view ''status'' []) (\<lambda>s. Inr (if s = ''needs-review'' then ''needs-review'' else ''ready'')))"

section \<open>The view\<close>

definition find_marks ::
  "(json \<Rightarrow> string res) \<Rightarrow> (members \<Rightarrow> members) \<Rightarrow> model_index \<Rightarrow> json \<Rightarrow> marks res" where
  "find_marks dump ord index view =
     (let deps = old_dependencies view
      in ebind (efold (reconcile_tag dump index) (start_marks view) (ord (fst deps))) (\<lambda>mk.
         ebind (efold (reconcile_alarm index) mk (ord (snd deps))) (\<lambda>mk.
         efold (reconcile_relationship index) mk (elements_of (fld view ''components'')))))"

definition reconcile_view_impl ::
  "(json \<Rightarrow> string res) \<Rightarrow> (members \<Rightarrow> members) \<Rightarrow> model_index \<Rightarrow> json \<Rightarrow> json res" where
  "reconcile_view_impl dump ord index view =
     ethen (check_view index view)
     (let new_task = current_task index view
      in ebind (resolve_task_impl dump ord index new_task) (\<lambda>fresh.
         ebind (find_marks dump ord index view) (\<lambda>mk.
         ebind (merge_components mk (elements_of (fld fresh ''components'')) (elements_of (fld view ''components''))) (\<lambda>cs.
         ebind (if contains view ''dependencies''
                then merge_dependencies mk (elements_of (fld fresh ''dependencies'')) (elements_of (fld view ''dependencies''))
                else Inr (elements_of (fld fresh ''dependencies''))) (\<lambda>ds.
         let mk = mk\<lparr>mk_issues := foldl (\<lambda>is i. add_once i is) (mk_issues mk) (elements_of (fld fresh ''issues''))\<rparr>
         in ebind (prior_conflict view) (\<lambda>prior.
            ebind (reconciled_status view mk prior) (\<lambda>status.
            Inr (foldl (\<lambda>r (k, v). oset r k v) fresh
              [(''task'', new_task), (''changes'', JArr (mk_changes mk)), (''issues'', JArr (mk_issues mk)),
               (''components'', JArr cs), (''dependencies'', JArr ds), (''status'', JStr status),
               (''reconciled'', JBool True)]))))))))"

definition reconcile_view ::
  "(json \<Rightarrow> string res) \<Rightarrow> (members \<Rightarrow> members) \<Rightarrow> json \<Rightarrow> json \<Rightarrow> json res" where
  "reconcile_view dump ord model view =
     ebind (index_model dump model) (\<lambda>index. reconcile_view_impl dump ord index view)"

section \<open>Marks only grow\<close>

definition marks_le :: "marks \<Rightarrow> marks \<Rightarrow> bool" where
  "marks_le a b \<longleftrightarrow>
     set (mk_conflicted_tags a) \<subseteq> set (mk_conflicted_tags b) \<and> set (mk_removed_tags a) \<subseteq> set (mk_removed_tags b) \<and>
     set (mk_conflicted_alarms a) \<subseteq> set (mk_conflicted_alarms b) \<and>
     set (mk_removed_alarms a) \<subseteq> set (mk_removed_alarms b) \<and>
     set (mk_changed_relationships a) \<subseteq> set (mk_changed_relationships b) \<and>
     set (mk_removed_relationships a) \<subseteq> set (mk_removed_relationships b)"

lemma marks_le_refl [simp]: "marks_le a a"
  by (simp add: marks_le_def)

lemma marks_le_trans: "marks_le a b \<Longrightarrow> marks_le b c \<Longrightarrow> marks_le a c"
  unfolding marks_le_def by blast

lemma marks_le_add [simp]: "marks_le a (add_change c mk) \<longleftrightarrow> marks_le a mk"
  "marks_le a (add_issue code msg mk) \<longleftrightarrow> marks_le a mk"
  by (simp_all add: marks_le_def add_change_def add_issue_def)

lemma reconcile_tag_le: "reconcile_tag dump index mk kv = Inr mk' \<Longrightarrow> marks_le mk mk'"
  by (cases kv) (auto simp: reconcile_tag_def mark_removed_tag_def mark_conflicted_tag_def marks_le_def
      add_change_def add_issue_def split: option.splits if_splits)

lemma check_alarm_tag_le: "check_alarm_tag index dep t mk = Inr mk' \<Longrightarrow> marks_le mk mk'"
  by (auto simp: check_alarm_tag_def marks_le_def add_change_def add_issue_def split: option.splits if_splits)

lemma mark_conflicted_alarm_le: "marks_le mk (mark_conflicted_alarm a mk)"
  by (auto simp: mark_conflicted_alarm_def marks_le_def add_change_def add_issue_def)

lemma reconcile_alarm_le: "reconcile_alarm index mk kv = Inr mk' \<Longrightarrow> marks_le mk mk'"
proof (cases kv)
  case (Pair a dep)
  assume step: "reconcile_alarm index mk kv = Inr mk'"
  show ?thesis
  proof (cases "map_of (ix_alarms index) a")
    case None
    with step Pair show ?thesis
      by (auto simp: reconcile_alarm_def mark_removed_alarm_def marks_le_def add_change_def add_issue_def)
  next
    case (Some current)
    with step Pair obtain mk1 b where "check_alarm_tag index dep (sfld current ''tag_id'') mk = Inr mk1"
      "mk' = (if b then mark_conflicted_alarm a mk1 else mk1)" by (auto simp: reconcile_alarm_def)
    moreover from this(1) have "marks_le mk mk1" by (rule check_alarm_tag_le)
    ultimately show ?thesis
      using marks_le_trans [OF _ mark_conflicted_alarm_le] by simp
  qed
qed

lemma reconcile_relationship_le: "reconcile_relationship index mk c = Inr mk' \<Longrightarrow> marks_le mk mk'"
  by (auto simp: reconcile_relationship_def mark_relationship_def marks_le_def add_change_def add_issue_def Let_def
      split: option.splits if_splits)

text \<open>A binding that is gone or means something else is marked.\<close>

definition tag_lost :: "model_index \<Rightarrow> string \<Rightarrow> json \<Rightarrow> bool" where
  "tag_lost index t dep \<longleftrightarrow>
     (case map_of (ix_tags index) t of None \<Rightarrow> True | Some current \<Rightarrow> binding_differs dep current = Inr True)"

definition alarm_lost :: "model_index \<Rightarrow> string \<Rightarrow> json \<Rightarrow> bool" where
  "alarm_lost index a dep \<longleftrightarrow>
     (case map_of (ix_alarms index) a of None \<Rightarrow> True | Some current \<Rightarrow> alarm_differs dep current = Inr True)"

definition tag_marked :: "string \<Rightarrow> marks \<Rightarrow> bool" where
  "tag_marked t mk \<longleftrightarrow> t \<in> set (mk_removed_tags mk) \<or> t \<in> set (mk_conflicted_tags mk)"

definition alarm_marked :: "string \<Rightarrow> marks \<Rightarrow> bool" where
  "alarm_marked a mk \<longleftrightarrow> a \<in> set (mk_removed_alarms mk) \<or> a \<in> set (mk_conflicted_alarms mk)"

lemma marked_mono:
  "marks_le mk mk' \<Longrightarrow> tag_marked t mk \<Longrightarrow> tag_marked t mk'"
  "marks_le mk mk' \<Longrightarrow> alarm_marked a mk \<Longrightarrow> alarm_marked a mk'"
  by (auto simp: marks_le_def tag_marked_def alarm_marked_def)

lemma reconcile_tag_marks:
  "tag_lost index t dep \<Longrightarrow> reconcile_tag dump index mk (t, dep) = Inr mk' \<Longrightarrow> tag_marked t mk'"
  by (auto simp: reconcile_tag_def tag_lost_def tag_marked_def mark_removed_tag_def mark_conflicted_tag_def
      add_change_def add_issue_def split: option.splits)

lemma reconcile_alarm_marks:
  "alarm_lost index a dep \<Longrightarrow> reconcile_alarm index mk (a, dep) = Inr mk' \<Longrightarrow> alarm_marked a mk'"
  by (auto simp: reconcile_alarm_def alarm_lost_def alarm_marked_def mark_removed_alarm_def mark_conflicted_alarm_def
      add_change_def add_issue_def split: option.splits)

lemma reorders_set: "reorders ord \<Longrightarrow> set (ord xs) = set xs"
  by (metis reorders_def set_mset_mset)

lemma find_marks_lost:
  assumes "find_marks dump ord index view = Inr mk" and "reorders ord"
  shows "map_of (fst (old_dependencies view)) t = Some dep \<Longrightarrow> tag_lost index t dep \<Longrightarrow> tag_marked t mk"
    and "map_of (snd (old_dependencies view)) a = Some dep \<Longrightarrow> alarm_lost index a dep \<Longrightarrow> alarm_marked a mk"
proof -
  from assms(1) obtain m1 m2 where
    m1: "efold (reconcile_tag dump index) (start_marks view) (ord (fst (old_dependencies view))) = Inr m1"
    and m2: "efold (reconcile_alarm index) m1 (ord (snd (old_dependencies view))) = Inr m2"
    and m3: "efold (reconcile_relationship index) m2 (elements_of (fld view ''components'')) = Inr mk"
    by (auto simp: find_marks_def Let_def)
  have le: "marks_le m1 m2"
    by (rule efold_invariant [OF m2, where P = "marks_le m1"]) (auto intro: marks_le_trans reconcile_alarm_le)
  have le': "marks_le m2 mk"
    by (rule efold_invariant [OF m3, where P = "marks_le m2"]) (auto intro: marks_le_trans reconcile_relationship_le)
  show "tag_marked t mk" if "map_of (fst (old_dependencies view)) t = Some dep" "tag_lost index t dep"
  proof -
    have "(t, dep) \<in> set (ord (fst (old_dependencies view)))"
      using map_of_SomeD [OF that(1)] by (simp add: reorders_set [OF assms(2)])
    from efold_step [OF m1 this, of "tag_marked t"] have "tag_marked t m1"
      using reconcile_tag_marks [OF that(2)] marked_mono(1) reconcile_tag_le by blast
    with le le' show ?thesis by (blast intro: marked_mono)
  qed
  show "alarm_marked a mk" if "map_of (snd (old_dependencies view)) a = Some dep" "alarm_lost index a dep"
  proof -
    have "(a, dep) \<in> set (ord (snd (old_dependencies view)))"
      using map_of_SomeD [OF that(1)] by (simp add: reorders_set [OF assms(2)])
    from efold_step [OF m2 this, of "alarm_marked a"] have "alarm_marked a m2"
      using reconcile_alarm_marks [OF that(2)] marked_mono(2) reconcile_alarm_le by blast
    with le' show ?thesis by (blast intro: marked_mono)
  qed
qed

section \<open>What happens to each component\<close>

definition with_id :: "json \<Rightarrow> bool" where
  "with_id c \<longleftrightarrow> is_object c \<and> has_string c ''id''"

definition outcome :: "marks \<Rightarrow> json list \<Rightarrow> json \<Rightarrow> json \<Rightarrow> bool" where
  "outcome mk fresh c c' \<longleftrightarrow>
     (\<exists>b status. bound_to c = Inr b \<and> value_string c ''status'' [] = Inr status \<and>
        (if status = ''conflict'' \<or> status = ''unavailable'' \<or> blocked mk b then c' = preserve_marked mk b c
         else (c' \<in> set fresh \<and> value_string c' ''id'' [] = Inr (sfld c ''id'')) \<or>
           c' = set_status ''unavailable'' ''Previously bound component is no longer declared'' (preserve_marked mk b c)))"

lemma find_component_Some:
  "find_component k cs = Inr (Some c) \<Longrightarrow> c \<in> set cs \<and> value_string c ''id'' [] = Inr k"
  by (induction cs) (auto split: if_splits)

lemma merge_component_step:
  assumes "merge_component mk fresh (ms, es) c = Inr (ms1, es1)" and "with_id c"
  shows "\<exists>c'. ms1 = ms @ [c'] \<and> es1 = List.insert (sfld c ''id'') es \<and> outcome mk fresh c c'"
proof -
  from assms obtain b status where b: "bound_to c = Inr b" "value_string c ''status'' [] = Inr status"
    by (auto simp: merge_component_def with_id_def Let_def)
  show ?thesis
  proof (cases "status = ''conflict'' \<or> status = ''unavailable'' \<or> blocked mk b")
    case True
    with assms b show ?thesis by (simp add: merge_component_def with_id_def outcome_def Let_def)
  next
    case False
    with assms b obtain found where "find_component (sfld c ''id'') fresh = Inr found"
      "ms1 = ms @ [case found of Some f \<Rightarrow> f
         | None \<Rightarrow> set_status ''unavailable'' ''Previously bound component is no longer declared'' (preserve_marked mk b c)]"
      "es1 = List.insert (sfld c ''id'') es"
      by (auto simp: merge_component_def with_id_def Let_def)
    with b False show ?thesis
      by (cases found) (auto simp: outcome_def dest: find_component_Some)
  qed
qed

lemma merge_loop:
  "efold (merge_component mk fresh) (ms, es) old = Inr (ms', es') \<Longrightarrow>
     \<exists>cs. ms' = ms @ cs \<and> list_all2 (outcome mk fresh) (filter with_id old) cs \<and>
       set es' = set es \<union> (\<lambda>c. sfld c ''id'') ` set (filter with_id old)"
proof (induction old arbitrary: ms es)
  case (Cons c old)
  from Cons.prems obtain ms1 es1 where step: "merge_component mk fresh (ms, es) c = Inr (ms1, es1)"
    and rest: "efold (merge_component mk fresh) (ms1, es1) old = Inr (ms', es')" by auto
  from Cons.IH [OF rest] obtain cs where cs: "ms' = ms1 @ cs" "list_all2 (outcome mk fresh) (filter with_id old) cs"
    "set es' = set es1 \<union> (\<lambda>c. sfld c ''id'') ` set (filter with_id old)" by blast
  show ?case
  proof (cases "with_id c")
    case False
    with step have "ms1 = ms" "es1 = es" by (auto simp: merge_component_def with_id_def)
    with False cs show ?thesis by auto
  next
    case True
    with step obtain c' where "ms1 = ms @ [c']" "es1 = List.insert (sfld c ''id'') es" "outcome mk fresh c c'"
      using merge_component_step by blast
    with True cs show ?thesis by (intro exI [of _ "c' # cs"]) auto
  qed
qed auto

lemma add_fresh_loop:
  "efold (add_fresh_component es) ms fresh = Inr ms' \<Longrightarrow>
     \<exists>cs. ms' = ms @ cs \<and> set cs \<subseteq> set fresh \<and> (\<forall>c \<in> set cs. \<exists>k. value_string c ''id'' [] = Inr k \<and> k \<notin> set es)"
proof (induction fresh arbitrary: ms)
  case (Cons c fresh)
  from Cons.prems obtain ms1 where "add_fresh_component es ms c = Inr ms1"
    and rest1: "efold (add_fresh_component es) ms1 fresh = Inr ms'" by auto
  then obtain k where k: "value_string c ''id'' [] = Inr k" "ms1 = (if k \<in> set es then ms else ms @ [c])"
    by (auto simp: add_fresh_component_def)
  note rest = rest1 [unfolded k(2)]
  from Cons.IH [OF rest] obtain cs where cs: "ms' = (if k \<in> set es then ms else ms @ [c]) @ cs" "set cs \<subseteq> set fresh"
    "\<forall>c \<in> set cs. \<exists>k. value_string c ''id'' [] = Inr k \<and> k \<notin> set es" by blast
  show ?case
  proof (cases "k \<in> set es")
    case True
    with cs show ?thesis by (intro exI [of _ cs]) auto
  next
    case False
    with cs k show ?thesis by (intro exI [of _ "c # cs"]) auto
  qed
qed simp

definition same_but_status :: "json \<Rightarrow> json \<Rightarrow> bool" where
  "same_but_status c c' \<longleftrightarrow> (\<forall>k. k \<notin> {''status'', ''reason''} \<longrightarrow> find_key c' k = find_key c k)"

definition marked_status :: "json \<Rightarrow> bool" where
  "marked_status c \<longleftrightarrow> sfld c ''status'' \<in> {''conflict'', ''unavailable''}"

lemma set_status_facts:
  "same_but_status c (set_status st why c0) \<longleftrightarrow> same_but_status c c0"
  "marked_status (set_status st why c0) \<longleftrightarrow> st \<in> {''conflict'', ''unavailable''}"
  by (simp_all add: same_but_status_def set_status_def marked_status_def sfld_def fld_def)

lemma marking_loop:
  assumes "\<forall>(hit, status, reason) \<in> set hs. status \<in> {''conflict'', ''unavailable''}"
  shows "same_but_status c c0 \<Longrightarrow>
      same_but_status c (foldl (\<lambda>c (hit, status, reason). if hit then set_status status reason c else c) c0 hs)"
    and "marked_status c0 \<or> (\<exists>h \<in> set hs. fst h) \<Longrightarrow>
      marked_status (foldl (\<lambda>c (hit, status, reason). if hit then set_status status reason c else c) c0 hs)"
  using assms by (induction hs arbitrary: c0) (auto simp: set_status_facts)

lemma preserve_marked_facts:
  shows "same_but_status c (preserve_marked mk b c)"
    and "b = (t, a, r) \<Longrightarrow> (t \<noteq> [] \<and> tag_marked t mk) \<or> (a \<noteq> [] \<and> alarm_marked a mk) \<Longrightarrow>
      marked_status (preserve_marked mk b c)"
proof -
  obtain t' a' r' where b: "b = (t', a', r')" by (cases b)
  show "same_but_status c (preserve_marked mk b c)"
    unfolding b preserve_marked_def prod.case by (rule marking_loop) (simp_all add: same_but_status_def)
  show "marked_status (preserve_marked mk b c)" if "b = (t, a, r)"
    "(t \<noteq> [] \<and> tag_marked t mk) \<or> (a \<noteq> [] \<and> alarm_marked a mk)"
    unfolding that(1) preserve_marked_def prod.case
    by (rule marking_loop) (use that(2) in \<open>auto simp: tag_marked_def alarm_marked_def\<close>)
qed

section \<open>Properties\<close>

text \<open>
  A component of the old view whose binding is lost: the tag or alarm it names had a recorded
  dependency, and the tag or alarm is gone or is no longer what was recorded.
\<close>

definition binding_lost :: "model_index \<Rightarrow> json \<Rightarrow> json \<Rightarrow> bool" where
  "binding_lost index view c \<longleftrightarrow>
     (\<exists>t dep. find_key c ''tag_id'' = Some (JStr t) \<and> t \<noteq> [] \<and>
        map_of (fst (old_dependencies view)) t = Some dep \<and> tag_lost index t dep) \<or>
     (\<exists>a dep. find_key c ''alarm_id'' = Some (JStr a) \<and> a \<noteq> [] \<and>
        map_of (snd (old_dependencies view)) a = Some dep \<and> alarm_lost index a dep)"

lemma reconcile_parts:
  assumes "reconcile_view dump ord m view = Inr r"
  obtains ix fresh mk prior where "index_model dump m = Inr ix"
    "find_marks dump ord ix view = Inr mk" "resolve_task_impl dump ord ix (current_task ix view) = Inr fresh"
    "merge_components mk (elements_of (fld fresh ''components'')) (elements_of (fld view ''components'')) =
       Inr (elements_of (fld r ''components''))"
    "reconciled_status view (mk\<lparr>mk_issues := foldl (\<lambda>is i. add_once i is) (mk_issues mk)
       (elements_of (fld fresh ''issues''))\<rparr>) prior = Inr (sfld r ''status'')"
  using assms by (auto simp: reconcile_view_def reconcile_view_impl_def Let_def fld_def sfld_def)

lemma value_string_sfld: "value_string c k [] = Inr v \<Longrightarrow> sfld c k = v"
  by (auto simp: value_string_def sfld_def fld_def split: if_splits option.splits)

lemma bound_to_Inr:
  "bound_to c = Inr (t, a, r) \<Longrightarrow> sfld c ''tag_id'' = t \<and> sfld c ''alarm_id'' = a \<and> sfld c ''relationship_id'' = r"
  by (auto simp: bound_to_def value_string_sfld)

lemma binding_lost_marked:
  assumes "binding_lost index view c" and "find_marks dump ord index view = Inr mk" and "reorders ord"
    and "bound_to c = Inr (t, a, r)"
  shows "(t \<noteq> [] \<and> tag_marked t mk) \<or> (a \<noteq> [] \<and> alarm_marked a mk)"
  using assms(1) find_marks_lost [OF assms(2,3)] bound_to_Inr [OF assms(4)]
  unfolding binding_lost_def by (auto simp: sfld_eq)

lemma same_but_status_id: "same_but_status c c' \<Longrightarrow> sfld c' ''id'' = sfld c ''id''"
  by (simp add: same_but_status_def sfld_def fld_def)

lemma outcome_id:
  assumes "outcome mk fresh c c'"
  shows "sfld c' ''id'' = sfld c ''id''"
proof -
  have keep: "same_but_status c (preserve_marked mk b c)" for b by (rule preserve_marked_facts)
  obtain b status where if_o: "if status = ''conflict'' \<or> status = ''unavailable'' \<or> blocked mk b
      then c' = preserve_marked mk b c
      else (c' \<in> set fresh \<and> value_string c' ''id'' [] = Inr (sfld c ''id'')) \<or>
        c' = set_status ''unavailable'' ''Previously bound component is no longer declared'' (preserve_marked mk b c)"
    using assms unfolding outcome_def by blast
  then consider "c' = preserve_marked mk b c" | "value_string c' ''id'' [] = Inr (sfld c ''id'')"
    | "c' = set_status ''unavailable'' ''Previously bound component is no longer declared'' (preserve_marked mk b c)"
    by metis
  then show ?thesis
  proof cases
    case 1
    with keep show ?thesis by (simp add: same_but_status_id)
  next
    case 2
    then show ?thesis by (rule value_string_sfld)
  next
    case 3
    with keep [of b] have "same_but_status c c'" by (simp add: set_status_facts)
    then show ?thesis by (rule same_but_status_id)
  qed
qed


section \<open>Reconciling with the same model\<close>

text \<open>Values without NaN: their parts, and the snapshots of their declarations.\<close>

lemma no_nan_elements: "no_nans xs \<longleftrightarrow> (\<forall>x \<in> set xs. no_nan x)"
  by (induction xs) auto

lemma no_nan_members: "no_nanm m \<longleftrightarrow> (\<forall>v \<in> snd ` set m. no_nan v)"
  by (induction m) auto

lemma no_nan_fld: "no_nan j \<Longrightarrow> no_nan (fld j k)"
  by (cases j) (auto simp: fld_def find_key_def no_nan_members dest!: map_of_SomeD split: option.splits)

lemma no_nan_decls: "no_nan m \<Longrightarrow> x \<in> set (decls m k) \<Longrightarrow> no_nan x"
  using no_nan_fld [of m k] by (cases "fld m k") (auto simp: decls_def no_nan_elements)

lemma no_nan_mset_key: "no_nanm m \<Longrightarrow> no_nan v \<Longrightarrow> no_nanm (mset_key k v m)"
  by (induction k v m rule: mset_key.induct) auto

lemma no_nan_jobj: "\<forall>v \<in> snd ` set kvs. no_nan v \<Longrightarrow> no_nan (jobj kvs)"
proof -
  assume a: "\<forall>v \<in> snd ` set kvs. no_nan v"
  have "no_nanm m \<Longrightarrow> no_nanm (fold (\<lambda>(k, v) m. madd_key k v m) kvs m)" for m
    using a by (induction kvs arbitrary: m) (auto simp: madd_key_def no_nan_mset_key split: if_splits)
  then show ?thesis by (simp add: jobj_def members_from_def)
qed

text \<open>What a composed view is made of.\<close>

definition found_of ::
  "(json \<Rightarrow> string res) \<Rightarrow> (members \<Rightarrow> members) \<Rightarrow> model_index \<Rightarrow> string \<Rightarrow> string \<Rightarrow> string list \<Rightarrow>
     (json \<times> json) list res" where
  "found_of dump ord index kind anchor roles =
     (if kind = ''overview''
      then ebind (emap (\<lambda>asset. ebind (overview_tags ord index roles asset) (\<lambda>tags.
             emap (overview_component dump index asset) tags))
             (sort (if anchor \<noteq> [] then [anchor] else map fst (ord (ix_assets index)))))
           (\<lambda>found. Inr (concat found))
      else ebind (view_alarms ord index roles anchor) (\<lambda>alarms.
           emap (\<lambda>alarm. ebind (alarm_tag index alarm) (\<lambda>tag. ebind (alarm_component_for dump alarm tag) (\<lambda>c.
             ebind (dependency_for_alarm dump alarm tag) (\<lambda>d. Inr (c, d))))) alarms))"

definition missing_of :: "string \<Rightarrow> json" where
  "missing_of kind =
     (if kind = ''overview''
      then issue ''missing-overview-tags'' ''No declared tags are available for this overview'' ''error''
      else issue ''no-alarms'' ''No declared alarms are available for this scope'' ''info'')"

definition composed :: "model_index \<Rightarrow> json \<Rightarrow> string \<Rightarrow> (json \<times> json) list \<Rightarrow> json \<Rightarrow> bool" where
  "composed index t kind found view \<longleftrightarrow>
     is_object view \<and> find_key view ''task'' = Some t \<and> find_key view ''changes'' = None \<and>
     find_key view ''model_id'' = Some (fld (ix_model index) ''model_id'') \<and>
     find_key view ''components'' = Some (JArr (map fst found)) \<and>
     find_key view ''dependencies'' = Some (JArr (map snd found)) \<and>
     find_key view ''issues'' = Some (JArr (if found = [] then [missing_of kind] else [])) \<and>
     find_key view ''status'' = Some (JStr (if found = [] then ''needs-review'' else ''ready''))"

lemma base_view_Inr:
  "base_view index t vid title = Inr v \<Longrightarrow>
     is_object v \<and> find_key v ''task'' = Some t \<and> find_key v ''changes'' = None \<and>
     find_key v ''model_id'' = Some (fld (ix_model index) ''model_id'') \<and>
     find_key v ''issues'' = Some (JArr []) \<and> find_key v ''status'' = Some (JStr ''ready'')"
  by (auto simp: base_view_def copy_members_def fld_def)

lemma finish_composed:
  assumes "base_view index t vid title = Inr v"
  shows "composed index t kind found (oset (finish_view v found (missing_of kind)) ''layout'' l)"
  using base_view_Inr [OF assms] by (auto simp: composed_def finish_view_def Let_def)

lemma resolved_view:
  assumes "resolve_task_impl dump ord index task = Inr view"
  shows "\<exists>t kind anchor roles found. effective_task index task = Inr t \<and> check_task index task = Inr kind \<and>
    task_anchor t = Inr anchor \<and> requested_roles t = Inr roles \<and>
    found_of dump ord index kind anchor roles = Inr found \<and> composed index t kind found view"
proof -
  from assms obtain kind t v l where k: "check_task index task = Inr kind" and t: "effective_task index task = Inr t"
    and v: "(if kind = ''overview'' then resolve_overview dump ord index t else resolve_alarms dump ord index t) = Inr v"
    and view: "view = oset v ''layout'' l"
    by (auto simp: resolve_task_impl_def)
  show ?thesis
  proof (cases "kind = ''overview''")
    case True
    with v obtain anchor vid title b roles found where p: "task_anchor t = Inr anchor"
      "base_view index t vid title = Inr b" "requested_roles t = Inr roles"
      "found_of dump ord index kind anchor roles = Inr found" "v = finish_view b found (missing_of kind)"
      by (auto simp: resolve_overview_def found_of_def missing_of_def Let_def)
    with finish_composed [OF p(2), of kind found l] k t view show ?thesis by blast
  next
    case False
    with v obtain anchor vid title b roles found where p: "task_anchor t = Inr anchor"
      "base_view index t vid title = Inr b" "requested_roles t = Inr roles"
      "found_of dump ord index kind anchor roles = Inr found" "v = finish_view b found (missing_of kind)"
      by (auto simp: resolve_alarms_def found_of_def missing_of_def)
    with finish_composed [OF p(2), of kind found l] k t view show ?thesis by blast
  qed
qed

text \<open>The component and dependency of a tag, and of an alarm.\<close>

definition plain_component :: "json \<Rightarrow> string \<Rightarrow> bool" where
  "plain_component c k \<longleftrightarrow> is_object c \<and> find_key c ''id'' = Some (JStr k) \<and> find_key c ''status'' = None \<and>
     find_key c ''relationship_id'' = None \<and> has_string c ''tag_id'' \<and>
     (\<exists>a. value_string c ''alarm_id'' [] = Inr a)"

lemma tag_snapshot_eq:
  "wf_tag assets t \<Longrightarrow> tag_binding_snapshot t = Inr (jobj [(''owner'', fld t ''asset_id''), (''role'', fld t ''role''),
     (''data_type'', fld t ''data_type''), (''unit'', fld t ''unit''), (''source'', fld t ''source'')])"
  by (simp add: tag_binding_snapshot_def copy_members_total wf_tag_present)

lemma dependency_for_Inr:
  assumes "dependency_for dump t = Inr d" and "wf_tag assets t"
  shows "\<exists>fp. d = oset (jobj [(''tag_id'', fld t ''id''), (''owner'', fld t ''asset_id''),
      (''owner_asset_id'', fld t ''asset_id''), (''role'', fld t ''role''), (''data_type'', fld t ''data_type''),
      (''unit'', fld t ''unit''), (''source'', fld t ''source''),
      (''binding'', jobj [(''owner'', fld t ''asset_id''), (''role'', fld t ''role''),
         (''data_type'', fld t ''data_type''), (''unit'', fld t ''unit''), (''source'', fld t ''source'')])])
      ''fingerprint'' (JStr fp)"
  using assms by (auto simp: dependency_for_def copy_members_total wf_tag_present tag_snapshot_eq)

lemma overview_pair:
  assumes "overview_component dump ix asset t = Inr (c, d)" and wf: "wf_tag assets t" and nn: "no_nan t"
  shows "plain_component c (sfld t ''id'') \<and> is_object d \<and> find_key d ''tag_id'' = Some (JStr (sfld t ''id'')) \<and>
    find_key d ''alarm_id'' = None \<and> binding_differs d t = Inr False"
proof -
  from assms(1) obtain kind label where c: "component_for dump t kind label ''Declared tag in machine overview'' = Inr c"
    and d: "dependency_for dump t = Inr d"
    by (auto simp: overview_component_def)
  have "plain_component c (sfld t ''id'')"
    using c wf_tag_fields(8) [OF wf]
    by (auto simp: component_for_def copy_members_total wf_tag_present [OF wf] plain_component_def has_string_def
        value_string_def fld_def [of "oset _ _ _"])
  moreover obtain fp where fp: "d = oset (jobj [(''tag_id'', fld t ''id''), (''owner'', fld t ''asset_id''),
      (''owner_asset_id'', fld t ''asset_id''), (''role'', fld t ''role''), (''data_type'', fld t ''data_type''),
      (''unit'', fld t ''unit''), (''source'', fld t ''source''),
      (''binding'', jobj [(''owner'', fld t ''asset_id''), (''role'', fld t ''role''),
         (''data_type'', fld t ''data_type''), (''unit'', fld t ''unit''), (''source'', fld t ''source'')])])
      ''fingerprint'' (JStr fp)" using dependency_for_Inr [OF d wf] by blast
  moreover have "jeq (fld t k) (fld t k)" for k using nn by (simp add: jeq_refl no_nan_fld)
  moreover have "jeq j j" if "j = jobj [(''owner'', fld t ''asset_id''), (''role'', fld t ''role''),
         (''data_type'', fld t ''data_type''), (''unit'', fld t ''unit''), (''source'', fld t ''source'')]" for j
    unfolding that using nn by (intro jeq_refl no_nan_jobj) (simp add: no_nan_fld)
  ultimately show ?thesis
    using wf_tag_fields(8) [OF wf]
    by (simp add: binding_differs_def tag_snapshot_eq [OF wf] summary_differs_def fld_def [of "oset _ _ _"]
        fld_def [of "jobj _"])
qed

lemma alarm_snapshot_eq:
  "wf_alarm assets tags a \<Longrightarrow> alarm_definition_snapshot a = Inr (jobj [(''owner'', fld a ''asset_id''),
     (''name'', fld a ''name''), (''tag_id'', fld a ''tag_id''), (''operator'', fld a ''operator''),
     (''threshold'', fld a ''threshold''), (''severity'', fld a ''severity'')])"
  by (simp add: alarm_definition_snapshot_def copy_members_total wf_alarm_present)

lemma alarm_pair:
  assumes c: "alarm_component_for dump a t = Inr c" and d: "dependency_for_alarm dump a t = Inr d"
    and wft: "wf_tag assets t" and wf: "wf_alarm assets tags a" and nn: "no_nan t" "no_nan a"
  shows "plain_component c (sfld a ''id'') \<and> is_object d \<and> find_key d ''tag_id'' = Some (JStr (sfld t ''id'')) \<and>
    find_key d ''alarm_id'' = Some (JStr (sfld a ''id'')) \<and> alarm_differs d a = Inr False \<and>
    (\<exists>b. find_key d ''binding'' = Some b \<and> tag_binding_snapshot t = Inr b \<and> jeq b b)"
proof -
  have pc: "plain_component c (sfld a ''id'')"
    using c wf_alarm_fields(8) [OF wf] wf_alarm_fields(3) [OF wf] fld_eq [OF wf_alarm_fields(3) [OF wf]]
    by (auto simp: alarm_component_for_def copy_members_total wf_alarm_present [OF wf] wf_tag_present [OF wft]
        plain_component_def has_string_def value_string_def fld_def [of "jobj _"])
  from d obtain d0 s fp where d0: "dependency_for dump t = Inr d0" and s: "alarm_definition_snapshot a = Inr s"
    and dd: "d = fold (\<lambda>(k, v) j. oset j k v) ([(''alarm_id'', fld a ''id''), (''alarm_owner'', fld a ''asset_id''),
         (''alarm_name'', fld a ''name''), (''operator'', fld a ''operator''), (''threshold'', fld a ''threshold''),
         (''severity'', fld a ''severity'')] @ [(''alarm_definition'', s), (''alarm_fingerprint'', JStr fp)]) d0"
    by (auto simp: dependency_for_alarm_def copy_members_total wf_alarm_present [OF wf])
  obtain fp0 where fp0: "d0 = oset (jobj [(''tag_id'', fld t ''id''), (''owner'', fld t ''asset_id''),
      (''owner_asset_id'', fld t ''asset_id''), (''role'', fld t ''role''), (''data_type'', fld t ''data_type''),
      (''unit'', fld t ''unit''), (''source'', fld t ''source''),
      (''binding'', jobj [(''owner'', fld t ''asset_id''), (''role'', fld t ''role''),
         (''data_type'', fld t ''data_type''), (''unit'', fld t ''unit''), (''source'', fld t ''source'')])])
      ''fingerprint'' (JStr fp0)" using dependency_for_Inr [OF d0 wft] by blast
  have r: "jeq (fld a k) (fld a k)" for k using nn by (simp add: jeq_refl no_nan_fld)
  have rs: "jeq s s" using s nn by (auto simp: alarm_snapshot_eq [OF wf] no_nan_fld intro!: jeq_refl no_nan_jobj)
  have bb: "jeq b b" if "tag_binding_snapshot t = Inr b" for b
    using that nn by (auto simp: tag_snapshot_eq [OF wft] no_nan_fld intro!: jeq_refl no_nan_jobj)
  have keys: "find_key d ''alarm_definition'' = Some s" "find_key d ''alarm_owner'' = Some (fld a ''asset_id'')"
    "find_key d ''alarm_name'' = Some (fld a ''name'')" "find_key d ''operator'' = Some (fld a ''operator'')"
    "find_key d ''threshold'' = Some (fld a ''threshold'')" "find_key d ''severity'' = Some (fld a ''severity'')"
    "find_key d ''alarm_id'' = Some (fld a ''id'')" "find_key d ''tag_id'' = Some (fld t ''id'')" "is_object d"
    "find_key d ''binding'' = find_key d0 ''binding''"
    by (simp_all add: dd fp0)
  have sj: "s = jobj [(''owner'', fld a ''asset_id''), (''name'', fld a ''name''), (''tag_id'', fld a ''tag_id''),
      (''operator'', fld a ''operator''), (''threshold'', fld a ''threshold''), (''severity'', fld a ''severity'')]"
    using s alarm_snapshot_eq [OF wf] by simp
  have sk: "fld s ''owner'' = fld a ''asset_id''" "fld s ''name'' = fld a ''name''" "fld s ''operator'' = fld a ''operator''"
    "fld s ''threshold'' = fld a ''threshold''" "fld s ''severity'' = fld a ''severity''"
    by (rule fld_eq, simp add: sj)+
  have "alarm_differs d a = Inr False"
    using keys rs r by (simp add: alarm_differs_def definition_differs_def s contains_def summary_differs_def fld_eq sk)
  with pc keys wf_tag_fields(8) [OF wft] wf_alarm_fields(8) [OF wf] bb tag_snapshot_eq [OF wft] show ?thesis
    by (auto simp: fp0)
qed

text \<open>Without marks, a component whose fresh counterpart is itself stays.\<close>

definition no_marks :: "marks \<Rightarrow> bool" where
  "no_marks mk \<longleftrightarrow> mk_conflicted_tags mk = [] \<and> mk_removed_tags mk = [] \<and> mk_conflicted_alarms mk = [] \<and>
     mk_removed_alarms mk = [] \<and> mk_changed_relationships mk = [] \<and> mk_removed_relationships mk = []"

lemma start_no_marks: "no_marks (start_marks view)"
  by (simp add: no_marks_def start_marks_def)

lemma plain_facts:
  assumes "plain_component c k"
  shows "is_object c" "has_string c ''id''" "sfld c ''id'' = k" "value_string c ''id'' [] = Inr k"
    "value_string c ''status'' [] = Inr []" "\<exists>b. bound_to c = Inr b" "\<not> has_string c ''relationship_id''"
  using assms by (auto simp: plain_component_def has_string_def contains_def sfld_def fld_def value_string_def bound_to_def
      is_string_iff)

lemma find_component_self:
  assumes "\<forall>x \<in> set cs. \<exists>k. plain_component x k" and "c \<in> set cs"
    and "\<forall>x \<in> set cs. sfld x ''id'' = sfld c ''id'' \<longrightarrow> x = c"
  shows "find_component (sfld c ''id'') cs = Inr (Some c)"
  using assms
proof (induction cs)
  case (Cons x cs)
  obtain k where "plain_component x k" using Cons.prems(1) by auto
  note p = plain_facts [OF this]
  show ?case
  proof (cases "x = c")
    case True
    with p show ?thesis by simp
  next
    case False
    with Cons.prems(3) p(3) have "k \<noteq> sfld c ''id''" by auto
    with p False Cons show ?thesis by auto
  qed
qed simp

lemma merge_same:
  assumes "no_marks mk" and "\<forall>c \<in> set old. \<exists>k. plain_component c k"
    and "\<forall>c \<in> set old. find_component (sfld c ''id'') fresh = Inr (Some c)"
  shows "\<exists>es'. efold (merge_component mk fresh) (ms, es) old = Inr (ms @ old, es') \<and>
    set es' = set es \<union> (\<lambda>c. sfld c ''id'') ` set old"
  using assms(2,3)
proof (induction old arbitrary: ms es)
  case (Cons c old)
  obtain k where "plain_component c k" using Cons.prems(1) by auto
  note p = plain_facts [OF this]
  from p(6) obtain b where b: "bound_to c = Inr b" by blast
  have "\<not> blocked mk b" using assms(1) by (cases b) (simp add: blocked_def no_marks_def)
  with p b Cons.prems(2) have "merge_component mk fresh (ms, es) c = Inr (ms @ [c], List.insert (sfld c ''id'') es)"
    by (simp add: merge_component_def Let_def)
  moreover obtain es' where "efold (merge_component mk fresh) (ms @ [c], List.insert (sfld c ''id'') es) old =
      Inr ((ms @ [c]) @ old, es')"
    "set es' = set (List.insert (sfld c ''id'') es) \<union> (\<lambda>c. sfld c ''id'') ` set old"
    using Cons.IH [of "ms @ [c]" "List.insert (sfld c ''id'') es"] Cons.prems by auto
  ultimately show ?case by (intro exI [of _ es']) auto
qed simp

lemma merge_components_same:
  assumes "no_marks mk" and plain: "\<forall>c \<in> set cs. \<exists>k. plain_component c k" and "length cs \<le> 4096"
    and unique: "\<forall>x \<in> set cs. \<forall>y \<in> set cs. sfld x ''id'' = sfld y ''id'' \<longrightarrow> x = y"
  shows "merge_components mk cs cs = Inr cs"
proof -
  have "\<forall>c \<in> set cs. find_component (sfld c ''id'') cs = Inr (Some c)"
    using find_component_self [OF plain] unique by blast
  from merge_same [OF assms(1) plain this, of "[]" "[]"] obtain es where
    es: "efold (merge_component mk cs) ([], []) cs = Inr (cs, es)" "set es = (\<lambda>c. sfld c ''id'') ` set cs" by auto
  have "efold (add_fresh_component es) cs cs = Inr cs"
  proof (rule efold_fixed)
    fix c assume c: "c \<in> set cs"
    with plain obtain k where "plain_component c k" by blast
    with plain_facts(3,4) [OF this] c es(2) show "add_fresh_component es cs c = Inr cs"
      by (auto simp: add_fresh_component_def)
  qed
  with es assms(3) show ?thesis by (simp add: merge_components_def limits)
qed

definition keyed_dependency :: "json \<Rightarrow> string \<Rightarrow> bool" where
  "keyed_dependency d k \<longleftrightarrow> is_object d \<and> has_string d ''tag_id'' \<and> dependency_key d = Inr k"

lemma find_dependency_self:
  assumes "\<forall>x \<in> set ds. \<exists>k. keyed_dependency x k" and "d \<in> set ds" and "keyed_dependency d k"
    and "\<forall>x \<in> set ds. keyed_dependency x k \<longrightarrow> x = d"
  shows "find_dependency k ds = Inr (Some d)"
  using assms
proof (induction ds)
  case (Cons x ds)
  obtain k' where k': "keyed_dependency x k'" using Cons.prems(1) by auto
  show ?case
  proof (cases "x = d")
    case True
    with Cons.prems(3) show ?thesis by (simp add: keyed_dependency_def)
  next
    case False
    have "x \<in> set (x # ds)" by simp
    with Cons.prems(4) k' False have "k' \<noteq> k" by blast
    moreover have "find_dependency k ds = Inr (Some d)"
    proof (rule Cons.IH)
      show "\<forall>x \<in> set ds. \<exists>k. keyed_dependency x k" "d \<in> set ds"
        using Cons.prems(1,2) False by simp_all
      show "\<forall>x \<in> set ds. keyed_dependency x k \<longrightarrow> x = d"
        using Cons.prems(4) by (meson list.set_intros(2))
    qed (rule Cons.prems(3))
    ultimately show ?thesis using k' by (simp add: keyed_dependency_def)
  qed
qed simp

lemma merge_dependency_same:
  assumes "no_marks mk" and "keyed_dependency d k" and "find_dependency k fresh = Inr (Some d)"
  shows "merge_dependency mk fresh (ms, es) d = Inr (ms @ [d], List.insert k es)"
proof -
  from assms(2) obtain t a where t: "find_key d ''tag_id'' = Some (JStr t)" and a: "value_string d ''alarm_id'' [] = Inr a"
    and k: "k = (if a = [] then ''tag:'' @ t else ''alarm:'' @ a)"
    by (auto simp: keyed_dependency_def has_string_def contains_def fld_def is_string_iff dependency_key_def
        value_string_def split: if_splits)
  have "sfld d ''tag_id'' = t" using t by (rule sfld_eq)
  with assms k a show ?thesis
    by (auto simp: merge_dependency_def keyed_dependency_def no_marks_def Let_def)
qed

lemma merge_dependencies_same:
  assumes "no_marks mk" and keyed: "\<forall>d \<in> set ds. \<exists>k. keyed_dependency d k"
    and unique: "\<forall>x \<in> set ds. \<forall>y \<in> set ds. \<forall>k. keyed_dependency x k \<and> keyed_dependency y k \<longrightarrow> x = y"
  shows "merge_dependencies mk ds ds = Inr ds"
proof -
  have self: "find_dependency k ds = Inr (Some d)" if "d \<in> set ds" "keyed_dependency d k" for d k
    using find_dependency_self [OF keyed that] unique that by blast
  have loop: "\<exists>es'. efold (merge_dependency mk ds) (ms, es) xs = Inr (ms @ xs, es') \<and>
      set es \<subseteq> set es' \<and> (\<forall>d \<in> set xs. \<forall>k. keyed_dependency d k \<longrightarrow> k \<in> set es')" if "set xs \<subseteq> set ds" for ms es xs
    using that
  proof (induction xs arbitrary: ms es)
    case (Cons x xs)
    obtain k where k: "keyed_dependency x k" using Cons.prems keyed by auto
    have step: "merge_dependency mk ds (ms, es) x = Inr (ms @ [x], List.insert k es)"
      using merge_dependency_same [OF assms(1) k self [OF _ k]] Cons.prems by simp
    obtain es' where es': "efold (merge_dependency mk ds) (ms @ [x], List.insert k es) xs = Inr ((ms @ [x]) @ xs, es')"
      "set (List.insert k es) \<subseteq> set es'" "\<forall>d \<in> set xs. \<forall>k. keyed_dependency d k \<longrightarrow> k \<in> set es'"
      using Cons.IH [of "ms @ [x]" "List.insert k es"] Cons.prems by auto
    have "\<forall>k'. keyed_dependency x k' \<longrightarrow> k' = k" using k by (auto simp: keyed_dependency_def)
    with es' step show ?case by auto
  qed simp
  obtain es where es: "efold (merge_dependency mk ds) ([], []) ds = Inr (ds, es)"
    "\<forall>d \<in> set ds. \<forall>k. keyed_dependency d k \<longrightarrow> k \<in> set es" using loop [of ds "[]" "[]"] by auto
  have "efold (add_fresh_dependency es) ds ds = Inr ds"
  proof (rule efold_fixed)
    fix d assume d: "d \<in> set ds"
    with keyed obtain k where "keyed_dependency d k" by blast
    with d es(2) show "add_fresh_dependency es ds d = Inr ds"
      by (auto simp: add_fresh_dependency_def keyed_dependency_def)
  qed
  with es(1) show ?thesis by (simp add: merge_dependencies_def)
qed

text \<open>A component and its dependency as the current model would compose them.\<close>

definition steady_tag :: "model_index \<Rightarrow> json \<Rightarrow> string \<Rightarrow> bool" where
  "steady_tag ix d k \<longleftrightarrow> is_object d \<and> find_key d ''tag_id'' = Some (JStr k) \<and> find_key d ''alarm_id'' = None \<and>
     (\<exists>t. map_of (ix_tags ix) k = Some t \<and> binding_differs d t = Inr False)"

definition steady_alarm :: "model_index \<Rightarrow> json \<Rightarrow> string \<Rightarrow> bool" where
  "steady_alarm ix d k \<longleftrightarrow> is_object d \<and> has_string d ''tag_id'' \<and> find_key d ''alarm_id'' = Some (JStr k) \<and> k \<noteq> [] \<and>
     (\<exists>al t b. map_of (ix_alarms ix) k = Some al \<and> alarm_differs d al = Inr False \<and>
        map_of (ix_tags ix) (sfld al ''tag_id'') = Some t \<and> tag_binding_snapshot t = Inr b \<and>
        find_key d ''binding'' = Some b \<and> jeq b b)"

definition steady :: "model_index \<Rightarrow> json \<times> json \<Rightarrow> bool" where
  "steady ix = (\<lambda>(c, d). \<exists>k. plain_component c k \<and> (steady_tag ix d k \<or> steady_alarm ix d k))"

lemma steady_tag_facts:
  assumes "steady_tag ix d k"
  shows "keyed_dependency d (''tag:'' @ k)" "\<not> has_string d ''alarm_id''" "has_string d ''tag_id''" "sfld d ''tag_id'' = k"
    "reconcile_tag dump ix mk (k, d) = Inr mk"
  using assms by (auto simp: steady_tag_def keyed_dependency_def has_string_def contains_def fld_def sfld_def
      dependency_key_def value_string_def reconcile_tag_def)

lemma steady_alarm_facts:
  assumes "steady_alarm ix d k"
  shows "keyed_dependency d (''alarm:'' @ k)" "has_string d ''alarm_id''" "has_string d ''tag_id''" "sfld d ''alarm_id'' = k"
    "reconcile_alarm ix mk (k, d) = Inr mk"
proof -
  show "keyed_dependency d (''alarm:'' @ k)" "has_string d ''alarm_id''" "has_string d ''tag_id''" "sfld d ''alarm_id'' = k"
    using assms by (auto simp: steady_alarm_def keyed_dependency_def has_string_def contains_def fld_def sfld_def
        dependency_key_def value_string_def)
  obtain al t b where al: "map_of (ix_alarms ix) k = Some al" "alarm_differs d al = Inr False"
    "map_of (ix_tags ix) (sfld al ''tag_id'') = Some t" "tag_binding_snapshot t = Inr b"
    "find_key d ''binding'' = Some b" "jeq b b" using assms unfolding steady_alarm_def by blast
  then have "check_alarm_tag ix d (sfld al ''tag_id'') mk = Inr mk"
    by (simp add: check_alarm_tag_def contains_def fld_eq)
  with al show "reconcile_alarm ix mk (k, d) = Inr mk" by (simp add: reconcile_alarm_def)
qed

lemma steady_key: "steady ix (c, d) \<Longrightarrow> \<exists>k. keyed_dependency d k"
  unfolding steady_def using steady_tag_facts(1) steady_alarm_facts(1) by blast

lemma steady_same_key:
  assumes "steady ix (c, d)" and "steady ix (c', d')" and "keyed_dependency d k" and "keyed_dependency d' k"
  shows "sfld c ''id'' = sfld c' ''id''"
proof -
  have one: "k = k'" if "keyed_dependency x k" "keyed_dependency x k'" for x k k'
    using that by (simp add: keyed_dependency_def)
  have id_key: "\<exists>i. plain_component x i \<and> (k = ''tag:'' @ i \<or> k = ''alarm:'' @ i)"
    if "steady ix (x, y)" "keyed_dependency y k" for x y
    using that one steady_tag_facts(1) steady_alarm_facts(1) unfolding steady_def by blast
  from id_key [OF assms(1,3)] id_key [OF assms(2,4)] obtain i j where
    "plain_component c i" "plain_component c' j" "i = j" by auto
  with plain_facts(3) show ?thesis by simp
qed

lemma set_mset_key: "set (mset_key k v m) \<subseteq> insert (k, v) (set m)"
  by (induction k v m rule: mset_key.induct) auto

lemma old_dependencies_sound:
  "(\<forall>(k, d) \<in> set (fst (old_dependencies view)). d \<in> set (elements_of (fld view ''dependencies'')) \<and>
      \<not> has_string d ''alarm_id'' \<and> sfld d ''tag_id'' = k) \<and>
   (\<forall>(k, d) \<in> set (snd (old_dependencies view)). d \<in> set (elements_of (fld view ''dependencies'')) \<and>
      has_string d ''alarm_id'' \<and> sfld d ''alarm_id'' = k)" (is "?P (old_dependencies view)")
proof -
  have "?P (foldl file_dependency ([], []) (elements_of (fld view ''dependencies'')))"
  proof (rule foldl_invariant)
    fix out d assume d: "d \<in> set (elements_of (fld view ''dependencies''))" and "?P out"
    then show "?P (file_dependency out d)"
      using set_mset_key [of "sfld d ''tag_id''" d "fst out"] set_mset_key [of "sfld d ''alarm_id''" d "snd out"]
      by (cases out) (auto simp: file_dependency_def)
  qed simp
  then show ?thesis by (simp add: old_dependencies_def)
qed

lemma steady_marks:
  assumes "\<forall>p \<in> set found. steady ix p" and "reorders ord"
    and "elements_of (fld view ''components'') = map fst found"
    and "elements_of (fld view ''dependencies'') = map snd found"
  shows "find_marks dump ord ix view = Inr (start_marks view)"
proof -
  note old = old_dependencies_sound [of view, unfolded assms(4)]
  have "efold (reconcile_tag dump ix) (start_marks view) (ord (fst (old_dependencies view))) = Inr (start_marks view)"
  proof (rule efold_fixed)
    fix p assume "p \<in> set (ord (fst (old_dependencies view)))"
    then have "p \<in> set (fst (old_dependencies view))" by (simp only: reorders_set [OF assms(2)])
    then obtain k d where p: "p = (k, d)" "(k, d) \<in> set (fst (old_dependencies view))"
      by (metis surj_pair)
    then have "d \<in> set (map snd found)" "\<not> has_string d ''alarm_id''" "sfld d ''tag_id'' = k" using old by auto
    then obtain c i where "plain_component c i" "steady_tag ix d i \<or> steady_alarm ix d i"
      using assms(1) by (fastforce simp: steady_def)
    with \<open>\<not> has_string d ''alarm_id''\<close> \<open>sfld d ''tag_id'' = k\<close> steady_alarm_facts(2) steady_tag_facts(4)
    have "steady_tag ix d k" by blast
    then show "reconcile_tag dump ix (start_marks view) p = Inr (start_marks view)"
      unfolding p(1) by (rule steady_tag_facts)
  qed
  moreover have "efold (reconcile_alarm ix) (start_marks view) (ord (snd (old_dependencies view))) = Inr (start_marks view)"
  proof (rule efold_fixed)
    fix p assume "p \<in> set (ord (snd (old_dependencies view)))"
    then have "p \<in> set (snd (old_dependencies view))" by (simp only: reorders_set [OF assms(2)])
    then obtain k d where p: "p = (k, d)" "(k, d) \<in> set (snd (old_dependencies view))"
      by (metis surj_pair)
    then have "d \<in> set (map snd found)" "has_string d ''alarm_id''" "sfld d ''alarm_id'' = k" using old by auto
    then obtain c i where "plain_component c i" "steady_tag ix d i \<or> steady_alarm ix d i"
      using assms(1) by (fastforce simp: steady_def)
    with \<open>has_string d ''alarm_id''\<close> \<open>sfld d ''alarm_id'' = k\<close> steady_alarm_facts(4) steady_tag_facts(2)
    have "steady_alarm ix d k" by blast
    then show "reconcile_alarm ix (start_marks view) p = Inr (start_marks view)"
      unfolding p(1) by (rule steady_alarm_facts)
  qed
  moreover have "efold (reconcile_relationship ix) (start_marks view) (map fst found) = Inr (start_marks view)"
  proof (rule efold_fixed)
    fix c assume "c \<in> set (map fst found)"
    then obtain k where "plain_component c k" using assms(1) by (fastforce simp: steady_def)
    with plain_facts(7) show "reconcile_relationship ix (start_marks view) c = Inr (start_marks view)"
      by (simp add: reconcile_relationship_def)
  qed
  ultimately show ?thesis by (simp add: find_marks_def assms(3) Let_def)
qed

lemma steady_merges:
  assumes steady: "\<forall>p \<in> set found. steady ix p" and "length found \<le> 4096" and "no_marks mk"
    and unique: "\<forall>p \<in> set found. \<forall>q \<in> set found. sfld (fst p) ''id'' = sfld (fst q) ''id'' \<longrightarrow> p = q"
  shows "merge_components mk (map fst found) (map fst found) = Inr (map fst found)"
    and "merge_dependencies mk (map snd found) (map snd found) = Inr (map snd found)"
proof -
  show "merge_components mk (map fst found) (map fst found) = Inr (map fst found)"
  proof (rule merge_components_same [OF assms(3)])
    show "\<forall>c \<in> set (map fst found). \<exists>k. plain_component c k" using steady by (fastforce simp: steady_def)
    show "\<forall>x \<in> set (map fst found). \<forall>y \<in> set (map fst found). sfld x ''id'' = sfld y ''id'' \<longrightarrow> x = y"
      using unique by fastforce
  qed (use assms(2) in simp)
  show "merge_dependencies mk (map snd found) (map snd found) = Inr (map snd found)"
  proof (rule merge_dependencies_same [OF assms(3)])
    show "\<forall>d \<in> set (map snd found). \<exists>k. keyed_dependency d k" using steady steady_key by fastforce
    show "\<forall>x \<in> set (map snd found). \<forall>y \<in> set (map snd found). \<forall>k. keyed_dependency x k \<and> keyed_dependency y k \<longrightarrow> x = y"
    proof (intro ballI allI impI)
      fix x y k assume "x \<in> set (map snd found)" "y \<in> set (map snd found)" and k: "keyed_dependency x k \<and> keyed_dependency y k"
      then obtain p q where p: "p \<in> set found" "x = snd p" and q: "q \<in> set found" "y = snd q" by auto
      have "sfld (fst p) ''id'' = sfld (fst q) ''id''"
        using steady_same_key [of ix "fst p" x "fst q" y k] steady p q k by simp
      with unique p q show "x = y" by blast
    qed
  qed
qed

text \<open>What the composer finds in an accepted model is steady, and each thing once.\<close>

lemma emap_origin: "emap f xs = Inr ys \<Longrightarrow> y \<in> set ys \<Longrightarrow> \<exists>x \<in> set xs. f x = Inr y"
  by (induction xs arbitrary: ys) auto

lemma distinct_concat_map:
  assumes "distinct xs" and "\<And>x. x \<in> set xs \<Longrightarrow> distinct (f x)"
    and "\<And>x y. x \<noteq> y \<Longrightarrow> set (f x) \<inter> set (f y) = {}"
  shows "distinct (concat (map f xs))"
  using assms(1,2) by (induction xs) (use assms(3) in \<open>fastforce+\<close>)

lemma distinct_subset_length: "distinct xs \<Longrightarrow> set xs \<subseteq> set ys \<Longrightarrow> length xs \<le> length ys"
  by (metis card_length card_mono distinct_card finite_set le_trans)

lemma found_in_model:
  assumes "found_of dump ord (index_of m) kind anchor roles = Inr found" and "wf_model dump m" and "reorders ord"
  shows "length found \<le> 2048"
    and "p \<in> set found \<Longrightarrow>
      (kind = ''overview'' \<and> (\<exists>t \<in> set (decls m ''tags''). overview_component dump (index_of m) (sfld t ''asset_id'') t = Inr p)) \<or>
      (kind \<noteq> ''overview'' \<and> (\<exists>al \<in> set (decls m ''alarms''). \<exists>t \<in> set (decls m ''tags'').
         map_of (keyed (decls m ''tags'')) (sfld al ''tag_id'') = Some t \<and>
         alarm_component_for dump al t = Inr (fst p) \<and> dependency_for_alarm dump al t = Inr (snd p)))"
proof -
  have limit: "length (decls m ''tags'') \<le> 2048" "length (decls m ''alarms'') \<le> 2048"
    using assms(2) by (simp_all add: wf_model_def Let_def wf_header_def array_upto_def decls_def limits)
  note dist = wf_model_decls(3,4,5) [OF assms(2)]
  have "length found \<le> 2048 \<and> (p \<in> set found \<longrightarrow>
      (kind = ''overview'' \<and> (\<exists>t \<in> set (decls m ''tags''). overview_component dump (index_of m) (sfld t ''asset_id'') t = Inr p)) \<or>
      (kind \<noteq> ''overview'' \<and> (\<exists>al \<in> set (decls m ''alarms''). \<exists>t \<in> set (decls m ''tags'').
         map_of (keyed (decls m ''tags'')) (sfld al ''tag_id'') = Some t \<and>
         alarm_component_for dump al t = Inr (fst p) \<and> dependency_for_alarm dump al t = Inr (snd p))))"
  proof (cases "kind = ''overview''")
    case True
    with assms(1) obtain fs where fs: "emap (\<lambda>asset. emap (overview_component dump (index_of m) asset)
        (asset_selection m roles asset)) (scope_assets m anchor) = Inr fs" "found = concat fs"
      by (auto simp: found_of_def scope_assets_eq [OF assms(3)] overview_tags_eq [OF assms(2,3)])
    have "list_all2 (\<lambda>asset cds. length cds = length (asset_selection m roles asset)) (scope_assets m anchor) fs"
      using fs(1) by (auto simp: emap_Inr_iff elim!: list_all2_mono dest: list_all2_lengthD)
    then have "map length fs = map (\<lambda>a. length (asset_selection m roles a)) (scope_assets m anchor)"
      by (induction rule: list_all2_induct) auto
    then have "length found = length (concat (map (asset_selection m roles) (scope_assets m anchor)))"
      by (simp add: fs(2) length_concat comp_def)
    moreover have "distinct (concat (map (asset_selection m roles) (scope_assets m anchor)))"
    proof (rule distinct_concat_map)
      show "distinct (scope_assets m anchor)" using dist(3) by (simp add: scope_assets_def)
      show "distinct (asset_selection m roles a)" for a
        using dist(1) by (simp add: asset_selection_def by_id_def distinct_map)
    qed (auto simp: asset_selection_def by_id_def)
    moreover have "set (concat (map (asset_selection m roles) (scope_assets m anchor))) \<subseteq> set (decls m ''tags'')"
      by (auto simp: asset_selection_def by_id_def)
    ultimately have "length found \<le> 2048" using distinct_subset_length limit(1) by fastforce
    moreover have "\<exists>t \<in> set (decls m ''tags''). overview_component dump (index_of m) (sfld t ''asset_id'') t = Inr p"
      if p: "p \<in> set found"
    proof -
      from p fs(2) obtain ys where "ys \<in> set fs" "p \<in> set ys" by auto
      then obtain asset t where "t \<in> set (asset_selection m roles asset)"
        "overview_component dump (index_of m) asset t = Inr p"
        using emap_origin [OF fs(1)] emap_origin by metis
      then show ?thesis by (auto simp: asset_selection_def by_id_def)
    qed
    ultimately show ?thesis using True by blast
  next
    case False
    with assms(1) have fs: "emap (\<lambda>alarm. ebind (alarm_tag (index_of m) alarm) (\<lambda>tag. ebind (alarm_component_for dump alarm tag)
        (\<lambda>c. ebind (dependency_for_alarm dump alarm tag) (\<lambda>d. Inr (c, d))))) (alarm_selection m anchor roles) = Inr found"
      by (simp add: found_of_def view_alarms_eq [OF assms(2,3)])
    have "length found = length (alarm_selection m anchor roles)" using emap_Inr_length [OF fs] .
    also have "\<dots> \<le> length (decls m ''alarms'')" by (simp add: alarm_selection_def by_id_def)
    finally have "length found \<le> 2048" using limit(2) by simp
    moreover have "\<exists>al \<in> set (decls m ''alarms''). \<exists>t \<in> set (decls m ''tags'').
         map_of (keyed (decls m ''tags'')) (sfld al ''tag_id'') = Some t \<and>
         alarm_component_for dump al t = Inr (fst p) \<and> dependency_for_alarm dump al t = Inr (snd p)" if "p \<in> set found"
    proof -
      from emap_origin [OF fs that] obtain al t where al: "al \<in> set (alarm_selection m anchor roles)"
        "alarm_tag (index_of m) al = Inr t" "alarm_component_for dump al t = Inr (fst p)"
        "dependency_for_alarm dump al t = Inr (snd p)" by auto
      then have "al \<in> set (decls m ''alarms'')" by (simp add: alarm_selection_def by_id_def)
      with alarm_tag_eq [OF assms(2) this] al show ?thesis by auto
    qed
    ultimately show ?thesis using False by blast
  qed
  then show "length found \<le> 2048"
    "p \<in> set found \<Longrightarrow>
      (kind = ''overview'' \<and> (\<exists>t \<in> set (decls m ''tags''). overview_component dump (index_of m) (sfld t ''asset_id'') t = Inr p)) \<or>
      (kind \<noteq> ''overview'' \<and> (\<exists>al \<in> set (decls m ''alarms''). \<exists>t \<in> set (decls m ''tags'').
         map_of (keyed (decls m ''tags'')) (sfld al ''tag_id'') = Some t \<and>
         alarm_component_for dump al t = Inr (fst p) \<and> dependency_for_alarm dump al t = Inr (snd p)))" by blast+
qed

lemma found_steady:
  assumes "found_of dump ord (index_of m) kind anchor roles = Inr found" and "wf_model dump m" and "reorders ord"
    and "no_nan m" and "p \<in> set found"
  shows "steady (index_of m) p"
proof -
  obtain c d where p: "p = (c, d)" by (cases p)
  note wf = wf_model_decls [OF assms(2)]
  have tag_at: "map_of (ix_tags (index_of m)) (sfld t ''id'') = Some t" if "t \<in> set (decls m ''tags'')" for t
    using assms(2) that by (simp add: index_of_def map_of_keyed_mem wf_model_def Let_def)
  from found_in_model(2) [OF assms(1-3,5)] show ?thesis
  proof (elim disjE conjE bexE)
    fix t assume t: "t \<in> set (decls m ''tags'')" "overview_component dump (index_of m) (sfld t ''asset_id'') t = Inr p"
    from overview_pair [OF t(2) [unfolded p] wf(1) [OF t(1)] no_nan_decls [OF assms(4) t(1)]] tag_at [OF t(1)]
    show ?thesis by (auto simp: steady_def steady_tag_def p)
  next
    fix al t assume a: "al \<in> set (decls m ''alarms'')" "t \<in> set (decls m ''tags'')"
      "map_of (keyed (decls m ''tags'')) (sfld al ''tag_id'') = Some t"
      "alarm_component_for dump al t = Inr (fst p)" "dependency_for_alarm dump al t = Inr (snd p)"
    have al: "map_of (ix_alarms (index_of m)) (sfld al ''id'') = Some al"
      using assms(2) a(1) by (simp add: index_of_def map_of_keyed_mem wf_model_def Let_def)
    have "has_ident al ''id''" using wf(2) [OF a(1)] by (simp add: wf_alarm_def)
    then have ne: "sfld al ''id'' \<noteq> []" by (simp add: has_ident_def has_text_def ok_text_def)
    from alarm_pair [OF a(4,5) wf(1) [OF a(2)] wf(2) [OF a(1)] no_nan_decls [OF assms(4) a(2)] no_nan_decls [OF assms(4) a(1)]]
    have f: "plain_component c (sfld al ''id'')" "is_object d" "find_key d ''tag_id'' = Some (JStr (sfld t ''id''))"
      "find_key d ''alarm_id'' = Some (JStr (sfld al ''id''))" "alarm_differs d al = Inr False"
      "\<exists>b. find_key d ''binding'' = Some b \<and> tag_binding_snapshot t = Inr b \<and> jeq b b"
      by (simp_all add: p)
    have "has_string d ''tag_id''" using f(3) by (simp add: has_string_def contains_def fld_eq)
    moreover have "map_of (ix_tags (index_of m)) (sfld al ''tag_id'') = Some t" using a(3) by (simp add: index_of_def)
    ultimately have "steady_alarm (index_of m) d (sfld al ''id'')"
      unfolding steady_alarm_def using f al ne by blast
    with f(1) show ?thesis by (auto simp: steady_def p)
  qed
qed

lemma found_unique:
  assumes "found_of dump ord (index_of m) kind anchor roles = Inr found" and "wf_model dump m" and "reorders ord"
    and "no_nan m" and "p \<in> set found" and "q \<in> set found" and same: "sfld (fst p) ''id'' = sfld (fst q) ''id''"
  shows "p = q"
proof -
  note wf = wf_model_decls [OF assms(2)]
  note find_p = found_in_model(2) [OF assms(1-3,5)] and find_q = found_in_model(2) [OF assms(1-3,6)]
  show ?thesis
  proof (cases "kind = ''overview''")
    case True
    have id_of: "sfld (fst r) ''id'' = sfld t ''id''"
      if "t \<in> set (decls m ''tags'')" "overview_component dump (index_of m) (sfld t ''asset_id'') t = Inr r" for t r
      using overview_pair [of dump "index_of m" "sfld t ''asset_id''" t "fst r" "snd r" "keyed (decls m ''assets'')"]
        that wf(1) no_nan_decls [OF assms(4)] plain_facts(3) by simp
    from True find_p find_q obtain t u where t: "t \<in> set (decls m ''tags'')"
      "overview_component dump (index_of m) (sfld t ''asset_id'') t = Inr p"
      and u: "u \<in> set (decls m ''tags'')" "overview_component dump (index_of m) (sfld u ''asset_id'') u = Inr q" by blast
    have "sfld t ''id'' = sfld u ''id''" using id_of [OF t] id_of [OF u] same by simp
    with wf(3) t(1) u(1) have "t = u" by (auto simp: distinct_map inj_on_def)
    with t(2) u(2) show ?thesis by simp
  next
    case False
    have id_of: "sfld (fst r) ''id'' = sfld al ''id''"
      if "al \<in> set (decls m ''alarms'')" "t \<in> set (decls m ''tags'')" "alarm_component_for dump al t = Inr (fst r)"
        "dependency_for_alarm dump al t = Inr (snd r)" for al t r
      using alarm_pair [OF that(3,4) wf(1) [OF that(2)] wf(2) [OF that(1)] no_nan_decls [OF assms(4) that(2)]
          no_nan_decls [OF assms(4) that(1)]] plain_facts(3) by blast
    from False find_p find_q obtain al t bl u where
      a: "al \<in> set (decls m ''alarms'')" "t \<in> set (decls m ''tags'')" "alarm_component_for dump al t = Inr (fst p)"
        "dependency_for_alarm dump al t = Inr (snd p)" "map_of (keyed (decls m ''tags'')) (sfld al ''tag_id'') = Some t"
      and b: "bl \<in> set (decls m ''alarms'')" "u \<in> set (decls m ''tags'')" "alarm_component_for dump bl u = Inr (fst q)"
        "dependency_for_alarm dump bl u = Inr (snd q)" "map_of (keyed (decls m ''tags'')) (sfld bl ''tag_id'') = Some u"
      by blast
    have "sfld al ''id'' = sfld bl ''id''" using id_of [OF a(1-4)] id_of [OF b(1-4)] same by simp
    with wf(4) a(1) b(1) have e: "al = bl" by (auto simp: distinct_map inj_on_def)
    with a(5) b(5) have "t = u" by simp
    with e a(3,4) b(3,4) show ?thesis by (simp add: prod_eq_iff)
  qed
qed

text \<open>A task that was accepted is accepted again with the identity and revision of the current model.\<close>

lemma renewed_task_ok:
  assumes ok: "task_ok m task" and m: "find_key m ''model_id'' = Some (JStr mid)" "find_key m ''revision'' = Some rv"
    "is_nonnegative_integer rv"
    and t: "only_keys t task_fields" "\<And>k. k \<noteq> ''model_id'' \<Longrightarrow> find_key t k = find_key task k"
  shows "task_ok m (oset (oset t ''model_id'' (JStr mid)) ''model_revision'' rv)" (is "task_ok m ?new")
proof -
  have rr: "jeq rv rv" using m(3) by (cases rv) (auto simp: is_nonnegative_integer_def is_integer_def)
  have "''model_id'' \<in> set task_fields" "''model_revision'' \<in> set task_fields" by (simp_all add: task_fields_def)
  then have "only_keys ?new task_fields" using t(1) by (simp add: only_keys_def)
  moreover have "fld ?new ''model_id'' = fld m ''model_id''" "fld ?new ''model_revision'' = rv" "fld m ''revision'' = rv"
    "contains ?new ''model_revision''" using m by (simp_all add: fld_def)
  moreover have "text_upto ?new k mx \<longleftrightarrow> text_upto task k mx" "sfld ?new k = sfld task k" "contains ?new k = contains task k"
    if "k \<noteq> ''model_id''" "k \<noteq> ''model_revision''" for k mx
    using that t(2) by (simp_all add: text_upto_def sfld_def fld_def contains_def)
  ultimately show ?thesis using ok m(3) rr unfolding task_ok_def by simp
qed

text \<open>The task of a composed view, brought to the current model, resolves to the same view contents.\<close>

lemma current_task_resolves:
  assumes "wf_model dump m" and "reorders ord" and "dumps_all dump"
    and "resolve_task_impl dump ord (index_of m) task = Inr view"
  shows "\<exists>kind found fresh t. composed (index_of m) t kind found view \<and> is_object t \<and>
    (contains t ''model_id'' \<longrightarrow> fld t ''model_id'' = fld m ''model_id'') \<and>
    (\<exists>anchor roles. found_of dump ord (index_of m) kind anchor roles = Inr found) \<and>
    resolve_task_impl dump ord (index_of m) (current_task (index_of m) view) = Inr fresh \<and>
    composed (index_of m) (current_task (index_of m) view) kind found fresh"
proof -
  obtain t kind anchor roles found where eff: "effective_task (index_of m) task = Inr t"
    and kind: "check_task (index_of m) task = Inr kind" and anchor: "task_anchor t = Inr anchor"
    and roles: "requested_roles t = Inr roles" and found: "found_of dump ord (index_of m) kind anchor roles = Inr found"
    and comp: "composed (index_of m) t kind found view"
    using resolved_view [OF assms(4)] by blast
  have ok: "task_ok m task" and kd: "kind = sfld task ''kind''" using kind by (simp_all add: check_task_Inr [OF assms(1)])
  have hd: "wf_header dump m" using assms(1) by (simp add: wf_model_def Let_def)
  then obtain mid rv w where m: "find_key m ''model_id'' = Some (JStr mid)" "find_key m ''revision'' = Some rv"
    "is_nonnegative_integer rv" "get_u64 rv = Inr w"
    by (auto simp: wf_header_def has_ident_def has_text_def)
  have tt: "t = (if contains task ''model_id'' then task else oset task ''model_id'' (JStr mid))"
    using eff m(1) by (simp add: effective_task_def index_of_def split: if_splits)
  have keys: "is_object task" "only_keys task task_fields" "''model_id'' \<in> set task_fields"
    "''model_revision'' \<in> set task_fields" "contains task ''model_id'' \<longrightarrow> fld task ''model_id'' = fld m ''model_id''"
    using ok by (simp_all add: task_ok_def only_keys_def task_fields_def)
  have tk: "is_object t" "only_keys t task_fields" "\<And>k. k \<noteq> ''model_id'' \<Longrightarrow> find_key t k = find_key task k"
    "contains t ''model_id'' \<longrightarrow> fld t ''model_id'' = fld m ''model_id''"
  proof -
    show "is_object t" using keys(1) by (simp add: tt)
    show "only_keys t task_fields" using keys(2,3) by (simp add: tt only_keys_def)
    show "\<And>k. k \<noteq> ''model_id'' \<Longrightarrow> find_key t k = find_key task k" by (simp add: tt)
    show "contains t ''model_id'' \<longrightarrow> fld t ''model_id'' = fld m ''model_id''"
      using keys(5) fld_eq [OF m(1)] fld_eq [of "oset task ''model_id'' (JStr mid)" "''model_id''" "JStr mid"] by (simp add: tt)
  qed
  let ?new = "current_task (index_of m) view"
  have new: "?new = oset (oset t ''model_id'' (JStr mid)) ''model_revision'' rv"
    using comp m(1,2) by (simp add: current_task_def composed_def index_of_def sfld_eq fld_eq)
  have nk: "find_key ?new k = find_key task k" if "k \<noteq> ''model_id''" "k \<noteq> ''model_revision''" for k
    using that tk(3) by (simp add: new)
  have nok: "task_ok m ?new" unfolding new by (rule renewed_task_ok [OF ok m(1-3) tk(2,3)])
  have nt: "find_key ?new k = find_key t k" if "k \<noteq> ''model_id''" "k \<noteq> ''model_revision''" for k
    using that by (simp add: new)
  have same: "roles_ok ?new \<longleftrightarrow> roles_ok task" "client_ok ?new \<longleftrightarrow> client_ok task" "sfld ?new ''kind'' = kind"
    using kd nk by (simp_all add: roles_ok_def client_ok_def sfld_def fld_def)
  have "roles_ok t" "roles = task_roles t" using roles by (simp_all add: requested_roles_Inr)
  then have nroles: "requested_roles ?new = Inr roles"
    using nt by (simp add: requested_roles_Inr roles_ok_def task_roles_def fld_def)
  have nanchor: "task_anchor ?new = Inr anchor"
    using anchor nt by (auto simp: task_anchor_def contains_def split: if_splits)
  have ix: "index_model dump m = Inr (index_of m)" using assms(1) by (simp add: index_model_Inr)
  have "resolve_task dump ord m task = Inr view" using assms(4) by (simp add: resolve_task_def ix)
  then have "roles_ok task" "client_ok task" using resolve_task_accepts [OF assms(1-3), of task] by blast+
  with nok same obtain fresh where "resolve_task dump ord m ?new = Inr fresh"
    using resolve_task_accepts [OF assms(1-3), of ?new] by blast
  then have fresh: "resolve_task_impl dump ord (index_of m) ?new = Inr fresh" by (simp add: resolve_task_def ix)
  have neff: "effective_task (index_of m) ?new = Inr ?new" by (simp add: effective_task_def new)
  from resolved_view [OF fresh] obtain kind' anchor' roles' found' where
    "check_task (index_of m) ?new = Inr kind'" "task_anchor ?new = Inr anchor'" "requested_roles ?new = Inr roles'"
    "found_of dump ord (index_of m) kind' anchor' roles' = Inr found'"
    "composed (index_of m) ?new kind' found' fresh"
    using neff by auto
  moreover from this(1) have "kind' = kind" using same(3) by (simp add: check_task_Inr [OF assms(1)])
  ultimately have "composed (index_of m) ?new kind found fresh"
    using nanchor nroles found by simp
  with comp tk(1,4) found fresh show ?thesis by blast
qed

text \<open>What a composed view holds, and that reconciling finds nothing wrong with it.\<close>

definition found_issues :: "string \<Rightarrow> (json \<times> json) list \<Rightarrow> json list" where
  "found_issues kind found = (if found = [] then [missing_of kind] else [])"

lemma composed_parts:
  assumes "composed ix t kind found view"
  shows "is_object view" "find_key view ''task'' = Some t" "find_key view ''changes'' = None"
    "find_key view ''components'' = Some (JArr (map fst found))"
    "find_key view ''dependencies'' = Some (JArr (map snd found))"
    "find_key view ''issues'' = Some (JArr (found_issues kind found))"
    "find_key view ''status'' = Some (JStr (if found = [] then ''needs-review'' else ''ready''))"
    "elements_of (fld view ''components'') = map fst found" "elements_of (fld view ''dependencies'') = map snd found"
    "elements_of (fld view ''issues'') = found_issues kind found" "fld view ''issues'' = JArr (found_issues kind found)"
    "fld view ''changes'' = JNull" "fld view ''task'' = t"
proof -
  show v: "is_object view" "find_key view ''task'' = Some t" "find_key view ''changes'' = None"
    "find_key view ''components'' = Some (JArr (map fst found))"
    "find_key view ''dependencies'' = Some (JArr (map snd found))"
    "find_key view ''issues'' = Some (JArr (found_issues kind found))"
    "find_key view ''status'' = Some (JStr (if found = [] then ''needs-review'' else ''ready''))"
    using assms by (simp_all add: composed_def found_issues_def)
  show "elements_of (fld view ''components'') = map fst found" "elements_of (fld view ''dependencies'') = map snd found"
    "elements_of (fld view ''issues'') = found_issues kind found" "fld view ''issues'' = JArr (found_issues kind found)"
    "fld view ''changes'' = JNull" "fld view ''task'' = t"
    using v by (simp_all add: fld_eq) (simp add: fld_def)
qed

lemma composed_checks:
  assumes comp: "composed (index_of m) t kind found view" and wf: "wf_model dump m" and len: "length found \<le> 2048"
    and t: "is_object t" "contains t ''model_id'' \<longrightarrow> fld t ''model_id'' = fld m ''model_id''"
  shows "check_view (index_of m) view = Inr ()"
proof -
  note v = composed_parts [OF comp]
  have mid: "fld m ''model_id'' = JStr (sfld m ''model_id'')"
    using wf by (auto simp: wf_model_def Let_def wf_header_def has_ident_def has_text_def fld_def)
  have "find_key view ''model_id'' = Some (JStr (sfld m ''model_id''))"
    using comp mid by (simp add: composed_def index_of_def)
  then have "fld view ''model_id'' = JStr (sfld m ''model_id'')" by (rule fld_eq)
  moreover have "\<not> array_member_bad view k" if "k \<in> {''components'', ''dependencies'', ''issues'', ''changes''}" for k
    using that v(3-6) len by (auto simp: array_member_bad_def contains_def fld_eq limits found_issues_def split: if_splits)
  moreover have "\<not> (contains t ''model_id'' \<and> fld t ''model_id'' \<noteq> JStr (sfld m ''model_id''))" using t(2) mid by simp
  ultimately show ?thesis
    using v(1,2,4) t(1) by (simp add: check_view_def contains_def v(13) index_of_def del: not_None_eq)
qed

lemma composed_quiet:
  assumes comp: "composed ix t kind found view" and steady: "\<forall>p \<in> set found. steady ix p"
  shows "prior_conflict view = Inr False"
    "mk_issues (start_marks view) = found_issues kind found" "mk_changes (start_marks view) = []"
    "foldl (\<lambda>is i. add_once i is) (mk_issues (start_marks view)) (found_issues kind found) = mk_issues (start_marks view)"
    "reconciled_status view (start_marks view) False = Inr (if found = [] then ''needs-review'' else ''ready'')"
proof -
  note v = composed_parts [OF comp]
  have plain: "emap in_conflict (map fst found) = Inr (map (\<lambda>_. False) (map fst found))"
  proof (rule emap_pure)
    fix c assume "c \<in> set (map fst found)"
    then obtain k where "plain_component c k" using steady by (fastforce simp: steady_def)
    with plain_facts(5) show "in_conflict c = Inr False" by (simp add: in_conflict_def)
  qed
  then show "prior_conflict view = Inr False"
    using v(1,7) by (simp add: prior_conflict_def v(8,12) in_conflict_def value_string_def list_ex_iff del: ebind_eq_Inr)
  show start: "mk_issues (start_marks view) = found_issues kind found" "mk_changes (start_marks view) = []"
    by (simp_all add: start_marks_def v)
  show "foldl (\<lambda>is i. add_once i is) (mk_issues (start_marks view)) (found_issues kind found) = mk_issues (start_marks view)"
    by (simp add: start found_issues_def add_once_def missing_of_def issue_def jeq_refl no_nan_jobj)
  show "reconciled_status view (start_marks view) False = Inr (if found = [] then ''needs-review'' else ''ready'')"
    using start_no_marks [of view] v(1,7) start
    by (simp add: reconciled_status_def no_marks_def value_string_def found_issues_def)
qed


section \<open>Examples\<close>

lemma demo_model_no_nan: "no_nan demo_model"
  by (simp add: demo_model_def demo_asset_def demo_tag_def demo_alarm_def)


text \<open>A view of a tag that the model does not declare.\<close>

definition lost_component :: json where
  "lost_component = JObj [(''id'', JStr ''gone''), (''tag_id'', JStr ''gone'')]"

definition lost_task :: json where
  "lost_task = JObj [(''kind'', JStr ''overview''), (''measurement_roles'', JArr [JStr ''flow'']),
     (''model_revision'', JUInt 1), (''original_request'', JStr ''show'')]"

definition lost_view :: json where
  "lost_view = JObj [(''components'', JArr [lost_component]), (''dependencies'', JArr [JObj [(''tag_id'', JStr ''gone'')]]),
     (''task'', lost_task)]"

lemmas lost_defs = lost_view_def lost_component_def fld_def sfld_def has_string_def contains_def

lemma lost_marks:
  "find_marks dump rev (index_of demo_model) lost_view =
     Inr (mark_removed_tag ''gone'' (start_marks lost_view))"
  by (simp add: find_marks_def old_dependencies_def file_dependency_def lost_defs reconcile_tag_def index_of_def
      keyed_def decls_def demo_model_def demo_tag_def reconcile_relationship_def)

lemma lost_task_now:
  "current_task (index_of demo_model) lost_view =
     JObj [(''kind'', JStr ''overview''), (''measurement_roles'', JArr [JStr ''flow'']), (''model_id'', JStr ''m''),
       (''model_revision'', JUInt 1), (''original_request'', JStr ''show'')]" (is "_ = ?new")
  by (simp add: current_task_def lost_view_def lost_task_def index_of_def demo_model_def fld_def sfld_def oset_def)

lemma lost_fresh:
  "\<exists>fresh. resolve_task_impl (\<lambda>_. Inr ''x'') rev (index_of demo_model)
      (current_task (index_of demo_model) lost_view) = Inr fresh \<and>
    elements_of (fld fresh ''components'') = [] \<and> elements_of (fld fresh ''dependencies'') = []"
proof -
  let ?t = "current_task (index_of demo_model) lost_view"
  have "task_ok demo_model ?t" "roles_ok ?t" "client_ok ?t"
    unfolding lost_task_now
    by (simp_all add: task_ok_def demo_model_def only_keys_def task_fields_def text_upto_def
        sfld_def fld_def contains_def is_nonnegative_integer_def limits roles_ok_def client_ok_def)
  then obtain fresh where "resolve_task (\<lambda>_. Inr ''x'') rev demo_model ?t = Inr fresh"
    using resolve_task_accepts [OF demo_model_wf reorders_rev demo_dumps, of ?t] by blast
  then have f: "resolve_task_impl (\<lambda>_. Inr ''x'') rev (index_of demo_model) ?t = Inr fresh"
    by (simp add: resolve_task_def demo_model_index)
  from resolved_view [OF f] obtain t kind anchor roles found where
    t: "effective_task (index_of demo_model) ?t = Inr t" "check_task (index_of demo_model) ?t = Inr kind"
      "requested_roles t = Inr roles"
    and found: "found_of (\<lambda>_. Inr ''x'') rev (index_of demo_model) kind anchor roles = Inr found"
    and comp: "composed (index_of demo_model) t kind found fresh" by blast
  have tt: "t = ?t" using t(1) by (simp add: effective_task_def lost_task_now contains_def)
  have "kind = ''overview''"
    using t(2) check_task_Inr [OF demo_model_wf] by (simp add: lost_task_now sfld_def fld_def)
  moreover have "roles = [''flow'']"
    using t(3) by (simp add: tt requested_roles_Inr task_roles_def lost_task_now fld_def)
  moreover have "asset_selection demo_model [''flow''] a = []" for a
    by (simp add: asset_selection_def by_id_def role_selected_def decls_def demo_model_def demo_tag_def sfld_def fld_def)
  ultimately have "found = []"
    using found by (auto simp: found_of_def overview_tags_eq [OF demo_model_wf reorders_rev] emap_pure)
  with comp f show ?thesis by (auto simp: composed_def fld_eq)
qed

lemma lost_reconciles: "\<exists>r. reconcile_view (\<lambda>_. Inr ''x'') rev demo_model lost_view = Inr r"
proof -
  obtain fresh where f: "resolve_task_impl (\<lambda>_. Inr ''x'') rev (index_of demo_model)
      (current_task (index_of demo_model) lost_view) = Inr fresh"
    "elements_of (fld fresh ''components'') = []" "elements_of (fld fresh ''dependencies'') = []"
    using lost_fresh by blast
  have "check_view (index_of demo_model) lost_view = Inr ()"
    by (simp add: check_view_def array_member_bad_def lost_defs lost_task_def limits)
  moreover have "\<exists>cs. merge_components (mark_removed_tag ''gone'' (start_marks lost_view)) [] [lost_component] = Inr cs"
    by (simp add: merge_components_def merge_component_def Let_def bound_to_def value_string_def lost_defs limits
        mark_removed_tag_def add_issue_def add_change_def blocked_def start_marks_def)
  moreover have "\<exists>ds. merge_dependencies (mark_removed_tag ''gone'' (start_marks lost_view)) []
      [JObj [(''tag_id'', JStr ''gone'')]] = Inr ds"
    by (simp add: merge_dependencies_def merge_dependency_def value_string_def Let_def has_string_def contains_def fld_def sfld_def
        mark_removed_tag_def add_issue_def add_change_def start_marks_def)
  moreover have "prior_conflict lost_view = Inr False"
    by (simp add: prior_conflict_def in_conflict_def value_string_def lost_defs)
  moreover have "elements_of (fld lost_view ''components'') = [lost_component]"
    "elements_of (fld lost_view ''dependencies'') = [JObj [(''tag_id'', JStr ''gone'')]]" "contains lost_view ''dependencies''"
    by (simp_all add: lost_view_def fld_def contains_def)
  moreover have "\<exists>s. reconciled_status lost_view mk b = Inr s" for mk b
    by (simp add: reconciled_status_def value_string_def lost_view_def)
  ultimately show ?thesis
    using f by (simp add: reconcile_view_def reconcile_view_impl_def demo_model_index lost_marks Let_def) blast
qed


end
