(* ===== verification/View_Reading.thy ===== *)
theory View_Reading
  imports Reconciliation
begin

text \<open>
  Which views reconciliation can read. The fields it fetches with \<open>value(key, "")\<close> must be texts
  where they are present; then the only exception it throws on an accepted model is a
  \<open>DomainError\<close>, the one the runtime catches when the model is replaced. Composed views can be
  read, and a reconciled view can be read again.
\<close>

section \<open>Readable values\<close>

definition text_or_absent :: "json \<Rightarrow> string \<Rightarrow> bool" where
  "text_or_absent j k \<longleftrightarrow> find_key j k = None \<or> (\<exists>s. find_key j k = Some (JStr s))"

definition readable :: "string list \<Rightarrow> json \<Rightarrow> bool" where
  "readable ks j \<longleftrightarrow> is_object j \<and> (\<forall>k \<in> set ks. text_or_absent j k)"

definition component_texts :: "string list" where
  "component_texts = [''id'', ''tag_id'', ''alarm_id'', ''relationship_id'', ''relationship_kind'',
     ''relationship_from'', ''relationship_to'', ''status'']"

definition dependency_texts :: "string list" where
  "dependency_texts = [''tag_id'', ''alarm_id'', ''fingerprint'', ''alarm_owner'', ''alarm_name'', ''operator'',
     ''severity'']"

definition readable_view :: "json \<Rightarrow> bool" where
  "readable_view v \<longleftrightarrow> readable [''status''] v \<and>
     (\<forall>c \<in> set (elements_of (fld v ''components'')). readable component_texts c) \<and>
     (\<forall>d \<in> set (elements_of (fld v ''dependencies'')). readable dependency_texts d) \<and>
     (\<forall>c \<in> set (elements_of (fld v ''changes'')). readable [''kind''] c)"

definition domain_error :: "exn \<Rightarrow> bool" where
  "domain_error e \<longleftrightarrow> (\<exists>code details. e = DomainError code details)"

lemma domain_error_simps [simp]:
  "domain_error (DomainError code details)" "domain_error (invalid_task s)" "domain_error (invalid_view s)"
  "domain_error (view_mismatch s)"
  by (simp_all add: domain_error_def invalid_task_def invalid_view_def view_mismatch_def)

lemma value_string_readable:
  "readable ks j \<Longrightarrow> k \<in> set ks \<Longrightarrow> value_string j k [] = Inr (sfld j k)"
  by (fastforce simp: readable_def text_or_absent_def value_string_def sfld_def fld_def)

lemma readable_text: "readable ks j \<Longrightarrow> k \<in> set ks \<Longrightarrow> text_or_absent j k"
  by (simp add: readable_def)

lemma readable_oset: "readable ks j \<Longrightarrow> (k \<in> set ks \<Longrightarrow> \<exists>s. v = JStr s) \<Longrightarrow> readable ks (oset j k v)"
  by (auto simp: readable_def text_or_absent_def)

section \<open>Loops that stay in an invariant, and outcomes\<close>

definition gives :: "('a \<Rightarrow> bool) \<Rightarrow> 'a res \<Rightarrow> bool" where
  "gives P r \<longleftrightarrow> (\<exists>x. r = Inr x \<and> P x)"

lemma gives_simps [simp]: "gives P (Inr x) \<longleftrightarrow> P x" "\<not> gives P (Inl e)"
  by (simp_all add: gives_def)

lemma gives_if [simp]: "gives P (if b then x else y) \<longleftrightarrow> (b \<longrightarrow> gives P x) \<and> (\<not> b \<longrightarrow> gives P y)"
  by simp

lemma gives_bind: "gives P m \<Longrightarrow> (\<And>x. P x \<Longrightarrow> gives Q (f x)) \<Longrightarrow> gives Q (ebind m f)"
  by (auto simp: gives_def)

lemma gives_mono: "gives P r \<Longrightarrow> (\<And>x. P x \<Longrightarrow> Q x) \<Longrightarrow> gives Q r"
  by (auto simp: gives_def)

lemma givesE: "gives P r \<Longrightarrow> (\<And>x. r = Inr x \<Longrightarrow> P x \<Longrightarrow> thesis) \<Longrightarrow> thesis"
  by (auto simp: gives_def)

lemma gives_efold:
  assumes "\<And>s x. x \<in> set xs \<Longrightarrow> P s \<Longrightarrow> gives P (f s x)" and "P s"
  shows "gives P (efold f s xs)"
  using assms
proof (induction xs arbitrary: s)
  case (Cons x xs)
  from Cons.prems have "gives P (f s x)" by simp
  moreover have "gives P (efold f t xs)" if "P t" for t by (rule Cons.IH) (use Cons.prems(1) that in auto)
  ultimately show ?case by (auto intro: gives_bind)
qed simp

lemma gives_emap:
  assumes "\<And>x. x \<in> set xs \<Longrightarrow> gives (\<lambda>_. True) (f x)"
  shows "gives (\<lambda>_. True) (emap f xs)"
  using assms by (induction xs) (auto intro!: gives_bind [where P = "\<lambda>_. True"])

text \<open>A result with a property, or an exception that only reports a domain error.\<close>

definition ends_in :: "('a \<Rightarrow> bool) \<Rightarrow> 'a res \<Rightarrow> bool" where
  "ends_in P r \<longleftrightarrow> (case r of Inr x \<Rightarrow> P x | Inl e \<Rightarrow> domain_error e)"

lemma ends_in_simps [simp]: "ends_in P (Inr x) \<longleftrightarrow> P x" "ends_in P (Inl e) \<longleftrightarrow> domain_error e"
  by (simp_all add: ends_in_def)

lemma gives_ends: "gives P r \<Longrightarrow> ends_in P r"
  by (auto simp: gives_def)

lemma ends_in_bind:
  "ends_in P m \<Longrightarrow> (\<And>x. m = Inr x \<Longrightarrow> P x \<Longrightarrow> ends_in Q (f x)) \<Longrightarrow> ends_in Q (ebind m f)"
  by (cases m) auto

lemma ends_in_then: "ends_in P m \<Longrightarrow> (m = Inr () \<Longrightarrow> ends_in Q k) \<Longrightarrow> ends_in Q (ethen m k)"
  by (cases m) auto

lemma ends_in_echeck: "(\<And>x. x \<in> set xs \<Longrightarrow> ends_in (\<lambda>_. True) (f x)) \<Longrightarrow> ends_in (\<lambda>_. True) (echeck f xs)"
  by (induction xs) (auto intro!: ends_in_bind [where P = "\<lambda>_. True"])

lemma ends_in_emap: "(\<And>x. x \<in> set xs \<Longrightarrow> ends_in (\<lambda>_. True) (f x)) \<Longrightarrow> ends_in (\<lambda>_. True) (emap f xs)"
proof (induction xs)
  case (Cons x xs)
  have "ends_in (\<lambda>_. True) (f x)" "ends_in (\<lambda>_. True) (emap f xs)" using Cons by simp_all
  then show ?case by (cases "f x"; cases "emap f xs") auto
qed simp

lemma ends_in_throw [simp]: "ends_in P (throw_if b e) \<longleftrightarrow> (if b then domain_error e else P ())"
  by (simp add: throw_if_def)

lemma ends_in_mono: "ends_in P r \<Longrightarrow> (\<And>x. r = Inr x \<Longrightarrow> P x \<Longrightarrow> Q x) \<Longrightarrow> ends_in Q r"
  by (cases r) auto

lemma ends_in_if [simp]: "ends_in P (if b then x else y) \<longleftrightarrow> (b \<longrightarrow> ends_in P x) \<and> (\<not> b \<longrightarrow> ends_in P y)"
  by simp

lemma json_at_contained: "contains j k \<Longrightarrow> json_at j k = Inr (fld j k)"
  by (auto simp: contains_def fld_def)

section \<open>The composer throws domain errors only\<close>

lemma task_string_ends: "ends_in (\<lambda>_. True) (task_string j k w mx)"
  by (auto simp: task_string_def Let_def json_at_contained is_string_iff)

lemma nonnegative_u64: "is_nonnegative_integer v \<Longrightarrow> \<exists>w. get_u64 v = Inr w"
  by (cases v) (auto simp: is_nonnegative_integer_def is_integer_def)

lemma dimension_ends: "ends_in (\<lambda>_. True) (dimension c n lo hi)"
  using nonnegative_u64 [of "fld c n"] by (auto simp: dimension_def json_at_contained)

lemma client_choice_ends: "ends_in (\<lambda>_. True) (client_choice c key ok msg target l)"
  by (auto simp: client_choice_def json_at_contained)

lemma client_layout_ends: "ends_in (\<lambda>_. True) (client_layout c)"
proof -
  have "ends_in (\<lambda>_. True) (check_client c)"
    by (auto simp: check_client_def intro!: ends_in_echeck)
  moreover have "ends_in (\<lambda>_. True) (layout_density c w l)" for w l
    by (simp add: layout_density_def client_choice_ends)
  ultimately show ?thesis
    unfolding client_layout_def
    by (intro ends_in_then [where P = "\<lambda>_. True"] ends_in_bind [where P = "\<lambda>_. True"])
       (simp_all add: dimension_ends client_choice_ends)
qed

lemma responsive_layout_ends: "ends_in (\<lambda>_. True) (responsive_layout t)"
  by (auto simp: responsive_layout_def json_at_contained client_layout_ends)

lemma requested_roles_ends: "ends_in (\<lambda>_. True) (requested_roles t)"
proof -
  have "ends_in (\<lambda>_. True) (role_text r)" for r by (auto simp: role_text_def is_string_iff)
  then show ?thesis
    by (auto simp: requested_roles_def json_at_contained intro!: ends_in_emap ends_in_bind [where P = "\<lambda>_. True"])
qed

lemma check_task_ends:
  assumes "wf_model dump m"
  shows "ends_in (\<lambda>_. True) (check_task (index_of m) task)"
proof -
  have at: "json_at (ix_model (index_of m)) ''revision'' = Inr (fld m ''revision'')"
    "json_at (ix_model (index_of m)) ''model_id'' = Inr (fld m ''model_id'')"
    using assms by (auto simp: index_of_def wf_model_def Let_def wf_header_def has_ident_def has_text_def fld_def)
  have keys: "ends_in (\<lambda>_. True) (echeck (\<lambda>(k, v). throw_if (k \<notin> set task_fields)
      (invalid_task (''task contains unsupported field '' @ quoted k))) (json_items task))"
    by (rule ends_in_echeck) auto
  show ?thesis
    unfolding check_task_def at ebind.simps ends_in_if
    by (intro impI conjI ends_in_then [OF keys] ends_in_bind [OF task_string_ends])
       (simp_all add: ends_in_bind [OF task_string_ends])
qed

lemma composer_ends:
  assumes wf: "wf_model dump m" and "reorders ord" and "dumps_all dump"
  shows "ends_in (\<lambda>_. True) (resolve_task_impl dump ord (index_of m) task)"
proof (cases "task_ok m task")
  case False
  with check_task_ends [OF wf, of task] show ?thesis
    by (cases "check_task (index_of m) task") (auto simp: resolve_task_impl_def check_task_Inr [OF wf])
next
  case True
  from resolve_task_steps [OF wf True] obtain t where
    t: "effective_task (index_of m) task = Inr t" "task_anchor t = Inr (sfld task ''anchor_asset_id'')"
    and an: "sfld task ''anchor_asset_id'' \<noteq> [] \<longrightarrow>
      sfld task ''anchor_asset_id'' \<in> (\<lambda>a. sfld a ''id'') ` set (decls m ''assets'')" by metis
  have "check_task (index_of m) task = Inr (sfld task ''kind'')" using True by (simp add: check_task_Inr [OF wf])
  moreover have "ends_in (\<lambda>_. True) (resolve_overview dump ord (index_of m) t)"
    "ends_in (\<lambda>_. True) (resolve_alarms dump ord (index_of m) t)"
  proof -
    obtain v1 t1 v2 t2 b1 b2 where
      "view_name (index_of m) (sfld task ''anchor_asset_id'') ''overview'' ''Overview'' = Inr (v1, t1)"
      "view_name (index_of m) (sfld task ''anchor_asset_id'') ''alarms'' ''Alarms'' = Inr (v2, t2)"
      "base_view (index_of m) t v1 t1 = Inr b1" "base_view (index_of m) t v2 t2 = Inr b2"
      using view_name_total [OF wf an] base_view_total [OF wf] by metis
    note start = this t(2)
    note total = resolve_overview_total(1) [OF assms t(2) an] resolve_alarms_total(1) [OF assms t(2) an]
    have "ends_in (\<lambda>_. True) (resolve_overview dump ord (index_of m) t) \<and>
        ends_in (\<lambda>_. True) (resolve_alarms dump ord (index_of m) t)"
    proof (cases "requested_roles t")
      case (Inl e)
      with requested_roles_ends [of t] start show ?thesis by (simp add: resolve_overview_def resolve_alarms_def)
    next
      case (Inr rs)
      with total show ?thesis by (auto simp: requested_roles_Inr)
    qed
    then show "ends_in (\<lambda>_. True) (resolve_overview dump ord (index_of m) t)"
      "ends_in (\<lambda>_. True) (resolve_alarms dump ord (index_of m) t)" by simp_all
  qed
  ultimately show ?thesis
    unfolding resolve_task_impl_def
    by (auto simp: t intro!: ends_in_bind [where P = "\<lambda>_. True"] responsive_layout_ends)
qed

section \<open>Composed views can be read\<close>

lemma wf_alarm_texts:
  "wf_alarm assets tags a \<Longrightarrow> k \<in> {''id'', ''asset_id'', ''tag_id'', ''name'', ''operator'', ''severity''} \<Longrightarrow>
     find_key a k = Some (JStr (sfld a k))"
  by (auto simp: wf_alarm_def has_ident_def has_text_def)

lemma tag_pair_readable:
  assumes "overview_component dump ix asset t = Inr (c, d)" and wf: "wf_tag assets t"
  shows "readable component_texts c \<and> readable dependency_texts d"
proof -
  from assms(1) obtain kind label where c: "component_for dump t kind label ''Declared tag in machine overview'' = Inr c"
    and d: "dependency_for dump t = Inr d"
    by (auto simp: overview_component_def)
  have "readable component_texts c"
    using c wf_tag_fields(8) [OF wf]
    by (auto simp: component_for_def copy_members_total wf_tag_present [OF wf] readable_def component_texts_def
        text_or_absent_def)
  moreover have "readable dependency_texts d"
    using dependency_for_Inr [OF d wf] wf_tag_fields(8) [OF wf]
    by (auto simp: readable_def dependency_texts_def text_or_absent_def)
  ultimately show ?thesis ..
qed

lemma alarm_pair_readable:
  assumes c: "alarm_component_for dump a t = Inr c" and d: "dependency_for_alarm dump a t = Inr d"
    and wft: "wf_tag assets t" and wf: "wf_alarm assets tags a"
  shows "readable component_texts c \<and> readable dependency_texts d"
proof -
  note at = wf_alarm_texts [OF wf, THEN fld_eq]
  have texts: "fld a ''id'' = JStr (sfld a ''id'')" "fld a ''tag_id'' = JStr (sfld a ''tag_id'')"
    "fld a ''asset_id'' = JStr (sfld a ''asset_id'')" "fld a ''name'' = JStr (sfld a ''name'')"
    "fld a ''operator'' = JStr (sfld a ''operator'')" "fld a ''severity'' = JStr (sfld a ''severity'')"
    by (rule at, simp)+
  have ck: "is_object c" "find_key c ''id'' = Some (fld a ''id'')" "find_key c ''tag_id'' = Some (fld a ''tag_id'')"
    "find_key c ''alarm_id'' = Some (fld a ''id'')" "find_key c ''relationship_id'' = None"
    "find_key c ''relationship_kind'' = None" "find_key c ''relationship_from'' = None"
    "find_key c ''relationship_to'' = None" "find_key c ''status'' = None"
    using c by (auto simp: alarm_component_for_def copy_members_total wf_alarm_present [OF wf] wf_tag_present [OF wft])
  have "readable component_texts c"
    unfolding readable_def component_texts_def text_or_absent_def by (simp add: ck texts)
  moreover obtain d0 s fp where d0: "dependency_for dump t = Inr d0"
    and dd: "d = fold (\<lambda>(k, v) j. oset j k v) ([(''alarm_id'', fld a ''id''), (''alarm_owner'', fld a ''asset_id''),
         (''alarm_name'', fld a ''name''), (''operator'', fld a ''operator''), (''threshold'', fld a ''threshold''),
         (''severity'', fld a ''severity'')] @ [(''alarm_definition'', s), (''alarm_fingerprint'', JStr fp)]) d0"
    using d by (auto simp: dependency_for_alarm_def copy_members_total wf_alarm_present [OF wf])
  have d0k: "find_key d0 ''tag_id'' = Some (JStr (sfld t ''id''))" "\<exists>f. find_key d0 ''fingerprint'' = Some (JStr f)"
    using dependency_for_Inr [OF d0 wft] wf_tag_fields(8) [OF wft] by auto
  have "find_key d ''alarm_id'' = Some (fld a ''id'')" "find_key d ''tag_id'' = find_key d0 ''tag_id''"
    "find_key d ''fingerprint'' = find_key d0 ''fingerprint''" "find_key d ''alarm_owner'' = Some (fld a ''asset_id'')"
    "find_key d ''alarm_name'' = Some (fld a ''name'')" "find_key d ''operator'' = Some (fld a ''operator'')"
    "find_key d ''severity'' = Some (fld a ''severity'')" "is_object d"
    by (simp_all add: dd)
  with d0k texts have "readable dependency_texts d"
    unfolding readable_def dependency_texts_def text_or_absent_def by simp
  ultimately show ?thesis by blast
qed

lemma found_readable:
  assumes "found_of dump ord (index_of m) kind anchor roles = Inr found" and "wf_model dump m" and "reorders ord"
    and "p \<in> set found"
  shows "readable component_texts (fst p) \<and> readable dependency_texts (snd p)"
  using found_in_model(2) [OF assms] wf_model_decls(1,2) [OF assms(2)]
  by (cases p) (auto dest: tag_pair_readable alarm_pair_readable)

lemma composed_readable:
  assumes "composed (index_of m) t kind found view"
    and "\<And>p. p \<in> set found \<Longrightarrow> readable component_texts (fst p) \<and> readable dependency_texts (snd p)"
  shows "readable_view view"
  using assms by (auto simp: composed_def readable_view_def readable_def text_or_absent_def fld_def)

lemma resolved_readable:
  assumes "wf_model dump m" and "reorders ord" and "resolve_task_impl dump ord (index_of m) task = Inr view"
  shows "readable_view view"
proof -
  from resolved_view [OF assms(3)] obtain t kind anchor roles found
    where f: "found_of dump ord (index_of m) kind anchor roles = Inr found" and c: "composed (index_of m) t kind found view"
    by blast
  show ?thesis by (rule composed_readable [OF c found_readable [OF f assms(1,2)]])
qed

section \<open>Finding the marks\<close>

definition marks_readable :: "marks \<Rightarrow> bool" where
  "marks_readable mk \<longleftrightarrow> (\<forall>c \<in> set (mk_changes mk). readable [''kind''] c)"

lemma set_add_once: "set (add_once x xs) \<subseteq> insert x (set xs)"
  by (auto simp: add_once_def)

lemma marks_readable_simps [simp]:
  "marks_readable (add_issue code msg mk) = marks_readable mk"
  "marks_readable (mk\<lparr>mk_conflicted_tags := ts\<rparr>) = marks_readable mk"
  "marks_readable (mk\<lparr>mk_removed_tags := ts\<rparr>) = marks_readable mk"
  "marks_readable (mk\<lparr>mk_conflicted_alarms := ts\<rparr>) = marks_readable mk"
  "marks_readable (mk\<lparr>mk_removed_alarms := ts\<rparr>) = marks_readable mk"
  "marks_readable (mk\<lparr>mk_changed_relationships := ts\<rparr>) = marks_readable mk"
  "marks_readable (mk\<lparr>mk_removed_relationships := ts\<rparr>) = marks_readable mk"
  "marks_readable (mk\<lparr>mk_issues := is\<rparr>) = marks_readable mk"
  by (simp_all add: marks_readable_def add_issue_def)

lemma marks_readable_change:
  "marks_readable mk \<Longrightarrow> readable [''kind''] c \<Longrightarrow> marks_readable (add_change c mk)"
  using set_add_once [of c "mk_changes mk"] by (auto simp: marks_readable_def add_change_def)

lemma readable_change [simp]: "readable [''kind''] (jobj ((''kind'', JStr k) # kvs))"
  by (simp add: readable_def text_or_absent_def)

lemma readable_value:
  "readable ks j \<Longrightarrow> k \<in> set ks \<Longrightarrow> gives (\<lambda>s. s = sfld j k) (value_string j k [])"
  by (simp add: value_string_readable)

lemma reconcile_tag_keeps:
  assumes "wf_model dump m" and "dumps_all dump" and "readable dependency_texts dep" and "marks_readable mk"
  shows "gives marks_readable (reconcile_tag dump (index_of m) mk (k, dep))"
proof (cases "map_of (ix_tags (index_of m)) k")
  case None
  with assms(4) show ?thesis
    by (simp add: reconcile_tag_def mark_removed_tag_def marks_readable_change)
next
  case (Some t)
  then have wf: "wf_tag (ix_assets (index_of m)) t" using wf_model_facts(7) [OF assms(1)] by blast
  have b: "gives (\<lambda>_. True) (binding_differs dep t)"
    by (simp add: binding_differs_def tag_snapshot_eq [OF wf] Let_def)
  have "gives (\<lambda>_. True) (tag_fingerprint dump t)" using tag_fingerprint_total [OF wf assms(2)] by auto
  moreover have "gives (\<lambda>s. s = sfld dep ''fingerprint'') (value_string dep ''fingerprint'' [])"
    by (rule readable_value [OF assms(3)]) (simp add: dependency_texts_def)
  ultimately have "gives marks_readable (mark_conflicted_tag dump k dep t mk)"
    unfolding mark_conflicted_tag_def
    by (elim gives_bind) (use assms(4) in \<open>simp add: conflict_change_def marks_readable_change\<close>)
  with Some b assms(4) show ?thesis by (auto simp: reconcile_tag_def intro!: gives_bind)
qed

lemma gives_any_differs: "\<forall>t \<in> set ts. gives (\<lambda>_. True) t \<Longrightarrow> gives (\<lambda>_. True) (any_differs ts)"
  by (induction ts) (auto intro!: gives_bind [where P = "\<lambda>_. True"])

lemma gives_text_differs: "readable ks j \<Longrightarrow> k \<in> set ks \<Longrightarrow> gives (\<lambda>_. True) (text_differs j k now)"
  unfolding text_differs_def by (erule (1) gives_bind [OF readable_value]) simp

lemma alarm_differs_total:
  assumes "wf_alarm assets tags a" and "readable dependency_texts dep"
  shows "gives (\<lambda>_. True) (alarm_differs dep a)"
proof -
  have "gives (\<lambda>_. True) (definition_differs dep a)"
    unfolding definition_differs_def alarm_snapshot_eq [OF assms(1)] ebind.simps gives_if
    by (intro conjI impI gives_any_differs) (simp_all add: gives_text_differs [OF assms(2)] dependency_texts_def)
  then show ?thesis unfolding alarm_differs_def by (rule gives_bind) simp
qed

lemma check_alarm_tag_keeps:
  assumes "wf_model dump m" and "marks_readable mk"
  shows "gives marks_readable (check_alarm_tag (index_of m) dep t mk)"
proof (cases "map_of (ix_tags (index_of m)) t")
  case (Some tag)
  then have wf: "wf_tag (ix_assets (index_of m)) tag" using wf_model_facts(7) [OF assms(1)] by blast
  from Some assms(2) show ?thesis
    by (simp add: check_alarm_tag_def tag_snapshot_eq [OF wf] marks_readable_change)
qed (use assms(2) in \<open>simp add: check_alarm_tag_def\<close>)

lemma reconcile_alarm_keeps:
  assumes "wf_model dump m" and "readable dependency_texts dep" and "marks_readable mk"
  shows "gives marks_readable (reconcile_alarm (index_of m) mk (k, dep))"
proof (cases "map_of (ix_alarms (index_of m)) k")
  case None
  with assms(3) show ?thesis
    by (simp add: reconcile_alarm_def mark_removed_alarm_def marks_readable_change)
next
  case (Some a)
  then have wf: "wf_alarm (ix_assets (index_of m)) (ix_tags (index_of m)) a"
    using wf_model_facts(8) [OF assms(1)] by blast
  have marked: "marks_readable (mark_conflicted_alarm k mk1)" if "marks_readable mk1" for mk1
    using that by (simp add: mark_conflicted_alarm_def marks_readable_change)
  show ?thesis
    unfolding reconcile_alarm_def prod.case Some option.case
    by (rule gives_bind [OF check_alarm_tag_keeps [OF assms(1,3)]], rule gives_bind [OF alarm_differs_total [OF wf assms(2)]])
       (simp add: marked)
qed

lemma reconcile_relationship_keeps:
  assumes "readable component_texts c" and "marks_readable mk"
  shows "gives marks_readable (reconcile_relationship index mk c)"
proof (cases "map_of (ix_relationships index) (sfld c ''relationship_id'')")
  case None
  with assms(2) show ?thesis by (simp add: reconcile_relationship_def Let_def marks_readable_change)
next
  case (Some r)
  have "gives (\<lambda>_. True) (any_differs [text_differs c ''relationship_kind'' (sfld r ''kind''),
      text_differs c ''relationship_from'' (sfld r ''from''), text_differs c ''relationship_to'' (sfld r ''to'')])"
    by (rule gives_any_differs) (simp add: gives_text_differs [OF assms(1)] component_texts_def)
  moreover have "gives marks_readable (Inr (if b then mark_relationship k mk else mk))" for b k
    using assms(2) by (simp add: mark_relationship_def marks_readable_change)
  ultimately show ?thesis
    using Some assms(2) by (simp add: reconcile_relationship_def Let_def gives_bind)
qed

lemma find_marks_keeps:
  assumes wf: "wf_model dump m" and "dumps_all dump" and ord: "reorders ord" and view: "readable_view view"
  shows "gives marks_readable (find_marks dump ord (index_of m) view)"
proof -
  have deps: "readable dependency_texts (snd p)"
    if "p \<in> set (ord (fst (old_dependencies view))) \<or> p \<in> set (ord (snd (old_dependencies view)))" for p
    using that view old_dependencies_sound [of view] by (cases p) (auto simp: reorders_set [OF ord] readable_view_def)
  have start: "marks_readable (start_marks view)"
    using view by (simp add: marks_readable_def start_marks_def readable_view_def)
  have tags: "gives marks_readable (efold (reconcile_tag dump (index_of m)) (start_marks view)
      (ord (fst (old_dependencies view))))"
    by (rule gives_efold [where P = marks_readable, OF _ start]) (metis deps reconcile_tag_keeps [OF wf assms(2)] prod.collapse)
  have alarms: "gives marks_readable (efold (reconcile_alarm (index_of m)) mk (ord (snd (old_dependencies view))))"
    if "marks_readable mk" for mk
    by (rule gives_efold [where P = marks_readable, OF _ that]) (metis deps reconcile_alarm_keeps [OF wf] prod.collapse)
  have rels: "gives marks_readable (efold (reconcile_relationship (index_of m)) mk (elements_of (fld view ''components'')))"
    if "marks_readable mk" for mk
    by (rule gives_efold [where P = marks_readable, OF _ that]) (use view in \<open>simp add: readable_view_def reconcile_relationship_keeps\<close>)
  show ?thesis
    unfolding find_marks_def Let_def by (rule gives_bind [OF tags], rule gives_bind [OF alarms], assumption, erule rels)
qed

section \<open>Merging\<close>

definition merged_readable :: "string list \<Rightarrow> json list \<times> string list \<Rightarrow> bool" where
  "merged_readable ks = (\<lambda>(merged, emitted). \<forall>c \<in> set merged. readable ks c)"

lemma readable_set_status: "readable component_texts c \<Longrightarrow> readable component_texts (set_status st why c)"
  by (simp add: set_status_def readable_oset component_texts_def)

lemma preserve_readable: "readable component_texts c \<Longrightarrow> readable component_texts (preserve_marked mk b c)"
proof -
  assume c: "readable component_texts c"
  have "readable component_texts (foldl (\<lambda>c (hit, status, reason). if hit then set_status status reason c else c) c hs)" for hs
    using c by (induction hs arbitrary: c) (auto simp: readable_set_status)
  then show ?thesis unfolding preserve_marked_def by (cases b) (simp only: prod.case)
qed

lemma gives_find_component:
  "\<forall>c \<in> set cs. readable component_texts c \<Longrightarrow> gives (\<lambda>z. \<forall>f. z = Some f \<longrightarrow> f \<in> set cs) (find_component k cs)"
proof (induction cs)
  case (Cons c cs)
  have "gives (\<lambda>s. s = sfld c ''id'') (value_string c ''id'' [])"
    by (rule readable_value [where ks = component_texts]) (use Cons.prems in simp, simp add: component_texts_def)
  moreover have "gives (\<lambda>z. \<forall>f. z = Some f \<longrightarrow> f \<in> set (c # cs)) (find_component k cs)"
    using Cons by (auto elim: gives_mono)
  ultimately show ?case by (auto intro!: gives_bind [where P = "\<lambda>s. s = sfld c ''id''"])
qed simp

lemma merge_component_keeps:
  assumes "readable component_texts c" and "merged_readable component_texts me"
    and fresh: "\<forall>c \<in> set fresh. readable component_texts c"
  shows "gives (merged_readable component_texts) (merge_component mk fresh me c)"
proof -
  obtain merged emitted where me: "me = (merged, emitted)" by (cases me)
  have v: "value_string c k [] = Inr (sfld c k)" if "k \<in> set component_texts" for k
    by (rule value_string_readable [OF assms(1) that])
  have b: "bound_to c = Inr (sfld c ''tag_id'', sfld c ''alarm_id'', sfld c ''relationship_id'')"
    by (simp add: bound_to_def v component_texts_def)
  have st: "value_string c ''status'' [] = Inr (sfld c ''status'')" by (simp add: v component_texts_def)
  have keep: "merged_readable component_texts (merged @ [c'], es)" if "readable component_texts c'" for c' es
    using that assms(2) by (simp add: merged_readable_def me)
  show ?thesis
    unfolding merge_component_def me prod.case Let_def b st ebind.simps gives_if
    using assms(1,2) fresh
    by (auto simp: me intro!: keep preserve_readable readable_set_status gives_bind [OF gives_find_component [OF fresh]]
        split: option.split)
qed

lemma add_fresh_keeps:
  assumes "readable component_texts c" and "\<forall>c \<in> set merged. readable component_texts c"
  shows "gives (\<lambda>cs. \<forall>c \<in> set cs. readable component_texts c) (add_fresh_component emitted merged c)"
  unfolding add_fresh_component_def
  by (rule gives_bind [OF readable_value [OF assms(1)]]) (use assms in \<open>simp_all add: component_texts_def\<close>)

lemma merge_components_ends:
  assumes fresh: "\<forall>c \<in> set fresh. readable component_texts c" and old: "\<forall>c \<in> set old. readable component_texts c"
  shows "ends_in (\<lambda>cs. \<forall>c \<in> set cs. readable component_texts c) (merge_components mk fresh old)"
proof -
  have "merged_readable component_texts ([], [])" by (simp add: merged_readable_def)
  then have "gives (merged_readable component_texts) (efold (merge_component mk fresh) ([], []) old)"
    by (rule gives_efold [where P = "merged_readable component_texts", rotated])
       (use old in \<open>simp add: merge_component_keeps fresh\<close>)
  then obtain ms es where ms: "efold (merge_component mk fresh) ([], []) old = Inr (ms, es)"
    "\<forall>c \<in> set ms. readable component_texts c"
    by (auto simp: merged_readable_def elim!: givesE)
  have "gives (\<lambda>cs. \<forall>c \<in> set cs. readable component_texts c) (efold (add_fresh_component es) ms fresh)"
    by (rule gives_efold [where P = "\<lambda>cs. \<forall>c \<in> set cs. readable component_texts c", OF _ ms(2)])
       (use fresh in \<open>simp add: add_fresh_keeps\<close>)
  then show ?thesis by (auto simp: merge_components_def ms(1) elim!: givesE)
qed

lemma gives_dependency_key: "readable dependency_texts d \<Longrightarrow> gives (\<lambda>_. True) (dependency_key d)"
  by (simp add: dependency_key_def value_string_readable dependency_texts_def)

lemma gives_find_dependency:
  "\<forall>d \<in> set ds. readable dependency_texts d \<Longrightarrow> gives (\<lambda>z. \<forall>f. z = Some f \<longrightarrow> f \<in> set ds) (find_dependency k ds)"
proof (induction ds)
  case (Cons d ds)
  have "gives (\<lambda>z. \<forall>f. z = Some f \<longrightarrow> f \<in> set (d # ds)) (find_dependency k ds)"
    using Cons by (auto elim: gives_mono)
  with Cons.prems show ?case by (auto intro!: gives_bind [OF gives_dependency_key])
qed simp

lemma merge_dependency_keeps:
  assumes "readable dependency_texts d" and "merged_readable dependency_texts me"
    and fresh: "\<forall>d \<in> set fresh. readable dependency_texts d"
  shows "gives (merged_readable dependency_texts) (merge_dependency mk fresh me d)"
proof -
  obtain merged emitted where me: "me = (merged, emitted)" by (cases me)
  have a: "value_string d ''alarm_id'' [] = Inr (sfld d ''alarm_id'')"
    by (rule value_string_readable [OF assms(1)]) (simp add: dependency_texts_def)
  have keep: "gives (merged_readable dependency_texts) (Inr (merged @ [d'], es))" if "readable dependency_texts d'" for d' es
    using that assms(2) by (simp add: merged_readable_def me)
  have found: "gives (merged_readable dependency_texts)
      (ebind (find_dependency key fresh) (\<lambda>found. Inr (merged @ [case found of Some f \<Rightarrow> f | None \<Rightarrow> d], es)))" for key es
    using fresh assms(1)
    by (intro gives_bind [OF gives_find_dependency [OF fresh]] keep) (auto split: option.split)
  show ?thesis
    unfolding merge_dependency_def me prod.case Let_def a ebind.simps gives_if
    using assms(1,2) by (simp add: me keep found del: gives_simps) simp
qed

lemma merge_dependencies_gives:
  assumes fresh: "\<forall>d \<in> set fresh. readable dependency_texts d" and old: "\<forall>d \<in> set old. readable dependency_texts d"
  shows "gives (\<lambda>ds. \<forall>d \<in> set ds. readable dependency_texts d) (merge_dependencies mk fresh old)"
proof -
  have "merged_readable dependency_texts ([], [])" by (simp add: merged_readable_def)
  then have "gives (merged_readable dependency_texts) (efold (merge_dependency mk fresh) ([], []) old)"
    by (rule gives_efold [where P = "merged_readable dependency_texts", rotated])
       (use old in \<open>simp add: merge_dependency_keeps fresh\<close>)
  moreover have "gives (\<lambda>ds. \<forall>d \<in> set ds. readable dependency_texts d) (efold (add_fresh_dependency es) ms fresh)"
    if "\<forall>d \<in> set ms. readable dependency_texts d" for ms es
    by (rule gives_efold [where P = "\<lambda>ds. \<forall>d \<in> set ds. readable dependency_texts d", OF _ that])
       (use fresh in \<open>auto simp: add_fresh_dependency_def intro!: gives_bind [OF gives_dependency_key]\<close>)
  ultimately show ?thesis
    unfolding merge_dependencies_def by (elim gives_bind) (auto simp: merged_readable_def)
qed

section \<open>Reconciling\<close>

lemma prior_conflict_gives:
  assumes "readable_view view"
  shows "gives (\<lambda>_. True) (prior_conflict view)"
proof -
  have "gives (\<lambda>_. True) (in_conflict j)" if "readable ks j" "''status'' \<in> set ks" for ks j
    unfolding in_conflict_def by (rule gives_bind [OF readable_value [OF that]]) simp
  note c = this
  have k: "gives (\<lambda>_. True) (conflict_kind j)" if "readable [''kind''] j" for j
    unfolding conflict_kind_def by (rule gives_bind [OF readable_value [OF that]]) simp_all
  have "''status'' \<in> set component_texts" by (simp add: component_texts_def)
  with assms c k show ?thesis
    unfolding prior_conflict_def readable_view_def
    by (intro gives_bind [where P = "\<lambda>_. True"] gives_emap) auto
qed

lemma reconcile_ends:
  assumes wf: "wf_model dump m" and ord: "reorders ord" and dump: "dumps_all dump" and view: "readable_view view"
  shows "ends_in readable_view (reconcile_view dump ord m view)"
proof -
  have ix: "index_model dump m = Inr (index_of m)" using wf by (simp add: index_model_Inr)
  have "ends_in (\<lambda>_. True) (check_view (index_of m) view)"
    unfolding check_view_def checks_def by (rule ends_in_echeck) auto
  moreover have "ends_in readable_view
    (ebind (resolve_task_impl dump ord (index_of m) (current_task (index_of m) view)) (\<lambda>fresh.
     ebind (find_marks dump ord (index_of m) view) (\<lambda>mk.
     ebind (merge_components mk (elements_of (fld fresh ''components'')) (elements_of (fld view ''components''))) (\<lambda>cs.
     ebind (if contains view ''dependencies''
            then merge_dependencies mk (elements_of (fld fresh ''dependencies'')) (elements_of (fld view ''dependencies''))
            else Inr (elements_of (fld fresh ''dependencies''))) (\<lambda>ds.
     ebind (prior_conflict view) (\<lambda>prior.
     ebind (reconciled_status view (mk\<lparr>mk_issues := is fresh mk\<rparr>) prior) (\<lambda>status.
     Inr (foldl (\<lambda>r (k, v). oset r k v) fresh
       [(''task'', current_task (index_of m) view), (''changes'', JArr (mk_changes (mk\<lparr>mk_issues := is fresh mk\<rparr>))),
        (''issues'', JArr (mk_issues (mk\<lparr>mk_issues := is fresh mk\<rparr>))), (''components'', JArr cs),
        (''dependencies'', JArr ds), (''status'', JStr status), (''reconciled'', JBool True)]))))))))" for "is"
  proof (rule ends_in_bind [OF composer_ends [OF wf ord dump]])
    fix fresh assume "resolve_task_impl dump ord (index_of m) (current_task (index_of m) view) = Inr fresh"
    from resolved_readable [OF wf ord this] have fresh: "readable_view fresh" .
    let ?deps = "\<lambda>mk. if contains view ''dependencies''
            then merge_dependencies mk (elements_of (fld fresh ''dependencies'')) (elements_of (fld view ''dependencies''))
            else Inr (elements_of (fld fresh ''dependencies''))"
    have deps: "gives (\<lambda>ds. \<forall>d \<in> set ds. readable dependency_texts d) (?deps mk)" for mk
      using fresh view by (simp add: readable_view_def merge_dependencies_gives)
    have status: "gives (\<lambda>_. True) (reconciled_status view mk prior)" for mk prior
      using view readable_value [of "[''status'']" view "''status''"]
      by (auto simp: reconciled_status_def readable_view_def intro!: gives_bind)
    have comps: "ends_in (\<lambda>cs. \<forall>c \<in> set cs. readable component_texts c)
        (merge_components mk (elements_of (fld fresh ''components'')) (elements_of (fld view ''components'')))" for mk
      using fresh view by (simp add: readable_view_def merge_components_ends)
    show "ends_in readable_view (ebind (find_marks dump ord (index_of m) view) (\<lambda>mk.
       ebind (merge_components mk (elements_of (fld fresh ''components'')) (elements_of (fld view ''components''))) (\<lambda>cs.
       ebind (?deps mk) (\<lambda>ds. ebind (prior_conflict view) (\<lambda>prior.
       ebind (reconciled_status view (mk\<lparr>mk_issues := is fresh mk\<rparr>) prior) (\<lambda>status.
       Inr (foldl (\<lambda>r (k, v). oset r k v) fresh
         [(''task'', current_task (index_of m) view), (''changes'', JArr (mk_changes (mk\<lparr>mk_issues := is fresh mk\<rparr>))),
          (''issues'', JArr (mk_issues (mk\<lparr>mk_issues := is fresh mk\<rparr>))), (''components'', JArr cs),
          (''dependencies'', JArr ds), (''status'', JStr status), (''reconciled'', JBool True)])))))))"
      by (rule ends_in_bind [OF gives_ends [OF find_marks_keeps [OF wf dump ord view]]], rule ends_in_bind [OF comps],
          rule ends_in_bind [OF gives_ends [OF deps]], rule ends_in_bind [OF gives_ends [OF prior_conflict_gives [OF view]]],
          rule ends_in_bind [OF gives_ends [OF status]])
         (auto simp: readable_view_def readable_def text_or_absent_def fld_def marks_readable_def)
  qed
  ultimately show ?thesis
    unfolding reconcile_view_def ix ebind.simps reconcile_view_impl_def Let_def
    by (rule ends_in_then)
qed

end
