(* ===== verification/Runtime_Views.thy ===== *)
theory Runtime_Views
  imports View_Reading Journal Telemetry Lru_Cache Options Lifecycle
begin

text \<open>
  The runtime's shared state and the operations on its store of published views
  (\<open>runtime_context.cpp\<close>, \<open>runtime_lifecycle.cpp\<close>, \<open>service_records.cpp\<close>): publishing a composed
  view, reconciling a stored one, restoring saved tasks and replacing the model. Each definition
  is one critical section of the code, or the composition of the sections of one call; the step
  relation interleaves the sections of any number of calls. The bytes of the journal are those
  of \<open>Journal\<close>; the wall clock and the outcome of a write are arguments.
\<close>

section \<open>State\<close>

record runtime =
  rt_options :: runtime_options
  rt_session :: string
  rt_model :: json
  rt_scenario :: string
  rt_path :: string
  rt_generation :: u64
  rt_changes :: u64
  rt_watch_failures :: u64
  rt_views :: members
  rt_order :: "string list"
  rt_sequence :: u64
  rt_journal :: "(journal \<times> node) option"
  rt_retrievals :: "json cache"
  rt_interpretations :: "json cache"
  rt_telemetry :: tstore
  rt_service :: machine
  rt_source :: machine
  rt_provider :: machine
  rt_store :: machine
  rt_started :: bool
  rt_stopped :: bool

definition maximum_saved_views :: nat where
  "maximum_saved_views = 64"

definition model_snapshot :: "runtime \<Rightarrow> json \<times> u64" where
  "model_snapshot rt = (rt_model rt, rt_generation rt)"

definition public_model :: "runtime \<Rightarrow> json" where
  "public_model rt =
     oset (oset (rt_model rt) ''session_id'' (JStr (rt_session rt))) ''context_generation'' (JUInt (rt_generation rt))"

section \<open>Records\<close>

definition append_operational ::
  "(json \<Rightarrow> string res) \<Rightarrow> (nat \<times> exn) option \<Rightarrow> string \<Rightarrow> json \<Rightarrow> runtime \<Rightarrow> unit res \<times> runtime" where
  "append_operational dump fault kind record1 rt =
     (case rt_journal rt of
        None \<Rightarrow> (Inr (), rt)
      | Some st \<Rightarrow>
          (case journal_append dump fault kind record1 st of
             (Inl e, st') \<Rightarrow> (Inl e, rt\<lparr>rt_journal := Some st'\<rparr>)
           | (Inr s, st') \<Rightarrow> (Inr (), rt\<lparr>rt_journal := Some st'\<rparr>)))"

section \<open>Publishing a view\<close>

definition view_id :: "string \<Rightarrow> nat \<Rightarrow> string" where
  "view_id session n = session @ ''-view-'' @ show_nat n"

definition next_view_id :: "runtime \<Rightarrow> string \<times> runtime" where
  "next_view_id rt =
     (let n = rt_sequence rt + 1
      in (view_id (rt_session rt) (unat n), rt\<lparr>rt_sequence := n\<rparr>))"

definition stamp_view :: "runtime \<Rightarrow> string \<Rightarrow> u64 \<Rightarrow> json \<Rightarrow> json" where
  "stamp_view rt k generation view =
     oset (oset (oset view ''view_id'' (JStr k)) ''session_id'' (JStr (rt_session rt)))
       ''context_generation'' (JUInt generation)"

text \<open>
  \<open>erase\<close> of a key; the oldest view makes room for a new one. Reading the front of an empty
  queue is undefined in the code; the invariant below excludes it.
\<close>

definition erase_view :: "string \<Rightarrow> members \<Rightarrow> members" where
  "erase_view k views = filter (\<lambda>(k', v). k' \<noteq> k) views"

definition make_room :: "runtime \<Rightarrow> runtime" where
  "make_room rt =
     (if length (rt_views rt) \<ge> maximum_saved_views
      then (case rt_order rt of
              [] \<Rightarrow> rt
            | oldest # rest \<Rightarrow> rt\<lparr>rt_views := erase_view oldest (rt_views rt), rt_order := rest\<rparr>)
      else rt)"

definition insert_view :: "string \<Rightarrow> json \<Rightarrow> runtime \<Rightarrow> runtime" where
  "insert_view k view rt =
     (let rt = make_room rt
      in rt\<lparr>rt_views := mset_key k view (rt_views rt), rt_order := rt_order rt @ [k]\<rparr>)"

text \<open>The section under both locks: nothing is stored for a generation that is over.\<close>

definition store_view :: "string \<Rightarrow> json \<Rightarrow> u64 \<Rightarrow> runtime \<Rightarrow> (json \<times> runtime) option" where
  "store_view k view generation rt =
     (if rt_generation rt \<noteq> generation then None
      else let view = stamp_view rt k generation view in Some (view, insert_view k view rt))"

definition drop_view :: "string \<Rightarrow> runtime \<Rightarrow> runtime" where
  "drop_view k rt = rt\<lparr>rt_views := erase_view k (rt_views rt), rt_order := remove1 k (rt_order rt)\<rparr>"

definition saved_task_record :: "u64 \<Rightarrow> string \<Rightarrow> json \<Rightarrow> json res" where
  "saved_task_record now k view =
     ebind (copy_members view [(''task'', ''task''), (''model_id'', ''model_id''), (''model_revision'', ''model_revision'')])
       (\<lambda>ms. Inr (jobj (ms @ [(''view_id'', JStr k), (''timestamp_ms'', JUInt now)])))"

definition record_view ::
  "(json \<Rightarrow> string res) \<Rightarrow> (nat \<times> exn) option \<Rightarrow> u64 \<Rightarrow> string \<Rightarrow> json \<Rightarrow> runtime \<Rightarrow> unit res \<times> runtime" where
  "record_view dump fault now k view rt =
     (if rt_journal rt = None then (Inr (), rt)
      else case saved_task_record now k view of
        Inl e \<Rightarrow> (Inl e, drop_view k rt)
      | Inr saved \<Rightarrow>
          (case append_operational dump fault ''saved_task'' saved rt of
             (Inl e, rt') \<Rightarrow> (Inl e, drop_view k rt')
           | (Inr u, rt') \<Rightarrow> (Inr u, rt')))"

definition publish_view ::
  "(json \<Rightarrow> string res) \<Rightarrow> (nat \<times> exn) option \<Rightarrow> u64 \<Rightarrow> json \<Rightarrow> u64 \<Rightarrow> runtime \<Rightarrow> json option res \<times> runtime" where
  "publish_view dump fault now view generation rt =
     (let (k, rt) = next_view_id rt
      in case store_view k view generation rt of
           None \<Rightarrow> (Inr None, rt)
         | Some (view, rt) \<Rightarrow>
             (case record_view dump fault now k view rt of
                (Inl e, rt) \<Rightarrow> (Inl e, rt)
              | (Inr u, rt) \<Rightarrow> (Inr (Some view), rt)))"

definition resolve ::
  "(json \<Rightarrow> string res) \<Rightarrow> (members \<Rightarrow> members) \<Rightarrow> (nat \<times> exn) option \<Rightarrow> u64 \<Rightarrow> json \<Rightarrow> runtime \<Rightarrow> json res \<times> runtime" where
  "resolve dump ord fault now task rt =
     (let (model, generation) = model_snapshot rt
      in case resolve_task dump ord model task of
           Inl e \<Rightarrow> (Inl e, rt)
         | Inr view \<Rightarrow>
             (case publish_view dump fault now view generation rt of
                (Inl e, rt) \<Rightarrow> (Inl e, rt)
              | (Inr None, rt) \<Rightarrow> (Inl (stale_context ''active model changed while publishing view''), rt)
              | (Inr (Some view), rt) \<Rightarrow> (Inr view, rt)))"

section \<open>Reconciling a stored view\<close>

text \<open>\<open>None\<close> for an unknown view, a null for one that differs from the stored one.\<close>

definition trusted_view :: "json \<Rightarrow> runtime \<Rightarrow> json option" where
  "trusted_view supplied rt =
     (if \<not> is_object supplied \<or> \<not> has_string supplied ''view_id'' then None
      else case map_of (rt_views rt) (sfld supplied ''view_id'') of
        None \<Rightarrow> None
      | Some stored \<Rightarrow>
          if json_size supplied \<noteq> 1 \<and> \<not> jeq supplied stored then Some JNull else Some stored)"

definition check_trusted :: "json \<Rightarrow> runtime \<Rightarrow> json res" where
  "check_trusted supplied rt =
     (case trusted_view supplied rt of
        None \<Rightarrow> Inl (DomainError ''unknown_view'' ''view_id is not a known server view'')
      | Some canonical \<Rightarrow>
          if is_null canonical
          then Inl (DomainError ''view_tampered'' ''supplied view differs from the trusted server view'')
          else Inr canonical)"

definition commit_reconciled :: "json \<Rightarrow> u64 \<Rightarrow> json \<Rightarrow> runtime \<Rightarrow> json res \<times> runtime" where
  "commit_reconciled canonical generation revised rt =
     (if rt_generation rt \<noteq> generation
      then (Inl (stale_context ''active model changed while reconciling view''), rt)
      else case string_at canonical ''view_id'' of
        Inl e \<Rightarrow> (Inl e, rt)
      | Inr k \<Rightarrow>
          let revised = stamp_view rt k generation revised
          in (case map_of (rt_views rt) k of
                None \<Rightarrow> (Inl (DomainError ''lost_update'' ''view changed while reconciling''), rt)
              | Some stored \<Rightarrow>
                  if \<not> jeq stored canonical
                  then (Inl (DomainError ''lost_update'' ''view changed while reconciling''), rt)
                  else (Inr revised, rt\<lparr>rt_views := mset_key k revised (rt_views rt)\<rparr>)))"

definition reconcile ::
  "(json \<Rightarrow> string res) \<Rightarrow> (members \<Rightarrow> members) \<Rightarrow> json \<Rightarrow> runtime \<Rightarrow> json res \<times> runtime" where
  "reconcile dump ord supplied rt =
     (case check_trusted supplied rt of
        Inl e \<Rightarrow> (Inl e, rt)
      | Inr canonical \<Rightarrow>
          let (model, generation) = model_snapshot rt
          in (case reconcile_view dump ord model canonical of
                Inl e \<Rightarrow> (Inl e, rt)
              | Inr revised \<Rightarrow> commit_reconciled canonical generation revised rt))"

section \<open>Replacing the model\<close>

definition model_revision :: "json \<Rightarrow> u64" where
  "model_revision m = (case Json_Value.get_u64 (fld m ''revision'') of Inr w \<Rightarrow> w | Inl e \<Rightarrow> 0)"

definition review_issue :: "string \<Rightarrow> json" where
  "review_issue details =
     jobj [(''code'', JStr ''model-replacement-requires-new-request''), (''severity'', JStr ''error''),
           (''message'', JStr details)]"

definition needs_review :: "u64 \<Rightarrow> string \<Rightarrow> json \<Rightarrow> json" where
  "needs_review generation details view =
     oset (oset (oset view ''status'' (JStr ''needs-review''))
       ''issues'' (JArr (elements_of (fld view ''issues'') @ [review_issue details])))
       ''context_generation'' (JUInt generation)"

text \<open>
  The loop over the stored views; an exception that is not a \<open>DomainError\<close> leaves it with the
  views visited so far already replaced. The counters are the reconciled and the reviewed views.
\<close>

fun refresh_views ::
  "(json \<Rightarrow> string res) \<Rightarrow> (members \<Rightarrow> members) \<Rightarrow> json \<Rightarrow> u64 \<Rightarrow> members \<Rightarrow> runtime \<times> nat \<times> nat \<Rightarrow>
     exn option \<times> runtime \<times> nat \<times> nat" where
  "refresh_views dump ord m generation [] st = (None, st)"
| "refresh_views dump ord m generation ((k, view) # rest) (rt, n, r) =
     (case reconcile_view dump ord m view of
        Inr revised \<Rightarrow>
          refresh_views dump ord m generation rest
            (rt\<lparr>rt_views := mset_key k (stamp_view rt k generation revised) (rt_views rt)\<rparr>, n + 1, r)
      | Inl (DomainError code details) \<Rightarrow>
          refresh_views dump ord m generation rest
            (rt\<lparr>rt_views := mset_key k (needs_review generation details view) (rt_views rt)\<rparr>, n, r + 1)
      | Inl e \<Rightarrow> (Some e, rt, n, r))"

definition stale_rescan :: "string \<Rightarrow> json \<Rightarrow> json \<Rightarrow> bool" where
  "stale_rescan cause candidate current \<longleftrightarrow>
     cause = ''file-rescan'' \<and> jeq (fld candidate ''model_id'') (fld current ''model_id'') \<and>
     model_revision candidate \<le> model_revision current"

text \<open>The section under the model and view locks, and what follows it.\<close>

definition change_model ::
  "(json \<Rightarrow> string res) \<Rightarrow> (members \<Rightarrow> members) \<Rightarrow> (members \<Rightarrow> members) \<Rightarrow> string \<Rightarrow> json \<Rightarrow> string \<Rightarrow> string \<Rightarrow>
     runtime \<Rightarrow> (nat \<times> nat) res \<times> runtime" where
  "change_model dump ord vord cause candidate scenario path rt =
     (if stale_rescan cause candidate (rt_model rt)
      then (Inl (DomainError ''stale_model_revision''
              ''changed model content must advance its declared revision''), rt)
      else let generation = rt_generation rt + 1
           in case refresh_views dump ord candidate generation (vord (rt_views rt)) (rt, 0, 0) of
                (Some e, rt', counts) \<Rightarrow> (Inl e, rt')
              | (None, rt', counts) \<Rightarrow>
                  (Inr counts, rt'\<lparr>rt_model := candidate, rt_scenario := scenario, rt_path := path,
                                   rt_generation := generation\<rparr>))"

definition after_change :: "u64 \<Rightarrow> runtime \<Rightarrow> runtime" where
  "after_change generation rt =
     rt\<lparr>rt_changes := rt_changes rt + 1, rt_retrievals := cache_clear (rt_retrievals rt),
        rt_interpretations := cache_clear (rt_interpretations rt),
        rt_telemetry := reconfigure generation (rt_telemetry rt)\<rparr>"

definition change_record :: "string \<Rightarrow> json \<Rightarrow> nat \<times> nat \<Rightarrow> u64 \<Rightarrow> runtime \<Rightarrow> json" where
  "change_record cause candidate counts now rt =
     jobj [(''cause'', JStr cause), (''scenario'', JStr (rt_scenario rt)),
           (''model_id'', fld candidate ''model_id''), (''revision'', fld candidate ''revision''),
           (''context_generation'', JUInt (rt_generation rt)),
           (''reconciled_views'', JUInt (of_nat (fst counts))),
           (''review_required_views'', JUInt (of_nat (snd counts))), (''timestamp_ms'', JUInt now)]"

definition apply_model_change ::
  "(json \<Rightarrow> string res) \<Rightarrow> (members \<Rightarrow> members) \<Rightarrow> (members \<Rightarrow> members) \<Rightarrow> (nat \<times> exn) option \<Rightarrow> u64 \<Rightarrow>
     json \<Rightarrow> string \<Rightarrow> string \<Rightarrow> string \<Rightarrow> runtime \<Rightarrow> json res \<times> runtime" where
  "apply_model_change dump ord vord fault now candidate scenario path cause rt =
     (case change_model dump ord vord cause candidate scenario path rt of
        (Inl e, rt) \<Rightarrow> (Inl e, rt)
      | (Inr counts, rt) \<Rightarrow>
          let rt = after_change (rt_generation rt) rt;
              (logged, rt) = append_operational dump fault ''model_selected''
                (change_record cause candidate counts now rt) rt
          in (Inr (public_model rt), rt))"

section \<open>Restoring saved tasks\<close>

definition restored_id :: "string \<Rightarrow> u64 \<Rightarrow> string" where
  "restored_id session sequence = session @ ''-restored-view-'' @ show_nat (unat sequence)"

definition restorable :: "jrecord \<Rightarrow> bool" where
  "restorable r \<longleftrightarrow> r_kind r = ''saved_task'' \<and> is_object (r_payload r) \<and> contains (r_payload r) ''task'' \<and>
     is_object (fld (r_payload r) ''task'')"

definition restore_task :: "(json \<Rightarrow> string res) \<Rightarrow> (members \<Rightarrow> members) \<Rightarrow> json \<Rightarrow> json \<Rightarrow> json option res" where
  "restore_task dump ord model task =
     ebind (value_string task ''model_id'' []) (\<lambda>mid.
     if mid \<noteq> sfld model ''model_id'' then Inr None
     else ebind (resolve_task dump ord model (oset task ''model_revision'' (fld model ''revision'')))
       (\<lambda>view. Inr (Some view)))"

text \<open>A record that cannot be restored is only logged.\<close>

definition restore_record ::
  "(json \<Rightarrow> string res) \<Rightarrow> (members \<Rightarrow> members) \<Rightarrow> jrecord \<Rightarrow> runtime \<Rightarrow> runtime" where
  "restore_record dump ord r rt =
     (if \<not> restorable r then rt
      else case restore_task dump ord (rt_model rt) (fld (r_payload r) ''task'') of
        Inl e \<Rightarrow> rt
      | Inr None \<Rightarrow> rt
      | Inr (Some view) \<Rightarrow>
          let k = restored_id (rt_session rt) (r_sequence r)
          in insert_view k (stamp_view rt k (rt_generation rt) view) rt)"

definition restore_journal_records :: "(json \<Rightarrow> string res) \<Rightarrow> (members \<Rightarrow> members) \<Rightarrow> runtime \<Rightarrow> runtime" where
  "restore_journal_records dump ord rt =
     (case rt_journal rt of
        None \<Rightarrow> rt
      | Some (j, node) \<Rightarrow> fold (restore_record dump ord) (journal_recent 512 j) rt)"

section \<open>Reading the records\<close>

definition record_json :: "jrecord \<Rightarrow> json" where
  "record_json r =
     jobj [(''sequence'', JUInt (r_sequence r)), (''kind'', JStr (r_kind r)), (''payload'', r_payload r)]"

definition records :: "nat \<Rightarrow> runtime \<Rightarrow> json" where
  "records limit rt =
     (case rt_journal rt of
        None \<Rightarrow> jobj [(''records'', JArr []), (''store'', jobj [(''enabled'', JBool False)])]
      | Some (j, node) \<Rightarrow>
          jobj [(''records'', JArr (map record_json (journal_recent (min limit 100) j))),
                (''store'', journal_snapshot (j, node))])"

definition audit :: "nat \<Rightarrow> runtime \<Rightarrow> json" where
  "audit limit rt =
     oset (oset (records limit rt) ''command_gateway'' (JStr ''disabled''))
       ''record_class'' (JStr ''durable-operational'')"

end
