(* ===== verification/Runtime_Safety.thy ===== *)
theory Runtime_Safety
  imports Runtime_Views
begin

text \<open>
  The store of views under any interleaving of publications, reconciliations and model changes:
  the step relation over the critical sections of \<open>Runtime_Views\<close>, the invariant of the store,
  and what a model change does to it.
\<close>

section \<open>The shape of the store\<close>

definition view_keys :: "runtime \<Rightarrow> string set" where
  "view_keys rt = fst ` set (rt_views rt)"

definition store_shape :: "runtime \<Rightarrow> bool" where
  "store_shape rt \<longleftrightarrow> keys_sorted (rt_views rt) \<and> distinct (rt_order rt) \<and> set (rt_order rt) = view_keys rt \<and>
     length (rt_order rt) \<le> maximum_saved_views"

lemma store_shape_length: "store_shape rt \<Longrightarrow> length (rt_views rt) = length (rt_order rt)"
proof -
  assume s: "store_shape rt"
  then have "length (rt_views rt) = card (view_keys rt)"
    by (metis distinct_card keys_sorted_distinct length_map list.set_map store_shape_def view_keys_def)
  with s show ?thesis by (simp add: store_shape_def distinct_card [symmetric])
qed

lemma erase_view_keys: "fst ` set (erase_view k vs) = fst ` set vs - {k}"
  by (force simp: erase_view_def)

lemma erase_view_subset: "set (erase_view k vs) \<subseteq> set vs"
  by (auto simp: erase_view_def)

lemma keys_sorted_erase: "keys_sorted vs \<Longrightarrow> keys_sorted (erase_view k vs)"
  unfolding erase_view_def by (induction vs) auto

lemma drop_view_shape: "store_shape rt \<Longrightarrow> store_shape (drop_view k rt)"
  by (auto simp: store_shape_def drop_view_def view_keys_def erase_view_keys keys_sorted_erase length_remove1
      split: if_splits)

lemma make_room_facts:
  assumes "store_shape rt"
  shows "store_shape (make_room rt)" "length (rt_order (make_room rt)) < maximum_saved_views"
    "set (rt_views (make_room rt)) \<subseteq> set (rt_views rt)"
proof -
  note len = store_shape_length [OF assms]
  have "store_shape (make_room rt) \<and> length (rt_order (make_room rt)) < maximum_saved_views \<and>
      set (rt_views (make_room rt)) \<subseteq> set (rt_views rt)"
  proof (cases "length (rt_views rt) \<ge> maximum_saved_views")
    case True
    with len obtain oldest rest where o: "rt_order rt = oldest # rest"
      by (cases "rt_order rt") (auto simp: maximum_saved_views_def)
    with assms have "set rest = view_keys rt - {oldest}" by (auto simp: store_shape_def)
    with assms o True erase_view_subset [of oldest "rt_views rt"] show ?thesis
      by (auto simp: make_room_def store_shape_def view_keys_def erase_view_keys keys_sorted_erase)
  qed (use assms len in \<open>simp add: make_room_def\<close>)
  then show "store_shape (make_room rt)" "length (rt_order (make_room rt)) < maximum_saved_views"
    "set (rt_views (make_room rt)) \<subseteq> set (rt_views rt)" by blast+
qed

lemma make_room_same [simp]:
  "rt_generation (make_room rt) = rt_generation rt" "rt_session (make_room rt) = rt_session rt"
  "rt_sequence (make_room rt) = rt_sequence rt" "rt_model (make_room rt) = rt_model rt"
  "rt_journal (make_room rt) = rt_journal rt"
  by (auto simp: make_room_def split: list.splits)

lemma insert_view_facts:
  assumes "store_shape rt" and "k \<notin> view_keys rt"
  shows "store_shape (insert_view k v rt)" "set (rt_views (insert_view k v rt)) \<subseteq> insert (k, v) (set (rt_views rt))"
proof -
  note room = make_room_facts [OF assms(1)]
  have "k \<notin> set (rt_order (make_room rt))"
    using assms(2) room(1,3) by (auto simp: store_shape_def view_keys_def)
  with room show "store_shape (insert_view k v rt)"
    by (auto simp: insert_view_def Let_def store_shape_def keys_sorted_mset_key view_keys_def set_mset_key_keys)
  show "set (rt_views (insert_view k v rt)) \<subseteq> insert (k, v) (set (rt_views rt))"
    using room(3) set_mset_key [of k v "rt_views (make_room rt)"] by (auto simp: insert_view_def Let_def)
qed

lemma insert_view_same [simp]:
  "rt_generation (insert_view k v rt) = rt_generation rt" "rt_session (insert_view k v rt) = rt_session rt"
  "rt_sequence (insert_view k v rt) = rt_sequence rt" "rt_model (insert_view k v rt) = rt_model rt"
  "rt_journal (insert_view k v rt) = rt_journal rt"
  by (simp_all add: insert_view_def Let_def)

text \<open>Replacing the value of a key that is there keeps the shape.\<close>

lemma replace_view_keys: "k \<in> view_keys rt \<Longrightarrow> view_keys (rt\<lparr>rt_views := mset_key k v (rt_views rt)\<rparr>) = view_keys rt"
  by (auto simp: view_keys_def set_mset_key_keys)

lemma replace_view_shape: "store_shape rt \<Longrightarrow> k \<in> view_keys rt \<Longrightarrow> store_shape (rt\<lparr>rt_views := mset_key k v (rt_views rt)\<rparr>)"
  unfolding store_shape_def using replace_view_keys [of k rt v] by (simp add: keys_sorted_mset_key)

section \<open>The invariant\<close>

definition stamped :: "runtime \<Rightarrow> string \<Rightarrow> json \<Rightarrow> bool" where
  "stamped rt k v \<longleftrightarrow> find_key v ''view_id'' = Some (JStr k) \<and> find_key v ''session_id'' = Some (JStr (rt_session rt)) \<and>
     find_key v ''context_generation'' = Some (JUInt (rt_generation rt))"

definition views_current :: "runtime \<Rightarrow> bool" where
  "views_current rt \<longleftrightarrow> (\<forall>(k, v) \<in> set (rt_views rt). stamped rt k v \<and> readable_view v)"

text \<open>An identifier that no later publication will issue.\<close>

definition issued :: "runtime \<Rightarrow> string \<Rightarrow> bool" where
  "issued rt k \<longleftrightarrow> (\<forall>n. k = view_id (rt_session rt) n \<longrightarrow> n \<le> unat (rt_sequence rt))"

definition store_inv :: "(json \<Rightarrow> string res) \<Rightarrow> runtime \<Rightarrow> bool" where
  "store_inv dump rt \<longleftrightarrow> store_shape rt \<and> views_current rt \<and> (\<forall>k \<in> view_keys rt. issued rt k) \<and>
     wf_model dump (rt_model rt)"

lemma stamp_view_facts:
  "stamped rt k (stamp_view rt k (rt_generation rt) v)"
  "readable_view v \<Longrightarrow> readable_view (stamp_view rt k g v)"
  by (auto simp: stamped_def stamp_view_def readable_view_def readable_def text_or_absent_def fld_def)

lemma stamp_view_id: "find_key (stamp_view rt k g v) ''view_id'' = Some (JStr k)"
  by (simp add: stamp_view_def)

section \<open>Identifiers\<close>

lemma view_id_inject [simp]: "view_id s m = view_id s n \<longleftrightarrow> m = n"
  by (simp add: view_id_def)

lemma restored_not_issued [simp]: "restored_id s q \<noteq> view_id s n"
  by (simp add: restored_id_def view_id_def)

lemma restored_id_inject [simp]: "restored_id s q = restored_id s q' \<longleftrightarrow> q = q'"
  by (simp add: restored_id_def word_unat_eq_iff)

section \<open>Interleaved calls\<close>

text \<open>
  How far a call has come: between the sections it holds what it has read or computed. A call
  that resolves a task goes through \<open>Snapped\<close>, \<open>Composed\<close>, \<open>Reserved\<close> and \<open>Saved\<close>, one that
  reconciles a view through \<open>Trusted\<close> and \<open>Revised\<close>.
\<close>

datatype activity =
    Idle
  | Snapped json u64
  | Composed json u64
  | Reserved string json u64
  | Saved string json
  | Trusted json
  | Revised json json u64

type_synonym system = "runtime \<times> activity list"

text \<open>
  One section of one call. The guards \<open>\<noteq> - 1\<close> say that the 64-bit view sequence and model
  generation have not been used up.
\<close>

inductive service_step ::
  "(json \<Rightarrow> string res) \<Rightarrow> (members \<Rightarrow> members) \<Rightarrow> (members \<Rightarrow> members) \<Rightarrow> system \<Rightarrow> system \<Rightarrow> bool"
  for dump ord vord where
  snap: "service_step dump ord vord (rt, as) (rt, as[i := Snapped m g])"
    if "i < length as" and "as ! i = Idle" and "model_snapshot rt = (m, g)"
| compose: "service_step dump ord vord (rt, as) (rt, as[i := Composed view g])"
    if "i < length as" and "as ! i = Snapped m g" and "resolve_task dump ord m task = Inr view"
| reserve: "service_step dump ord vord (rt, as) (rt', as[i := Reserved k view g])"
    if "i < length as" and "as ! i = Composed view g" and "rt_sequence rt \<noteq> - 1" and "next_view_id rt = (k, rt')"
| store: "service_step dump ord vord (rt, as) (rt', as[i := Saved k view'])"
    if "i < length as" and "as ! i = Reserved k view g" and "store_view k view g rt = Some (view', rt')"
| saved: "service_step dump ord vord (rt, as) (rt', as[i := Idle])"
    if "i < length as" and "as ! i = Saved k view" and "record_view dump fault now k view rt = (r, rt')"
| trust: "service_step dump ord vord (rt, as) (rt, as[i := Trusted canonical])"
    if "i < length as" and "as ! i = Idle" and "check_trusted supplied rt = Inr canonical"
| revise: "service_step dump ord vord (rt, as) (rt, as[i := Revised canonical revised g])"
    if "i < length as" and "as ! i = Trusted canonical" and "model_snapshot rt = (m, g)"
      and "reconcile_view dump ord m canonical = Inr revised"
| commit: "service_step dump ord vord (rt, as) (rt', as[i := Idle])"
    if "i < length as" and "as ! i = Revised canonical revised g"
      and "commit_reconciled canonical g revised rt = (r, rt')"
| change: "service_step dump ord vord (rt, as) (rt', as)"
    if "rt_generation rt \<noteq> - 1" and "index_model dump candidate = Inr ix"
      and "change_model dump ord vord cause candidate scenario path rt = (r, rt')"
| changed: "service_step dump ord vord (rt, as) (after_change g rt, as)"
| logged: "service_step dump ord vord (rt, as) (rt', as)"
    if "append_operational dump fault kind payload rt = (r, rt')"
| fails: "service_step dump ord vord (rt, as) (rt, as[i := Idle])"
    if "i < length as" and "\<forall>k view. as ! i \<noteq> Saved k view"

text \<open>What a call may hold.\<close>

definition reserved_ids :: "activity list \<Rightarrow> string list" where
  "reserved_ids as = concat (map (\<lambda>a. case a of Reserved k view g \<Rightarrow> [k] | _ \<Rightarrow> []) as)"

definition holds_well :: "(json \<Rightarrow> string res) \<Rightarrow> runtime \<Rightarrow> activity \<Rightarrow> bool" where
  "holds_well dump rt a \<longleftrightarrow>
     (case a of
        Snapped m g \<Rightarrow> wf_model dump m
      | Composed view g \<Rightarrow> readable_view view
      | Reserved k view g \<Rightarrow> readable_view view \<and> issued rt k \<and> k \<notin> view_keys rt
      | Trusted c \<Rightarrow> readable_view c
      | Revised c v g \<Rightarrow> readable_view v
      | _ \<Rightarrow> True)"

definition system_inv :: "(json \<Rightarrow> string res) \<Rightarrow> system \<Rightarrow> bool" where
  "system_inv dump = (\<lambda>(rt, as).
     store_inv dump rt \<and> distinct (reserved_ids as) \<and> (\<forall>a \<in> set as. holds_well dump rt a))"

section \<open>Sections keep the store\<close>

lemma issued_mono:
  "issued rt k \<Longrightarrow> rt_session rt' = rt_session rt \<Longrightarrow> rt_sequence rt \<le> rt_sequence rt' \<Longrightarrow> issued rt' k"
  by (fastforce simp: issued_def word_le_nat_alt intro: le_trans)

lemma next_view_id_facts:
  assumes "rt_sequence rt \<noteq> - 1" and "next_view_id rt = (k, rt')"
  shows "rt' = rt\<lparr>rt_sequence := rt_sequence rt + 1\<rparr>" "rt_sequence rt \<le> rt_sequence rt'" "issued rt' k" "\<not> issued rt k"
  using assms unat_plus_one [OF assms(1)] by (auto simp: next_view_id_def Let_def issued_def word_le_nat_alt)

lemma store_view_facts:
  assumes "store_inv dump rt" and "store_view k view g rt = Some (view', rt')" and "readable_view view"
    and "issued rt k" and "k \<notin> view_keys rt"
  shows "store_inv dump rt'" "view_keys rt' \<subseteq> insert k (view_keys rt)" "rt_session rt' = rt_session rt"
    "rt_sequence rt' = rt_sequence rt"
proof -
  have rt': "rt' = insert_view k view' rt" "view' = stamp_view rt k (rt_generation rt) view"
    using assms(2) by (auto simp: store_view_def Let_def split: if_splits)
  note ins = insert_view_facts [OF _ assms(5), of view', folded rt'(1)]
  have inv: "store_shape rt" "views_current rt" "\<forall>k \<in> view_keys rt. issued rt k" "wf_model dump (rt_model rt)"
    using assms(1) by (simp_all add: store_inv_def)
  show same: "rt_session rt' = rt_session rt" "rt_sequence rt' = rt_sequence rt" by (simp_all add: rt'(1))
  show keys: "view_keys rt' \<subseteq> insert k (view_keys rt)" using ins(2) [OF inv(1)] by (auto simp: view_keys_def)
  have "stamped rt k view'" "readable_view view'"
    using stamp_view_facts assms(3) by (simp_all add: rt'(2))
  then have "views_current rt'"
    using inv(2) ins(2) [OF inv(1)] by (auto simp: views_current_def stamped_def rt'(1) same)
  moreover have "\<forall>k \<in> view_keys rt'. issued rt' k"
    using keys inv(3) assms(4) by (auto simp: issued_def same)
  ultimately show "store_inv dump rt'" using ins(1) [OF inv(1)] inv(4) by (simp add: store_inv_def rt'(1))
qed

lemma store_inv_fewer:
  assumes "store_inv dump rt" and "store_shape rt'" and "set (rt_views rt') \<subseteq> set (rt_views rt)"
    and "rt_session rt' = rt_session rt" "rt_sequence rt' = rt_sequence rt" "rt_generation rt' = rt_generation rt"
    "rt_model rt' = rt_model rt"
  shows "store_inv dump rt'" "view_keys rt' \<subseteq> view_keys rt"
proof -
  show "view_keys rt' \<subseteq> view_keys rt" using assms(3) by (auto simp: view_keys_def)
  with assms show "store_inv dump rt'"
    by (auto simp: store_inv_def views_current_def stamped_def issued_def)
qed

lemma drop_view_facts:
  assumes "store_inv dump rt"
  shows "store_inv dump (drop_view k rt)" "view_keys (drop_view k rt) \<subseteq> view_keys rt"
  by (rule store_inv_fewer [OF assms];
      use assms erase_view_subset in \<open>simp add: drop_view_shape store_inv_def; simp add: drop_view_def\<close>)+

lemma append_operational_facts:
  assumes "append_operational dump fault kind payload rt = (r, rt')"
  shows "rt_views rt' = rt_views rt" "rt_order rt' = rt_order rt" "rt_session rt' = rt_session rt"
    "rt_sequence rt' = rt_sequence rt" "rt_generation rt' = rt_generation rt" "rt_model rt' = rt_model rt"
  using assms by (auto simp: append_operational_def split: option.splits prod.splits sum.splits)

lemma store_inv_same:
  assumes "store_inv dump rt" and "rt_views rt' = rt_views rt" "rt_order rt' = rt_order rt" "rt_session rt' = rt_session rt"
    "rt_sequence rt' = rt_sequence rt" "rt_generation rt' = rt_generation rt" "rt_model rt' = rt_model rt"
  shows "store_inv dump rt'" "view_keys rt' = view_keys rt"
  using assms by (auto simp: store_inv_def store_shape_def views_current_def stamped_def issued_def view_keys_def)

lemma record_view_facts:
  assumes "store_inv dump rt" and "record_view dump' fault now k view rt = (r, rt')"
  shows "store_inv dump rt'" "view_keys rt' \<subseteq> view_keys rt" "rt_session rt' = rt_session rt"
    "rt_sequence rt' = rt_sequence rt"
proof -
  have app: "store_inv dump rt1" "view_keys rt1 = view_keys rt" "rt_session rt1 = rt_session rt"
    "rt_sequence rt1 = rt_sequence rt" if "append_operational dump' fault kind payload rt = (r1, rt1)" for kind payload r1 rt1
    using store_inv_same [OF assms(1) append_operational_facts [OF that]] append_operational_facts [OF that] by simp_all
  have drop: "rt_session (drop_view k x) = rt_session x" "rt_sequence (drop_view k x) = rt_sequence x" for x
    by (simp_all add: drop_view_def)
  consider "rt' = rt" | "rt' = drop_view k rt"
    | kind payload r1 rt1 where "append_operational dump' fault kind payload rt = (r1, rt1)" "rt' = drop_view k rt1 \<or> rt' = rt1"
    using assms(2) by (auto simp: record_view_def split: if_splits sum.splits prod.splits)
  then have "store_inv dump rt' \<and> view_keys rt' \<subseteq> view_keys rt \<and> rt_session rt' = rt_session rt \<and> rt_sequence rt' = rt_sequence rt"
  proof cases
    case 3
    from drop_view_facts [OF app(1) [OF 3(1)]] app [OF 3(1)] 3(2) show ?thesis by (auto simp: drop)
  qed (use assms(1) drop_view_facts [OF assms(1)] in \<open>auto simp: drop\<close>)
  then show "store_inv dump rt'" "view_keys rt' \<subseteq> view_keys rt" "rt_session rt' = rt_session rt"
    "rt_sequence rt' = rt_sequence rt" by blast+
qed

lemma mset_key_members:
  "keys_sorted m \<Longrightarrow> (k', v') \<in> set (mset_key k v m) \<Longrightarrow> (k', v') = (k, v) \<or> ((k', v') \<in> set m \<and> k' \<noteq> k)"
proof -
  assume s: "keys_sorted m" and i: "(k', v') \<in> set (mset_key k v m)"
  have "map_of (mset_key k v m) k' = Some v'"
    using i keys_sorted_mset_key [OF s] by (simp add: keys_sorted_distinct)
  then show ?thesis by (auto simp: map_of_mset_key split: if_splits dest: map_of_SomeD)
qed

lemma commit_facts:
  assumes "store_inv dump rt" and "commit_reconciled canonical g revised rt = (r, rt')" and "readable_view revised"
  shows "store_inv dump rt'" "view_keys rt' = view_keys rt" "rt_session rt' = rt_session rt"
    "rt_sequence rt' = rt_sequence rt"
proof -
  have "store_inv dump rt' \<and> view_keys rt' = view_keys rt \<and> rt_session rt' = rt_session rt \<and> rt_sequence rt' = rt_sequence rt"
  proof (cases "rt' = rt")
    case False
    with assms(2) obtain k stored where k: "map_of (rt_views rt) k = Some stored" "rt_generation rt = g"
      and rt': "rt' = rt\<lparr>rt_views := mset_key k (stamp_view rt k g revised) (rt_views rt)\<rparr>"
      by (auto simp: commit_reconciled_def Let_def split: if_splits sum.splits option.splits)
    have key: "k \<in> view_keys rt" using map_of_SomeD [OF k(1)] by (force simp: view_keys_def)
    have inv: "store_shape rt" "views_current rt" "\<forall>k \<in> view_keys rt. issued rt k" "wf_model dump (rt_model rt)"
      using assms(1) by (simp_all add: store_inv_def)
    note keys = replace_view_keys [OF key, of "stamp_view rt k g revised", folded rt']
    have "stamped rt k (stamp_view rt k g revised)" "readable_view (stamp_view rt k g revised)"
      using stamp_view_facts assms(3) k(2) by auto
    then have "views_current rt'"
      using inv(2) mset_key_members [of "rt_views rt"] inv(1)
      by (fastforce simp: views_current_def stamped_def rt' store_shape_def)
    then show ?thesis
      using replace_view_shape [OF inv(1) key, of "stamp_view rt k g revised", folded rt'] keys inv(3,4)
      by (simp add: store_inv_def issued_def rt')
  qed (use assms(1) in simp)
  then show "store_inv dump rt'" "view_keys rt' = view_keys rt" "rt_session rt' = rt_session rt"
    "rt_sequence rt' = rt_sequence rt" by blast+
qed

section \<open>A model change\<close>

text \<open>A view of the next generation, and one still to be visited.\<close>

definition renewed :: "runtime \<Rightarrow> u64 \<Rightarrow> string \<Rightarrow> json \<Rightarrow> bool" where
  "renewed rt g k v \<longleftrightarrow> stamped (rt\<lparr>rt_generation := g\<rparr>) k v \<and> readable_view v"

lemma needs_review_renewed:
  "stamped rt k v \<Longrightarrow> readable_view v \<Longrightarrow> renewed rt g k (needs_review g details v)"
  by (auto simp: renewed_def needs_review_def stamped_def readable_view_def readable_def text_or_absent_def fld_def)

lemma revised_renewed: "readable_view v \<Longrightarrow> renewed rt g k (stamp_view rt k g v)"
  using stamp_view_facts(1) [of "rt\<lparr>rt_generation := g\<rparr>" k v] stamp_view_facts(2) [of v rt k g]
  by (simp add: renewed_def stamp_view_def)

text \<open>What the loop over the views leaves alone.\<close>

definition same_frame :: "runtime \<Rightarrow> runtime \<Rightarrow> bool" where
  "same_frame rt rt' \<longleftrightarrow> (\<exists>vs. rt' = rt\<lparr>rt_views := vs\<rparr>)"

lemma same_frame_facts:
  assumes "same_frame rt rt'"
  shows "rt_order rt' = rt_order rt" "rt_session rt' = rt_session rt" "rt_sequence rt' = rt_sequence rt"
    "rt_generation rt' = rt_generation rt" "rt_model rt' = rt_model rt"
  using assms by (auto simp: same_frame_def)

lemma same_frame_refl: "same_frame rt rt"
  unfolding same_frame_def by (rule exI [of _ "rt_views rt"]) simp

text \<open>What happened to one view, as the reconciliation of its old value decides.\<close>

definition changed_view ::
  "(json \<Rightarrow> string res) \<Rightarrow> (members \<Rightarrow> members) \<Rightarrow> json \<Rightarrow> runtime \<Rightarrow> u64 \<Rightarrow> string \<Rightarrow> json \<Rightarrow> json \<Rightarrow> bool" where
  "changed_view dump ord m rt g k old new \<longleftrightarrow>
     (case reconcile_view dump ord m old of
        Inr revised \<Rightarrow> new = stamp_view rt k g revised
      | Inl (DomainError code details) \<Rightarrow> new = needs_review g details old
      | Inl e \<Rightarrow> False)"

lemma refresh_step:
  assumes "wf_model dump m" and "reorders ord" and "dumps_all dump" and "stamped rt k v" and "readable_view v"
  shows "\<exists>v' n' r'. refresh_views dump ord m g ((k, v) # rest) (rt, n, r) =
      refresh_views dump ord m g rest (rt\<lparr>rt_views := mset_key k v' (rt_views rt)\<rparr>, n', r') \<and>
    n' + r' = Suc (n + r) \<and> renewed rt g k v' \<and> changed_view dump ord m rt g k v v'"
proof (cases "reconcile_view dump ord m v")
  case (Inr revised)
  with reconcile_ends [OF assms(1-3,5)] have "readable_view revised" by simp
  then have "renewed rt g k (stamp_view rt k g revised)" by (rule revised_renewed)
  then show ?thesis
    by (intro exI [of _ "stamp_view rt k g revised"] exI [of _ "n + 1"] exI [of _ r]) (simp add: Inr changed_view_def)
next
  case (Inl e)
  with reconcile_ends [OF assms(1-3,5)] obtain code details where "e = DomainError code details"
    by (auto simp: domain_error_def)
  then show ?thesis
    using needs_review_renewed [OF assms(4,5), of g details]
    by (intro exI [of _ "needs_review g details v"] exI [of _ n] exI [of _ "r + 1"]) (simp add: Inl changed_view_def)
qed

text \<open>
  The loop over distinct stored views never throws: it visits every one and leaves each of the
  next generation, with its key; the counters add up.
\<close>

lemma refresh_views_facts:
  assumes "wf_model dump m" and "reorders ord" and "dumps_all dump"
    and "keys_sorted (rt_views rt)" and "distinct (map fst todo)"
    and "\<forall>(k, v) \<in> set todo. k \<in> view_keys rt \<and> stamped rt k v \<and> readable_view v"
    and "\<forall>(k, v) \<in> set (rt_views rt). k \<notin> fst ` set todo \<longrightarrow> renewed rt g k v \<and> P k v"
    and "\<And>k v v'. (k, v) \<in> set todo \<Longrightarrow> changed_view dump ord m rt g k v v' \<Longrightarrow> P k v'"
  shows "\<exists>rt' n' r'. refresh_views dump ord m g todo (rt, n, r) = (None, rt', n', r') \<and>
    n' + r' = n + r + length todo \<and> same_frame rt rt' \<and> keys_sorted (rt_views rt') \<and> view_keys rt' = view_keys rt \<and>
    (\<forall>(k, v) \<in> set (rt_views rt'). renewed rt g k v \<and> P k v)"
  using assms(4-)
proof (induction todo arbitrary: rt n r)
  case Nil
  then have "\<forall>(k, v) \<in> set (rt_views rt). renewed rt g k v \<and> P k v" by simp
  with Nil.prems(1) show ?case by (intro exI [of _ rt] exI [of _ n] exI [of _ r]) (simp add: same_frame_refl)
next
  case (Cons kv todo)
  obtain k v where kv: "kv = (k, v)" by (cases kv)
  have here: "k \<in> view_keys rt" "stamped rt k v" "readable_view v" using Cons.prems(3) by (auto simp: kv)
  from refresh_step [OF assms(1-3) here(2,3), of g todo n r] obtain v' n1 r1 where
    step: "refresh_views dump ord m g ((k, v) # todo) (rt, n, r) =
      refresh_views dump ord m g todo (rt\<lparr>rt_views := mset_key k v' (rt_views rt)\<rparr>, n1, r1)"
    and sum: "n1 + r1 = Suc (n + r)" and new: "renewed rt g k v'" "changed_view dump ord m rt g k v v'" by blast
  let ?rt = "rt\<lparr>rt_views := mset_key k v' (rt_views rt)\<rparr>"
  note keys = replace_view_keys [OF here(1), of v']
  have same: "stamped ?rt x = stamped rt x" "renewed ?rt g x = renewed rt g x"
    "changed_view dump ord m ?rt g x = changed_view dump ord m rt g x" for x
    by (simp_all add: stamped_def renewed_def changed_view_def stamp_view_def fun_eq_iff split: sum.split exn.split)
  have "P k v'" by (rule Cons.prems(5) [OF _ new(2)]) (simp add: kv)
  then have rest: "\<forall>(x, y) \<in> set (rt_views ?rt). x \<notin> fst ` set todo \<longrightarrow> renewed ?rt g x y \<and> P x y"
    using Cons.prems(4) new(1) mset_key_members [OF Cons.prems(1), of _ _ k v'] by (fastforce simp: same kv)
  have "\<exists>rt' n' r'. refresh_views dump ord m g todo (?rt, n1, r1) = (None, rt', n', r') \<and>
      n' + r' = n1 + r1 + length todo \<and> same_frame ?rt rt' \<and> keys_sorted (rt_views rt') \<and>
      view_keys rt' = view_keys ?rt \<and> (\<forall>(k, v) \<in> set (rt_views rt'). renewed ?rt g k v \<and> P k v)"
  proof (rule Cons.IH)
    show "keys_sorted (rt_views ?rt)" using Cons.prems(1) by (simp add: keys_sorted_mset_key)
    show "distinct (map fst todo)" using Cons.prems(2) by simp
    show "\<forall>(k, v) \<in> set todo. k \<in> view_keys ?rt \<and> stamped ?rt k v \<and> readable_view v"
      using Cons.prems(3) by (auto simp: keys same)
    show "P x y'" if "(x, y) \<in> set todo" "changed_view dump ord m ?rt g x y y'" for x y y'
      using Cons.prems(5) [of x y y'] that by (simp add: same)
  qed (rule rest)
  then show ?case
    using step sum by (auto simp: kv same keys same_frame_def)
qed

lemma change_model_facts:
  assumes "store_inv dump rt" and "wf_model dump m" and "reorders ord" and "reorders vord" and "dumps_all dump"
    and "\<not> stale_rescan cause m (rt_model rt)"
  shows "\<exists>rt' n r. change_model dump ord vord cause m scenario path rt = (Inr (n, r), rt') \<and>
    n + r = length (rt_views rt) \<and> store_shape rt' \<and> view_keys rt' = view_keys rt \<and> rt_order rt' = rt_order rt \<and>
    rt_session rt' = rt_session rt \<and> rt_sequence rt' = rt_sequence rt \<and> rt_model rt' = m \<and>
    rt_generation rt' = rt_generation rt + 1 \<and> rt_scenario rt' = scenario \<and> rt_path rt' = path \<and> views_current rt' \<and>
    (\<forall>k v v'. map_of (rt_views rt) k = Some v \<longrightarrow> map_of (rt_views rt') k = Some v' \<longrightarrow>
       changed_view dump ord m rt (rt_generation rt + 1) k v v')"
proof -
  let ?g = "rt_generation rt + 1" and ?todo = "vord (rt_views rt)"
  let ?P = "\<lambda>k v'. \<forall>v. map_of (rt_views rt) k = Some v \<longrightarrow> changed_view dump ord m rt ?g k v v'"
  have inv: "store_shape rt" "views_current rt" using assms(1) by (simp_all add: store_inv_def)
  have sorted: "keys_sorted (rt_views rt)" using inv(1) by (simp add: store_shape_def)
  have set: "set ?todo = set (rt_views rt)" by (rule reorders_set [OF assms(4)])
  have msets: "mset ?todo = mset (rt_views rt)" using assms(4) by (simp add: reorders_def)
  then have len: "length ?todo = length (rt_views rt)" by (rule mset_eq_length)
  have "mset (map fst ?todo) = mset (map fst (rt_views rt))" using msets by simp
  then have dist: "distinct (map fst ?todo)"
    using keys_sorted_distinct [OF sorted] mset_eq_imp_distinct_iff by blast
  have "\<exists>rt' n' r'. refresh_views dump ord m ?g ?todo (rt, 0, 0) = (None, rt', n', r') \<and>
      n' + r' = 0 + 0 + length ?todo \<and> same_frame rt rt' \<and> keys_sorted (rt_views rt') \<and> view_keys rt' = view_keys rt \<and>
      (\<forall>(k, v) \<in> set (rt_views rt'). renewed rt ?g k v \<and> ?P k v)"
  proof (rule refresh_views_facts [OF assms(2,3,5) sorted dist])
    show "\<forall>(k, v) \<in> set ?todo. k \<in> view_keys rt \<and> stamped rt k v \<and> readable_view v"
      using inv(2) by (force simp: set views_current_def view_keys_def)
    show "\<forall>(k, v) \<in> set (rt_views rt). k \<notin> fst ` set ?todo \<longrightarrow> renewed rt ?g k v \<and> ?P k v"
      by (force simp: set)
    show "?P k v'" if "(k, v) \<in> set ?todo" "changed_view dump ord m rt ?g k v v'" for k v v'
      using that keys_sorted_distinct [OF sorted] by (auto simp: set)
  qed
  then obtain rt' n r where r: "refresh_views dump ord m ?g ?todo (rt, 0, 0) = (None, rt', n, r)"
    and sum: "n + r = length (rt_views rt)" and frame: "same_frame rt rt'" and srt: "keys_sorted (rt_views rt')"
    and keys: "view_keys rt' = view_keys rt" and new: "\<forall>(k, v) \<in> set (rt_views rt'). renewed rt ?g k v \<and> ?P k v"
    unfolding len by auto
  note fr = same_frame_facts [OF frame]
  let ?final = "rt'\<lparr>rt_model := m, rt_scenario := scenario, rt_path := path, rt_generation := ?g\<rparr>"
  have "change_model dump ord vord cause m scenario path rt = (Inr (n, r), ?final)"
    using assms(6) by (simp add: change_model_def Let_def r)
  moreover have "store_shape ?final"
    using inv(1) srt keys by (simp add: store_shape_def view_keys_def fr(1))
  moreover have "views_current ?final" using new fr(2) by (auto simp: views_current_def renewed_def stamped_def)
  moreover have "changed_view dump ord m rt ?g k v v'"
    if "map_of (rt_views rt) k = Some v" "map_of (rt_views ?final) k = Some v'" for k v v'
  proof -
    have "(k, v') \<in> set (rt_views rt')" using that(2) by (simp add: map_of_SomeD)
    with new that(1) show ?thesis by blast
  qed
  ultimately show ?thesis using sum keys fr by (auto simp: view_keys_def)
qed

section \<open>The journal a runtime starts with\<close>

text \<open>The recent records of an opened journal carry the consecutive numbers before the next one.\<close>

definition numbers_before :: "u64 \<Rightarrow> nat \<Rightarrow> u64 list" where
  "numbers_before e n = map (\<lambda>i. e - of_nat (n - i)) [0..<n]"

lemma numbers_before_snoc: "numbers_before (e + 1) (Suc n) = numbers_before e n @ [e]"
  by (auto simp: numbers_before_def Suc_diff_le)

lemma numbers_before_tl: "tl (numbers_before e n) = numbers_before e (n - 1)"
proof (cases n)
  case (Suc m)
  have "[0..<Suc m] = 0 # map Suc [0..<m]" by (simp only: map_Suc_upt upt_conv_Cons zero_less_Suc)
  then show ?thesis by (simp add: numbers_before_def Suc comp_def)
qed (simp add: numbers_before_def)

lemma numbers_before_distinct:
  assumes "n < 2 ^ 64"
  shows "distinct (numbers_before e n)"
proof -
  have "inj_on (\<lambda>i. e - of_nat (n - i) :: u64) {0..<n}"
  proof (rule inj_onI)
    fix i j assume ij: "i \<in> {0..<n}" "j \<in> {0..<n}" and "e - of_nat (n - i) = (e - of_nat (n - j) :: u64)"
    then have "(of_nat (n - i) :: u64) = of_nat (n - j)" by simp
    then have "unat (of_nat (n - i) :: u64) = unat (of_nat (n - j) :: u64)" by simp
    then have "n - i = n - j" using assms by (simp add: unat_of_nat)
    with ij show "i = j" by auto
  qed
  then show ?thesis by (simp add: numbers_before_def distinct_map)
qed

definition recent_numbered :: "u64 \<Rightarrow> jrecord list \<Rightarrow> bool" where
  "recent_numbered e rs \<longleftrightarrow> map r_sequence rs = numbers_before e (length rs)"

lemma recent_numbered_push:
  assumes "recent_numbered e rs" and "0 < limit" and "r_sequence r = e"
  shows "recent_numbered (e + 1) (recent_push limit r rs)"
proof (cases "length rs \<ge> limit")
  case True
  with assms(2) have "Suc (length (tl rs)) = length rs" by simp
  with assms(1,3) True show ?thesis
    by (simp add: recent_numbered_def recent_push_def map_tl numbers_before_tl numbers_before_snoc [of e "length rs - 1"]
        flip: numbers_before_snoc)
next
  case False
  with assms show ?thesis by (simp add: recent_numbered_def recent_push_def numbers_before_snoc)
qed

lemma recent_push_length: "length rs \<le> limit \<Longrightarrow> 0 < limit \<Longrightarrow> length (recent_push limit r rs) \<le> limit"
  by (auto simp: recent_push_def)

lemma replay_numbered:
  assumes "replay_frames parse cfg s input = Inr (s', torn)" and "0 < cfg_recent_limit cfg"
    and "recent_numbered (rp_expected s) (rp_recent s)" and "length (rp_recent s) \<le> cfg_recent_limit cfg"
  shows "recent_numbered (rp_expected s') (rp_recent s') \<and> length (rp_recent s') \<le> cfg_recent_limit cfg"
  using assms
proof (induction parse cfg s input rule: replay_frames.induct)
  case (1 parse cfg s input)
  show ?case
  proof (cases "read_frame (cfg_maximum_payload cfg) (rp_expected s) input")
    case (Frame kp rest)
    with "1.prems"(1) obtain j where j: "parse (snd kp) = Inr j"
      and r: "replay_frames parse cfg (replay_record cfg kp j s) rest = Inr (s', torn)"
      by (subst (asm) replay_frames.simps) (auto split: sum.splits)
    show ?thesis
      by (rule "1.IH" [OF Frame j r "1.prems"(2)])
         (use "1.prems" in \<open>simp_all add: replay_record_def recent_numbered_push recent_push_length\<close>)
  qed (use "1.prems" in \<open>subst (asm) replay_frames.simps; auto\<close>)+
qed

lemma opened_numbers_distinct:
  assumes "journal_open parse parent_ok cfg node = Inr (j, node')" and "cfg_recent_limit cfg < 2 ^ 64"
  shows "distinct (map r_sequence (j_recent j))"
proof -
  have pos: "0 < cfg_recent_limit cfg" using assms(1) by (auto simp: journal_open_def config_ok_def split: if_splits)
  have start: "recent_numbered (rp_expected replay_start) (rp_recent replay_start)"
    by (simp add: replay_start_def recent_numbered_def numbers_before_def)
  obtain content s torn where "replay_frames parse cfg replay_start content = Inr (s, torn)" "j_recent j = rp_recent s"
    using assms(1)
    by (auto simp: journal_open_def open_and_recover_def recover_file_def Let_def split: node.splits if_splits)
  with replay_numbered [OF this(1) pos start] assms(2) show ?thesis
    by (auto simp: replay_start_def recent_numbered_def intro!: numbers_before_distinct)
qed

section \<open>Restoring\<close>

lemma insert_stamped_inv:
  assumes "store_inv dump rt" and "readable_view view" and "k \<notin> view_keys rt" and "issued rt k"
  shows "store_inv dump (insert_view k (stamp_view rt k (rt_generation rt) view) rt)"
    "view_keys (insert_view k (stamp_view rt k (rt_generation rt) view) rt) \<subseteq> insert k (view_keys rt)"
  using store_view_facts [OF assms(1) _ assms(2,4,3), of "rt_generation rt"] by (simp_all add: store_view_def Let_def)

definition restored_keys :: "runtime \<Rightarrow> u64 set \<Rightarrow> bool" where
  "restored_keys rt seen \<longleftrightarrow> (\<forall>q. restored_id (rt_session rt) q \<in> view_keys rt \<longrightarrow> q \<in> seen)"

lemma restore_record_keeps:
  assumes "store_inv dump rt" and "restored_keys rt seen" and "r_sequence r \<notin> seen" and "reorders ord"
  shows "store_inv dump (restore_record dump ord r rt) \<and>
    restored_keys (restore_record dump ord r rt) (insert (r_sequence r) seen)"
proof (cases "restore_record dump ord r rt = rt")
  case False
  then obtain view where v: "restore_task dump ord (rt_model rt) (fld (r_payload r) ''task'') = Inr (Some view)"
    and rt': "restore_record dump ord r rt = insert_view (restored_id (rt_session rt) (r_sequence r))
      (stamp_view rt (restored_id (rt_session rt) (r_sequence r)) (rt_generation rt) view) rt"
    by (auto simp: restore_record_def Let_def split: sum.splits option.splits if_splits)
  have wf: "wf_model dump (rt_model rt)" using assms(1) by (simp add: store_inv_def)
  then have ix: "index_model dump (rt_model rt) = Inr (index_of (rt_model rt))" by (simp add: index_model_Inr)
  have "readable_view view"
    using v resolved_readable [OF wf assms(4)] by (auto simp: restore_task_def resolve_task_def ix split: if_splits)
  moreover have "restored_id (rt_session rt) (r_sequence r) \<notin> view_keys rt"
    using assms(2,3) by (auto simp: restored_keys_def)
  moreover have "issued rt (restored_id (rt_session rt) (r_sequence r))" by (simp add: issued_def)
  ultimately have "store_inv dump (restore_record dump ord r rt)"
    "view_keys (restore_record dump ord r rt) \<subseteq> insert (restored_id (rt_session rt) (r_sequence r)) (view_keys rt)"
    using insert_stamped_inv [OF assms(1)] by (simp_all add: rt')
  with assms(2) show ?thesis by (auto simp: restored_keys_def rt')
qed (use assms(1,2) in \<open>auto simp: restored_keys_def\<close>)

lemma restore_all_keeps:
  assumes "store_inv dump rt" and "restored_keys rt seen" and "distinct (map r_sequence rs)"
    and "seen \<inter> r_sequence ` set rs = {}" and "reorders ord"
  shows "store_inv dump (fold (restore_record dump ord) rs rt)"
  using assms(1-4)
proof (induction rs arbitrary: rt seen)
  case (Cons r rs)
  then have "store_inv dump (restore_record dump ord r rt)"
    "restored_keys (restore_record dump ord r rt) (insert (r_sequence r) seen)"
    using restore_record_keeps [OF Cons.prems(1,2) _ assms(5), of r] by auto
  then show ?case using Cons.prems(3,4) by (simp add: Cons.IH [of _ "insert (r_sequence r) seen"])
qed simp

text \<open>A runtime before its first view: an accepted model, and a journal opened from a file.\<close>

definition new_runtime :: "(json \<Rightarrow> string res) \<Rightarrow> (string \<Rightarrow> json res) \<Rightarrow> runtime \<Rightarrow> bool" where
  "new_runtime dump parse rt \<longleftrightarrow> wf_model dump (rt_model rt) \<and> rt_views rt = [] \<and> rt_order rt = [] \<and>
     (\<forall>j node. rt_journal rt = Some (j, node) \<longrightarrow>
        (\<exists>parent_ok cfg content. journal_open parse parent_ok cfg content = Inr (j, node) \<and> cfg_recent_limit cfg = 512))"

lemma restored_inv:
  assumes "new_runtime dump parse rt" and "reorders ord"
  shows "store_inv dump (restore_journal_records dump ord rt)"
proof -
  have inv: "store_inv dump rt"
    using assms(1) by (simp add: new_runtime_def store_inv_def store_shape_def view_keys_def views_current_def)
  show ?thesis
  proof (cases "rt_journal rt")
    case (Some st)
    obtain j node where st: "st = (j, node)" by (cases st)
    with Some assms(1) obtain parent_ok cfg content where "journal_open parse parent_ok cfg content = Inr (j, node)"
      "cfg_recent_limit cfg = 512"
      by (auto simp: new_runtime_def)
    then have "distinct (map r_sequence (j_recent j))" by (intro opened_numbers_distinct) auto
    then have "distinct (map r_sequence (journal_recent 512 j))"
      by (simp add: journal_recent_def Let_def drop_map [symmetric])
    moreover have "restored_keys rt {}"
      using assms(1) by (simp add: restored_keys_def new_runtime_def view_keys_def)
    ultimately show ?thesis
      using restore_all_keeps [OF inv, of "{}"] assms(2) by (simp add: restore_journal_records_def Some st)
  qed (use inv in \<open>simp add: restore_journal_records_def\<close>)
qed

section \<open>Every reachable state\<close>

inductive serving ::
  "(json \<Rightarrow> string res) \<Rightarrow> (string \<Rightarrow> json res) \<Rightarrow> (members \<Rightarrow> members) \<Rightarrow> (members \<Rightarrow> members) \<Rightarrow> system \<Rightarrow> bool"
  for dump parse ord vord where
  boot: "serving dump parse ord vord (restore_journal_records dump ord rt, replicate calls Idle)"
    if "new_runtime dump parse rt"
| step: "serving dump parse ord vord s'" if "serving dump parse ord vord s" and "service_step dump ord vord s s'"

lemma reserved_ids_split:
  "i < length as \<Longrightarrow> reserved_ids as = reserved_ids (take i as) @ reserved_ids [as ! i] @ reserved_ids (drop (Suc i) as)"
proof -
  assume "i < length as"
  then have "as = take i as @ as ! i # drop (Suc i) as" by (rule id_take_nth_drop)
  then show ?thesis
    by (metis (no_types, lifting) append.simps concat_append map_append reserved_ids_def)
qed

lemma reserved_ids_update:
  "i < length as \<Longrightarrow> reserved_ids (as[i := a]) = reserved_ids (take i as) @ reserved_ids [a] @ reserved_ids (drop (Suc i) as)"
  using reserved_ids_split [of i "as[i := a]"] by simp

lemma reserved_ids_in: "k \<in> set (reserved_ids as) \<longleftrightarrow> (\<exists>view g. Reserved k view g \<in> set as)"
  by (force simp: reserved_ids_def split: activity.splits)

text \<open>Another call is not disturbed when no key it has reserved appears.\<close>

lemma holds_well_kept:
  assumes "holds_well dump rt a" and "rt_session rt' = rt_session rt" and "rt_sequence rt \<le> rt_sequence rt'"
    and "\<And>k. k \<in> view_keys rt' \<Longrightarrow> k \<in> view_keys rt \<or> k \<notin> set (reserved_ids [a])"
  shows "holds_well dump rt' a"
  using assms by (cases a) (auto simp: holds_well_def reserved_ids_def intro: issued_mono)

lemma system_inv_update:
  assumes inv: "system_inv dump (rt, as)" and i: "i < length as" and rt': "store_inv dump rt'"
    and same: "rt_session rt' = rt_session rt" "rt_sequence rt \<le> rt_sequence rt'"
    and keys: "view_keys rt' \<subseteq> view_keys rt \<union> set (reserved_ids [as ! i])"
    and a: "holds_well dump rt' a"
    and ids: "reserved_ids [a] = [] \<or> (\<exists>k. reserved_ids [a] = [k] \<and> k \<notin> set (reserved_ids as))"
  shows "system_inv dump (rt', as[i := a])"
proof -
  have dist: "distinct (reserved_ids as)" and old: "\<forall>a \<in> set as. holds_well dump rt a"
    using inv by (simp_all add: system_inv_def)
  have "distinct (reserved_ids (as[i := a]))"
    using dist ids unfolding reserved_ids_update [OF i] reserved_ids_split [OF i] by auto
  moreover have "holds_well dump rt' b" if "b \<in> set (as[i := a])" for b
  proof (cases "b = a")
    case False
    with that have b: "b \<in> set (take i as) \<or> b \<in> set (drop (Suc i) as)" by (auto simp: upd_conv_take_nth_drop i)
    then have "b \<in> set as" by (meson in_set_dropD in_set_takeD)
    have "set (reserved_ids [as ! i]) \<inter> set (reserved_ids [b]) = {}"
    proof -
      have "reserved_ids [as ! i] = [] \<or> reserved_ids [b] = [] \<or>
          (\<exists>k l v g v' g'. as ! i = Reserved k v g \<and> b = Reserved l v' g')"
        by (cases "as ! i"; cases b) (simp_all add: reserved_ids_def)
      then show ?thesis
      proof (elim disjE exE conjE)
        fix k l v g v' g' assume r: "as ! i = Reserved k v g" "b = Reserved l v' g'"
        have "l \<in> set (reserved_ids (take i as)) \<union> set (reserved_ids (drop (Suc i) as))"
          using r(2) b by (auto simp: reserved_ids_in)
        then show ?thesis
          using dist r unfolding reserved_ids_split [OF i] by (auto simp: reserved_ids_def)
      qed auto
    qed
    then show ?thesis
      using keys \<open>b \<in> set as\<close> by (intro holds_well_kept [OF bspec [OF old] same]) auto
  qed (use a in simp)
  ultimately show ?thesis using rt' by (simp add: system_inv_def)
qed

lemma system_inv_quiet:
  assumes "system_inv dump (rt, as)" and "store_inv dump rt'" and "rt_session rt' = rt_session rt"
    and "rt_sequence rt' = rt_sequence rt" and "view_keys rt' \<subseteq> view_keys rt"
  shows "system_inv dump (rt', as)"
proof -
  have "holds_well dump rt' a" if "holds_well dump rt a" for a
    using assms(3-5) by (intro holds_well_kept [OF that]) auto
  with assms(1,2) show ?thesis by (auto simp: system_inv_def)
qed

lemma change_model_inv:
  assumes "store_inv dump rt" and "index_model dump m = Inr ix" and "reorders ord" and "reorders vord" and "dumps_all dump"
    and "change_model dump ord vord cause m scenario path rt = (r, rt')"
  shows "store_inv dump rt' \<and> rt_session rt' = rt_session rt \<and> rt_sequence rt' = rt_sequence rt \<and> view_keys rt' = view_keys rt"
proof (cases "stale_rescan cause m (rt_model rt)")
  case True
  with assms(1,6) show ?thesis by (simp add: change_model_def)
next
  case False
  have wf: "wf_model dump m" using assms(2) by (simp add: index_model_Inr)
  from change_model_facts [OF assms(1) wf assms(3-5) False, of scenario path] obtain rt1 n r1
    where "change_model dump ord vord cause m scenario path rt = (Inr (n, r1), rt1)"
    and new1: "store_shape rt1" "view_keys rt1 = view_keys rt" "rt_session rt1 = rt_session rt"
    "rt_sequence rt1 = rt_sequence rt" "rt_model rt1 = m" "views_current rt1" by blast
  with assms(6) have "rt' = rt1" by simp
  note new = new1 [folded this]
  have "\<forall>k \<in> view_keys rt. issued rt k" using assms(1) by (simp add: store_inv_def)
  with new wf show ?thesis by (simp add: store_inv_def issued_def)
qed

lemma system_inv_local:
  assumes "system_inv dump (rt, as)" and "i < length as" and "holds_well dump rt a" and "\<forall>k view g. a \<noteq> Reserved k view g"
  shows "system_inv dump (rt, as[i := a])"
proof -
  have "store_inv dump rt" using assms(1) by (simp add: system_inv_def)
  moreover have "reserved_ids [a] = []" using assms(4) by (cases a) (simp_all add: reserved_ids_def)
  ultimately show ?thesis using assms(3) by (intro system_inv_update [OF assms(1,2)]) auto
qed

lemma system_inv_held: "system_inv dump (rt, as) \<Longrightarrow> i < length as \<Longrightarrow> as ! i = a \<Longrightarrow> holds_well dump rt a"
  by (auto simp: system_inv_def)

lemma service_step_inv:
  assumes step: "service_step dump ord vord s s'" and inv: "system_inv dump s"
    and ord: "reorders ord" "reorders vord" "dumps_all dump"
  shows "system_inv dump s'"
  using step inv
proof (induction rule: service_step.induct)
  case (snap i as rt m g)
  have "wf_model dump m" using snap(3,4) by (simp add: system_inv_def store_inv_def model_snapshot_def)
  then show ?case by (intro system_inv_local [OF snap(4,1)]) (simp_all add: holds_well_def)
next
  case (compose i as m g task view rt)
  have wf: "wf_model dump m" using system_inv_held [OF compose(4,1,2)] by (simp add: holds_well_def)
  then have "readable_view view"
    using compose(3) resolved_readable [OF wf ord(1)] by (simp add: resolve_task_def index_model_Inr)
  then show ?case by (intro system_inv_local [OF compose(4,1)]) (simp_all add: holds_well_def)
next
  case (reserve i as view g rt k rt')
  have st: "store_inv dump rt" "\<forall>a \<in> set as. holds_well dump rt a" using reserve(5) by (simp_all add: system_inv_def)
  note new = next_view_id_facts [OF reserve(3,4)]
  have old: "\<forall>k \<in> view_keys rt. issued rt k" using st(1) by (simp add: store_inv_def)
  have same: "rt_views rt' = rt_views rt" "rt_order rt' = rt_order rt" "rt_session rt' = rt_session rt"
    "rt_generation rt' = rt_generation rt" "rt_model rt' = rt_model rt" "view_keys rt' = view_keys rt"
    using new(1) by (simp_all add: view_keys_def)
  have inv': "store_inv dump rt'"
    using st(1) old issued_mono [OF _ same(3) new(2)] same
    by (simp add: store_inv_def store_shape_def views_current_def stamped_def)
  have "readable_view view" using system_inv_held [OF reserve(5,1,2)] by (simp add: holds_well_def)
  moreover have "k \<notin> view_keys rt" using old new(4) by auto
  ultimately have held: "holds_well dump rt' (Reserved k view g)" using new(3) same by (simp add: holds_well_def)
  have "k \<notin> set (reserved_ids as)"
    using st(2) new(4) by (fastforce simp: reserved_ids_in holds_well_def)
  then show ?case
    by (intro system_inv_update [OF reserve(5,1) inv' same(3) new(2) _ held]) (simp_all add: same reserved_ids_def)
next
  case (store i as k view g rt view' rt')
  have st: "store_inv dump rt" using store(4) by (simp add: system_inv_def)
  have h: "readable_view view" "issued rt k" "k \<notin> view_keys rt"
    using system_inv_held [OF store(4,1,2)] by (simp_all add: holds_well_def)
  note f = store_view_facts [OF st store(3) h]
  show ?case
    by (rule system_inv_update [OF store(4,1) f(1,3)])
       (use f store(2) in \<open>auto simp: holds_well_def reserved_ids_def\<close>)
next
  case (saved i as k view fault now rt r rt')
  have st: "store_inv dump rt" using saved(4) by (simp add: system_inv_def)
  note f = record_view_facts [OF st saved(3)]
  show ?case
    by (rule system_inv_update [OF saved(4,1) f(1,3)]) (use f in \<open>auto simp: holds_well_def reserved_ids_def\<close>)
next
  case (trust i as supplied rt canonical)
  have "views_current rt" using trust(4) by (simp add: system_inv_def store_inv_def)
  moreover from trust(3) obtain k where "map_of (rt_views rt) k = Some canonical"
    by (auto simp: check_trusted_def trusted_view_def split: if_splits option.splits)
  ultimately have "readable_view canonical" by (auto simp: views_current_def dest!: map_of_SomeD)
  then show ?case by (intro system_inv_local [OF trust(4,1)]) (simp_all add: holds_well_def)
next
  case (revise i as canonical rt m g revised)
  have wf: "wf_model dump m" using revise(3,5) by (simp add: system_inv_def store_inv_def model_snapshot_def)
  have "readable_view canonical" using system_inv_held [OF revise(5,1,2)] by (simp add: holds_well_def)
  from reconcile_ends [OF wf ord(1,3) this] revise(4) have "readable_view revised" by simp
  then show ?case by (intro system_inv_local [OF revise(5,1)]) (simp_all add: holds_well_def)
next
  case (commit i as canonical revised g rt r rt')
  have st: "store_inv dump rt" using commit(4) by (simp add: system_inv_def)
  have "readable_view revised" using system_inv_held [OF commit(4,1,2)] by (simp add: holds_well_def)
  note c = commit_facts [OF st commit(3) this]
  show ?case
    by (rule system_inv_update [OF commit(4,1) c(1,3)]) (use c in \<open>auto simp: holds_well_def reserved_ids_def\<close>)
next
  case (change rt candidate ix cause scenario path r rt' as)
  then have "store_inv dump rt" by (simp add: system_inv_def)
  from change_model_inv [OF this change(2) ord change(3)] show ?case
    by (intro system_inv_quiet [OF change(4)]) simp_all
next
  case (changed rt as g)
  then have "store_inv dump rt" by (simp add: system_inv_def)
  from store_inv_same [OF this, of "after_change g rt"] show ?case
    by (intro system_inv_quiet [OF changed]) (simp_all add: after_change_def)
next
  case (logged fault kind payload rt r rt' as)
  then have "store_inv dump rt" by (simp add: system_inv_def)
  with append_operational_facts [OF logged(1)] store_inv_same [OF this, of rt'] show ?case
    by (intro system_inv_quiet [OF logged(2)]) simp_all
next
  case (fails i as rt)
  then show ?case by (intro system_inv_local [OF fails(3,1)]) (simp_all add: holds_well_def)
qed

lemma serving_inv:
  assumes "serving dump parse ord vord s" and "reorders ord" and "reorders vord" and "dumps_all dump"
  shows "system_inv dump s"
  using assms(1)
proof (induction rule: serving.induct)
  case (boot rt calls)
  have "reserved_ids (replicate calls Idle) = []" by (simp add: reserved_ids_def concat_eq_Nil_conv)
  then show ?case using restored_inv [OF boot assms(2)] by (simp add: system_inv_def holds_well_def)
next
  case (step s s')
  then show ?case by (intro service_step_inv [OF step(2) step.IH assms(2-4)])
qed

section \<open>Properties\<close>



section \<open>Examples\<close>

definition demo_cache :: "json cache" where
  "demo_cache = \<lparr>c_capacity = 4, c_ttl = 1000, c_recency = [], c_entries = [], c_hits = 0, c_misses = 0,
     c_expirations = 0, c_evictions = 0, c_invalidations = 0\<rparr>"

definition demo_store :: tstore where
  "demo_store = \<lparr>t_stale_after = 3000, t_max_values = 512, t_values = [], t_sources = [], t_generation = 0,
     t_accepted = 0, t_rejected = 0, t_accepted_values = 0, t_last_received = 0\<rparr>"

definition demo_machine :: machine where
  "demo_machine = \<lparr>m_component = ''service'', m_state = KReady, m_reason = [], m_transitions = 1\<rparr>"

definition demo_runtime :: runtime where
  "demo_runtime = \<lparr>rt_options = default_options, rt_session = ''session-1'', rt_model = demo_model,
     rt_scenario = ''demo'', rt_path = ''demo.json'', rt_generation = 0, rt_changes = 0, rt_watch_failures = 0,
     rt_views = [], rt_order = [], rt_sequence = 0, rt_journal = None, rt_retrievals = demo_cache,
     rt_interpretations = demo_cache, rt_telemetry = demo_store, rt_service = demo_machine,
     rt_source = demo_machine, rt_provider = demo_machine, rt_store = demo_machine, rt_started = True,
     rt_stopped = False\<rparr>"

lemma demo_runtime_new: "new_runtime (\<lambda>_. Inr ''x'') parse demo_runtime"
  using demo_model_wf by (simp add: new_runtime_def demo_runtime_def)

text \<open>One call has published a view.\<close>

lemma demo_serving:
  "\<exists>view rt. resolve_task (\<lambda>_. Inr ''x'') rev demo_model demo_task = Inr view \<and>
     rt_views rt = [(''session-1-view-1'', stamp_view demo_runtime ''session-1-view-1'' 0 view)] \<and>
     rt_model rt = demo_model \<and> rt_generation rt = 0 \<and> serving (\<lambda>_. Inr ''x'') parse rev rev (rt, [Saved ''session-1-view-1''
       (stamp_view demo_runtime ''session-1-view-1'' 0 view)])"
proof -
  let ?d = "\<lambda>_. Inr ''x''" and ?k = "''session-1-view-1''"
  obtain view where v: "resolve_task ?d rev demo_model demo_task = Inr view"
    using resolve_task_accepts [OF demo_model_wf reorders_rev demo_dumps, of demo_task] demo_task_ok by blast
  define sv where "sv = stamp_view demo_runtime ?k 0 view"
  have s0: "serving ?d parse rev rev (demo_runtime, [Idle])"
    using serving.boot [OF demo_runtime_new, of parse rev rev 1] by (simp add: restore_journal_records_def demo_runtime_def)
  have s1: "serving ?d parse rev rev (demo_runtime, [Snapped demo_model 0])"
    using serving.step [OF s0 service_step.snap [where i = 0 and m = demo_model and g = 0]]
    by (simp add: model_snapshot_def demo_runtime_def)
  have s2: "serving ?d parse rev rev (demo_runtime, [Composed view 0])"
    using serving.step [OF s1 service_step.compose [where i = 0 and m = demo_model and g = 0, OF _ _ v]] by simp
  have "char_of (49 :: nat) = CHR ''1''" by code_simp
  then have "next_view_id demo_runtime = (?k, demo_runtime\<lparr>rt_sequence := 1\<rparr>)"
    by (simp add: next_view_id_def Let_def demo_runtime_def view_id_def show_nat.simps digit_char_def)
  then have s3: "serving ?d parse rev rev (demo_runtime\<lparr>rt_sequence := 1\<rparr>, [Reserved ?k view 0])"
    using serving.step [OF s2 service_step.reserve [where i = 0 and view = view and g = 0]]
    by (simp add: demo_runtime_def)
  have st: "store_view ?k view 0 (demo_runtime\<lparr>rt_sequence := 1\<rparr>) =
      Some (sv, demo_runtime\<lparr>rt_sequence := 1, rt_views := [(?k, sv)], rt_order := [?k]\<rparr>)"
    by (simp add: store_view_def Let_def sv_def stamp_view_def insert_view_def make_room_def maximum_saved_views_def
        demo_runtime_def)
  have "serving ?d parse rev rev (demo_runtime\<lparr>rt_sequence := 1, rt_views := [(?k, sv)], rt_order := [?k]\<rparr>, [Saved ?k sv])"
    using serving.step [OF s3 service_step.store [where i = 0 and view = view and g = 0 and k = ?k, OF _ _ st]] by simp
  with v show ?thesis unfolding sv_def by (intro exI conjI) (assumption, simp_all add: demo_runtime_def)
qed



end
