(* ===== verification/Runtime_Answers.thy ===== *)
theory Runtime_Answers
  imports Runtime_Views Retrieval
begin

text \<open>
  How the runtime answers a prompt (\<open>runtime_context.cpp\<close>): the keys of the two caches, the
  retrieval and interpretation looked up or computed, the checks of a ready answer and the view
  published for it. A call reads the model once (\<open>interpret_begin\<close>) and finishes in a later state
  of the runtime (\<open>interpret_finish\<close>). The clocks, the providers and \<open>dump\<close> are arguments.
\<close>

section \<open>Cache keys\<close>

text \<open>The loop over the prompt: whether a space is pending, and the text so far.\<close>

fun normalize_from :: "bool \<Rightarrow> string \<Rightarrow> string \<Rightarrow> string" where
  "normalize_from pending out [] = out"
| "normalize_from pending out (c # cs) =
     (if is_space c then normalize_from (out \<noteq> []) out cs
      else normalize_from False (out @ (if pending then '' '' else []) @ [to_lower c]) cs)"

definition normalized_cache_prompt :: "string \<Rightarrow> string" where
  "normalized_cache_prompt prompt = normalize_from False [] prompt"

definition retrieval_limits_of :: "runtime_options \<Rightarrow> retrieval_limits" where
  "retrieval_limits_of opts =
     (let bytes = nat (o_provider_context_bytes opts)
      in default_retrieval_limits\<lparr>r_max_serialized_bytes := bytes, r_max_estimated_tokens := (bytes + 3) div 4\<rparr>)"

definition show_int :: "int \<Rightarrow> string" where
  "show_int n = (if n < 0 then CHR ''-'' # show_nat (nat (- n)) else show_nat (nat n))"

definition unit_separator :: string where
  "unit_separator = [CHR 0x1F]"

definition option_fields :: "runtime_options \<Rightarrow> string list" where
  "option_fields opts =
     [o_provider_url opts, o_provider_model opts, show_int (o_provider_timeout_ms opts),
      show_int (o_provider_context_bytes opts), show_int (o_provider_max_output_tokens opts),
      if o_allow_remote_inference opts then ''1'' else ''0'']"

definition separated :: "string list \<Rightarrow> string" where
  "separated parts = concat (map (\<lambda>part. part @ unit_separator) parts)"

definition cache_key :: "json \<Rightarrow> u64 \<Rightarrow> runtime_options \<Rightarrow> string \<Rightarrow> string \<Rightarrow> string" where
  "cache_key model generation opts mode prompt =
     separated ([sfld model ''model_id'', show_nat (unat (model_revision model)), show_nat (unat generation), mode] @
       option_fields opts) @ normalized_cache_prompt prompt"

section \<open>Retrieval\<close>

definition context_summary :: "(json \<Rightarrow> string res) \<Rightarrow> json \<Rightarrow> json res" where
  "context_summary dump retrieval =
     ebind (dump retrieval) (\<lambda>text.
     ebind (json_at retrieval ''scope'') (\<lambda>scope.
     ebind (json_at retrieval ''truncated'') (\<lambda>truncated.
     ebind (efold (\<lambda>any (k, v). if any then Inr True else get_bool v) False (json_items truncated)) (\<lambda>any.
     ebind (json_at retrieval ''candidates'') (\<lambda>candidates.
     ebind (emap (\<lambda>k. ebind (json_at scope k) (\<lambda>v. Inr (JUInt (of_nat (json_size v)))))
       [''assets'', ''relationships'', ''tags'', ''alarms'']) (\<lambda>sizes.
     let bytes = JUInt (of_nat (length text)); found = JUInt (of_nat (json_size candidates))
     in Inr (jobj [(''serialized_bytes'', bytes), (''bytes'', bytes),
          (''estimated_tokens'', JUInt (of_nat ((length text + 3) div 4))),
          (''token_estimate'', JStr ''utf8-bytes-divided-by-four''),
          (''candidate_count'', found), (''candidates'', found),
          (''asset_count'', sizes ! 0), (''assets'', sizes ! 0),
          (''relationship_count'', sizes ! 1), (''relationships'', sizes ! 1),
          (''tag_count'', sizes ! 2), (''tags'', sizes ! 2),
          (''alarm_count'', sizes ! 3), (''alarms'', sizes ! 3),
          (''truncation'', truncated), (''truncated'', JBool any), (''any_truncated'', JBool any)])))))))"

text \<open>The cached retrieval for a prompt, or a fresh one that is cached; the flag says which.\<close>

definition look_up_retrieval ::
  "(json \<Rightarrow> string res) \<Rightarrow> int \<Rightarrow> json \<Rightarrow> u64 \<Rightarrow> string \<Rightarrow> runtime \<Rightarrow> (bool \<times> json) res \<times> runtime" where
  "look_up_retrieval dump now model generation prompt rt =
     (let key = cache_key model generation (rt_options rt) ''retrieval'' prompt;
          (cached, c) = cache_get now key (rt_retrievals rt);
          rt = rt\<lparr>rt_retrievals := c\<rparr>
      in case cached of
           Some result \<Rightarrow> (Inr (True, result), rt)
         | None \<Rightarrow>
             (case Retrieval.retrieve dump model prompt (retrieval_limits_of (rt_options rt)) of
                Inl e \<Rightarrow> (Inl e, rt)
              | Inr result \<Rightarrow>
                  (Inr (False, result), rt\<lparr>rt_retrievals := cache_put now key result (rt_retrievals rt)\<rparr>)))"

definition hit_state :: "bool \<Rightarrow> json" where
  "hit_state hit = jobj [(''state'', JStr (if hit then ''hit'' else ''miss''))]"

definition retrieval_answer ::
  "(json \<Rightarrow> string res) \<Rightarrow> json \<times> json \<Rightarrow> json \<Rightarrow> u64 \<Rightarrow> runtime \<Rightarrow> bool \<times> json \<Rightarrow> json res" where
  "retrieval_answer dump elapsed model generation rt = (\<lambda>(hit, result).
     let result = oset (oset result ''session_id'' (JStr (rt_session rt))) ''context_generation'' (JUInt generation)
     in ebind (context_summary dump result) (\<lambda>summary.
        Inr (oset result ''execution''
          (jobj [(''cache'', jobj [(''retrieval'', hit_state hit)]), (''context'', summary),
                 (''elapsed_us'', fst elapsed), (''elapsed_ms'', snd elapsed),
                 (''model_id'', fld model ''model_id''), (''model_revision'', fld model ''revision''),
                 (''context_generation'', JUInt generation)]))))"

definition retrieve_context ::
  "(json \<Rightarrow> string res) \<Rightarrow> int \<Rightarrow> json \<times> json \<Rightarrow> string \<Rightarrow> runtime \<Rightarrow> json res \<times> runtime" where
  "retrieve_context dump now elapsed prompt rt =
     (let (model, generation) = model_snapshot rt
      in case look_up_retrieval dump now model generation prompt rt of
           (Inl e, rt) \<Rightarrow> (Inl e, rt)
         | (Inr found, rt) \<Rightarrow> (retrieval_answer dump elapsed model generation rt found, rt))"

section \<open>Interpretation\<close>

definition default_usage :: json where
  "default_usage = jobj [(''reported'', JBool False), (''provider_call'', JBool False)]"

text \<open>The answer of the provider without what is kept beside it, and its usage report.\<close>

definition cacheable_answer :: "string \<Rightarrow> json \<Rightarrow> (json \<times> json) res" where
  "cacheable_answer selected result =
     ebind (value_json result ''provider_usage'' default_usage) (\<lambda>usage.
     ebind (json_set usage ''provider_call'' (JBool (selected \<noteq> ''rules''))) (\<lambda>usage.
     Inr (oerase (oerase result ''provider_usage'') ''retrieval'', usage)))"

definition look_up_interpretation ::
  "(exn \<Rightarrow> string) \<Rightarrow> (string \<times> provider) option \<Rightarrow> int \<Rightarrow> json \<Rightarrow> u64 \<Rightarrow> string \<Rightarrow> string \<Rightarrow> json \<Rightarrow> runtime \<Rightarrow>
     (bool \<times> json \<times> json) res \<times> runtime" where
  "look_up_interpretation what llama now model generation prompt mode retrieval rt =
     (let selected = (if mode = [] then inference_mode llama else mode);
          key = cache_key model generation (rt_options rt) selected prompt;
          (cached, c) = cache_get now key (rt_interpretations rt);
          rt = rt\<lparr>rt_interpretations := c\<rparr>
      in case cached of
           Some result \<Rightarrow> (Inr (True, result, default_usage), rt)
         | None \<Rightarrow>
             (case ebind (interpret_prompt what llama model prompt retrieval mode) (cacheable_answer selected) of
                Inl e \<Rightarrow> (Inl e, rt)
              | Inr (result, usage) \<Rightarrow>
                  (Inr (False, result, usage),
                   rt\<lparr>rt_interpretations := cache_put now key result (rt_interpretations rt)\<rparr>)))"

text \<open>What a call holds after its lookups.\<close>

record pending_answer =
  pa_model :: json
  pa_generation :: u64
  pa_selected :: string
  pa_retrieval_hit :: bool
  pa_retrieval :: json
  pa_hit :: bool
  pa_result :: json
  pa_usage :: json

definition interpret_begin ::
  "(json \<Rightarrow> string res) \<Rightarrow> (exn \<Rightarrow> string) \<Rightarrow> (string \<times> provider) option \<Rightarrow> int \<Rightarrow> string \<Rightarrow> string \<Rightarrow> runtime \<Rightarrow>
     pending_answer res \<times> runtime" where
  "interpret_begin dump what llama now prompt mode rt =
     (let (model, generation) = model_snapshot rt
      in case look_up_retrieval dump now model generation prompt rt of
           (Inl e, rt) \<Rightarrow> (Inl e, rt)
         | (Inr (rhit, retrieval), rt) \<Rightarrow>
             (case look_up_interpretation what llama now model generation prompt mode retrieval rt of
                (Inl e, rt) \<Rightarrow> (Inl e, rt)
              | (Inr (hit, result, usage), rt) \<Rightarrow>
                  (Inr \<lparr>pa_model = model, pa_generation = generation,
                        pa_selected = (if mode = [] then inference_mode llama else mode),
                        pa_retrieval_hit = rhit, pa_retrieval = retrieval, pa_hit = hit,
                        pa_result = result, pa_usage = usage\<rparr>, rt)))"

text \<open>A ready task gets the caller's own words and screen.\<close>

definition personal_answer :: "string \<Rightarrow> json \<Rightarrow> json \<Rightarrow> json res" where
  "personal_answer prompt client result =
     ebind (value_string result ''status'' []) (\<lambda>status.
     if status = ''ready'' \<and> contains result ''task''
     then ebind (json_set (fld result ''task'') ''original_request'' (JStr prompt)) (\<lambda>task.
       Inr (oset result ''task'' (if json_empty client then task else oset task ''client'' client)))
     else Inr result)"

definition with_execution :: "json \<times> json \<Rightarrow> json \<Rightarrow> pending_answer \<Rightarrow> json \<Rightarrow> json" where
  "with_execution elapsed summary pa result =
     oset (oset result ''execution''
       (jobj [(''cache'', jobj [(''retrieval'', hit_state (pa_retrieval_hit pa)), (''interpretation'', hit_state (pa_hit pa))]),
              (''context'', summary), (''elapsed_us'', fst elapsed), (''elapsed_ms'', snd elapsed),
              (''provider_call'', JBool (\<not> pa_hit pa \<and> pa_selected pa \<noteq> ''rules'')),
              (''provider_usage'', pa_usage pa), (''model_id'', fld (pa_model pa) ''model_id''),
              (''model_revision'', fld (pa_model pa) ''revision''),
              (''context_generation'', JUInt (pa_generation pa)),
              (''validation'', JStr ''native-scope-validated'')])) ''provider_usage'' (pa_usage pa)"

text \<open>The checks of a ready task against the model, and the task with the model's identity.\<close>

definition known_anchor :: "json \<Rightarrow> string \<Rightarrow> bool res" where
  "known_anchor model selected =
     ebind (json_at model ''assets'') (\<lambda>assets.
     efold (\<lambda>known asset. if known then Inr True
       else ebind (value_string asset ''id'' []) (\<lambda>k. Inr (k = selected))) False (json_values assets))"

definition check_answer_task :: "json \<Rightarrow> json \<Rightarrow> json res" where
  "check_answer_task model result =
     (if \<not> contains result ''task'' \<or> \<not> is_object (fld result ''task'')
      then Inl (provider_schema ''ready interpretation requires task'')
      else let task = fld result ''task''
        in if contains task ''model_id'' \<and> \<not> jeq (fld task ''model_id'') (fld model ''model_id'')
           then Inl (provider_schema ''provider task model_id does not match active model'')
           else if contains task ''model_revision'' \<and> \<not> jeq (fld task ''model_revision'') (fld model ''revision'')
           then Inl (provider_schema ''provider task model_revision does not match active model'')
           else ethen (if \<not> contains task ''anchor_asset_id'' then Inr ()
               else ebind (string_at task ''anchor_asset_id'') (\<lambda>selected.
                 ebind (known_anchor model selected) (\<lambda>known.
                 throw_if (\<not> known) (provider_schema ''provider task anchor_asset_id is not in the active model''))))
             (Inr (oset (oset task ''model_id'' (fld model ''model_id'')) ''model_revision'' (fld model ''revision''))))"

text \<open>The rest of the call, in the state it finds then.\<close>

definition answer_view ::
  "(json \<Rightarrow> string res) \<Rightarrow> (members \<Rightarrow> members) \<Rightarrow> (nat \<times> exn) option \<Rightarrow> u64 \<Rightarrow> pending_answer \<Rightarrow> json \<Rightarrow> runtime \<Rightarrow>
     json res \<times> runtime" where
  "answer_view dump ord fault stamp_ms pa result rt =
     (case ebind (check_answer_task (pa_model pa) result) (\<lambda>task.
           ebind (resolve_task dump ord (pa_model pa) task) (\<lambda>view. Inr (task, view))) of
        Inl e \<Rightarrow> (Inl e, rt)
      | Inr (task, view) \<Rightarrow>
          (case publish_view dump fault stamp_ms view (pa_generation pa) rt of
             (Inl e, rt) \<Rightarrow> (Inl e, rt)
           | (Inr None, rt) \<Rightarrow>
               (Inl (InferenceError ''stale_context'' ''active model changed while publishing view''), rt)
           | (Inr (Some view), rt) \<Rightarrow> (Inr (oset (oset result ''task'' task) ''view'' view), rt)))"

definition interpret_finish ::
  "(json \<Rightarrow> string res) \<Rightarrow> (members \<Rightarrow> members) \<Rightarrow> (nat \<times> exn) option \<Rightarrow> u64 \<Rightarrow> json \<times> json \<Rightarrow> string \<Rightarrow> json \<Rightarrow>
     pending_answer \<Rightarrow> runtime \<Rightarrow> json res \<times> runtime" where
  "interpret_finish dump ord fault stamp_ms elapsed prompt client pa rt =
     (case personal_answer prompt client (pa_result pa) of
        Inl e \<Rightarrow> (Inl e, rt)
      | Inr result \<Rightarrow>
          if pa_generation pa \<noteq> rt_generation rt
          then (Inl (InferenceError ''stale_context'' ''active model changed while inference was running''), rt)
          else (case context_summary dump (pa_retrieval pa) of
                  Inl e \<Rightarrow> (Inl e, rt)
                | Inr summary \<Rightarrow>
                    (let result = with_execution elapsed summary pa result
                     in case ebind (value_string result ''interpreter'' (pa_selected pa))
                               (\<lambda>_. value_string result ''status'' ''unknown'') of
                          Inl e \<Rightarrow> (Inl e, rt)
                        | Inr _ \<Rightarrow>
                            (case value_string result ''status'' [] of
                               Inl e \<Rightarrow> (Inl e, rt)
                             | Inr status \<Rightarrow>
                                 if status \<noteq> ''ready'' then (Inr result, rt)
                                 else answer_view dump ord fault stamp_ms pa result rt))))"

definition interpret_context ::
  "(json \<Rightarrow> string res) \<Rightarrow> (members \<Rightarrow> members) \<Rightarrow> (exn \<Rightarrow> string) \<Rightarrow> (string \<times> provider) option \<Rightarrow>
     (nat \<times> exn) option \<Rightarrow> int \<Rightarrow> u64 \<Rightarrow> json \<times> json \<Rightarrow> string \<Rightarrow> string \<Rightarrow> json \<Rightarrow> runtime \<Rightarrow> json res \<times> runtime" where
  "interpret_context dump ord what llama fault now stamp_ms elapsed prompt mode client rt =
     (case interpret_begin dump what llama now prompt mode rt of
        (Inl e, rt) \<Rightarrow> (Inl e, rt)
      | (Inr pa, rt) \<Rightarrow> interpret_finish dump ord fault stamp_ms elapsed prompt client pa rt)"

end
