(* ===== verification/Runtime_Caching.thy ===== *)
theory Runtime_Caching
  imports Runtime_Safety Runtime_Answers
begin

text \<open>
  The caches of the runtime are transparent: prompts with the same normalised text are about the
  same terms, a key determines the generation and the normalised prompt, and in every reachable
  state a cached retrieval is the one that would be computed now.
\<close>

section \<open>What a prompt is about\<close>

text \<open>The maximal runs of letters and digits, in lower case.\<close>

fun split_words :: "string \<Rightarrow> string \<Rightarrow> string list" where
  "split_words current [] = (if current \<noteq> [] then [current] else [])"
| "split_words current (c # s) =
     (if ascii_alphanumeric c then split_words (current @ [to_lower c]) s
      else if current \<noteq> [] then current # split_words [] s
      else split_words [] s)"

lemma split_terms_words: "split_terms current s = map canonical_term (split_words current s)"
  by (induction s arbitrary: current) auto

lemma code_of_to_lower: "(of_char (to_lower c) :: nat) = of_char c + (if is_upper c then 32 else 0)"
  by (simp add: to_lower_def is_upper_def less_eq_char_def)

lemma to_lower_twice [simp]: "to_lower (to_lower c) = to_lower c"
  using code_of_to_lower [of c] by (auto simp: to_lower_def is_upper_def less_eq_char_def)

lemma alphanumeric_to_lower [simp]: "ascii_alphanumeric (to_lower c) = ascii_alphanumeric c"
  using code_of_to_lower [of c]
  by (auto simp: ascii_alphanumeric_def is_upper_def is_lower_def is_digit_def less_eq_char_def split: if_splits)

lemma space_not_alphanumeric: "is_space c \<Longrightarrow> \<not> ascii_alphanumeric c"
  by (auto simp: is_space_def ascii_alphanumeric_def is_upper_def is_lower_def is_digit_def less_eq_char_def)

lemma space_no_letter [simp]: "\<not> ascii_alphanumeric CHR '' ''" "ascii_alphanumeric c \<Longrightarrow> CHR '' '' \<noteq> to_lower c"
  by (simp add: space_not_alphanumeric is_space_def,
      metis alphanumeric_to_lower space_not_alphanumeric is_space_def)

text \<open>The loop of \<open>normalized_cache_prompt\<close> in terms of whether there is text already.\<close>

fun squeezed :: "bool \<Rightarrow> bool \<Rightarrow> string \<Rightarrow> string" where
  "squeezed started pending [] = []"
| "squeezed started pending (c # cs) =
     (if is_space c then squeezed started started cs
      else (if pending then '' '' else []) @ to_lower c # squeezed True False cs)"

lemma normalize_squeezed: "normalize_from pending out s = out @ squeezed (out \<noteq> []) pending s"
  by (induction s arbitrary: pending out) auto

lemma words_squeezed:
  "(current \<noteq> [] \<or> pending \<longrightarrow> started) \<Longrightarrow>
     split_words current (squeezed started pending s) = split_words current ((if pending then '' '' else []) @ s)"
proof (induction s arbitrary: current started pending)
  case (Cons c s)
  show ?case
  proof (cases "is_space c")
    case True
    then show ?thesis
      using Cons.IH [of current started started] Cons.prems space_not_alphanumeric [OF True] by auto
  next
    case False
    have "split_words u (squeezed True False s) = split_words u s" for u
      using Cons.IH [of u False True] by simp
    with False Cons.prems show ?thesis by auto
  qed
qed simp

lemma words_normalized: "split_words [] (normalized_cache_prompt p) = split_words [] p"
  using words_squeezed [of "[]" False False p] by (simp add: normalized_cache_prompt_def normalize_squeezed)

lemma first_field:
  "c \<notin> set x \<Longrightarrow> c \<notin> set y \<Longrightarrow> x @ c # xs = y @ c # ys \<longleftrightarrow> x = y \<and> xs = ys"
proof (induction x arbitrary: y)
  case (Cons a x)
  then show ?case by (cases y) auto
next
  case Nil
  then show ?case by (cases y) auto
qed

text \<open>A word between blanks.\<close>

lemma word_between_blanks:
  assumes "b \<notin> set w" and "b \<notin> set u" and "w \<noteq> []"
  shows "has_substring (b # w @ [b]) (b # u @ b # r) \<longleftrightarrow> u = w \<or> has_substring (b # w @ [b]) (b # r)"
proof -
  have "(\<exists>x y. u @ b # r = x @ b # w @ b # y) \<longleftrightarrow> (\<exists>x y. b # r = x @ b # w @ b # y)"
    using assms(2)
  proof (induction u)
    case (Cons a u)
    have "(\<exists>x y. (a # u) @ b # r = x @ b # w @ b # y) \<longleftrightarrow> (\<exists>x y. u @ b # r = x @ b # w @ b # y)"
      using Cons.prems by (auto simp: Cons_eq_append_conv)
    with Cons show ?case by simp
  qed simp
  moreover have "has_substring (b # w @ [b]) (b # u @ b # r) \<longleftrightarrow>
      u = w \<or> (\<exists>x y. u @ b # r = x @ b # w @ b # y)"
    using first_field [OF assms(2,1)] by (auto simp: has_substring_iff Cons_eq_append_conv)
  ultimately show ?thesis by (simp add: has_substring_iff)
qed

declare has_substring.simps [simp del]

definition blanked :: "string \<Rightarrow> string" where
  "blanked s = map (\<lambda>c. if ascii_alphanumeric c then to_lower c else CHR '' '') s"

lemma phrase_word:
  assumes "CHR '' '' \<notin> set w" and "w \<noteq> []"
  shows "CHR '' '' \<notin> set current \<Longrightarrow>
    has_substring (CHR '' '' # w @ '' '') (CHR '' '' # current @ blanked s @ '' '') \<longleftrightarrow> w \<in> set (split_words current s)"
proof (induction s arbitrary: current)
  case Nil
  have "\<not> has_substring (CHR '' '' # w @ '' '') '' ''" using assms(2) by (auto simp: has_substring_iff Cons_eq_append_conv)
  then show ?case
    using word_between_blanks [OF assms(1) Nil assms(2), of "[]"] assms(2) by (auto simp: blanked_def)
next
  case (Cons c s)
  show ?case
  proof (cases "ascii_alphanumeric c")
    case True
    then show ?thesis using Cons.IH [of "current @ [to_lower c]"] Cons.prems by (auto simp: blanked_def)
  next
    case False
    then show ?thesis
      using word_between_blanks [OF assms(1) Cons.prems assms(2), of "blanked s @ '' ''"] Cons.IH [of "[]"] assms(2)
      by (auto simp: blanked_def)
  qed
qed

lemma scope_phrase_words:
  "has_scope_phrase p \<longleftrightarrow> (\<exists>w \<in> {''for'', ''on'', ''from'', ''at''}. w \<in> set (split_words [] p))"
  using phrase_word [of "''for''" "[]" p] phrase_word [of "''on''" "[]" p]
    phrase_word [of "''from''" "[]" p] phrase_word [of "''at''" "[]" p]
  unfolding has_scope_phrase_def Let_def blanked_def [symmetric] by simp

lemma retrieve_cong:
  assumes "normalized_cache_prompt p = normalized_cache_prompt q" and "retrieval_prompt_ok p" and "retrieval_prompt_ok q"
  shows "Retrieval.retrieve dump m p limits = Retrieval.retrieve dump m q limits"
proof -
  have w: "split_words [] p = split_words [] q" using assms(1) words_normalized by metis
  then have "terms_for p = terms_for q" "has_scope_phrase p = has_scope_phrase q"
    by (simp_all add: terms_for_def split_terms_words scope_phrase_words)
  then have "initial_state m p limits = initial_state m q limits"
    "retrieval_facts_of m p limits roles = retrieval_facts_of m q limits roles" for roles
    by (simp_all add: initial_state_def retrieval_facts_of_def specific_reference_def Let_def)
  with assms(2,3) show ?thesis by (simp add: Retrieval.retrieve_def Let_def)
qed

section \<open>Keys\<close>

lemma show_nat_digits: "c \<in> set (show_nat n) \<Longrightarrow> 48 \<le> (of_char c :: nat)"
proof (induction n rule: show_nat.induct)
  case (1 n)
  then show ?case by (cases "n < 10") (auto simp: show_nat.simps [of n] digit_char_def)
qed

lemma no_separator:
  "CHR 0x1F \<notin> set (show_nat n)" "wf_model dump m \<Longrightarrow> CHR 0x1F \<notin> set (sfld m ''model_id'')"
proof -
  show "CHR 0x1F \<notin> set (show_nat n)" using show_nat_digits [of "CHR 0x1F" n] by auto
  have sep: "\<not> is_alnum CHR 0x1F"
    by (simp add: char_classes less_eq_char_def)
  show "CHR 0x1F \<notin> set (sfld m ''model_id'')" if "wf_model dump m"
  proof -
    have "valid_identity (sfld m ''model_id'')"
      using that by (simp add: wf_model_def Let_def wf_header_def has_ident_def)
    with sep show ?thesis by (auto simp: valid_identity_def list_all_iff split: if_splits)
  qed
qed

lemma cache_key_inject:
  assumes "cache_key m g opts mode p = cache_key m' g' opts mode q" and "wf_model dump m" and "wf_model dump m'"
  shows "g = g'" "normalized_cache_prompt p = normalized_cache_prompt q"
proof -
  note sep = no_separator(1) no_separator(2) [OF assms(2)] no_separator(2) [OF assms(3)]
  have "g = g' \<and> normalized_cache_prompt p = normalized_cache_prompt q"
    using assms(1) by (simp add: cache_key_def separated_def unit_separator_def first_field sep word_unat_eq_iff)
  then show "g = g'" "normalized_cache_prompt p = normalized_cache_prompt q" by blast+
qed

section \<open>The state the caches rest on\<close>

text \<open>The options, the model and its generation, and the cached retrievals.\<close>

definition cache_frame :: "runtime \<Rightarrow> runtime_options \<times> json \<times> u64 \<times> json cache" where
  "cache_frame rt = (rt_options rt, rt_model rt, rt_generation rt, rt_retrievals rt)"

lemma frame_insert_view [simp]: "cache_frame (insert_view k v rt) = cache_frame rt"
  by (auto simp: cache_frame_def insert_view_def make_room_def Let_def split: list.splits)

lemma frame_restore_record [simp]: "cache_frame (restore_record dump ord r rt) = cache_frame rt"
  by (auto simp: restore_record_def Let_def split: sum.splits option.splits)

lemma frame_restore [simp]: "cache_frame (restore_journal_records dump ord rt) = cache_frame rt"
proof -
  have "cache_frame (fold (restore_record dump ord) rs rt) = cache_frame rt" for rs
    by (induction rs arbitrary: rt) auto
  then show ?thesis by (simp add: restore_journal_records_def split: option.splits prod.splits)
qed

lemma frame_append_operational: "append_operational dump fault kind payload rt = (r, rt') \<Longrightarrow> cache_frame rt' = cache_frame rt"
  by (auto simp: append_operational_def cache_frame_def split: option.splits prod.splits sum.splits)

lemma frame_record_view:
  assumes "record_view dump fault now k view rt = (r, rt')"
  shows "cache_frame rt' = cache_frame rt"
proof -
  have "cache_frame (drop_view k rt) = cache_frame rt" for rt by (simp add: cache_frame_def drop_view_def)
  with assms frame_append_operational show ?thesis
    by (fastforce simp: record_view_def split: if_splits sum.splits prod.splits)
qed

lemma frame_refresh_views: "refresh_views dump ord m g todo (rt, n, q) = (e, rt', c) \<Longrightarrow> cache_frame rt' = cache_frame rt"
proof (induction todo arbitrary: rt n q)
  case (Cons kv todo)
  obtain k v where kv: "kv = (k, v)" by (cases kv)
  have f: "cache_frame (rt\<lparr>rt_views := vs\<rparr>) = cache_frame rt" for vs by (simp add: cache_frame_def)
  from Cons show ?case by (auto simp: kv f split: sum.splits exn.splits)
qed simp

lemma frame_change_model:
  assumes "change_model dump ord vord cause m scenario path rt = (r, rt')"
  shows "cache_frame rt' = cache_frame rt \<or>
    cache_frame rt' = (rt_options rt, m, rt_generation rt + 1, rt_retrievals rt)"
proof (cases "stale_rescan cause m (rt_model rt)")
  case False
  obtain e rt1 c where r: "refresh_views dump ord m (rt_generation rt + 1) (vord (rt_views rt)) (rt, 0, 0) = (e, rt1, c)"
    by (cases "refresh_views dump ord m (rt_generation rt + 1) (vord (rt_views rt)) (rt, 0, 0)") auto
  from assms False frame_refresh_views [OF r] show ?thesis
    by (auto simp: change_model_def Let_def r cache_frame_def split: option.splits)
qed (use assms in \<open>simp add: change_model_def\<close>)

lemma service_step_frame:
  assumes "service_step dump ord vord (rt, as) (rt', as')"
  shows "cache_frame rt' = cache_frame rt \<or>
    cache_frame rt' = (rt_options rt, rt_model rt, rt_generation rt, cache_clear (rt_retrievals rt)) \<or>
    (rt_generation rt \<noteq> - 1 \<and> wf_model dump (rt_model rt') \<and>
     cache_frame rt' = (rt_options rt, rt_model rt', rt_generation rt + 1, rt_retrievals rt))"
  using assms
proof cases
  case (change candidate ix cause scenario path r)
  from frame_change_model [OF change(4)] change(2,3) show ?thesis
    by (auto simp: index_model_Inr cache_frame_def)
next
  case (store i k view g view')
  then show ?thesis by (auto simp: store_view_def Let_def split: if_splits)
next
  case (saved i k view fault now r)
  then show ?thesis using frame_record_view by blast
next
  case (logged fault kind payload r)
  then show ?thesis using frame_append_operational by blast
qed (auto simp: cache_frame_def next_view_id_def commit_reconciled_def after_change_def Let_def
    split: if_splits sum.splits option.splits)

section \<open>Answers among the other calls\<close>

text \<open>
  The system of \<open>Runtime_Safety\<close> with the calls that answer prompts: each holds a snapshot it has
  taken, however old by now, and looks its answer up with it.
\<close>

type_synonym answering_system = "system \<times> (json \<times> u64) list"

inductive answer_step ::
  "(json \<Rightarrow> string res) \<Rightarrow> (members \<Rightarrow> members) \<Rightarrow> (members \<Rightarrow> members) \<Rightarrow> answering_system \<Rightarrow> answering_system \<Rightarrow> bool"
  for dump ord vord where
  other_call: "answer_step dump ord vord ((rt, as), held) ((rt', as'), held)"
    if "service_step dump ord vord (rt, as) (rt', as')"
| snapshot: "answer_step dump ord vord ((rt, as), held) ((rt, as), model_snapshot rt # held)"
| retrieved: "answer_step dump ord vord ((rt, as), held) ((rt', as), held)"
    if "(m, g) \<in> set held" and "look_up_retrieval dump now m g p rt = (r, rt')"
| interpreted: "answer_step dump ord vord ((rt, as), held) ((rt', as), held)"
    if "(m, g) \<in> set held" and "look_up_interpretation what llama now m g p mode retrieval rt = (r, rt')"

inductive answering ::
  "(json \<Rightarrow> string res) \<Rightarrow> (string \<Rightarrow> json res) \<Rightarrow> (members \<Rightarrow> members) \<Rightarrow> (members \<Rightarrow> members) \<Rightarrow> answering_system \<Rightarrow> bool"
  for dump parse ord vord where
  boot: "answering dump parse ord vord ((restore_journal_records dump ord rt, replicate calls Idle), [])"
    if "new_runtime dump parse rt" and "cache_new capacity ttl = Inr (rt_retrievals rt)"
| step: "answering dump parse ord vord s'" if "answering dump parse ord vord s" and "answer_step dump ord vord s s'"

text \<open>A cached value is a retrieval from the model of its generation, under a key of that model.\<close>

definition recalls ::
  "(json \<Rightarrow> string res) \<Rightarrow> (u64 \<Rightarrow> json) \<Rightarrow> runtime_options \<Rightarrow> u64 \<Rightarrow> string \<Rightarrow> json \<Rightarrow> bool" where
  "recalls dump models opts current key v \<longleftrightarrow>
     (\<exists>g p. g \<le> current \<and> retrieval_prompt_ok p \<and> key = cache_key (models g) g opts ''retrieval'' p \<and>
        Retrieval.retrieve dump (models g) p (retrieval_limits_of opts) = Inr v)"

definition answers_inv :: "(json \<Rightarrow> string res) \<Rightarrow> (u64 \<Rightarrow> json) \<Rightarrow> runtime \<Rightarrow> (json \<times> u64) list \<Rightarrow> bool" where
  "answers_inv dump models rt held \<longleftrightarrow>
     (\<forall>g \<le> rt_generation rt. wf_model dump (models g)) \<and> models (rt_generation rt) = rt_model rt \<and>
     (\<forall>(m, g) \<in> set held. g \<le> rt_generation rt \<and> m = models g) \<and>
     lru.faithful (recalls dump models (rt_options rt) (rt_generation rt)) (rt_retrievals rt)"

lemma look_up_fresh:
  assumes "lru.faithful (recalls dump models (rt_options rt) current) (rt_retrievals rt)"
    and "\<forall>g \<le> current. wf_model dump (models g)" and "g \<le> current" and "retrieval_prompt_ok p"
  shows "\<exists>hit. fst (look_up_retrieval dump now (models g) g p rt) =
    ebind (Retrieval.retrieve dump (models g) p (retrieval_limits_of (rt_options rt))) (\<lambda>v. Inr (hit, v))"
proof -
  let ?key = "cache_key (models g) g (rt_options rt) ''retrieval'' p"
  obtain cached c where c: "cache_get now ?key (rt_retrievals rt) = (cached, c)" by fastforce
  show ?thesis
  proof (cases cached)
    case (Some v)
    then have "recalls dump models (rt_options rt) current ?key v"
      using lru.faithful_hit [OF assms(1), of now ?key v] c by simp
    then obtain g' q where q: "g' \<le> current" "retrieval_prompt_ok q"
      "?key = cache_key (models g') g' (rt_options rt) ''retrieval'' q"
      "Retrieval.retrieve dump (models g') q (retrieval_limits_of (rt_options rt)) = Inr v"
      unfolding recalls_def by blast
    have same: "g = g'" "normalized_cache_prompt p = normalized_cache_prompt q"
      using cache_key_inject [OF q(3)] assms(2,3) q(1) by blast+
    have "Retrieval.retrieve dump (models g) p (retrieval_limits_of (rt_options rt)) = Inr v"
      using retrieve_cong [OF same(2) assms(4) q(2)] q(4) same(1) by simp
    then show ?thesis by (intro exI [of _ True]) (simp add: look_up_retrieval_def Let_def c Some)
  next
    case None
    show ?thesis
      by (cases "Retrieval.retrieve dump (models g) p (retrieval_limits_of (rt_options rt))")
        (auto simp: look_up_retrieval_def Let_def c None)
  qed
qed

lemma look_up_keeps:
  assumes "answers_inv dump models rt held" and "(m, g) \<in> set held" and "look_up_retrieval dump now m g p rt = (r, rt')"
  shows "answers_inv dump models rt' held"
proof -
  let ?R = "recalls dump models (rt_options rt) (rt_generation rt)"
  let ?key = "cache_key m g (rt_options rt) ''retrieval'' p"
  have f: "lru.faithful ?R (rt_retrievals rt)" and mg: "g \<le> rt_generation rt" "m = models g"
    using assms(1,2) by (auto simp: answers_inv_def)
  obtain cached c where c: "cache_get now ?key (rt_retrievals rt) = (cached, c)" by fastforce
  have fc: "lru.faithful ?R c" using lru.faithful_lookup [OF f, of now ?key] c by simp
  have "lru.faithful ?R (cache_put now ?key v c)"
    if "Retrieval.retrieve dump m p (retrieval_limits_of (rt_options rt)) = Inr v" for v
  proof (rule lru.faithful_store [OF fc])
    have "retrieval_prompt_ok p" using that by (auto simp: Retrieval.retrieve_def split: if_splits)
    with that mg show "?R ?key v" unfolding recalls_def by blast
  qed
  with fc have "lru.faithful ?R (rt_retrievals rt')"
    using assms(3) by (auto simp: look_up_retrieval_def Let_def c split: option.splits sum.splits)
  moreover have "rt_options rt' = rt_options rt" "rt_generation rt' = rt_generation rt" "rt_model rt' = rt_model rt"
    using assms(3) by (auto simp: look_up_retrieval_def Let_def c split: option.splits sum.splits)
  ultimately show ?thesis using assms(1) by (simp add: answers_inv_def)
qed

lemma look_up_interpretation_frame:
  "look_up_interpretation what llama now m g p mode retrieval rt = (r, rt') \<Longrightarrow> cache_frame rt' = cache_frame rt"
  by (auto simp: look_up_interpretation_def cache_frame_def Let_def split: prod.splits option.splits sum.splits)

lemma answers_inv_frame:
  "answers_inv dump models rt held \<Longrightarrow> cache_frame rt' = cache_frame rt \<Longrightarrow> answers_inv dump models rt' held"
  by (simp add: answers_inv_def cache_frame_def)

lemma answers_inv_advance:
  assumes "answers_inv dump models rt held" and "rt_generation rt \<noteq> - 1" and "wf_model dump (rt_model rt')"
    and "cache_frame rt' = (rt_options rt, rt_model rt', rt_generation rt + 1, rt_retrievals rt)"
  shows "answers_inv dump (models(rt_generation rt + 1 := rt_model rt')) rt' held"
proof -
  let ?g = "rt_generation rt" and ?models = "models(rt_generation rt + 1 := rt_model rt')"
  have below: "g \<noteq> ?g + 1" "g \<le> ?g + 1" if "g \<le> ?g" for g
    using that unat_plus_one [OF assms(2)] by (auto simp: word_le_nat_alt word_unat_eq_iff)
  have split: "g \<le> ?g \<or> g = ?g + 1" if "g \<le> ?g + 1" for g
    using that unat_plus_one [OF assms(2)] by (auto simp: word_le_nat_alt word_unat_eq_iff)
  have old: "?models g = models g" if "g \<le> ?g" for g using below(1) [OF that] by simp
  have "recalls dump ?models (rt_options rt) (?g + 1) key v" if "recalls dump models (rt_options rt) ?g key v" for key v
  proof -
    from that obtain g p where g: "g \<le> ?g" "retrieval_prompt_ok p" "key = cache_key (models g) g (rt_options rt) ''retrieval'' p"
      "Retrieval.retrieve dump (models g) p (retrieval_limits_of (rt_options rt)) = Inr v"
      unfolding recalls_def by blast
    with below(2) [OF g(1)] show ?thesis
      unfolding recalls_def by (intro exI [of _ g] exI [of _ p]) (simp only: old [OF g(1)] simp_thms)
  qed
  moreover have "lru.faithful (recalls dump models (rt_options rt) ?g) (rt_retrievals rt)"
    using assms(1) by (simp add: answers_inv_def)
  ultimately have "lru.faithful (recalls dump ?models (rt_options rt) (?g + 1)) (rt_retrievals rt)"
    unfolding lru.faithful_def by blast
  moreover have "\<forall>(m, g) \<in> set held. g \<le> ?g + 1 \<and> m = ?models g"
    using assms(1) old below by (fastforce simp: answers_inv_def)
  moreover have "\<forall>g \<le> ?g + 1. wf_model dump (?models g)"
    using assms(1,3) split old by (fastforce simp: answers_inv_def)
  ultimately show ?thesis using assms(4) by (simp add: answers_inv_def cache_frame_def)
qed

lemma answer_step_inv:
  assumes "answer_step dump ord vord ((rt, as), held) ((rt', as'), held')" and "answers_inv dump models rt held"
  shows "\<exists>models'. answers_inv dump models' rt' held'"
  using assms(1)
proof cases
  case other_call
  from service_step_frame [OF other_call(2)] consider
      "cache_frame rt' = cache_frame rt"
    | "cache_frame rt' = (rt_options rt, rt_model rt, rt_generation rt, cache_clear (rt_retrievals rt))"
    | "rt_generation rt \<noteq> - 1" "wf_model dump (rt_model rt')"
      "cache_frame rt' = (rt_options rt, rt_model rt', rt_generation rt + 1, rt_retrievals rt)"
    by blast
  then show ?thesis
  proof cases
    case 1
    then show ?thesis using answers_inv_frame [OF assms(2)] other_call(1) by blast
  next
    case 2
    have "lru.faithful R (cache_clear (rt_retrievals rt))" for R
      using assms(2) by (intro lru.faithful_drop) (simp add: answers_inv_def lru.faithful_def)
    with 2 have "answers_inv dump models rt' held"
      using assms(2) by (simp add: answers_inv_def cache_frame_def)
    then show ?thesis using other_call(1) by blast
  next
    case 3
    then show ?thesis using answers_inv_advance [OF assms(2)] other_call(1) by blast
  qed
next
  case snapshot
  then show ?thesis using assms(2) by (intro exI [of _ models]) (auto simp: answers_inv_def model_snapshot_def)
next
  case (retrieved m g now p r)
  then show ?thesis using look_up_keeps [OF assms(2)] by blast
next
  case (interpreted m g what llama now p mode retrieval r)
  then show ?thesis using answers_inv_frame [OF assms(2) look_up_interpretation_frame] by blast
qed

lemma answering_inv:
  assumes "answering dump parse ord vord s"
  shows "\<exists>models. answers_inv dump models (fst (fst s)) (snd s)"
  using assms
proof (induction rule: answering.induct)
  case (boot rt capacity ttl calls)
  have "c_entries c = []" if "cache_new n t = Inr c" for n t and c :: "json cache"
    using that by (auto simp: cache_new_def split: if_splits)
  from this [OF boot(2)] have "c_entries (rt_retrievals rt) = []" .
  then have "lru.faithful R (rt_retrievals rt)" for R
    using cache_inv_new [OF boot(2)] by (simp add: lru.faithful_def cache_holds_def)
  moreover have "wf_model dump (rt_model rt)" using boot(1) by (simp add: new_runtime_def)
  ultimately have "answers_inv dump (\<lambda>_. rt_model rt) rt []" by (simp add: answers_inv_def)
  from answers_inv_frame [OF this frame_restore] show ?case by auto
next
  case (step s s')
  obtain rt as held rt' as' held' where "s = ((rt, as), held)" "s' = ((rt', as'), held')" by (metis prod.collapse)
  with step answer_step_inv show ?case by fastforce
qed

section \<open>Property\<close>

text \<open>
  C33. The retrieval cache is transparent. In every reachable state, for every snapshot a call may
  hold, even one of a model replaced long ago, and every prompt the routes let through, the look-up
  gives the same outcome as a retrieval computed now from that snapshot, errors included, whether
  or not the cache answers: a prompt is never answered from another model, generation or budget,
  nor from a prompt about other terms. The same holds of the whole retrieval call.
\<close>

theorem cached_retrieval_is_fresh:
  assumes "answering dump parse ord vord ((rt, as), held)" and "(m, g) \<in> set held" and "retrieval_prompt_ok p"
  shows "(\<exists>hit. fst (look_up_retrieval dump now m g p rt) =
       ebind (Retrieval.retrieve dump m p (retrieval_limits_of (rt_options rt))) (\<lambda>v. Inr (hit, v))) \<and>
    (\<exists>hit. fst (retrieve_context dump now elapsed p rt) =
       ebind (Retrieval.retrieve dump (rt_model rt) p (retrieval_limits_of (rt_options rt)))
         (\<lambda>v. retrieval_answer dump elapsed (rt_model rt) (rt_generation rt) rt (hit, v)))"
proof -
  obtain models where inv: "answers_inv dump models rt held" using answering_inv [OF assms(1)] by auto
  then have wf: "\<forall>g \<le> rt_generation rt. wf_model dump (models g)" and cur: "models (rt_generation rt) = rt_model rt"
    and mg: "g \<le> rt_generation rt" "m = models g"
    and f: "lru.faithful (recalls dump models (rt_options rt) (rt_generation rt)) (rt_retrievals rt)"
    using assms(2) by (auto simp: answers_inv_def)
  obtain hit where h: "fst (look_up_retrieval dump now (rt_model rt) (rt_generation rt) p rt) =
      ebind (Retrieval.retrieve dump (rt_model rt) p (retrieval_limits_of (rt_options rt))) (\<lambda>v. Inr (hit, v))"
    using look_up_fresh [OF f wf order_refl assms(3)] cur by metis
  obtain r rt' where r: "look_up_retrieval dump now (rt_model rt) (rt_generation rt) p rt = (r, rt')" by fastforce
  have "rt_session rt' = rt_session rt"
    using r by (auto simp: look_up_retrieval_def Let_def split: prod.splits option.splits sum.splits)
  then have "retrieval_answer dump elapsed m g rt' x = retrieval_answer dump elapsed m g rt x" for m g x
    by (simp add: retrieval_answer_def split: prod.splits)
  with h r have "fst (retrieve_context dump now elapsed p rt) =
       ebind (Retrieval.retrieve dump (rt_model rt) p (retrieval_limits_of (rt_options rt)))
         (\<lambda>v. retrieval_answer dump elapsed (rt_model rt) (rt_generation rt) rt (hit, v))"
    by (cases "Retrieval.retrieve dump (rt_model rt) p (retrieval_limits_of (rt_options rt))")
      (auto simp: retrieve_context_def model_snapshot_def)
  then show ?thesis using look_up_fresh [OF f wf mg(1) assms(3), folded mg(2)] by blast
qed

text \<open>The same request in other letters and with other blanks is answered from the cache.\<close>

lemma demo_limits: "retrieval_limits_of (rt_options demo_runtime) = default_retrieval_limits"
  by (simp add: retrieval_limits_of_def demo_runtime_def default_options_def default_retrieval_limits_def Let_def)

lemma demo_prompts: "normalized_cache_prompt ''TANK  level '' = normalized_cache_prompt ''tank level''"
  by code_simp

theorem cached_retrieval_is_fresh_witness:
  "\<exists>rt rt' r. look_up_retrieval no_text 0 demo_model 0 ''tank level'' rt = (Inr (False, r), rt') \<and>
     answering no_text (\<lambda>_. Inr JNull) rev rev ((rt', []), [(demo_model, 0)]) \<and>
     Retrieval.retrieve no_text demo_model ''TANK  level '' default_retrieval_limits = Inr r \<and>
     fst (look_up_retrieval no_text 1 demo_model 0 ''TANK  level '' rt') = Inr (True, r)"
proof -
  let ?sys = "answering no_text (\<lambda>_. Inr JNull) rev rev" and ?key = "cache_key demo_model 0 default_options ''retrieval''"
  obtain r where r: "Retrieval.retrieve no_text demo_model ''tank level'' default_retrieval_limits = Inr r"
    using demo_retrieve by blast
  have "new_runtime no_text (\<lambda>_. Inr JNull) demo_runtime"
    using demo_model_wf by (simp add: new_runtime_def demo_runtime_def)
  moreover have "cache_new 4 1000 = Inr (rt_retrievals demo_runtime)"
    by (simp add: cache_new_def demo_runtime_def demo_cache_def)
  ultimately have s0: "?sys ((demo_runtime, []), [])"
    using answering.boot [of no_text "\<lambda>_. Inr JNull" demo_runtime 4 1000 rev rev 0]
    by (simp add: restore_journal_records_def demo_runtime_def)
  have s1: "?sys ((demo_runtime, []), [(demo_model, 0)])"
    using answering.step [OF s0 answer_step.snapshot] by (simp add: model_snapshot_def demo_runtime_def)
  define c1 where "c1 = demo_cache\<lparr>c_misses := 1\<rparr>"
  define rt' where "rt' = demo_runtime\<lparr>rt_retrievals := cache_put 0 (?key ''tank level'') r c1\<rparr>"
  have demo: "rt_options demo_runtime = default_options" "rt_retrievals demo_runtime = demo_cache"
    by (simp_all add: demo_runtime_def)
  have "cache_get 0 k demo_cache = (None, c1)" for k by (simp add: cache_get_def c1_def demo_cache_def)
  then have l: "look_up_retrieval no_text 0 demo_model 0 ''tank level'' demo_runtime = (Inr (False, r), rt')"
    using r by (simp add: look_up_retrieval_def Let_def demo demo_limits [unfolded demo] rt'_def)
  have s2: "?sys ((rt', []), [(demo_model, 0)])"
    by (rule answering.step [OF s1 answer_step.retrieved [OF _ l]]) simp
  have "?key ''TANK  level '' = ?key ''tank level''" by (simp add: cache_key_def demo_prompts)
  moreover obtain c2 where "cache_get 1 (?key ''tank level'') (cache_put 0 (?key ''tank level'') r c1) = (Some r, c2)"
    by (simp add: c1_def demo_cache_def cache_put_def cache_get_def evict_if_full_def Let_def)
  ultimately have hit: "fst (look_up_retrieval no_text 1 demo_model 0 ''TANK  level '' rt') = Inr (True, r)"
    by (simp add: look_up_retrieval_def Let_def rt'_def demo)
  have limits: "retrieval_limits_of (rt_options rt') = default_retrieval_limits"
    using demo_limits by (simp add: rt'_def)
  have "retrieval_prompt_ok ''TANK  level ''" by (simp add: retrieval_prompt_ok_def)
  note conjunct1 [OF cached_retrieval_is_fresh [OF s2 _ this, of demo_model 0 1]]
  then have "Retrieval.retrieve no_text demo_model ''TANK  level '' default_retrieval_limits = Inr r"
    unfolding limits hit
    by (cases "Retrieval.retrieve no_text demo_model ''TANK  level '' default_retrieval_limits") auto
  with l s2 hit show ?thesis by blast
qed

end
