(* ===== verification/Runtime_Lifecycle.thy ===== *)
theory Runtime_Lifecycle
  imports Runtime_Caching Provider_Transport
begin

text \<open>
  How the runtime comes up, reads models, follows the model file and goes down
  (\<open>runtime_lifecycle.cpp\<close>). The disk is an argument: what is at a path, whether it opens, when it
  was written and what a directory lists. The texts of exceptions, the parser and the clocks are
  arguments too. The worker pools and the diagnostic logger, which the runtime starts and joins,
  have theories of their own.
\<close>

section \<open>Model files\<close>

record disk =
  dk_entry :: "string \<Rightarrow> node"
  dk_opens :: "string \<Rightarrow> bool"
  dk_modified :: "string \<Rightarrow> int option"
  dk_listing :: "string \<Rightarrow> string list option"

definition maximum_model_bytes :: nat where
  "maximum_model_bytes = 1024 * 1024"

definition maximum_prompt_bytes :: nat where
  "maximum_prompt_bytes = 8192"

definition native_worker_count :: "nat \<Rightarrow> nat" where
  "native_worker_count hardware = min 4 (max 1 hardware)"

definition provider_worker_count :: nat where
  "provider_worker_count = 4"

definition valid_id :: "string \<Rightarrow> bool" where
  "valid_id k \<longleftrightarrow>
     (if k = [] \<or> length k > 128 \<or> \<not> is_alnum (hd k) then False
      else list_all (\<lambda>c. is_alnum c \<or> c = CHR ''_'' \<or> c = CHR ''.'' \<or> c = CHR ''-'') k)"

datatype json_shape = ShapeOk | TooDeep | Incomplete

text \<open>The scan over the characters: the depth and whether it is in a string, behind a backslash.\<close>

fun shape_from :: "nat \<Rightarrow> bool \<Rightarrow> bool \<Rightarrow> string \<Rightarrow> json_shape" where
  "shape_from depth in_string escaped [] = (if \<not> in_string \<and> depth = 0 then ShapeOk else Incomplete)"
| "shape_from depth in_string escaped (c # cs) =
     (if in_string then
        (if escaped then shape_from depth True False cs
         else if c = CHR 0x5C then shape_from depth True True cs
         else if c = CHR 0x22 then shape_from depth False escaped cs
         else shape_from depth True escaped cs)
      else if c = CHR 0x22 then shape_from depth True escaped cs
      else if c = CHR ''{'' \<or> c = CHR ''['' then
        (if depth + 1 > 32 then TooDeep else shape_from (depth + 1) False escaped cs)
      else if c = CHR ''}'' \<or> c = CHR '']'' then
        (if depth = 0 then Incomplete else shape_from (depth - 1) False escaped cs)
      else shape_from depth False escaped cs)"

definition inspect_json_shape :: "string \<Rightarrow> json_shape" where
  "inspect_json_shape input = shape_from 0 False False input"

definition read_file_bounded :: "disk \<Rightarrow> string \<Rightarrow> string res" where
  "read_file_bounded dk path =
     (case dk_entry dk path of
        Regular bytes \<Rightarrow>
          if length bytes > maximum_model_bytes then Inl (RuntimeError ''model file is too large'')
          else if \<not> dk_opens dk path then Inl (RuntimeError ''could not open model file'')
          else Inr (string_of bytes)
      | _ \<Rightarrow> Inl (RuntimeError ''model file is missing or not a regular file''))"

text \<open>The output of the engineering import carries the model and a report.\<close>

definition unwrap_model :: "json \<Rightarrow> json res" where
  "unwrap_model model =
     (if is_object model \<and> contains model ''model''
      then if list_ex (\<lambda>(k, v). k \<noteq> ''model'' \<and> k \<noteq> ''report'') (json_items model)
           then Inl (RuntimeError ''engineering import output contains an unsupported field'')
           else if \<not> is_object (fld model ''model'') \<or>
              contains model ''report'' \<and> \<not> is_object (fld model ''report'')
           then Inl (RuntimeError ''engineering import output has an invalid shape'')
           else json_at model ''model''
      else Inr model)"

definition read_model ::
  "(json \<Rightarrow> string res) \<Rightarrow> (string \<Rightarrow> json res) \<Rightarrow> disk \<Rightarrow> string \<Rightarrow> json res" where
  "read_model dump parse dk path =
     ebind (read_file_bounded dk path) (\<lambda>body.
     case inspect_json_shape body of
       TooDeep \<Rightarrow> Inl (RuntimeError ''model JSON exceeds nesting limit'')
     | Incomplete \<Rightarrow> Inl (RuntimeError ''model JSON is incomplete'')
     | ShapeOk \<Rightarrow>
         ebind (parse body) (\<lambda>decoded.
         ebind (unwrap_model decoded) (\<lambda>model.
         ebind (validate_model dump model) (\<lambda>_. Inr model))))"

definition load_model_file ::
  "(json \<Rightarrow> string res) \<Rightarrow> (string \<Rightarrow> json res) \<Rightarrow> (exn \<Rightarrow> string) \<Rightarrow> disk \<Rightarrow> string \<Rightarrow> json res" where
  "load_model_file dump parse what dk path =
     (case read_model dump parse dk path of
        Inl e \<Rightarrow> Inl (RuntimeError (''invalid model: '' @ what e))
      | Inr model \<Rightarrow> Inr model)"

section \<open>Construction\<close>

definition session_name :: "int \<Rightarrow> u64 \<Rightarrow> string" where
  "session_name steady_us sequence =
     ''session-'' @ show_nat (nat steady_us) @ ''-'' @ show_nat (unat (sequence + 1))"

definition config_of_options :: "runtime_options \<Rightarrow> inference_config" where
  "config_of_options opts =
     \<lparr>ic_url = o_provider_url opts, ic_timeout_ms = o_provider_timeout_ms opts,
      ic_max_prompt_bytes = maximum_prompt_bytes, ic_max_response_bytes = 64 * 1024,
      ic_max_context_bytes = nat (o_provider_context_bytes opts),
      ic_max_output_tokens = o_provider_max_output_tokens opts, ic_model = o_provider_model opts,
      ic_api_key = o_provider_api_key opts, ic_allow_remote = o_allow_remote_inference opts\<rparr>"

text \<open>\<open>fs::path\<close>: the file name, its stem and its extension, and the path of an entry.\<close>

definition last_name :: "string \<Rightarrow> string" where
  "last_name path = rev (takeWhile (\<lambda>c. c \<noteq> CHR ''/'') (rev path))"

definition split_name :: "string \<Rightarrow> string \<times> string" where
  "split_name name =
     (let ending = takeWhile (\<lambda>c. c \<noteq> CHR ''.'') (rev name); before = drop (length ending + 1) (rev name)
      in if name = ''.'' \<or> name = ''..'' \<or> CHR ''.'' \<notin> set name \<or> before = [] then (name, [])
         else (rev before, CHR ''.'' # rev ending))"

definition path_stem :: "string \<Rightarrow> string" where
  "path_stem path = fst (split_name (last_name path))"

definition entry_path :: "string \<Rightarrow> string \<Rightarrow> string" where
  "entry_path dir name = (if dir = [] \<or> last dir = CHR ''/'' then dir @ name else dir @ ''/'' @ name)"

text \<open>The members initialised in the order of the class, as far as the runtime state holds them.\<close>

definition runtime_new :: "bool \<Rightarrow> runtime_options \<Rightarrow> string \<Rightarrow> (runtime \<times> llama option) res" where
  "runtime_new tls_built opts session =
     ebind (machine_new ''service'' KStarting) (\<lambda>service.
     ebind (machine_new ''source'' KStarting) (\<lambda>source.
     ebind (machine_new ''provider'' KStarting) (\<lambda>provider.
     ebind (machine_new ''store'' KDisabled) (\<lambda>store.
     ebind (new_provider tls_built (config_of_options opts)) (\<lambda>held.
     ebind (cache_new (nat (o_retrieval_cache_capacity opts)) (o_cache_ttl_ms opts)) (\<lambda>retrievals.
     ebind (cache_new (nat (o_interpretation_cache_capacity opts)) (o_cache_ttl_ms opts)) (\<lambda>interpretations.
     ebind (store_new (o_telemetry_stale_after_ms opts) (nat (o_telemetry_max_values opts))) (\<lambda>telemetry.
     Inr (\<lparr>rt_options = opts, rt_session = session, rt_model = JNull, rt_scenario = path_stem (o_model opts),
          rt_path = o_model opts, rt_generation = 0, rt_changes = 0, rt_watch_failures = 0, rt_views = [],
          rt_order = [], rt_sequence = 0, rt_journal = None, rt_retrievals = retrievals,
          rt_interpretations = interpretations, rt_telemetry = telemetry, rt_service = service,
          rt_source = source, rt_provider = provider, rt_store = store, rt_started = False,
          rt_stopped = False\<rparr>, held)))))))))"

section \<open>Scenarios\<close>

text \<open>One directory entry; an invalid file is left out.\<close>

definition scenario_entry ::
  "(json \<Rightarrow> string res) \<Rightarrow> (string \<Rightarrow> json res) \<Rightarrow> (exn \<Rightarrow> string) \<Rightarrow> disk \<Rightarrow> string \<Rightarrow> json option res" where
  "scenario_entry dump parse what dk path =
     (if \<not> is_regular (dk_entry dk path) \<or> snd (split_name (last_name path)) \<noteq> ''.json'' then Inr None
      else ebind (load_model_file dump parse what dk path) (\<lambda>candidate.
        let k = path_stem path
        in if \<not> valid_id k then Inr None
           else ebind (string_at candidate ''model_id'') (\<lambda>mid.
             ebind (value_string candidate ''name'' mid) (\<lambda>plain.
             ebind (value_string candidate ''scenario_name'' plain) (\<lambda>name.
             ebind (copy_members candidate [(''model_id'', ''model_id''), (''revision'', ''revision'')]) (\<lambda>ms.
             ebind (value_string candidate ''description'' []) (\<lambda>description.
             Inr (Some (jobj ([(''id'', JStr k)] @ ms @
               [(''name'', JStr name), (''description'', JStr description)]))))))))))"

definition scenarios ::
  "(json \<Rightarrow> string res) \<Rightarrow> (string \<Rightarrow> json res) \<Rightarrow> (exn \<Rightarrow> string) \<Rightarrow> disk \<Rightarrow> runtime_options \<Rightarrow> json" where
  "scenarios dump parse what dk opts =
     (case dk_listing dk (o_models_dir opts) of
        None \<Rightarrow> jobj [(''scenarios'', JArr [])]
      | Some names \<Rightarrow>
          let found = List.map_filter (\<lambda>name.
                case scenario_entry dump parse what dk (entry_path (o_models_dir opts) name) of
                  Inr (Some j) \<Rightarrow> Some j | _ \<Rightarrow> None) names
          in jobj [(''scenarios'', JArr (sort_key (\<lambda>j. sfld j ''id'') found))])"

definition select_scenario ::
  "(json \<Rightarrow> string res) \<Rightarrow> (members \<Rightarrow> members) \<Rightarrow> (members \<Rightarrow> members) \<Rightarrow> (string \<Rightarrow> json res) \<Rightarrow> (exn \<Rightarrow> string) \<Rightarrow>
     disk \<Rightarrow> (nat \<times> exn) option \<Rightarrow> u64 \<Rightarrow> string \<Rightarrow> runtime \<Rightarrow> json res \<times> runtime" where
  "select_scenario dump ord vord parse what dk fault now k rt =
     (let scenario = entry_path (o_models_dir (rt_options rt)) (k @ ''.json'')
      in if \<not> valid_id k then (Inl (DomainError ''invalid_scenario'' ''scenario id is invalid''), rt)
         else if (case dk_entry dk scenario of Symlink n \<Rightarrow> True | _ \<Rightarrow> False)
         then (Inl (DomainError ''scenario_not_found'' ''scenario symlinks are not permitted''), rt)
         else case load_model_file dump parse what dk scenario of
             Inl failure \<Rightarrow> (Inl (DomainError ''scenario_not_found'' (what failure)), rt)
           | Inr candidate \<Rightarrow>
               apply_model_change dump ord vord fault now candidate k scenario ''scenario-selected'' rt)"

section \<open>Coming up and going down\<close>

text \<open>An action on the runtime that may throw, and a sequence of them.\<close>

type_synonym action = "runtime \<Rightarrow> unit res \<times> runtime"

fun run_actions :: "action list \<Rightarrow> action" where
  "run_actions [] rt = (Inr (), rt)"
| "run_actions (a # as) rt =
     (case a rt of (Inl e, rt') \<Rightarrow> (Inl e, rt') | (Inr u, rt') \<Rightarrow> run_actions as rt')"

definition move ::
  "(runtime \<Rightarrow> machine) \<Rightarrow> ((machine \<Rightarrow> machine) \<Rightarrow> runtime \<Rightarrow> runtime) \<Rightarrow> lstate \<Rightarrow> string \<Rightarrow> action" where
  "move get upd nxt reason rt =
     (case transition (get rt) nxt reason of
        Inl e \<Rightarrow> (Inl e, rt)
      | Inr m \<Rightarrow> (Inr (), upd (\<lambda>_. m) rt))"

definition move_service :: "lstate \<Rightarrow> string \<Rightarrow> action" where "move_service = move rt_service rt_service_update"
definition move_source :: "lstate \<Rightarrow> string \<Rightarrow> action" where "move_source = move rt_source rt_source_update"
definition move_provider :: "lstate \<Rightarrow> string \<Rightarrow> action" where "move_provider = move rt_provider rt_provider_update"
definition move_store :: "lstate \<Rightarrow> string \<Rightarrow> action" where "move_store = move rt_store rt_store_update"

definition when_rt :: "(runtime \<Rightarrow> bool) \<Rightarrow> action \<Rightarrow> action" where
  "when_rt b a rt = (if b rt then a rt else (Inr (), rt))"

definition journal_config :: "runtime_options \<Rightarrow> jconfig" where
  "journal_config opts =
     \<lparr>cfg_path_empty = (o_store_file opts = []), cfg_maximum_payload = 64 * 1024,
      cfg_maximum_file = unat (o_store_max_bytes opts), cfg_recent_limit = 512,
      cfg_synchronize = o_store_sync opts\<rparr>"

definition load_model ::
  "(json \<Rightarrow> string res) \<Rightarrow> (string \<Rightarrow> json res) \<Rightarrow> (exn \<Rightarrow> string) \<Rightarrow> disk \<Rightarrow> action" where
  "load_model dump parse what dk rt =
     (case load_model_file dump parse what dk (o_model (rt_options rt)) of
        Inl e \<Rightarrow> (Inl e, rt)
      | Inr m \<Rightarrow> (Inr (), rt\<lparr>rt_model := m, rt_telemetry := reconfigure 0 (rt_telemetry rt)\<rparr>))"

text \<open>The journal is opened and its tasks are restored under a handler that marks the store failed.\<close>

definition store_failed :: "(exn \<Rightarrow> string) \<Rightarrow> exn \<Rightarrow> action" where
  "store_failed what e = run_actions [move_store KFailed (what e), (\<lambda>rt. (Inl e, rt))]"

definition open_store ::
  "(json \<Rightarrow> string res) \<Rightarrow> (members \<Rightarrow> members) \<Rightarrow> (string \<Rightarrow> json res) \<Rightarrow> (exn \<Rightarrow> string) \<Rightarrow> bool \<Rightarrow> node \<Rightarrow> action" where
  "open_store dump ord parse what parent_ok content rt =
     (case journal_open parse parent_ok (journal_config (rt_options rt)) content of
        Inl e \<Rightarrow> store_failed what e rt
      | Inr st \<Rightarrow>
          (case move_store KReady [] (restore_journal_records dump ord (rt\<lparr>rt_journal := Some st\<rparr>)) of
             (Inl e, rt') \<Rightarrow> store_failed what e rt'
           | (Inr u, rt') \<Rightarrow> (Inr u, rt')))"

definition start_record :: "u64 \<Rightarrow> runtime \<Rightarrow> json" where
  "start_record now rt =
     jobj [(''session_id'', JStr (rt_session rt)), (''model_id'', fld (rt_model rt) ''model_id''),
           (''revision'', fld (rt_model rt) ''revision''), (''timestamp_ms'', JUInt now)]"

definition start ::
  "(json \<Rightarrow> string res) \<Rightarrow> (members \<Rightarrow> members) \<Rightarrow> (string \<Rightarrow> json res) \<Rightarrow> (exn \<Rightarrow> string) \<Rightarrow> disk \<Rightarrow> bool \<Rightarrow> node \<Rightarrow>
     (nat \<times> exn) option \<Rightarrow> u64 \<Rightarrow> action" where
  "start dump ord parse what dk parent_ok content fault now rt =
     (if rt_started rt then (Inl (LogicError ''runtime was already started''), rt)
      else run_actions
        [load_model dump parse what dk,
         when_rt (\<lambda>rt. o_store_file (rt_options rt) \<noteq> [])
           (run_actions [move_store KStarting [], open_store dump ord parse what parent_ok content]),
         move_source KDegraded ''waiting for current telemetry'',
         when_rt (\<lambda>rt. o_provider_url (rt_options rt) = []) (move_provider KReady ''deterministic rules provider''),
         move_service KReady [],
         (\<lambda>rt. append_operational dump fault ''service_start'' (start_record now rt) rt)]
        (rt\<lparr>rt_started := True\<rparr>))"

text \<open>Between the two groups of transitions the watcher, the pools and the logger are joined.\<close>

definition shutdown :: action where
  "shutdown rt =
     (if \<not> rt_started rt \<or> rt_stopped rt then (Inr (), rt)
      else run_actions
        [move_service KStopping [], move_source KStopping [], move_provider KStopping [],
         when_rt (\<lambda>rt. m_state (rt_store rt) \<noteq> KDisabled \<and> m_state (rt_store rt) \<noteq> KFailed) (move_store KStopping []),
         move_service KStopped [], move_source KStopped [], move_provider KStopped [],
         when_rt (\<lambda>rt. m_state (rt_store rt) = KStopping) (move_store KStopped [])]
        (rt\<lparr>rt_stopped := True\<rparr>))"

section \<open>Following the model file\<close>

record watcher =
  wt_path :: string
  wt_time :: int
  wt_have_time :: bool

definition watcher_new :: watcher where
  "watcher_new = \<lparr>wt_path = [], wt_time = 0, wt_have_time = False\<rparr>"

definition watch_failed :: "runtime \<Rightarrow> runtime" where
  "watch_failed rt = rt\<lparr>rt_watch_failures := rt_watch_failures rt + 1\<rparr>"

definition rescan ::
  "(json \<Rightarrow> string res) \<Rightarrow> (members \<Rightarrow> members) \<Rightarrow> (members \<Rightarrow> members) \<Rightarrow> (string \<Rightarrow> json res) \<Rightarrow> (exn \<Rightarrow> string) \<Rightarrow>
     disk \<Rightarrow> (nat \<times> exn) option \<Rightarrow> u64 \<Rightarrow> string \<Rightarrow> runtime \<Rightarrow> runtime" where
  "rescan dump ord vord parse what dk fault now path rt =
     (case load_model_file dump parse what dk path of
        Inl e \<Rightarrow> watch_failed rt
      | Inr candidate \<Rightarrow>
          if jeq candidate (rt_model rt) then rt
          else (case apply_model_change dump ord vord fault now candidate (path_stem path) path ''file-rescan'' rt of
                  (Inl e, rt') \<Rightarrow> watch_failed rt'
                | (Inr j, rt') \<Rightarrow> rt'))"

text \<open>One turn of the loop; the time of a file that cannot be read is \<open>missing_time\<close>.\<close>

definition watch_turn ::
  "(json \<Rightarrow> string res) \<Rightarrow> (members \<Rightarrow> members) \<Rightarrow> (members \<Rightarrow> members) \<Rightarrow> (string \<Rightarrow> json res) \<Rightarrow> (exn \<Rightarrow> string) \<Rightarrow>
     int \<Rightarrow> disk \<Rightarrow> (nat \<times> exn) option \<Rightarrow> u64 \<Rightarrow> watcher \<times> runtime \<Rightarrow> watcher \<times> runtime" where
  "watch_turn dump ord vord parse what missing_time dk fault now = (\<lambda>(w, rt).
     let path = rt_path rt; safe = is_regular (dk_entry dk path);
         readable = (safe \<and> dk_modified dk path \<noteq> None);
         modified = (if \<not> safe then 0 else case dk_modified dk path of Some t \<Rightarrow> t | None \<Rightarrow> missing_time)
     in if path \<noteq> wt_path w then (\<lparr>wt_path = path, wt_time = modified, wt_have_time = readable\<rparr>, rt)
        else if readable \<and> wt_have_time w \<and> modified \<noteq> wt_time w
        then (w\<lparr>wt_time := modified\<rparr>, rescan dump ord vord parse what dk fault now path rt)
        else if \<not> readable then (w\<lparr>wt_have_time := False\<rparr>, watch_failed rt)
        else if \<not> wt_have_time w then (w\<lparr>wt_time := modified, wt_have_time := True\<rparr>, rt)
        else (w, rt))"

section \<open>Going down\<close>

lemma run_actions_append:
  "run_actions (as @ bs) rt =
     (case run_actions as rt of (Inl e, rt') \<Rightarrow> (Inl e, rt') | (Inr u, rt') \<Rightarrow> run_actions bs rt')"
  by (induction as arbitrary: rt) (auto split: prod.splits sum.splits)

lemmas move_defs = move_service_def move_source_def move_provider_def move_store_def move_def

text \<open>A machine that may be stopped, with room in its counter.\<close>

definition stoppable :: "machine \<Rightarrow> bool" where
  "stoppable m \<longleftrightarrow> m_state m \<noteq> KStopped \<and> unat (m_transitions m) < 2 ^ 64 - 2"

lemma stoppable_stops:
  assumes "stoppable m"
  obtains m1 m2 where "transition m KStopping [] = Inr m1" and "m_state m1 = KStopping"
    and "transition m1 KStopped [] = Inr m2" and "m_state m2 = KStopped"
proof -
  obtain m1 m2 where "transition m KStopping [] = Inr m1" "transition m1 KStopped [] = Inr m2" "m_state m2 = KStopped"
    using lifecycle_can_stop [of m] assms unfolding stoppable_def by blast
  moreover have "m_state m1 = KStopping" using calculation(1) by (auto simp: transition_def split: if_splits)
  ultimately show ?thesis using that by blast
qed

lemma shutdown_stops:
  assumes "rt_started rt" and "\<not> rt_stopped rt"
    and "\<forall>m \<in> {rt_service rt, rt_source rt, rt_provider rt, rt_store rt}. stoppable m"
  shows "\<exists>rt'. shutdown rt = (Inr (), rt') \<and> rt_stopped rt' \<and> m_state (rt_service rt') = KStopped \<and>
    m_state (rt_source rt') = KStopped \<and> m_state (rt_provider rt') = KStopped \<and>
    m_state (rt_store rt') = (if m_state (rt_store rt) \<in> {KDisabled, KFailed} then m_state (rt_store rt) else KStopped) \<and>
    shutdown rt' = (Inr (), rt')"
proof -
  obtain s1 s2 where s: "transition (rt_service rt) KStopping [] = Inr s1" "transition s1 KStopped [] = Inr s2" "m_state s2 = KStopped"
    using stoppable_stops assms(3) by (metis insertI1)
  obtain o1 o2 where o: "transition (rt_source rt) KStopping [] = Inr o1" "transition o1 KStopped [] = Inr o2" "m_state o2 = KStopped"
    using stoppable_stops assms(3) by (metis insertI1 insertI2)
  obtain p1 p2 where p: "transition (rt_provider rt) KStopping [] = Inr p1" "transition p1 KStopped [] = Inr p2" "m_state p2 = KStopped"
    using stoppable_stops assms(3) by (metis insertI1 insertI2)
  obtain j1 j2 where j: "transition (rt_store rt) KStopping [] = Inr j1" "m_state j1 = KStopping"
      "transition j1 KStopped [] = Inr j2" "m_state j2 = KStopped"
    using stoppable_stops assms(3) by (metis insertI1 insertI2)
  have not_stopping: "m_state (rt_store rt) \<in> {KDisabled, KFailed} \<Longrightarrow> m_state (rt_store rt) \<noteq> KStopping" by auto
  show ?thesis
    using assms(1,2) not_stopping
    by (cases "m_state (rt_store rt) \<in> {KDisabled, KFailed}")
      (auto simp: shutdown_def move_defs when_rt_def s o p j)
qed

section \<open>Coming up\<close>

lemma restore_record_machines:
  "restore_record dump ord r (rt\<lparr>rt_service := a\<rparr>) = (restore_record dump ord r rt)\<lparr>rt_service := a\<rparr>"
  "restore_record dump ord r (rt\<lparr>rt_source := a\<rparr>) = (restore_record dump ord r rt)\<lparr>rt_source := a\<rparr>"
  "restore_record dump ord r (rt\<lparr>rt_provider := a\<rparr>) = (restore_record dump ord r rt)\<lparr>rt_provider := a\<rparr>"
  "restore_record dump ord r (rt\<lparr>rt_store := a\<rparr>) = (restore_record dump ord r rt)\<lparr>rt_store := a\<rparr>"
  by (auto simp: restore_record_def insert_view_def make_room_def stamp_view_def Let_def
      split: sum.splits option.splits list.splits)

lemma restore_fold_machines:
  "fold (restore_record dump ord) rs (rt\<lparr>rt_service := a\<rparr>) = (fold (restore_record dump ord) rs rt)\<lparr>rt_service := a\<rparr>"
  "fold (restore_record dump ord) rs (rt\<lparr>rt_source := a\<rparr>) = (fold (restore_record dump ord) rs rt)\<lparr>rt_source := a\<rparr>"
  "fold (restore_record dump ord) rs (rt\<lparr>rt_provider := a\<rparr>) = (fold (restore_record dump ord) rs rt)\<lparr>rt_provider := a\<rparr>"
  "fold (restore_record dump ord) rs (rt\<lparr>rt_store := a\<rparr>) = (fold (restore_record dump ord) rs rt)\<lparr>rt_store := a\<rparr>"
  by (induction rs arbitrary: rt) (simp_all add: restore_record_machines)

lemma restore_machines:
  "restore_journal_records dump ord (rt\<lparr>rt_service := a\<rparr>) = (restore_journal_records dump ord rt)\<lparr>rt_service := a\<rparr>"
  "restore_journal_records dump ord (rt\<lparr>rt_source := a\<rparr>) = (restore_journal_records dump ord rt)\<lparr>rt_source := a\<rparr>"
  "restore_journal_records dump ord (rt\<lparr>rt_provider := a\<rparr>) = (restore_journal_records dump ord rt)\<lparr>rt_provider := a\<rparr>"
  "restore_journal_records dump ord (rt\<lparr>rt_store := a\<rparr>) = (restore_journal_records dump ord rt)\<lparr>rt_store := a\<rparr>"
  by (simp_all add: restore_journal_records_def restore_fold_machines split: option.splits prod.splits)

lemma load_model_file_wf: "load_model_file dump parse what dk path = Inr m \<Longrightarrow> wf_model dump m"
proof -
  assume "load_model_file dump parse what dk path = Inr m"
  then have r: "read_model dump parse dk path = Inr m" by (simp add: load_model_file_def split: sum.splits)
  then obtain body where "read_file_bounded dk path = Inr body" by (auto simp: read_model_def)
  with r obtain u where "validate_model dump m = Inr u"
    by (cases "inspect_json_shape body") (auto simp: read_model_def)
  then show "wf_model dump m" by (auto simp: validate_model_def index_model_Inr)
qed

text \<open>A runtime on which the moves of a start have taken place, before its tasks are restored.\<close>

lemma move_Inr:
  "move_service nxt reason rt = (Inr u, rt') \<Longrightarrow> \<exists>m. rt' = rt\<lparr>rt_service := m\<rparr>"
  "move_source nxt reason rt = (Inr u, rt') \<Longrightarrow> \<exists>m. rt' = rt\<lparr>rt_source := m\<rparr>"
  "move_provider nxt reason rt = (Inr u, rt') \<Longrightarrow> \<exists>m. rt' = rt\<lparr>rt_provider := m\<rparr>"
  "move_store nxt reason rt = (Inr u, rt') \<Longrightarrow> \<exists>m. rt' = rt\<lparr>rt_store := m\<rparr>"
  by (auto simp: move_defs split: sum.splits)

lemma run_actions_Inr:
  "run_actions (a # as) rt = (Inr u, rt') \<longleftrightarrow> (\<exists>rt1. a rt = (Inr (), rt1) \<and> run_actions as rt1 = (Inr u, rt'))"
  by (auto split: prod.splits sum.splits)

definition restored_from ::
  "(json \<Rightarrow> string res) \<Rightarrow> (members \<Rightarrow> members) \<Rightarrow> (string \<Rightarrow> json res) \<Rightarrow> runtime \<Rightarrow> runtime \<Rightarrow> bool" where
  "restored_from dump ord parse rt0 rt \<longleftrightarrow>
     (\<exists>rt1. new_runtime dump parse rt1 \<and> rt_retrievals rt1 = rt_retrievals rt0 \<and> rt_options rt1 = rt_options rt0 \<and>
        rt = restore_journal_records dump ord rt1)"

lemma new_runtime_machines:
  "new_runtime dump parse (rt\<lparr>rt_service := m\<rparr>) = new_runtime dump parse rt"
  "new_runtime dump parse (rt\<lparr>rt_source := m\<rparr>) = new_runtime dump parse rt"
  "new_runtime dump parse (rt\<lparr>rt_provider := m\<rparr>) = new_runtime dump parse rt"
  "new_runtime dump parse (rt\<lparr>rt_store := m\<rparr>) = new_runtime dump parse rt"
  by (simp_all add: new_runtime_def)

lemma restored_from_machines:
  assumes "restored_from dump ord parse rt0 rt"
  shows "restored_from dump ord parse rt0 (rt\<lparr>rt_service := m\<rparr>)"
    "restored_from dump ord parse rt0 (rt\<lparr>rt_source := m\<rparr>)"
    "restored_from dump ord parse rt0 (rt\<lparr>rt_provider := m\<rparr>)"
    "restored_from dump ord parse rt0 (rt\<lparr>rt_store := m\<rparr>)"
proof -
  obtain rt1 where rt1: "new_runtime dump parse rt1" "rt_retrievals rt1 = rt_retrievals rt0" "rt_options rt1 = rt_options rt0"
    "rt = restore_journal_records dump ord rt1"
    using assms by (auto simp: restored_from_def)
  have new: "restored_from dump ord parse rt0 (restore_journal_records dump ord rt2)"
    if "new_runtime dump parse rt2" "rt_retrievals rt2 = rt_retrievals rt0" "rt_options rt2 = rt_options rt0" for rt2
    using that unfolding restored_from_def by blast
  show "restored_from dump ord parse rt0 (rt\<lparr>rt_service := m\<rparr>)"
    unfolding rt1(4) restore_machines(1) [symmetric] by (rule new) (simp_all add: rt1(1-3) new_runtime_machines)
  show "restored_from dump ord parse rt0 (rt\<lparr>rt_source := m\<rparr>)"
    unfolding rt1(4) restore_machines(2) [symmetric] by (rule new) (simp_all add: rt1(1-3) new_runtime_machines)
  show "restored_from dump ord parse rt0 (rt\<lparr>rt_provider := m\<rparr>)"
    unfolding rt1(4) restore_machines(3) [symmetric] by (rule new) (simp_all add: rt1(1-3) new_runtime_machines)
  show "restored_from dump ord parse rt0 (rt\<lparr>rt_store := m\<rparr>)"
    unfolding rt1(4) restore_machines(4) [symmetric] by (rule new) (simp_all add: rt1(1-3) new_runtime_machines)
qed

lemma restored_from_moves:
  assumes "restored_from dump ord parse rt0 rt"
  shows "move_service nxt reason rt = (Inr u, rt') \<Longrightarrow> restored_from dump ord parse rt0 rt'"
    "move_source nxt reason rt = (Inr u, rt') \<Longrightarrow> restored_from dump ord parse rt0 rt'"
    "move_provider nxt reason rt = (Inr u, rt') \<Longrightarrow> restored_from dump ord parse rt0 rt'"
    "move_store nxt reason rt = (Inr u, rt') \<Longrightarrow> restored_from dump ord parse rt0 rt'"
  using restored_from_machines [OF assms] move_Inr by metis+

lemma runtime_new_facts:
  assumes "runtime_new tls_built opts session = Inr (rt0, held)"
  shows "rt_views rt0 = []" "rt_order rt0 = []" "rt_journal rt0 = None" "\<not> rt_started rt0"
    "\<exists>capacity ttl. cache_new capacity ttl = Inr (rt_retrievals rt0)" "rt_session rt0 = session" "rt_options rt0 = opts"
  using assms by (auto simp: runtime_new_def) blast

text \<open>A start that succeeds leads to a state of the runtime's relation: the one it serves from.\<close>

lemma start_restores:
  assumes "runtime_new tls_built opts session = Inr (rt0, held)"
    and "start dump ord parse what dk parent_ok content fault now rt0 = (Inr u, rt)"
  obtains rt1 where "restored_from dump ord parse rt0 rt1"
    and "append_operational dump fault ''service_start'' (start_record now rt1) rt1 = (Inr (), rt)"
proof -
  note new = runtime_new_facts [OF assms(1)]
  obtain r1 r2 r3 r4 r5 where
    load: "load_model dump parse what dk (rt0\<lparr>rt_started := True\<rparr>) = (Inr (), r1)"
    and store: "when_rt (\<lambda>rt. o_store_file (rt_options rt) \<noteq> [])
        (run_actions [move_store KStarting [], open_store dump ord parse what parent_ok content]) r1 = (Inr (), r2)"
    and moves: "move_source KDegraded ''waiting for current telemetry'' r2 = (Inr (), r3)"
      "when_rt (\<lambda>rt. o_provider_url (rt_options rt) = []) (move_provider KReady ''deterministic rules provider'') r3 = (Inr (), r4)"
      "move_service KReady [] r4 = (Inr (), r5)"
    and app: "append_operational dump fault ''service_start'' (start_record now r5) r5 = (Inr (), rt)"
    using assms(2) new(4) by (auto simp: start_def run_actions_Inr simp del: run_actions.simps(2))
  obtain m tm where m: "wf_model dump m" "r1 = rt0\<lparr>rt_started := True, rt_model := m, rt_telemetry := tm\<rparr>"
    using load by (auto simp: load_model_def split: sum.splits dest: load_model_file_wf)
  have "restored_from dump ord parse rt0 r2"
  proof (cases "o_store_file (rt_options r1) = []")
    case True
    with store have "r2 = r1" by (simp add: when_rt_def)
    moreover have "restore_journal_records dump ord r1 = r1"
      by (simp add: restore_journal_records_def m(2) new(3))
    ultimately have "r2 = restore_journal_records dump ord r1" by simp
    then show ?thesis using m(1) new(1-3) unfolding restored_from_def
      by (intro exI [of _ r1]) (simp add: new_runtime_def m(2))
  next
    case False
    with store obtain r6 where r6: "move_store KStarting [] r1 = (Inr (), r6)"
      "open_store dump ord parse what parent_ok content r6 = (Inr (), r2)"
      by (auto simp: when_rt_def run_actions_Inr simp del: run_actions.simps(2))
    obtain d where d: "r6 = r1\<lparr>rt_store := d\<rparr>" using move_Inr(4) [OF r6(1)] by blast
    have failed: "store_failed what e r \<noteq> (Inr (), r2)" for e r
      by (auto simp: store_failed_def split: sum.splits prod.splits)
    obtain j node where st: "journal_open parse parent_ok (journal_config (rt_options r6)) content = Inr (j, node)"
      "move_store KReady [] (restore_journal_records dump ord (r6\<lparr>rt_journal := Some (j, node)\<rparr>)) = (Inr (), r2)"
      using r6(2) failed by (auto simp: open_store_def split: sum.splits prod.splits)
    have "new_runtime dump parse (r6\<lparr>rt_journal := Some (j, node)\<rparr>)"
      unfolding new_runtime_def
    proof (intro conjI allI impI)
      have "cfg_recent_limit (journal_config (rt_options r6)) = 512" by (simp add: journal_config_def)
      with st(1) show "\<exists>parent_ok cfg content. journal_open parse parent_ok cfg content = Inr (j', node') \<and> cfg_recent_limit cfg = 512"
        if "rt_journal (r6\<lparr>rt_journal := Some (j, node)\<rparr>) = Some (j', node')" for j' node'
        using that by auto
    qed (use m(1) new(1,2) in \<open>simp_all add: d m(2)\<close>)
    then have "restored_from dump ord parse rt0 (restore_journal_records dump ord (r6\<lparr>rt_journal := Some (j, node)\<rparr>))"
      unfolding restored_from_def by (intro exI [of _ "r6\<lparr>rt_journal := Some (j, node)\<rparr>"]) (simp add: d m(2))
    then show ?thesis using restored_from_moves(4) st(2) by blast
  qed
  then have "restored_from dump ord parse rt0 r3" using restored_from_moves(2) moves(1) by blast
  then have "restored_from dump ord parse rt0 r4"
    using moves(2) restored_from_moves(3) by (cases "o_provider_url (rt_options r3) = []") (auto simp: when_rt_def)
  then have "restored_from dump ord parse rt0 r5" using restored_from_moves(1) moves(3) by blast
  with app show ?thesis using that by blast
qed

text \<open>How often the machines may have moved, none of them to stopped.\<close>

definition machines_of :: "runtime \<Rightarrow> machine set" where
  "machines_of rt = {rt_service rt, rt_source rt, rt_provider rt, rt_store rt}"

definition moved_at_most :: "nat \<Rightarrow> runtime \<Rightarrow> bool" where
  "moved_at_most n rt \<longleftrightarrow> rt_started rt \<and> \<not> rt_stopped rt \<and>
     (\<forall>m \<in> machines_of rt. m_state m \<noteq> KStopped \<and> unat (m_transitions m) \<le> n)"

lemma transition_counts:
  "transition m nxt reason = Inr m' \<Longrightarrow> m_state m' = nxt \<and> unat (m_transitions m') \<le> Suc (unat (m_transitions m))"
proof -
  assume t: "transition m nxt reason = Inr m'"
  have "unat (w + 1) \<le> Suc (unat w)" for w :: u64
    by (cases "w = - 1") (simp_all add: unat_plus_one)
  with t show ?thesis by (auto simp: transition_def split: if_splits)
qed

lemma moved_move:
  assumes "moved_at_most n rt" and "nxt \<noteq> KStopped"
  shows "move_service nxt reason rt = (Inr u, rt') \<Longrightarrow> moved_at_most (Suc n) rt'"
    "move_source nxt reason rt = (Inr u, rt') \<Longrightarrow> moved_at_most (Suc n) rt'"
    "move_provider nxt reason rt = (Inr u, rt') \<Longrightarrow> moved_at_most (Suc n) rt'"
    "move_store nxt reason rt = (Inr u, rt') \<Longrightarrow> moved_at_most (Suc n) rt'"
  using assms unfolding moved_at_most_def machines_of_def move_defs
  by (auto split: sum.splits dest!: transition_counts intro: le_SucI le_trans)

lemma restore_record_keeps_machines:
  "machines_of (restore_record dump ord r rt) = machines_of rt \<and> rt_started (restore_record dump ord r rt) = rt_started rt \<and>
   rt_stopped (restore_record dump ord r rt) = rt_stopped rt"
  by (auto simp: restore_record_def insert_view_def make_room_def machines_of_def Let_def
      split: sum.splits option.splits list.splits)

lemma moved_restore: "moved_at_most n (restore_journal_records dump ord rt) = moved_at_most n rt"
proof -
  have "moved_at_most n (fold (restore_record dump ord) rs rt) = moved_at_most n rt" for rs
    by (induction rs arbitrary: rt) (simp_all add: moved_at_most_def restore_record_keeps_machines)
  then show ?thesis by (simp add: restore_journal_records_def split: option.splits prod.splits)
qed

lemma moved_append: "append_operational dump fault kind payload rt = (r, rt') \<Longrightarrow> moved_at_most n rt' = moved_at_most n rt"
  by (auto simp: append_operational_def moved_at_most_def machines_of_def split: option.splits prod.splits sum.splits)

lemma moved_mono: "moved_at_most n rt \<Longrightarrow> n \<le> n' \<Longrightarrow> moved_at_most n' rt"
  unfolding moved_at_most_def using le_trans by blast

lemma moved_stoppable: "moved_at_most n rt \<Longrightarrow> n < 2 ^ 64 - 2 \<Longrightarrow> m \<in> machines_of rt \<Longrightarrow> stoppable m"
  unfolding moved_at_most_def stoppable_def by fastforce

lemma start_moves:
  assumes "runtime_new tls_built opts session = Inr (rt0, held)"
    and "start dump ord parse what dk parent_ok content fault now rt0 = (Inr u, rt)"
  shows "moved_at_most 5 rt"
proof -
  have new: "moved_at_most 0 (rt0\<lparr>rt_started := True\<rparr>)" "\<not> rt_started rt0"
    using assms(1) by (auto simp: runtime_new_def moved_at_most_def machines_of_def machine_new_def split: if_splits)
  obtain r1 r2 r3 r4 r5 where
    load: "load_model dump parse what dk (rt0\<lparr>rt_started := True\<rparr>) = (Inr (), r1)"
    and store: "when_rt (\<lambda>rt. o_store_file (rt_options rt) \<noteq> [])
        (run_actions [move_store KStarting [], open_store dump ord parse what parent_ok content]) r1 = (Inr (), r2)"
    and moves: "move_source KDegraded ''waiting for current telemetry'' r2 = (Inr (), r3)"
      "when_rt (\<lambda>rt. o_provider_url (rt_options rt) = []) (move_provider KReady ''deterministic rules provider'') r3 = (Inr (), r4)"
      "move_service KReady [] r4 = (Inr (), r5)"
    and app: "append_operational dump fault ''service_start'' (start_record now r5) r5 = (Inr (), rt)"
    using assms(2) new(2) by (auto simp: start_def run_actions_Inr simp del: run_actions.simps(2))
  have r1: "moved_at_most 0 r1"
    using load new(1) by (auto simp: load_model_def moved_at_most_def machines_of_def split: sum.splits)
  have "moved_at_most 2 r2"
  proof (cases "o_store_file (rt_options r1) = []")
    case True
    with store r1 show ?thesis by (auto simp: when_rt_def intro: moved_mono)
  next
    case False
    with store obtain r6 where r6: "move_store KStarting [] r1 = (Inr (), r6)"
      "open_store dump ord parse what parent_ok content r6 = (Inr (), r2)"
      by (auto simp: when_rt_def run_actions_Inr simp del: run_actions.simps(2))
    have failed: "store_failed what e r \<noteq> (Inr (), r2)" for e r
      by (auto simp: store_failed_def split: sum.splits prod.splits)
    obtain st where st: "move_store KReady [] (restore_journal_records dump ord (r6\<lparr>rt_journal := Some st\<rparr>)) = (Inr (), r2)"
      using r6(2) failed by (auto simp: open_store_def split: sum.splits prod.splits)
    have "moved_at_most 1 r6" using moved_move(4) [OF r1 _ r6(1)] by simp
    then have "moved_at_most 1 (restore_journal_records dump ord (r6\<lparr>rt_journal := Some st\<rparr>))"
      unfolding moved_restore by (simp add: moved_at_most_def machines_of_def)
    from moved_move(4) [OF this _ st] show ?thesis by (simp add: numeral_2_eq_2)
  qed
  then have "moved_at_most 3 r3" using moved_move(2) [OF _ _ moves(1)] by fastforce
  then have "moved_at_most 4 r4"
    using moves(2) moved_move(3) [of 3 r3] moved_mono [of 3 r3 4]
    by (cases "o_provider_url (rt_options r3) = []") (fastforce simp: when_rt_def)+
  then have "moved_at_most 5 r5" using moved_move(1) [OF _ _ moves(3)] by fastforce
  then show ?thesis using moved_append [OF app] by simp
qed

section \<open>Property\<close>

text \<open>
  C36. The life of a runtime fits the relations its safety rests on. A runtime that was
  constructed and started without an exception, whatever its options, disk and journal, is in a
  state in which it serves and answers, so that the guarantees on stored views, model changes and
  cached answers hold from there on; a second start is refused without effect. It, like any started
  runtime whose machines have not stopped and have room in their counters, can be shut down: no
  transition throws, the service, source and provider end stopped, and so does the store unless it
  was disabled or had failed; shutting down again does nothing.
\<close>

theorem runtime_starts_and_stops:
  assumes "runtime_new tls_built opts session = Inr (rt0, held)"
    and "start dump ord parse what dk parent_ok content fault now rt0 = (Inr u, rt)"
  shows "serving dump parse ord vord (rt, replicate calls Idle) \<and>
    answering dump parse ord vord ((rt, replicate calls Idle), []) \<and>
    start dump ord parse what dk parent_ok content fault now rt =
      (Inl (LogicError ''runtime was already started''), rt) \<and>
    (\<forall>rt1. rt1 = rt \<or> rt_started rt1 \<and> \<not> rt_stopped rt1 \<and>
        (\<forall>m \<in> {rt_service rt1, rt_source rt1, rt_provider rt1, rt_store rt1}.
           m_state m \<noteq> KStopped \<and> unat (m_transitions m) < 2 ^ 64 - 2) \<longrightarrow>
      (\<exists>rt'. shutdown rt1 = (Inr (), rt') \<and> m_state (rt_service rt') = KStopped \<and>
         m_state (rt_source rt') = KStopped \<and> m_state (rt_provider rt') = KStopped \<and>
         m_state (rt_store rt') =
           (if m_state (rt_store rt1) \<in> {KDisabled, KFailed} then m_state (rt_store rt1) else KStopped) \<and>
         shutdown rt' = (Inr (), rt')))"
proof (intro conjI allI impI)
  obtain rt1 where r: "restored_from dump ord parse rt0 rt1"
    and app: "append_operational dump fault ''service_start'' (start_record now rt1) rt1 = (Inr (), rt)"
    by (rule start_restores [OF assms])
  obtain rt2 where rt2: "new_runtime dump parse rt2" "rt_retrievals rt2 = rt_retrievals rt0"
    "rt1 = restore_journal_records dump ord rt2"
    using r by (auto simp: restored_from_def)
  note logs = service_step.logged [OF app [unfolded rt2(3)]]
  show "serving dump parse ord vord (rt, replicate calls Idle)"
    using serving.step [OF serving.boot [OF rt2(1)] logs] .
  obtain capacity ttl where "cache_new capacity ttl = Inr (rt_retrievals rt2)"
    using runtime_new_facts(5) [OF assms(1)] rt2(2) by auto
  from answering.step [OF answering.boot [OF rt2(1) this] answer_step.other_call [OF logs]]
  show "answering dump parse ord vord ((rt, replicate calls Idle), [])" .
  have moved: "moved_at_most 5 rt" by (rule start_moves [OF assms])
  then show "start dump ord parse what dk parent_ok content fault now rt =
      (Inl (LogicError ''runtime was already started''), rt)"
    by (simp add: start_def moved_at_most_def)
  fix rt1
  assume "rt1 = rt \<or> rt_started rt1 \<and> \<not> rt_stopped rt1 \<and>
        (\<forall>m \<in> {rt_service rt1, rt_source rt1, rt_provider rt1, rt_store rt1}.
           m_state m \<noteq> KStopped \<and> unat (m_transitions m) < 2 ^ 64 - 2)"
  then have "rt_started rt1 \<and> \<not> rt_stopped rt1 \<and>
      (\<forall>m \<in> {rt_service rt1, rt_source rt1, rt_provider rt1, rt_store rt1}. stoppable m)"
    using moved moved_stoppable [OF moved] unfolding machines_of_def by (auto simp: moved_at_most_def stoppable_def)
  then show "\<exists>rt'. shutdown rt1 = (Inr (), rt') \<and> m_state (rt_service rt') = KStopped \<and>
         m_state (rt_source rt') = KStopped \<and> m_state (rt_provider rt') = KStopped \<and>
         m_state (rt_store rt') =
           (if m_state (rt_store rt1) \<in> {KDisabled, KFailed} then m_state (rt_store rt1) else KStopped) \<and>
         shutdown rt' = (Inr (), rt')"
    using shutdown_stops [of rt1] by blast
qed

definition demo_disk :: disk where
  "demo_disk = \<lparr>dk_entry = (\<lambda>path. Regular (bytes_of ''{}'')), dk_opens = (\<lambda>path. True),
     dk_modified = (\<lambda>path. Some 0), dk_listing = (\<lambda>path. Some [])\<rparr>"

lemma demo_loads: "load_model_file no_text (\<lambda>_. Inr demo_model) (\<lambda>_. []) demo_disk path = Inr demo_model"
proof -
  have "validate_model no_text demo_model = Inr r \<Longrightarrow> read_model no_text (\<lambda>_. Inr demo_model) demo_disk path = Inr demo_model" for r
    by (simp add: read_model_def read_file_bounded_def demo_disk_def maximum_model_bytes_def inspect_json_shape_def
        unwrap_model_def del: ebind_eq_Inr) (simp add: demo_model_def contains_def)
  then show ?thesis using demo_model_valid by (auto simp: load_model_file_def)
qed

theorem runtime_starts_and_stops_witness:
  "\<exists>rt0 held rt. runtime_new False default_options ''session-1'' = Inr (rt0, held) \<and>
     start no_text rev (\<lambda>_. Inr demo_model) (\<lambda>_. []) demo_disk True Absent None 0 rt0 = (Inr (), rt) \<and>
     serving no_text (\<lambda>_. Inr demo_model) rev rev (rt, [Idle, Idle]) \<and> fst (shutdown rt) = Inr ()"
proof -
  obtain rt0 where new: "runtime_new False default_options ''session-1'' = Inr (rt0, None)"
    "rt_started rt0 = False" "rt_options rt0 = default_options" "rt_journal rt0 = None"
    "m_state (rt_source rt0) = KStarting" "m_transitions (rt_source rt0) = 0"
    "m_state (rt_provider rt0) = KStarting" "m_transitions (rt_provider rt0) = 0"
    "m_state (rt_service rt0) = KStarting" "m_transitions (rt_service rt0) = 0"
    by (simp add: runtime_new_def machine_new_def valid_state_def cache_new_def store_new_def new_provider_def
        config_of_options_def default_options_def)
  have "\<exists>rt. start no_text rev (\<lambda>_. Inr demo_model) (\<lambda>_. []) demo_disk True Absent None 0 rt0 = (Inr (), rt)"
    by (simp add: start_def new load_model_def demo_loads when_rt_def move_defs transition_def allowed_def
        append_operational_def) (simp add: default_options_def new)
  then obtain rt where st: "start no_text rev (\<lambda>_. Inr demo_model) (\<lambda>_. []) demo_disk True Absent None 0 rt0 = (Inr (), rt)"
    by blast
  note life = runtime_starts_and_stops [OF new(1) st, of rev 2]
  then have "serving no_text (\<lambda>_. Inr demo_model) rev rev (rt, [Idle, Idle])" by (simp add: numeral_2_eq_2)
  moreover have "fst (shutdown rt) = Inr ()" using life by fastforce
  ultimately show ?thesis using new(1) st by blast
qed

end
