(* ===== verification/Runtime_Surface.thy ===== *)
theory Runtime_Surface
  imports Runtime_Lifecycle Worker_Pool
begin

text \<open>
  What the runtime reports about itself (\<open>runtime_surface.cpp\<close>): the catalog, telemetry, health,
  readiness, session and metrics. The parts of the process outside the runtime's own state (the
  worker pools, the admission counters, the logger's report) are a record of their own; the
  version is the build's.
\<close>

section \<open>The catalog\<close>

definition flag_entry :: "(string \<times> bool) \<Rightarrow> string \<times> json" where
  "flag_entry kv = (fst kv, JBool (snd kv))"

definition component_entry :: "string \<Rightarrow> bool \<Rightarrow> (string \<times> json) list \<Rightarrow> json" where
  "component_entry kind composer detail =
     jobj ([(''kind'', JStr kind), (''composer'', JBool composer), (''workbench'', JBool True)] @ detail)"

definition bundle_artifacts :: "string list" where
  "bundle_artifacts = [''asset_hierarchy'', ''relationships'', ''controller_tags'', ''io_configuration'',
     ''alarm_definitions'', ''communications'', ''machine_documents'']"

definition catalog :: json where
  "catalog = jobj
     [(''schema_version'', JStr ''context-hmi-catalog/1''), (''screen_schema_version'', JStr ''context-hmi-screen/1''),
      (''components'', JArr
        [component_entry ''gauge'' True [], component_entry ''value'' True [], component_entry ''status'' True [],
         component_entry ''alarm'' True [],
         component_entry ''trend'' False [(''reason'', JStr ''history contract is not accepted'')],
         component_entry ''command_button'' False
           [(''reason'', JStr ''visible controls cannot grant command authority'')]]),
      (''machine_inputs'', JArr
        [jobj [(''id'', JStr ''machine-model-json/1''), (''accepted'', JBool True), (''relationships'', JStr ''declared-only'')],
         jobj [(''id'', JStr ''engineering-bundle/1''), (''accepted'', JBool True), (''importer'', JStr ''context-hmi-context''),
               (''relationships'', JStr ''declared-only''), (''artifacts'', JArr (map JStr bundle_artifacts))]]),
      (''clients'', jobj
        [(''sveltekit'', jobj (map flag_entry [(''implemented'', True), (''primary'', True)])),
         (''qt'', jobj (map flag_entry [(''implemented'', False), (''contract_compatible'', True)] @
            [(''reason'', JStr ''optional renderer is outside the current scope'')]))]),
      (''transport'', jobj [(''http'', JStr ''drogon-1.9.13''), (''streaming'', JStr ''server-sent-events''),
         (''websocket'', JBool False)]),
      (''sources'', JArr [JStr ''telemetry-ingestion''])]"

section \<open>Telemetry\<close>

definition telemetry :: "(json \<Rightarrow> string res) \<Rightarrow> u64 \<Rightarrow> runtime \<Rightarrow> json res" where
  "telemetry dump now rt =
     (let (model, generation) = model_snapshot rt
      in Telemetry.snapshot dump now model generation (rt_session rt) (rt_telemetry rt))"

text \<open>The commit with the snapshot of a call, and what follows in the state found then.\<close>

definition ingest_commit ::
  "(json \<Rightarrow> string res) \<Rightarrow> u64 \<Rightarrow> json \<times> u64 \<Rightarrow> json \<Rightarrow> runtime \<Rightarrow> json res \<times> runtime" where
  "ingest_commit dump now held batch rt =
     (case Telemetry.ingest dump now (fst held) (snd held) batch (rt_telemetry rt) of
        (r, s) \<Rightarrow> (r, rt\<lparr>rt_telemetry := s\<rparr>))"

definition ingest_acknowledge :: "json \<Rightarrow> u64 \<Rightarrow> runtime \<Rightarrow> json res \<times> runtime" where
  "ingest_acknowledge result generation rt =
     (if generation \<noteq> rt_generation rt
      then (Inl (stale_context ''machine context changed while telemetry was committed''), rt)
      else case move_source KReady ''current telemetry received'' rt of
             (Inl e, rt') \<Rightarrow> (Inl e, rt')
           | (Inr u, rt') \<Rightarrow> (Inr result, rt'))"

definition ingest_telemetry ::
  "(json \<Rightarrow> string res) \<Rightarrow> u64 \<Rightarrow> json \<Rightarrow> runtime \<Rightarrow> json res \<times> runtime" where
  "ingest_telemetry dump now batch rt =
     (let held = model_snapshot rt
      in case ingest_commit dump now held batch rt of
           (Inl e, rt') \<Rightarrow> (Inl e, rt')
         | (Inr result, rt') \<Rightarrow> ingest_acknowledge result (snd held) rt')"

section \<open>Reports\<close>

definition lifecycle_report :: "runtime \<Rightarrow> json" where
  "lifecycle_report rt =
     jobj [(''service'', machine_snapshot (rt_service rt)), (''source'', machine_snapshot (rt_source rt)),
           (''provider'', machine_snapshot (rt_provider rt)), (''store'', machine_snapshot (rt_store rt))]"

definition health :: "string \<Rightarrow> llama option \<Rightarrow> runtime \<Rightarrow> json" where
  "health version held rt =
     (let mode = (case held of Some ll \<Rightarrow> llama_name ll | None \<Rightarrow> ''rules'');
          configured = JBool (o_provider_url (rt_options rt) \<noteq> [])
      in jobj [(''version'', JStr version), (''http_runtime'', JStr ''drogon-1.9.13''),
           (''interpreter'', JStr (if mode = ''rules'' then ''rules'' else ''llama'')), (''provider_name'', JStr mode),
           (''llama_configured'', configured), (''provider_configured'', configured),
           (''mode'', JStr ''telemetry-ingestion''), (''active_scenario'', JStr (rt_scenario rt)),
           (''session_id'', JStr (rt_session rt)), (''context_generation'', JUInt (rt_generation rt)),
           (''command_gateway'', JStr ''disabled''), (''durable_audit'', JBool (rt_journal rt \<noteq> None)),
           (''lifecycle'', lifecycle_report rt)])"

text \<open>A report moves a machine to ready or degraded with its reason.\<close>

definition follow :: "(lstate \<Rightarrow> string \<Rightarrow> action) \<Rightarrow> json \<Rightarrow> runtime \<Rightarrow> bool res \<times> runtime" where
  "follow moves report rt =
     (case ebind (value_bool report ''ready'' False) (\<lambda>ready.
           ebind (value_string report ''reason'' []) (\<lambda>reason. Inr (ready, reason))) of
        Inl e \<Rightarrow> (Inl e, rt)
      | Inr (ready, reason) \<Rightarrow>
          (case moves (if ready then KReady else KDegraded) reason rt of
             (Inl e, rt') \<Rightarrow> (Inl e, rt')
           | (Inr u, rt') \<Rightarrow> (Inr ready, rt')))"

definition runtime_readiness ::
  "(string \<Rightarrow> json res) \<Rightarrow> (http_request \<Rightarrow> http_outcome) \<Rightarrow> llama option \<Rightarrow> runtime \<Rightarrow> json res \<times> runtime" where
  "runtime_readiness parse send held rt =
     (case inference_readiness parse send held of
        Inl e \<Rightarrow> (Inl e, rt)
      | Inr provider \<Rightarrow>
          (case follow move_provider provider rt of
             (Inl e, rt) \<Rightarrow> (Inl e, rt)
           | (Inr provider_ready, rt) \<Rightarrow>
               let source = Telemetry.readiness (rt_generation rt) (rt_telemetry rt)
               in (case follow move_source source rt of
                     (Inl e, rt) \<Rightarrow> (Inl e, rt)
                   | (Inr source_ready, rt) \<Rightarrow>
                       (Inr (jobj [(''ready'', JBool (provider_ready \<and> source_ready)),
                          (''service'', jobj [(''ready'', JBool (m_state (rt_service rt) = KReady)),
                             (''lifecycle'', machine_snapshot (rt_service rt))]),
                          (''source'', oset source ''lifecycle'' (machine_snapshot (rt_source rt))),
                          (''inference'', provider)]), rt))))"

definition session_report :: "runtime \<Rightarrow> json" where
  "session_report rt =
     jobj [(''role'', JStr ''local-operator''), (''actor'', JStr (o_operator_actor (rt_options rt))),
           (''capabilities'', JArr [JStr ''model.read'', JStr ''view.create'']),
           (''session_id'', JStr (rt_session rt)), (''context_generation'', JUInt (rt_generation rt)),
           (''authentication'', JStr ''none-loopback-boundary'')]"

text \<open>What the metrics show besides the state of the runtime.\<close>

record surroundings =
  sd_cpu :: json
  sd_provider :: json
  sd_inflight :: u32
  sd_sse_clients :: u32
  sd_diagnostics :: json

definition runtime_metrics :: "surroundings \<Rightarrow> nat \<Rightarrow> runtime \<Rightarrow> json" where
  "runtime_metrics sd sse_limit rt =
     jobj [(''schema_version'', JStr ''context-hmi-metrics/1''), (''execution'', sd_cpu sd),
           (''provider_execution'', sd_provider sd), (''inference_inflight'', JUInt (ucast (sd_inflight sd))),
           (''sse_clients'', JUInt (ucast (sd_sse_clients sd))), (''sse_client_limit'', JUInt (of_nat sse_limit)),
           (''saved_views'', JUInt (of_nat (length (rt_views rt)))),
           (''cache'', jobj [(''retrieval'', cache_snapshot (rt_retrievals rt)),
                             (''interpretation'', cache_snapshot (rt_interpretations rt))]),
           (''model_changes'', JUInt (rt_changes rt)), (''model_watch_failures'', JUInt (rt_watch_failures rt)),
           (''model_watch_enabled'', JBool (o_watch_model (rt_options rt))),
           (''store'', case rt_journal rt of Some st \<Rightarrow> journal_snapshot st | None \<Rightarrow> jobj [(''enabled'', JBool False)]),
           (''diagnostics'', sd_diagnostics sd), (''source'', Telemetry.metrics (rt_telemetry rt)),
           (''lifecycle'', lifecycle_report rt)]"

end
