(* ===== verification/Admission.thy ===== *)
theory Admission
  imports Prelude
begin

text \<open>
  The two admission counters of the runtime (\<open>service_runtime.cpp\<close>): how many clients stream events
  and how many interpretations are in flight. A caller acquires and releases a slot with a
  compare-exchange loop on an atomic; each iteration is one step here, and any number of callers
  interleave. A weak exchange may also fail without a reason. The locale states what the two
  counters share.
\<close>

section \<open>The loops\<close>

text \<open>What a caller is doing; in the loops it holds the value it has seen.\<close>

datatype slot_phase = Away | Trying u32 | Holding | Leaving u32

definition maximum_sse_clients :: nat where
  "maximum_sse_clients = 3"

definition maximum_inference_requests :: nat where
  "maximum_inference_requests = 4"

definition acquire_begin :: "u32 \<Rightarrow> slot_phase" where
  "acquire_begin counter = Trying counter"

definition acquire_turn :: "nat \<Rightarrow> bool \<Rightarrow> u32 \<Rightarrow> u32 \<Rightarrow> u32 \<times> slot_phase" where
  "acquire_turn limit spurious counter seen =
     (if unat seen \<ge> limit then (counter, Away)
      else if counter = seen \<and> \<not> spurious then (seen + 1, Holding)
      else (counter, Trying counter))"

definition release_begin :: "u32 \<Rightarrow> slot_phase" where
  "release_begin counter = Leaving counter"

definition release_turn :: "bool \<Rightarrow> u32 \<Rightarrow> u32 \<Rightarrow> u32 \<times> slot_phase" where
  "release_turn spurious counter seen =
     (if seen = 0 then (counter, Away)
      else if counter = seen \<and> \<not> spurious then (seen - 1, Away)
      else (counter, Leaving counter))"

inductive slot_step :: "nat \<Rightarrow> u32 \<times> slot_phase list \<Rightarrow> u32 \<times> slot_phase list \<Rightarrow> bool" for limit where
  ask: "slot_step limit (c, ps) (c, ps[i := acquire_begin c])" if "i < length ps" and "ps ! i = Away"
| attempt: "slot_step limit (c, ps) (c', ps[i := p])"
    if "i < length ps" and "ps ! i = Trying seen" and "acquire_turn limit spurious c seen = (c', p)"
| give_back: "slot_step limit (c, ps) (c, ps[i := release_begin c])" if "i < length ps" and "ps ! i = Holding"
| retire: "slot_step limit (c, ps) (c', ps[i := p])"
    if "i < length ps" and "ps ! i = Leaving seen" and "release_turn spurious c seen = (c', p)"



inductive admitted :: "nat \<Rightarrow> u32 \<times> slot_phase list \<Rightarrow> bool" for limit where
  empty: "admitted limit (0, replicate callers Away)"
| step: "admitted limit s'" if "admitted limit s" and "slot_step limit s s'"

section \<open>The bound\<close>

definition occupies :: "slot_phase \<Rightarrow> bool" where
  "occupies p \<longleftrightarrow> (case p of Holding \<Rightarrow> True | Leaving seen \<Rightarrow> True | _ \<Rightarrow> False)"

definition occupied :: "slot_phase list \<Rightarrow> nat" where
  "occupied ps = length (filter occupies ps)"

lemma occupied_update:
  "i < length ps \<Longrightarrow>
     occupied (ps[i := p]) + (if occupies (ps ! i) then 1 else 0) = occupied ps + (if occupies p then 1 else 0)"
  unfolding occupied_def
proof (induction ps arbitrary: i)
  case (Cons q ps)
  then show ?case by (cases i) auto
qed simp

lemma occupied_pos: "i < length ps \<Longrightarrow> occupies (ps ! i) \<Longrightarrow> 0 < occupied ps"
  unfolding occupied_def by (auto simp: filter_empty_conv)

lemma acquire_turn_cases:
  assumes "acquire_turn limit spurious c seen = (c', p)"
  shows "c' = c \<and> (p = Away \<or> p = Trying c) \<or> unat c < limit \<and> c' = c + 1 \<and> p = Holding"
proof (cases "unat seen \<ge> limit")
  case False
  with assms show ?thesis by (cases "c = seen \<and> \<not> spurious") (auto simp: acquire_turn_def)
qed (use assms in \<open>simp add: acquire_turn_def\<close>)

lemma release_turn_cases:
  assumes "release_turn spurious c seen = (c', p)" and "seen \<noteq> 0"
  shows "c' = c \<and> p = Leaving c \<or> c' = c - 1 \<and> p = Away"
  using assms by (cases "c = seen \<and> \<not> spurious") (auto simp: release_turn_def)

locale admission =
  fixes limit :: nat
  assumes limit_fits: "limit < 2 ^ 32"
begin

definition slots_inv :: "u32 \<times> slot_phase list \<Rightarrow> bool" where
  "slots_inv = (\<lambda>(c, ps). unat c = occupied ps \<and> occupied ps \<le> limit \<and> Leaving 0 \<notin> set ps)"

lemma step_inv:
  assumes "slot_step limit (c, ps) (c', ps')" and "slots_inv (c, ps)"
  shows "slots_inv (c', ps')"
proof -
  have inv: "unat c = occupied ps" "occupied ps \<le> limit" "Leaving 0 \<notin> set ps" using assms(2) by (simp_all add: slots_inv_def)
  have keep: "Leaving 0 \<notin> set (ps[i := p])" if "p \<noteq> Leaving 0" for i p
    using inv(3) that set_update_subset_insert by fastforce
  have nonzero: "c \<noteq> 0" if "i < length ps" "occupies (ps ! i)" for i
    using occupied_pos [OF that] inv(1) by auto
  from assms(1) show ?thesis
  proof cases
    case (ask i)
    with inv keep occupied_update [OF ask(3), of "Trying c"] show ?thesis
      by (simp add: slots_inv_def acquire_begin_def occupies_def)
  next
    case (attempt i seen spurious p)
    have o: "\<not> occupies (ps ! i)" using attempt(3) by (simp add: occupies_def)
    consider "c' = c" "p = Away \<or> p = Trying c" | "unat c < limit" "c' = c + 1" "p = Holding"
      using acquire_turn_cases [OF attempt(4)] by blast
    then show ?thesis
    proof cases
      case 1
      with o inv keep [of p i] occupied_update [OF attempt(2), of p] attempt(1) show ?thesis
        by (auto simp: slots_inv_def occupies_def)
    next
      case 2
      then have "unat c < 2 ^ 32 - 1" using limit_fits by simp
      then have "c \<noteq> - 1" by (auto simp: unsigned_minus_1_eq_mask mask_eq_exp_minus_1)
      then have "unat (c + 1) = Suc (unat c)" by (rule unat_plus_one)
      with 2 o inv keep [of p i] occupied_update [OF attempt(2), of p] attempt(1) show ?thesis
        by (auto simp: slots_inv_def occupies_def)
    qed
  next
    case (give_back i)
    have o: "occupies (ps ! i)" using give_back(4) by (simp add: occupies_def)
    with inv keep [of "Leaving c" i] nonzero [OF give_back(3) o] occupied_update [OF give_back(3), of "Leaving c"] give_back(1,2)
    show ?thesis by (simp add: slots_inv_def release_begin_def occupies_def)
  next
    case (retire i seen spurious p)
    have o: "occupies (ps ! i)" using retire(3) by (simp add: occupies_def)
    have "seen \<noteq> 0" using inv(3) nth_mem [OF retire(2)] retire(3) by auto
    then consider "c' = c" "p = Leaving c" | "c' = c - 1" "p = Away"
      using release_turn_cases [OF retire(4)] by blast
    then show ?thesis
    proof cases
      case 1
      with o inv keep [of p i] nonzero [OF retire(2) o] occupied_update [OF retire(2), of p] retire(1) show ?thesis
        by (simp add: slots_inv_def occupies_def)
    next
      case 2
      have "unat (c - 1) = unat c - 1" using nonzero [OF retire(2) o] by (simp add: unat_minus_one)
      with 2 o inv keep [of p i] occupied_update [OF retire(2), of p] retire(1) show ?thesis
        by (simp add: slots_inv_def occupies_def)
    qed
  qed
qed

lemma always: "admitted limit s \<Longrightarrow> slots_inv s"
proof (induction rule: admitted.induct)
  case (empty callers)
  then show ?case by (simp add: slots_inv_def occupied_def occupies_def)
next
  case (step s s')
  then show ?case using step_inv by (cases s; cases s') auto
qed

end

interpretation sse: admission maximum_sse_clients
  by unfold_locales (simp add: maximum_sse_clients_def)

interpretation inference: admission maximum_inference_requests
  by unfold_locales (simp add: maximum_inference_requests_def)

section \<open>Property\<close>

text \<open>
  C38. Admission is bounded and leaks nothing. Under any interleaving of any number of callers, lost
  exchanges and spurious failures included, the counter equals the number of slots that are held or
  being given back, which never exceeds the limit; a caller that gives back always frees its slot,
  and while a slot is free an exchange that is not disturbed takes it.
\<close>

theorem admission_is_bounded:
  assumes "admitted limit (c, ps)" and "limit \<in> {maximum_sse_clients, maximum_inference_requests}"
  shows "unat c = occupied ps \<and> occupied ps \<le> limit \<and>
    (\<forall>seen. Leaving seen \<in> set ps \<longrightarrow> fst (release_turn False c c) = c - 1 \<and> unat (c - 1) = occupied ps - 1) \<and>
    (occupied ps < limit \<longrightarrow> acquire_turn limit False c c = (c + 1, Holding))"
proof -
  have inv: "unat c = occupied ps" "occupied ps \<le> limit"
    using assms sse.always [of "(c, ps)"] inference.always [of "(c, ps)"]
    by (auto simp: sse.slots_inv_def inference.slots_inv_def)
  have "c \<noteq> 0" if leaving: "Leaving seen \<in> set ps" for seen
  proof -
    obtain i where "i < length ps" "ps ! i = Leaving seen" using leaving unfolding in_set_conv_nth by blast
    then show ?thesis using occupied_pos [of i ps] inv(1) by (auto simp: occupies_def)
  qed
  with inv show ?thesis by (auto simp: release_turn_def acquire_turn_def unat_minus_one)
qed

theorem admission_is_bounded_witness:
  "\<exists>c. admitted maximum_sse_clients (c, [Holding, Leaving c, Away]) \<and> unat c = 2 \<and>
     acquire_turn maximum_sse_clients False c c = (c + 1, Holding)"
proof -
  let ?a = "admitted maximum_sse_clients"
  have s0: "?a (0, [Away, Away, Away])"
    using admitted.empty [of maximum_sse_clients 3] by (simp add: numeral_3_eq_3)
  have s1: "?a (0, [Trying 0, Away, Away])"
    using admitted.step [OF s0 slot_step.ask [where i = 0]] by (simp add: acquire_begin_def)
  have s2: "?a (1, [Holding, Away, Away])"
    using admitted.step [OF s1 slot_step.attempt [where i = 0 and seen = 0 and spurious = False]]
    by (simp add: acquire_turn_def maximum_sse_clients_def)
  have s3: "?a (1, [Holding, Trying 1, Away])"
    using admitted.step [OF s2 slot_step.ask [where i = 1]] by (simp add: acquire_begin_def)
  have s4: "?a (2, [Holding, Holding, Away])"
    using admitted.step [OF s3 slot_step.attempt [where i = 1 and seen = 1 and spurious = False]]
    by (simp add: acquire_turn_def maximum_sse_clients_def)
  have s5: "?a (2, [Holding, Leaving 2, Away])"
    using admitted.step [OF s4 slot_step.give_back [where i = 1]] by (simp add: release_begin_def)
  from admission_is_bounded [OF s5] s5 show ?thesis
    by (intro exI [of _ 2]) (simp add: occupied_def occupies_def maximum_sse_clients_def)
qed

end
