(* ===== verification/Http_Routes.thy ===== *)
theory Http_Routes
  imports Runtime_Surface Admission
begin

text \<open>
  The HTTP boundary (\<open>http_common.cpp\<close>, \<open>task_routes.cpp\<close>, \<open>read_routes.cpp\<close>,
  \<open>stream_routes.cpp\<close>): the checks of a request, the routes, and how the outcome of a job becomes
  a response. Drogon is not modelled: a request is what the handlers read of it, a handler either
  replies at once or hands a job to a pool. The event stream is the sequence of its snapshots.
\<close>

section \<open>Requests and responses\<close>

record http_in =
  hi_header :: "string \<Rightarrow> string"
  hi_parameter :: "string \<Rightarrow> string"
  hi_body :: string
  hi_http10 :: bool

record http_out =
  ho_status :: nat
  ho_type :: string
  ho_headers :: "(string \<times> string) list"
  ho_body :: string

definition maximum_body_bytes :: nat where
  "maximum_body_bytes = 64 * 1024"

definition route_prompt_bytes :: nat where
  "route_prompt_bytes = 8192"

definition error_json :: "string \<Rightarrow> string \<Rightarrow> json" where
  "error_json code message = jobj [(''error'', jobj [(''code'', JStr code), (''message'', JStr message)])]"

definition json_response :: "(json \<Rightarrow> string res) \<Rightarrow> json \<Rightarrow> nat \<Rightarrow> http_out res" where
  "json_response dump v status =
     ebind (dump v) (\<lambda>body.
     Inr \<lparr>ho_status = status, ho_type = ''application/json'', ho_headers = [(''Cache-Control'', ''no-store'')],
          ho_body = body\<rparr>)"

section \<open>Checks\<close>

text \<open>A reply is a status and a body; a check gives the reply that ends the request, or a value.\<close>

type_synonym reply = "nat \<times> json"

definition refuse :: "nat \<Rightarrow> string \<Rightarrow> string \<Rightarrow> reply + 'a" where
  "refuse status code message = Inl (status, error_json code message)"

definition origin_allowed :: "runtime_options \<Rightarrow> http_in \<Rightarrow> bool" where
  "origin_allowed opts rq =
     (let origin = hi_header rq ''origin''; port = show_int (o_port opts);
          host = (if CHR '':'' \<in> set (o_host opts) then ''['' @ o_host opts @ '']'' else o_host opts)
      in origin = [] \<or> origin = ''http://'' @ host @ '':'' @ port \<or> origin = ''http://127.0.0.1:'' @ port \<or>
         origin = ''http://localhost:'' @ port \<or>
         (o_workbench_origin opts \<noteq> [] \<and> origin = o_workbench_origin opts))"

definition request_id :: "int \<Rightarrow> u64 \<Rightarrow> http_in \<Rightarrow> string" where
  "request_id steady_us sequence rq =
     (let supplied = hi_header rq ''x-request-id''
      in if supplied \<noteq> [] \<and> length supplied \<le> 128 \<and>
            list_all (\<lambda>c. is_alnum c \<or> c = CHR ''-'' \<or> c = CHR ''_'' \<or> c = CHR ''.'') supplied
         then supplied
         else ''request-'' @ show_nat (nat steady_us) @ ''-'' @ show_nat (unat (sequence + 1)))"

text \<open>The same scan as for model files.\<close>

definition body_shape :: "string \<Rightarrow> json_shape" where
  "body_shape input = shape_from 0 False False input"

definition parse_body ::
  "(string \<Rightarrow> json res) \<Rightarrow> (exn \<Rightarrow> string) \<Rightarrow> nat \<Rightarrow> http_in \<Rightarrow> reply + json" where
  "parse_body parse what maximum_bytes rq =
     (let body = hi_body rq
      in if maximum_bytes = 0 \<or> maximum_bytes > 1024 * 1024 \<or> length body > maximum_bytes
         then refuse 413 ''body_too_large'' ''request body exceeds maximum size''
         else case body_shape body of
             TooDeep \<Rightarrow> refuse 400 ''json_too_deep'' ''request JSON nesting exceeds maximum depth''
           | Incomplete \<Rightarrow> refuse 400 ''invalid_json'' ''request JSON is incomplete''
           | ShapeOk \<Rightarrow>
               (case ebind (parse body) (\<lambda>v.
                      if \<not> is_object v then Inl (RuntimeError ''request JSON must be an object'') else Inr v) of
                  Inl e \<Rightarrow> refuse 400 ''invalid_json'' (what e)
                | Inr v \<Rightarrow> Inr v))"

definition trim_back :: "string \<Rightarrow> string" where
  "trim_back s = rev (dropWhile is_space (rev s))"

definition content_type :: "http_in \<Rightarrow> string" where
  "content_type rq = trim_back (takeWhile (\<lambda>c. c \<noteq> CHR '';'') (lower (hi_header rq ''content-type'')))"

definition mutation_guard :: "runtime_options \<Rightarrow> http_in \<Rightarrow> reply + unit" where
  "mutation_guard opts rq =
     (if content_type rq \<noteq> ''application/json''
      then refuse 415 ''content_type'' ''mutation requests require application/json''
      else if \<not> origin_allowed opts rq
      then refuse 403 ''cross_origin'' ''cross-origin mutation is not permitted''
      else Inr ())"

text \<open>\<open>std::from_chars\<close> into a \<open>std::size_t\<close>.\<close>

definition bounded_limit :: "nat \<Rightarrow> http_in \<Rightarrow> reply + nat" where
  "bounded_limit default_value rq =
     (let v = hi_parameter rq ''limit''; n = digits_value v
      in if v = [] then Inr default_value
         else if \<not> list_all is_digit v \<or> n \<ge> 2 ^ 64 \<or> n < 1 \<or> n > 100
         then refuse 400 ''invalid_limit'' ''audit limit must be from 1 through 100''
         else Inr n)"

definition domain_status :: "string \<Rightarrow> nat" where
  "domain_status code =
     (if code = ''scenario_not_found'' then 404
      else if code = ''command_denied'' then 403
      else if code \<in> set [''stale_context'', ''lost_update'', ''idempotency_conflict'', ''confirmation_required'',
        ''stale_model_revision''] then 409
      else if code = ''audit_unavailable'' then 503
      else if code = ''unknown_view'' \<or> code = ''view_tampered'' then 422
      else if code = ''invalid_command'' \<or> code = ''invalid_scenario'' then 400
      else if code = ''invalid_request'' then 400
      else 422)"

definition inference_status :: "string \<Rightarrow> nat" where
  "inference_status code =
     (if code = ''stale_context'' then 409
      else if code = ''inference_busy'' then 429
      else if code = ''invalid_interpreter'' \<or> code = ''invalid_prompt'' \<or> code = ''prompt_too_large'' then 400
      else if code = ''provider_unconfigured'' then 409
      else 502)"

section \<open>Routes\<close>

text \<open>What a handler hands to a pool, and the pool it chooses.\<close>

datatype job =
    RetrieveJob string
  | InterpretJob string string json
  | ResolveJob json
  | ReconcileJob json
  | ScenarioJob string
  | IngestJob json
  | ReadinessJob
  | ScenariosJob
  | AuditJob nat
  | RecordsJob nat

datatype pool_choice = CpuWorkers | ProviderWorkers

datatype handled = Reply nat json | Dispatch pool_choice job

definition reply_or :: "(reply + 'a) \<Rightarrow> ('a \<Rightarrow> handled) \<Rightarrow> handled" where
  "reply_or c f = (case c of Inl (status, body) \<Rightarrow> Reply status body | Inr x \<Rightarrow> f x)"

definition fail_with :: "nat \<Rightarrow> string \<Rightarrow> string \<Rightarrow> handled" where
  "fail_with status code message = Reply status (error_json code message)"

text \<open>The guard and the body of a mutation.\<close>

definition mutation ::
  "(string \<Rightarrow> json res) \<Rightarrow> (exn \<Rightarrow> string) \<Rightarrow> runtime_options \<Rightarrow> nat \<Rightarrow> http_in \<Rightarrow> (json \<Rightarrow> handled) \<Rightarrow> handled" where
  "mutation parse what opts maximum_bytes rq f =
     reply_or (mutation_guard opts rq) (\<lambda>_. reply_or (parse_body parse what maximum_bytes rq) f)"

definition prompt_admissible :: "string \<Rightarrow> bool" where
  "prompt_admissible prompt \<longleftrightarrow> \<not> (prompt = [] \<or> length prompt > route_prompt_bytes)"

definition handle_retrieve :: "json \<Rightarrow> handled" where
  "handle_retrieve body =
     (if json_size body \<noteq> 1 \<or> \<not> has_string body ''prompt''
      then fail_with 400 ''invalid_prompt'' ''request requires only a string prompt''
      else let prompt = sfld body ''prompt''
        in if \<not> prompt_admissible prompt
           then fail_with 400 ''invalid_prompt'' ''prompt must be nonempty and at most 8192 bytes''
           else Dispatch CpuWorkers (RetrieveJob prompt))"

text \<open>The handler takes an inference slot last; the job gives it back when it is done or dropped.\<close>

definition handle_interpret :: "string \<Rightarrow> bool \<Rightarrow> json \<Rightarrow> handled" where
  "handle_interpret runtime_mode slot_free body =
     (if \<not> has_string body ''prompt'' then fail_with 400 ''invalid_prompt'' ''prompt must be a string''
      else if list_ex (\<lambda>(k, v). k \<noteq> ''prompt'' \<and> k \<noteq> ''interpreter'' \<and> k \<noteq> ''client'') (json_items body)
      then fail_with 400 ''invalid_request'' ''interpret request contains an unsupported field''
      else let prompt = sfld body ''prompt''
        in if \<not> prompt_admissible prompt
           then fail_with 400 ''invalid_prompt'' ''prompt must be nonempty and at most 8192 bytes''
           else if contains body ''interpreter'' \<and> \<not> is_string (fld body ''interpreter'')
           then fail_with 400 ''invalid_interpreter'' ''interpreter must be a string''
           else let mode = (if contains body ''interpreter'' then sfld body ''interpreter'' else [])
             in if contains body ''client'' \<and> \<not> is_object (fld body ''client'')
                then fail_with 400 ''invalid_client'' ''client must be an object''
                else let client = (if contains body ''client'' then fld body ''client'' else JObj [])
                  in if \<not> slot_free then fail_with 429 ''inference_busy'' ''inference concurrency limit reached''
                     else Dispatch (if mode = ''rules'' \<or> mode = [] \<and> runtime_mode = ''rules'' then CpuWorkers
                                    else ProviderWorkers) (InterpretJob prompt mode client))"

definition handle_resolve :: "json \<Rightarrow> handled" where
  "handle_resolve body =
     (if json_size body \<noteq> 1 \<or> \<not> contains body ''task'' \<or> \<not> is_object (fld body ''task'')
      then fail_with 400 ''invalid_task'' ''task must be an object''
      else Dispatch CpuWorkers (ResolveJob (fld body ''task'')))"

definition handle_reconcile :: "json \<Rightarrow> handled" where
  "handle_reconcile body =
     (if contains body ''view'' \<and> is_object (fld body ''view'') \<and> json_size body = 1
      then Dispatch CpuWorkers (ReconcileJob (fld body ''view''))
      else if contains body ''view_id'' \<and> json_size body = 1 then Dispatch CpuWorkers (ReconcileJob body)
      else fail_with 400 ''invalid_view'' ''view or view_id is required'')"

definition handle_scenario :: "json \<Rightarrow> handled" where
  "handle_scenario body =
     (if json_size body \<noteq> 1 \<or> \<not> has_string body ''id''
      then fail_with 400 ''invalid_scenario'' ''scenario id is invalid''
      else Dispatch CpuWorkers (ScenarioJob (sfld body ''id'')))"

datatype post_route = PostRetrieve | PostInterpret | PostResolve | PostReconcile | PostScenario | PostTelemetry

definition handle_post ::
  "(string \<Rightarrow> json res) \<Rightarrow> (exn \<Rightarrow> string) \<Rightarrow> runtime_options \<Rightarrow> string \<Rightarrow> bool \<Rightarrow> post_route \<Rightarrow> http_in \<Rightarrow> handled" where
  "handle_post parse what opts runtime_mode slot_free route rq =
     (case route of
        PostRetrieve \<Rightarrow> mutation parse what opts maximum_body_bytes rq handle_retrieve
      | PostInterpret \<Rightarrow> mutation parse what opts maximum_body_bytes rq (handle_interpret runtime_mode slot_free)
      | PostResolve \<Rightarrow> mutation parse what opts maximum_body_bytes rq handle_resolve
      | PostReconcile \<Rightarrow> mutation parse what opts maximum_body_bytes rq handle_reconcile
      | PostScenario \<Rightarrow> mutation parse what opts maximum_body_bytes rq handle_scenario
      | PostTelemetry \<Rightarrow> mutation parse what opts (nat (o_telemetry_max_batch_bytes opts)) rq
          (\<lambda>batch. Dispatch CpuWorkers (IngestJob batch)))"

datatype get_route =
    GetHealth | GetSession | GetReady | GetMetrics | GetModel | GetCatalog | GetScenarios | GetAudit | GetRecords

text \<open>What the handlers of the read routes answer at once.\<close>

definition handle_get :: "string \<Rightarrow> llama option \<Rightarrow> surroundings \<Rightarrow> get_route \<Rightarrow> http_in \<Rightarrow> runtime \<Rightarrow> handled" where
  "handle_get version held sd route rq rt =
     (case route of
        GetHealth \<Rightarrow> Reply 200 (health version held rt)
      | GetSession \<Rightarrow> Reply 200 (session_report rt)
      | GetReady \<Rightarrow> Dispatch ProviderWorkers ReadinessJob
      | GetMetrics \<Rightarrow> Reply 200 (runtime_metrics sd maximum_sse_clients rt)
      | GetModel \<Rightarrow> Reply 200 (public_model rt)
      | GetCatalog \<Rightarrow> Reply 200 catalog
      | GetScenarios \<Rightarrow> Dispatch CpuWorkers ScenariosJob
      | GetAudit \<Rightarrow> reply_or (bounded_limit 50 rq) (\<lambda>limit. Dispatch CpuWorkers (AuditJob limit))
      | GetRecords \<Rightarrow> reply_or (bounded_limit 50 rq) (\<lambda>limit. Dispatch CpuWorkers (RecordsJob limit)))"

section \<open>Jobs\<close>

text \<open>What the runtime's calls take from outside: one record per call.\<close>

record environment =
  ev_dump :: "json \<Rightarrow> string res"
  ev_ord :: "members \<Rightarrow> members"
  ev_vord :: "members \<Rightarrow> members"
  ev_parse :: "string \<Rightarrow> json res"
  ev_provider_parse :: "exn \<Rightarrow> string \<Rightarrow> json res"
  ev_what :: "exn \<Rightarrow> string"
  ev_send :: "http_request \<Rightarrow> http_outcome"
  ev_held :: "llama option"
  ev_disk :: disk
  ev_fault :: "(nat \<times> exn) option"
  ev_steady_ms :: int
  ev_wall_ms :: u64
  ev_elapsed :: "json \<times> json"

definition with_status :: "nat \<Rightarrow> json res \<times> runtime \<Rightarrow> (json \<times> nat) res \<times> runtime" where
  "with_status status = (\<lambda>(r, rt). (ebind r (\<lambda>j. Inr (j, status)), rt))"

definition run_job :: "environment \<Rightarrow> job \<Rightarrow> runtime \<Rightarrow> (json \<times> nat) res \<times> runtime" where
  "run_job ev job rt =
     (case job of
        RetrieveJob prompt \<Rightarrow>
          with_status 200 (retrieve_context (ev_dump ev) (ev_steady_ms ev) (ev_elapsed ev) prompt rt)
      | InterpretJob prompt mode client \<Rightarrow>
          with_status 200 (interpret_context (ev_dump ev) (ev_ord ev) (ev_what ev)
            (inference_provider (ev_dump ev) (ev_provider_parse ev) (ev_what ev) (ev_send ev) (ev_held ev))
            (ev_fault ev) (ev_steady_ms ev) (ev_wall_ms ev) (ev_elapsed ev) prompt mode client rt)
      | ResolveJob task \<Rightarrow> with_status 200 (resolve (ev_dump ev) (ev_ord ev) (ev_fault ev) (ev_wall_ms ev) task rt)
      | ReconcileJob supplied \<Rightarrow> with_status 200 (reconcile (ev_dump ev) (ev_ord ev) supplied rt)
      | ScenarioJob k \<Rightarrow>
          with_status 200 (select_scenario (ev_dump ev) (ev_ord ev) (ev_vord ev) (ev_parse ev) (ev_what ev) (ev_disk ev)
            (ev_fault ev) (ev_wall_ms ev) k rt)
      | IngestJob batch \<Rightarrow> with_status 202 (ingest_telemetry (ev_dump ev) (ev_wall_ms ev) batch rt)
      | ReadinessJob \<Rightarrow>
          (case runtime_readiness (ev_parse ev) (ev_send ev) (ev_held ev) rt of
             (r, rt') \<Rightarrow>
               (ebind r (\<lambda>j. ebind (value_bool j ''ready'' False) (\<lambda>ready. Inr (j, if ready then 200 else 503))), rt'))
      | ScenariosJob \<Rightarrow>
          with_status 200 (Inr (scenarios (ev_dump ev) (ev_parse ev) (ev_what ev) (ev_disk ev) (rt_options rt)), rt)
      | AuditJob limit \<Rightarrow> with_status 200 (Inr (audit limit rt), rt)
      | RecordsJob limit \<Rightarrow> with_status 200 (Inr (records limit rt), rt))"

definition engine_error :: reply where
  "engine_error = (500, error_json ''engine_error'' ''request could not be processed'')"

text \<open>The handlers of \<open>dispatch_json\<close>, in their order.\<close>

fun exception_reply :: "exn \<Rightarrow> reply" where
  "exception_reply (InferenceError code message) = (inference_status code, error_json code message)"
| "exception_reply (DomainError code details) = (domain_status code, error_json code details)"
| "exception_reply e = engine_error"

text \<open>A result that cannot be serialised is an exception of the same handlers.\<close>

definition job_response :: "(json \<Rightarrow> string res) \<Rightarrow> (json \<times> nat) res \<Rightarrow> http_out res" where
  "job_response dump result =
     (case ebind result (\<lambda>(body, status). json_response dump body status) of
        Inl e \<Rightarrow> (case exception_reply e of (status, body) \<Rightarrow> json_response dump body status)
      | Inr response \<Rightarrow> Inr response)"

text \<open>What the client sees at once when the pool does not take the job.\<close>

definition dispatch_job :: "'j \<Rightarrow> 'j pool \<Rightarrow> reply option \<times> 'j pool" where
  "dispatch_job job p =
     (case dispatch (Some job) p of
        (Inr u, p') \<Rightarrow> (None, p')
      | (Inl e, p') \<Rightarrow> (Some (429, error_json ''execution_busy'' ''execution queue is full''), p'))"

section \<open>The event stream\<close>

fun split_commas :: "string \<Rightarrow> string \<Rightarrow> string list" where
  "split_commas current [] = [current]"
| "split_commas current (c # s) =
     (if c = CHR '','' then current # split_commas [] s else split_commas (current @ [c]) s)"

definition has_connection_token :: "string \<Rightarrow> string \<Rightarrow> bool" where
  "has_connection_token v token = list_ex (\<lambda>part. trim_back (dropWhile is_space part) = token) (split_commas [] v)"

definition closes_response :: "http_in \<Rightarrow> bool" where
  "closes_response rq =
     (let connection = lower (hi_header rq ''connection'')
      in has_connection_token connection ''close'' \<or>
         (hi_http10 rq \<and> \<not> has_connection_token connection ''keep-alive''))"

definition event_text :: "(json \<Rightarrow> string res) \<Rightarrow> u64 \<Rightarrow> runtime \<Rightarrow> string res" where
  "event_text dump now rt =
     ebind (telemetry dump now rt) (\<lambda>snapshot.
     ebind (dump snapshot) (\<lambda>encoded.
     Inr (''event: telemetry\<newline>data: '' @ encoded @ ''\<newline>\<newline>'')))"

datatype events_answer = EventReply http_out | EventError nat json | EventStream "(string \<times> string) list"

definition stream_headers :: "(string \<times> string) list" where
  "stream_headers = [(''Cache-Control'', ''no-cache''), (''Connection'', ''keep-alive''), (''X-Accel-Buffering'', ''no'')]"

text \<open>A client that will close its connection gets one snapshot, another one a slot and a stream.\<close>

definition handle_events ::
  "(json \<Rightarrow> string res) \<Rightarrow> (exn \<Rightarrow> string) \<Rightarrow> u64 \<Rightarrow> bool \<Rightarrow> bool \<Rightarrow> http_in \<Rightarrow> runtime \<Rightarrow> events_answer" where
  "handle_events dump what now slot_free stream_made rq rt =
     (if closes_response rq
      then (case event_text dump now rt of
              Inl e \<Rightarrow> EventError 500 (error_json ''telemetry_error'' (what e))
            | Inr body \<Rightarrow>
                EventReply \<lparr>ho_status = 200, ho_type = ''text/event-stream'',
                  ho_headers = [(''Cache-Control'', ''no-cache''), (''X-Accel-Buffering'', ''no'')], ho_body = body\<rparr>)
      else if \<not> slot_free then EventError 429 (error_json ''events_busy'' ''SSE client limit reached'')
      else if \<not> stream_made then EventError 500 (error_json ''events_error'' ''event stream could not be started'')
      else EventStream stream_headers)"

definition handle_telemetry :: "(json \<Rightarrow> string res) \<Rightarrow> (exn \<Rightarrow> string) \<Rightarrow> u64 \<Rightarrow> runtime \<Rightarrow> http_out res" where
  "handle_telemetry dump what now rt =
     (case ebind (telemetry dump now rt) (\<lambda>snapshot. json_response dump snapshot 200) of
        Inl e \<Rightarrow> json_response dump (error_json ''telemetry_error'' (what e)) 500
      | Inr response \<Rightarrow> Inr response)"

text \<open>The pump of one stream; the last field counts the slots it has given back.\<close>

record pump =
  pm_closed :: bool
  pm_released :: bool
  pm_timer :: bool
  pm_stream :: bool
  pm_given_back :: nat

definition pump_new :: pump where
  "pump_new = \<lparr>pm_closed = False, pm_released = False, pm_timer = False, pm_stream = True, pm_given_back = 0\<rparr>"

definition pump_release :: "pump \<Rightarrow> pump" where
  "pump_release pm =
     (if pm_released pm then pm else pm\<lparr>pm_released := True, pm_given_back := pm_given_back pm + 1\<rparr>)"

definition pump_stop :: "pump \<Rightarrow> pump" where
  "pump_stop pm =
     (if pm_closed pm then pm
      else pump_release (pm\<lparr>pm_closed := True, pm_timer := False, pm_stream := False\<rparr>))"

text \<open>Whether a snapshot went out, given whether it could be made and the stream took it.\<close>

definition pump_sends :: "bool \<Rightarrow> pump \<Rightarrow> bool" where
  "pump_sends sent pm \<longleftrightarrow> \<not> pm_closed pm \<and> pm_stream pm \<and> sent"

definition pump_start :: "bool \<Rightarrow> pump \<Rightarrow> pump" where
  "pump_start sent pm = (if pump_sends sent pm then pm\<lparr>pm_timer := True\<rparr> else pump_stop pm)"

definition pump_tick :: "bool \<Rightarrow> pump \<Rightarrow> pump" where
  "pump_tick sent pm = (if pump_sends sent pm then pm else pump_stop pm)"

definition pump_destroy :: "pump \<Rightarrow> pump" where
  "pump_destroy pm = pump_release (pm\<lparr>pm_stream := False\<rparr>)"

text \<open>The life of a pump: it may start, its timer fires, and it is destroyed at last.\<close>

definition pump_life :: "bool list \<Rightarrow> pump" where
  "pump_life sends =
     pump_destroy (case sends of [] \<Rightarrow> pump_new | first # rest \<Rightarrow> fold pump_tick rest (pump_start first pump_new))"

section \<open>The framework\<close>

definition body_limit :: "runtime_options \<Rightarrow> nat" where
  "body_limit opts = max maximum_body_bytes (nat (o_telemetry_max_batch_bytes opts))"

definition ends_in_html :: "string \<Rightarrow> bool" where
  "ends_in_html path \<longleftrightarrow> is_prefix_of (rev ''.html'') (rev path)"

definition content_policy :: "string \<Rightarrow> string" where
  "content_policy path =
     (let self = quoted ''self''; none = quoted ''none''
      in if path = ''/'' \<or> ends_in_html path
         then ''frame-ancestors '' @ none @ ''; base-uri '' @ none @ ''; form-action '' @ self
         else ''default-src '' @ self @ ''; connect-src '' @ self @ ''; img-src '' @ self @ '' data:; script-src '' @
           self @ ''; style-src '' @ self @ '' '' @ quoted ''unsafe-inline'' @ ''; font-src '' @ self @ ''; base-uri '' @
           none @ ''; frame-ancestors '' @ none @ ''; form-action '' @ self)"

text \<open>The headers every response gets before it is sent.\<close>

definition sending_headers :: "string \<Rightarrow> string \<Rightarrow> (string \<times> string) list" where
  "sending_headers path rid =
     [(''X-Content-Type-Options'', ''nosniff''), (''X-Frame-Options'', ''DENY''), (''Referrer-Policy'', ''no-referrer''),
      (''Permissions-Policy'', ''camera=(), geolocation=(), microphone=(self)''),
      (''Content-Security-Policy'', content_policy path), (''X-Request-ID'', rid)]"

definition framework_error :: "nat \<Rightarrow> reply" where
  "framework_error code =
     (if code = 413 then (413, error_json ''body_too_large'' ''request body exceeds maximum size'')
      else if code = 405 then (405, error_json ''method_not_allowed'' ''method is not allowed for this route'')
      else (code, error_json ''http_error'' ''request could not be processed''))"

definition not_found :: reply where
  "not_found = (404, error_json ''not_found'' ''route not found'')"

definition check_web_dir :: "(string \<Rightarrow> bool) \<Rightarrow> runtime_options \<Rightarrow> unit res" where
  "check_web_dir is_directory opts =
     throw_if (o_web_dir opts \<noteq> [] \<and> \<not> is_directory (o_web_dir opts)) (RuntimeError ''web directory does not exist'')"

section \<open>Facts\<close>

lemma reply_or_Dispatch: "reply_or c f = Dispatch p job \<longleftrightarrow> (\<exists>x. c = Inr x \<and> f x = Dispatch p job)"
  by (auto simp: reply_or_def split: sum.splits prod.splits)

lemma refuse_Inl [simp]: "refuse status code message \<noteq> Inr x" "Inr x \<noteq> refuse status code message"
  by (simp_all add: refuse_def)

lemma mutation_guard_Inr: "mutation_guard opts rq = Inr u \<longleftrightarrow> content_type rq = ''application/json'' \<and> origin_allowed opts rq"
  by (auto simp: mutation_guard_def)

lemma parse_body_Inr:
  assumes "parse_body parse what maximum_bytes rq = Inr v"
  shows "length (hi_body rq) \<le> maximum_bytes" "maximum_bytes \<le> 1024 * 1024" "body_shape (hi_body rq) = ShapeOk"
    "parse (hi_body rq) = Inr v" "is_object v"
proof -
  have "length (hi_body rq) \<le> maximum_bytes \<and> maximum_bytes \<le> 1024 * 1024 \<and> body_shape (hi_body rq) = ShapeOk \<and>
      parse (hi_body rq) = Inr v \<and> is_object v"
    using assms by (auto simp: parse_body_def Let_def split: if_splits json_shape.splits sum.splits)
  then show "length (hi_body rq) \<le> maximum_bytes" "maximum_bytes \<le> 1024 * 1024" "body_shape (hi_body rq) = ShapeOk"
    "parse (hi_body rq) = Inr v" "is_object v" by blast+
qed

lemma reply_or_Reply:
  "reply_or c f = Reply status body \<longleftrightarrow> c = Inl (status, body) \<or> (\<exists>x. c = Inr x \<and> f x = Reply status body)"
  by (auto simp: reply_or_def split: sum.splits prod.splits)

text \<open>The replies that are errors of the listed statuses.\<close>

definition error_reply :: "nat set \<Rightarrow> nat \<Rightarrow> json \<Rightarrow> bool" where
  "error_reply statuses status body \<longleftrightarrow> status \<in> statuses \<and> (\<exists>code message. body = error_json code message)"

lemma error_reply_intros [intro]:
  "refuse status code message = (Inl (status', body) :: reply + 'a) \<Longrightarrow> status \<in> S \<Longrightarrow> error_reply S status' body"
  "fail_with status code message = Reply status' body \<Longrightarrow> status \<in> S \<Longrightarrow> error_reply S status' body"
  by (auto simp: refuse_def fail_with_def error_reply_def)

lemma fail_with_Dispatch [simp]: "fail_with status code message \<noteq> Dispatch p job"
  by (simp add: fail_with_def)

abbreviation refusals :: "nat set" where
  "refusals \<equiv> {400, 403, 413, 415, 429}"

lemma guard_refuses: "mutation_guard opts rq = Inl (status, body) \<Longrightarrow> error_reply refusals status body"
  by (auto simp: mutation_guard_def split: if_splits)

lemma body_refuses: "parse_body parse what maximum_bytes rq = Inl (status, body) \<Longrightarrow> error_reply refusals status body"
  by (auto simp: parse_body_def Let_def split: if_splits json_shape.splits sum.splits)

lemma mutation_refuses:
  assumes "mutation parse what opts maximum_bytes rq f = Reply status body"
    and "\<And>v. f v = Reply status body \<Longrightarrow> error_reply refusals status body"
  shows "error_reply refusals status body"
  using assms guard_refuses body_refuses unfolding mutation_def reply_or_Reply by metis

lemma handlers_refuse:
  "handle_retrieve v = Reply status body \<Longrightarrow> error_reply refusals status body"
  "handle_interpret runtime_mode slot_free v = Reply status body \<Longrightarrow> error_reply refusals status body"
  "handle_resolve v = Reply status body \<Longrightarrow> error_reply refusals status body"
  "handle_reconcile v = Reply status body \<Longrightarrow> error_reply refusals status body"
  "handle_scenario v = Reply status body \<Longrightarrow> error_reply refusals status body"
  by (auto simp: handle_retrieve_def handle_interpret_def handle_resolve_def handle_reconcile_def handle_scenario_def
      Let_def split: if_splits)

text \<open>What a job carries, by the route it came from.\<close>

definition job_admissible :: "runtime_options \<Rightarrow> bool \<Rightarrow> job \<Rightarrow> bool" where
  "job_admissible opts slot_free job \<longleftrightarrow>
     (case job of
        RetrieveJob prompt \<Rightarrow> retrieval_prompt_ok prompt
      | InterpretJob prompt mode client \<Rightarrow> retrieval_prompt_ok prompt \<and> is_object client \<and> slot_free
      | ResolveJob task \<Rightarrow> is_object task
      | ReconcileJob supplied \<Rightarrow> is_object supplied
      | ScenarioJob k \<Rightarrow> True
      | IngestJob batch \<Rightarrow> is_object batch
      | _ \<Rightarrow> False)"

lemma handlers_dispatch:
  "handle_retrieve v = Dispatch p job \<Longrightarrow> job_admissible opts slot_free job"
  "handle_interpret runtime_mode slot_free v = Dispatch p job \<Longrightarrow> job_admissible opts slot_free job"
  "handle_resolve v = Dispatch p job \<Longrightarrow> job_admissible opts slot_free job"
  "is_object v \<Longrightarrow> handle_reconcile v = Dispatch p job \<Longrightarrow> job_admissible opts slot_free job"
  "handle_scenario v = Dispatch p job \<Longrightarrow> job_admissible opts slot_free job"
  by (auto simp: handle_retrieve_def handle_interpret_def handle_resolve_def handle_reconcile_def handle_scenario_def
      job_admissible_def prompt_admissible_def retrieval_prompt_ok_def route_prompt_bytes_def Let_def split: if_splits)

lemma mutation_dispatches:
  assumes "mutation parse what opts maximum_bytes rq f = Dispatch p job"
  obtains v where "f v = Dispatch p job" "is_object v" "content_type rq = ''application/json''" "origin_allowed opts rq"
    "length (hi_body rq) \<le> maximum_bytes" "maximum_bytes \<le> 1024 * 1024" "body_shape (hi_body rq) = ShapeOk"
    "parse (hi_body rq) = Inr v"
  using assms parse_body_Inr unfolding mutation_def reply_or_Dispatch mutation_guard_Inr by metis

text \<open>A handler of a mutation's body is sound when its replies are refusals and its jobs admissible.\<close>

definition sound_handler :: "runtime_options \<Rightarrow> bool \<Rightarrow> (json \<Rightarrow> handled) \<Rightarrow> bool" where
  "sound_handler opts slot_free f \<longleftrightarrow>
     (\<forall>v status body. f v = Reply status body \<longrightarrow> error_reply refusals status body) \<and>
     (\<forall>v p job. is_object v \<longrightarrow> f v = Dispatch p job \<longrightarrow> job_admissible opts slot_free job)"

lemma sound_handlers:
  "sound_handler opts slot_free handle_retrieve"
  "sound_handler opts slot_free (handle_interpret runtime_mode slot_free)"
  "sound_handler opts slot_free handle_resolve"
  "sound_handler opts slot_free handle_reconcile"
  "sound_handler opts slot_free handle_scenario"
  unfolding sound_handler_def by (meson handlers_refuse handlers_dispatch)+

lemma sound_ingest: "sound_handler opts slot_free (\<lambda>batch. Dispatch CpuWorkers (IngestJob batch))"
  by (simp add: sound_handler_def job_admissible_def)

lemma body_limit_ge: "maximum_body_bytes \<le> body_limit opts" "nat (o_telemetry_max_batch_bytes opts) \<le> body_limit opts"
  by (simp_all add: body_limit_def)

lemma handle_post_is_mutation:
  "\<exists>n f. handle_post parse what opts runtime_mode slot_free route rq = mutation parse what opts n rq f \<and>
     n \<le> body_limit opts \<and> sound_handler opts slot_free f"
  unfolding handle_post_def
  by (cases route; simp only: post_route.case; blast intro: body_limit_ge sound_handlers sound_ingest)

lemma mutation_of_sound_handler:
  assumes h: "mutation parse what opts n rq f = h" and n: "n \<le> body_limit opts" and f: "sound_handler opts slot_free f"
  shows "case h of
      Reply status body \<Rightarrow> error_reply refusals status body
    | Dispatch p job \<Rightarrow>
        content_type rq = ''application/json'' \<and> origin_allowed opts rq \<and>
        length (hi_body rq) \<le> min (body_limit opts) (1024 * 1024) \<and>
        body_shape (hi_body rq) = ShapeOk \<and> (\<exists>v. parse (hi_body rq) = Inr v \<and> is_object v) \<and>
        job_admissible opts slot_free job"
proof (cases h)
  case (Reply status body)
  then have "error_reply refusals status body"
    using mutation_refuses [OF h [unfolded Reply]] f unfolding sound_handler_def by blast
  then show ?thesis by (simp only: Reply handled.case)
next
  case (Dispatch p job)
  from mutation_dispatches [OF h [unfolded Dispatch]]
  obtain v where v: "f v = Dispatch p job" "is_object v" "content_type rq = ''application/json''"
    "origin_allowed opts rq" "length (hi_body rq) \<le> n" "n \<le> 1024 * 1024" "body_shape (hi_body rq) = ShapeOk"
    "parse (hi_body rq) = Inr v"
    by metis
  moreover have "job_admissible opts slot_free job" using f v(1,2) unfolding sound_handler_def by blast
  moreover have "length (hi_body rq) \<le> min (body_limit opts) (1024 * 1024)" using v(5,6) n by simp
  ultimately show ?thesis by (simp only: Dispatch handled.case) blast
qed

section \<open>Properties\<close>


end
