(* ===== verification/Diagnostic_Log.thy ===== *)
theory Diagnostic_Log
  imports Options
begin

text \<open>
  \<open>diagnostics::Logger\<close> (\<open>diagnostic_logger.cpp\<close>): records are queued by the calls that write them
  and filed by one thread, with rotation; what cannot be filed goes to the error stream unless it is
  of low severity. The file system is a map from paths to nodes, what the operating system may refuse
  is an argument of each operation.
\<close>

section \<open>Records\<close>

datatype severity = KDebug | KInfo | KWarning | KError

definition severity_name :: "severity \<Rightarrow> string" where
  "severity_name sev =
     (case sev of KDebug \<Rightarrow> ''debug'' | KInfo \<Rightarrow> ''info'' | KWarning \<Rightarrow> ''warning'' | KError \<Rightarrow> ''error'')"

definition low_severity :: "severity \<Rightarrow> bool" where
  "low_severity sev \<longleftrightarrow> sev = KDebug \<or> sev = KInfo"

record log_config =
  lc_path :: string
  lc_queue_capacity :: nat
  lc_rotation_bytes :: nat
  lc_rotation_files :: nat
  lc_maximum_record_bytes :: nat

definition logger_config_of :: "runtime_options \<Rightarrow> log_config" where
  "logger_config_of opts =
     \<lparr>lc_path = o_diagnostic_log_file opts, lc_queue_capacity = nat (o_diagnostic_queue_capacity opts),
      lc_rotation_bytes = unat (o_diagnostic_rotation_bytes opts),
      lc_rotation_files = nat (o_diagnostic_rotation_files opts), lc_maximum_record_bytes = 1024 * 1024\<rparr>"

definition diagnostic_record :: "u64 \<Rightarrow> string \<Rightarrow> string \<Rightarrow> json \<Rightarrow> json" where
  "diagnostic_record now sev event data =
     jobj [(''timestamp_ms'', JUInt now), (''severity'', JStr sev), (''event'', JStr event), (''fields'', data)]"

definition encode_record :: "(json \<Rightarrow> string res) \<Rightarrow> u64 \<Rightarrow> severity \<Rightarrow> string \<Rightarrow> json \<Rightarrow> string res" where
  "encode_record dump now sev event data =
     (if event = [] \<or> length event > 128 \<or> \<not> is_object data
      then Inl (InvalidArgument ''diagnostic event is invalid'')
      else ebind (dump (diagnostic_record now (severity_name sev) event data)) (\<lambda>text. Inr (text @ ''\<newline>'')))"

section \<open>Files\<close>

text \<open>A folder may be empty, a link may have a target; the rest are devices and the like.\<close>

datatype log_node = Regular string | Folder bool | Link bool | Device

type_synonym files = "string \<Rightarrow> log_node option"

text \<open>What the operating system refuses during one record; the last cuts the write short.\<close>

record log_faults =
  lf_inspect_rotation :: bool
  lf_size :: bool
  lf_remove :: "string \<Rightarrow> bool"
  lf_rename :: "string \<Rightarrow> bool"
  lf_inspect :: bool
  lf_open :: bool
  lf_cut :: "nat option"

definition path_exists :: "files \<Rightarrow> string \<Rightarrow> bool" where
  "path_exists fs p = (case fs p of None \<Rightarrow> False | Some (Link target) \<Rightarrow> target | Some _ \<Rightarrow> True)"

text \<open>Both checks before a record is filed: an absent path or a regular file passes.\<close>

definition inspect_log :: "bool \<Rightarrow> string \<Rightarrow> files \<Rightarrow> string \<Rightarrow> unit res" where
  "inspect_log fault message fs p =
     (if fault then Inl (RuntimeError message)
      else case fs p of
             None \<Rightarrow> Inr ()
           | Some (Regular _) \<Rightarrow> Inr ()
           | Some _ \<Rightarrow> Inl (RuntimeError ''diagnostic log path is not a regular file''))"

definition remove_path :: "log_faults \<Rightarrow> string \<Rightarrow> files \<Rightarrow> files" where
  "remove_path lf p fs = (if lf_remove lf p \<or> fs p = Some (Folder False) then fs else fs(p := None))"

text \<open>A rename replaces a file or link, and a folder only by a folder when it is empty.\<close>

definition rename_path :: "log_faults \<Rightarrow> string \<Rightarrow> string \<Rightarrow> files \<Rightarrow> files res" where
  "rename_path lf older newer fs =
     (let folder = (case fs older of Some (Folder _) \<Rightarrow> True | _ \<Rightarrow> False);
          blocked = (case fs newer of None \<Rightarrow> False | Some (Folder bare) \<Rightarrow> \<not> (folder \<and> bare) | Some _ \<Rightarrow> folder)
      in if lf_rename lf older \<or> blocked then Inl (RuntimeError ''diagnostic log rotation failed'')
         else Inr (fs(newer := fs older, older := None)))"

definition rotated_path :: "log_config \<Rightarrow> nat \<Rightarrow> string" where
  "rotated_path cfg k = lc_path cfg @ ''.'' @ show_nat k"

fun rotate_from :: "log_config \<Rightarrow> log_faults \<Rightarrow> nat \<Rightarrow> files \<Rightarrow> unit res \<times> files" where
  "rotate_from cfg lf 0 fs = (Inr (), fs)"
| "rotate_from cfg lf (Suc n) fs =
     (if n = 0 then (Inr (), fs)
      else if path_exists fs (rotated_path cfg n)
      then let fs1 = remove_path lf (rotated_path cfg (Suc n)) fs
        in case rename_path lf (rotated_path cfg n) (rotated_path cfg (Suc n)) fs1 of
             Inl e \<Rightarrow> (Inl e, fs1)
           | Inr fs2 \<Rightarrow> rotate_from cfg lf n fs2
      else rotate_from cfg lf n fs)"

definition log_size :: "files \<Rightarrow> string \<Rightarrow> nat" where
  "log_size fs p = (case fs p of Some (Regular text) \<Rightarrow> length text | _ \<Rightarrow> 0)"

definition rotate_files :: "log_config \<Rightarrow> log_faults \<Rightarrow> files \<Rightarrow> unit res \<times> files" where
  "rotate_files cfg lf fs =
     (case rotate_from cfg lf (lc_rotation_files cfg) fs of
        (Inl e, fs1) \<Rightarrow> (Inl e, fs1)
      | (Inr _, fs1) \<Rightarrow>
          let first = rotated_path cfg 1; fs2 = remove_path lf first fs1
          in case rename_path lf (lc_path cfg) first fs2 of Inl e \<Rightarrow> (Inl e, fs2) | Inr fs3 \<Rightarrow> (Inr (), fs3))"

definition rotate_if_needed :: "log_config \<Rightarrow> log_faults \<Rightarrow> nat \<Rightarrow> files \<Rightarrow> unit res \<times> files" where
  "rotate_if_needed cfg lf incoming_bytes fs =
     (case inspect_log (lf_inspect_rotation lf) ''could not inspect diagnostic log for rotation'' fs (lc_path cfg) of
        Inl e \<Rightarrow> (Inl e, fs)
      | Inr _ \<Rightarrow>
          if \<not> path_exists fs (lc_path cfg) then (Inr (), fs)
          else if lf_size lf then (Inl (RuntimeError ''could not inspect diagnostic log for rotation''), fs)
          else let size = log_size fs (lc_path cfg)
            in if size \<le> lc_rotation_bytes cfg \<and> incoming_bytes \<le> lc_rotation_bytes cfg - size then (Inr (), fs)
               else rotate_files cfg lf fs)"

definition log_text :: "files \<Rightarrow> string \<Rightarrow> string" where
  "log_text fs p = (case fs p of Some (Regular text) \<Rightarrow> text | _ \<Rightarrow> [])"

definition append_text :: "log_config \<Rightarrow> log_faults \<Rightarrow> string \<Rightarrow> files \<Rightarrow> unit res \<times> files" where
  "append_text cfg lf record fs =
     (if lf_open lf then (Inl (RuntimeError ''could not open diagnostic log''), fs)
      else let before = log_text fs (lc_path cfg)
        in case lf_cut lf of
             None \<Rightarrow> (Inr (), fs(lc_path cfg := Some (Regular (before @ record))))
           | Some n \<Rightarrow> (Inl (RuntimeError ''diagnostic log write failed''),
               fs(lc_path cfg := Some (Regular (before @ take n record)))))"

definition write_record :: "log_config \<Rightarrow> log_faults \<Rightarrow> string \<Rightarrow> files \<Rightarrow> unit res \<times> files" where
  "write_record cfg lf record fs =
     (case rotate_if_needed cfg lf (length record) fs of
        (Inl e, fs1) \<Rightarrow> (Inl e, fs1)
      | (Inr _, fs1) \<Rightarrow>
          (case inspect_log (lf_inspect lf) ''could not inspect diagnostic log'' fs1 (lc_path cfg) of
             Inl e \<Rightarrow> (Inl e, fs1)
           | Inr _ \<Rightarrow> append_text cfg lf record fs1))"

section \<open>The logger\<close>

text \<open>
  The worker thread holds the record it took from the queue until it has filed or printed it.
  \<open>lg_counting\<close> is the number of calls that have queued a record and not yet counted it.
\<close>

record logger =
  lg_queue :: "string list"
  lg_accepting :: bool
  lg_stopping :: bool
  lg_counting :: nat
  lg_held :: "string option"
  lg_returned :: bool
  lg_accepted :: u64
  lg_written :: u64
  lg_dropped :: u64
  lg_fallback :: u64
  lg_failed :: bool
  lg_files :: files
  lg_stderr :: "string list"

definition log_config_ok :: "log_config \<Rightarrow> bool" where
  "log_config_ok cfg \<longleftrightarrow>
     \<not> (lc_queue_capacity cfg = 0 \<or> lc_rotation_bytes cfg < 4096 \<or> lc_rotation_files cfg = 0 \<or>
        lc_rotation_files cfg > 32 \<or> lc_maximum_record_bytes cfg < 256)"

definition check_log_path :: "(string \<Rightarrow> bool) \<Rightarrow> bool \<Rightarrow> files \<Rightarrow> string \<Rightarrow> unit res" where
  "check_log_path is_directory fault fs p =
     (if fault then Inl (RuntimeError ''could not inspect diagnostic log path'')
      else case fs p of
             Some (Link _) \<Rightarrow> Inl (RuntimeError ''diagnostic log must not be a symbolic link'')
           | Some (Folder _) \<Rightarrow> Inl (RuntimeError ''diagnostic log path is not a regular file'')
           | Some Device \<Rightarrow> Inl (RuntimeError ''diagnostic log path is not a regular file'')
           | _ \<Rightarrow> throw_if (parent_path p \<noteq> [] \<and> \<not> is_directory (parent_path p))
               (RuntimeError ''diagnostic log parent directory does not exist''))"

definition logger_new :: "(string \<Rightarrow> bool) \<Rightarrow> bool \<Rightarrow> files \<Rightarrow> log_config \<Rightarrow> logger res" where
  "logger_new is_directory fault fs cfg =
     (if \<not> log_config_ok cfg then Inl (InvalidArgument ''diagnostic logger configuration is invalid'')
      else ebind (if lc_path cfg = [] then Inr () else check_log_path is_directory fault fs (lc_path cfg)) (\<lambda>_.
        Inr \<lparr>lg_queue = [], lg_accepting = True, lg_stopping = False, lg_counting = 0, lg_held = None,
             lg_returned = (lc_path cfg = []), lg_accepted = 0, lg_written = 0, lg_dropped = 0, lg_fallback = 0,
             lg_failed = False, lg_files = fs, lg_stderr = []\<rparr>))"

text \<open>What becomes of an encoded record that a call hands over.\<close>

datatype verdict = TooLarge | Unfiled | Refused_Record | Queued

definition verdict_of :: "log_config \<Rightarrow> logger \<Rightarrow> string \<Rightarrow> verdict" where
  "verdict_of cfg lg encoded =
     (if length encoded > lc_maximum_record_bytes cfg \<or> length encoded > lc_rotation_bytes cfg then TooLarge
      else if lc_path cfg = [] then Unfiled
      else if \<not> lg_accepting lg \<or> length (lg_queue lg) \<ge> lc_queue_capacity cfg then Refused_Record
      else Queued)"

definition rejection_notice :: "(json \<Rightarrow> string res) \<Rightarrow> u64 \<Rightarrow> nat \<Rightarrow> string res" where
  "rejection_notice dump now bytes =
     dump (diagnostic_record now ''error'' ''diagnostic_record_rejected''
       (jobj [(''reason'', JStr ''record_too_large''), (''bytes'', JUInt (of_nat bytes))]))"

definition spill_record :: "severity \<Rightarrow> string \<Rightarrow> logger \<Rightarrow> logger" where
  "spill_record sev text lg =
     (if low_severity sev then lg
      else lg\<lparr>lg_stderr := lg_stderr lg @ [text], lg_fallback := lg_fallback lg + 1\<rparr>)"

definition drop_record :: "logger \<Rightarrow> logger" where
  "drop_record lg = lg\<lparr>lg_dropped := lg_dropped lg + 1\<rparr>"

definition hand_over :: "(json \<Rightarrow> string res) \<Rightarrow> log_config \<Rightarrow> u64 \<Rightarrow> severity \<Rightarrow> string \<Rightarrow> logger \<Rightarrow> unit res \<times> logger" where
  "hand_over dump cfg now sev encoded lg =
     (case verdict_of cfg lg encoded of
        TooLarge \<Rightarrow>
          if low_severity sev then (Inr (), drop_record lg)
          else (case rejection_notice dump now (length encoded) of
                  Inl e \<Rightarrow> (Inl e, drop_record lg)
                | Inr notice \<Rightarrow> (Inr (), spill_record sev (notice @ ''\<newline>'') (drop_record lg)))
      | Unfiled \<Rightarrow> (Inr (), spill_record sev encoded lg)
      | Refused_Record \<Rightarrow> (Inr (), spill_record sev encoded (drop_record lg))
      | Queued \<Rightarrow> (Inr (), lg\<lparr>lg_queue := lg_queue lg @ [encoded], lg_counting := lg_counting lg + 1\<rparr>))"

definition log_write ::
  "(json \<Rightarrow> string res) \<Rightarrow> log_config \<Rightarrow> u64 \<Rightarrow> severity \<Rightarrow> string \<Rightarrow> json \<Rightarrow> logger \<Rightarrow> unit res \<times> logger" where
  "log_write dump cfg now sev event data lg =
     (case encode_record dump now sev event data of
        Inl e \<Rightarrow> (Inl e, lg)
      | Inr encoded \<Rightarrow> hand_over dump cfg now sev encoded lg)"

definition count_accepted :: "logger \<Rightarrow> logger" where
  "count_accepted lg = lg\<lparr>lg_counting := lg_counting lg - 1, lg_accepted := lg_accepted lg + 1\<rparr>"

text \<open>The worker's loop: it takes a record, or returns, or waits; then it files what it holds.\<close>

definition take_record :: "logger \<Rightarrow> logger option" where
  "take_record lg =
     (case lg_queue lg of
        [] \<Rightarrow> if lg_stopping lg then Some (lg\<lparr>lg_returned := True\<rparr>) else None
      | encoded # rest \<Rightarrow> Some (lg\<lparr>lg_queue := rest, lg_held := Some encoded\<rparr>))"

definition failure_notice :: "(json \<Rightarrow> string res) \<Rightarrow> u64 \<Rightarrow> string \<Rightarrow> string list" where
  "failure_notice dump now reason =
     (case dump (diagnostic_record now ''error'' ''diagnostic_write_failed'' (jobj [(''reason'', JStr reason)])) of
        Inl e \<Rightarrow> [] | Inr notice \<Rightarrow> [notice @ ''\<newline>''])"

definition file_record ::
  "(json \<Rightarrow> string res) \<Rightarrow> (exn \<Rightarrow> string) \<Rightarrow> log_config \<Rightarrow> u64 \<Rightarrow> log_faults \<Rightarrow> string \<Rightarrow> logger \<Rightarrow> bool \<times> logger" where
  "file_record dump what cfg now lf encoded lg =
     (case write_record cfg lf encoded (lg_files lg) of
        (Inr _, fs) \<Rightarrow> (True, lg\<lparr>lg_held := None, lg_files := fs, lg_written := lg_written lg + 1\<rparr>)
      | (Inl e, fs) \<Rightarrow>
          (False, lg\<lparr>lg_held := None, lg_files := fs, lg_failed := True, lg_fallback := lg_fallback lg + 1,
                     lg_stderr := lg_stderr lg @ encoded # failure_notice dump now (what e)\<rparr>))"

definition stop_logger :: "logger \<Rightarrow> logger" where
  "stop_logger lg = (if lg_stopping lg then lg else lg\<lparr>lg_accepting := False, lg_stopping := True\<rparr>)"

definition logger_snapshot :: "log_config \<Rightarrow> logger \<Rightarrow> json" where
  "logger_snapshot cfg lg =
     jobj [(''enabled'', JBool (lc_path cfg \<noteq> [])), (''queue_depth'', JUInt (of_nat (length (lg_queue lg)))),
           (''queue_capacity'', JUInt (of_nat (lc_queue_capacity cfg))), (''accepting'', JBool (lg_accepting lg)),
           (''accepted'', JUInt (lg_accepted lg)), (''written'', JUInt (lg_written lg)),
           (''dropped'', JUInt (lg_dropped lg)), (''fallback'', JUInt (lg_fallback lg)),
           (''failed'', JBool (lg_failed lg)), (''rotation_bytes'', JUInt (of_nat (lc_rotation_bytes cfg))),
           (''rotation_files'', JUInt (of_nat (lc_rotation_files cfg))),
           (''maximum_record_bytes'', JUInt (of_nat (lc_maximum_record_bytes cfg)))]"

section \<open>Interleaved calls\<close>

text \<open>The calls and the worker take turns; the region under the mutex is one step.\<close>

datatype log_event = Offered verdict severity string | Filed string | Spilled string | Quiet

inductive log_step ::
  "(json \<Rightarrow> string res) \<Rightarrow> (exn \<Rightarrow> string) \<Rightarrow> log_config \<Rightarrow> logger \<Rightarrow> log_event \<Rightarrow> logger \<Rightarrow> bool" for dump what cfg where
  offer: "encode_record dump now sev event data = Inr encoded \<Longrightarrow> log_write dump cfg now sev event data lg = (r, lg') \<Longrightarrow>
    log_step dump what cfg lg (Offered (verdict_of cfg lg encoded) sev encoded) lg'"
| invalid: "encode_record dump now sev event data = Inl e \<Longrightarrow> log_write dump cfg now sev event data lg = (r, lg') \<Longrightarrow>
    log_step dump what cfg lg Quiet lg'"
| counted: "0 < lg_counting lg \<Longrightarrow> log_step dump what cfg lg Quiet (count_accepted lg)"
| take: "\<not> lg_returned lg \<Longrightarrow> lg_held lg = None \<Longrightarrow> take_record lg = Some lg' \<Longrightarrow> log_step dump what cfg lg Quiet lg'"
| filed: "lg_held lg = Some encoded \<Longrightarrow> file_record dump what cfg now lf encoded lg = (True, lg') \<Longrightarrow>
    log_step dump what cfg lg (Filed encoded) lg'"
| spilled: "lg_held lg = Some encoded \<Longrightarrow> file_record dump what cfg now lf encoded lg = (False, lg') \<Longrightarrow>
    log_step dump what cfg lg (Spilled encoded) lg'"
| stop: "log_step dump what cfg lg Quiet (stop_logger lg)"

inductive log_run ::
  "(json \<Rightarrow> string res) \<Rightarrow> (exn \<Rightarrow> string) \<Rightarrow> log_config \<Rightarrow> logger \<Rightarrow> log_event list \<Rightarrow> logger \<Rightarrow> bool" for dump what cfg lg where
  none: "log_run dump what cfg lg [] lg"
| more: "log_run dump what cfg lg es lg' \<Longrightarrow> log_step dump what cfg lg' e lg'' \<Longrightarrow>
    log_run dump what cfg lg (es @ [e]) lg''"

section \<open>Accounting\<close>

definition queued_records :: "log_event list \<Rightarrow> string list" where
  "queued_records es = concat (map (\<lambda>e. case e of Offered Queued sev r \<Rightarrow> [r] | _ \<Rightarrow> []) es)"

text \<open>The records the worker is done with, filed or printed.\<close>

definition settled_records :: "log_event list \<Rightarrow> string list" where
  "settled_records es = concat (map (\<lambda>e. case e of Filed r \<Rightarrow> [r] | Spilled r \<Rightarrow> [r] | _ \<Rightarrow> []) es)"

fun is_filed :: "log_event \<Rightarrow> bool" where
  "is_filed (Filed r) = True" | "is_filed _ = False"

fun is_dropped :: "log_event \<Rightarrow> bool" where
  "is_dropped (Offered v sev r) = (v = TooLarge \<or> v = Refused_Record)" | "is_dropped _ = False"

fun is_printed :: "log_event \<Rightarrow> bool" where
  "is_printed (Offered v sev r) = (v \<noteq> Queued \<and> \<not> low_severity sev)"
| "is_printed (Spilled r) = True"
| "is_printed _ = False"

definition count_events :: "(log_event \<Rightarrow> bool) \<Rightarrow> log_event list \<Rightarrow> nat" where
  "count_events P es = length (filter P es)"

text \<open>What an event leaves on the error stream.\<close>

definition heard :: "(json \<Rightarrow> string res) \<Rightarrow> string list \<Rightarrow> log_event \<Rightarrow> bool" where
  "heard dump errors e \<longleftrightarrow>
     (case e of
        Offered v sev r \<Rightarrow>
          low_severity sev \<or>
          (case v of
             Queued \<Rightarrow> True
           | TooLarge \<Rightarrow> (\<exists>now text. rejection_notice dump now (length r) = Inr text \<and> text @ ''\<newline>'' \<in> set errors)
           | _ \<Rightarrow> r \<in> set errors)
      | Spilled r \<Rightarrow> r \<in> set errors
      | _ \<Rightarrow> True)"

definition held_records :: "logger \<Rightarrow> string list" where
  "held_records lg = (case lg_held lg of None \<Rightarrow> [] | Some r \<Rightarrow> [r])"

text \<open>The notice that a record is too large has nothing in it that cannot be serialised.\<close>

definition dumps_notices :: "(json \<Rightarrow> string res) \<Rightarrow> bool" where
  "dumps_notices dump \<longleftrightarrow> (\<forall>now n. \<exists>text. rejection_notice dump now n = Inr text)"

definition log_inv :: "(json \<Rightarrow> string res) \<Rightarrow> log_config \<Rightarrow> log_event list \<Rightarrow> logger \<Rightarrow> bool" where
  "log_inv dump cfg es lg \<longleftrightarrow>
     queued_records es = settled_records es @ held_records lg @ lg_queue lg \<and>
     length (lg_queue lg) \<le> lc_queue_capacity cfg \<and>
     lg_accepted lg + of_nat (lg_counting lg) = of_nat (length (queued_records es)) \<and>
     lg_written lg = of_nat (count_events is_filed es) \<and>
     lg_dropped lg = of_nat (count_events is_dropped es) \<and>
     lg_fallback lg = of_nat (count_events is_printed es) \<and>
     (\<forall>e \<in> set es. heard dump (lg_stderr lg) e) \<and>
     (lg_accepting lg \<longleftrightarrow> \<not> lg_stopping lg) \<and>
     (lg_returned lg \<longrightarrow> lg_queue lg = [] \<and> lg_held lg = None \<and> (lc_path cfg = [] \<or> lg_stopping lg))"

named_theorems account_simps

lemma account_append [account_simps]:
  "queued_records (es @ fs) = queued_records es @ queued_records fs"
  "settled_records (es @ fs) = settled_records es @ settled_records fs"
  "count_events P (es @ fs) = count_events P es + count_events P fs"
  by (simp_all add: queued_records_def settled_records_def count_events_def)

lemma account_one [account_simps]:
  "queued_records [Offered v sev r] = (if v = Queued then [r] else [])"
  "queued_records [Filed r] = []" "queued_records [Spilled r] = []" "queued_records [Quiet] = []"
  "settled_records [Offered v sev r] = []" "settled_records [Filed r] = [r]" "settled_records [Spilled r] = [r]"
  "settled_records [Quiet] = []" "count_events P [e] = (if P e then 1 else 0)"
  "queued_records [] = []" "settled_records [] = []" "count_events P [] = 0"
  by (auto simp: queued_records_def settled_records_def count_events_def split: verdict.splits)

lemma heard_more: "heard dump errors e \<Longrightarrow> heard dump (errors @ more_errors) e"
  by (auto simp: heard_def split: log_event.splits verdict.splits)

lemma heard_all_more: "\<forall>e \<in> set es. heard dump errors e \<Longrightarrow> \<forall>e \<in> set es. heard dump (errors @ more_errors) e"
  by (simp add: heard_more)

text \<open>Printing and dropping touch the counters and the error stream only.\<close>

lemma spill_frame [simp]:
  "lg_queue (spill_record sev r lg) = lg_queue lg" "lg_held (spill_record sev r lg) = lg_held lg"
  "lg_returned (spill_record sev r lg) = lg_returned lg" "lg_stopping (spill_record sev r lg) = lg_stopping lg"
  "lg_accepting (spill_record sev r lg) = lg_accepting lg" "lg_counting (spill_record sev r lg) = lg_counting lg"
  "lg_accepted (spill_record sev r lg) = lg_accepted lg" "lg_written (spill_record sev r lg) = lg_written lg"
  "lg_dropped (spill_record sev r lg) = lg_dropped lg"
  "lg_fallback (spill_record sev r lg) = (if low_severity sev then lg_fallback lg else lg_fallback lg + 1)"
  "lg_stderr (spill_record sev r lg) = lg_stderr lg @ (if low_severity sev then [] else [r])"
  by (simp_all add: spill_record_def)

lemma drop_frame [simp]:
  "lg_queue (drop_record lg) = lg_queue lg" "lg_held (drop_record lg) = lg_held lg"
  "lg_returned (drop_record lg) = lg_returned lg" "lg_stopping (drop_record lg) = lg_stopping lg"
  "lg_accepting (drop_record lg) = lg_accepting lg" "lg_counting (drop_record lg) = lg_counting lg"
  "lg_accepted (drop_record lg) = lg_accepted lg" "lg_written (drop_record lg) = lg_written lg"
  "lg_dropped (drop_record lg) = lg_dropped lg + 1" "lg_fallback (drop_record lg) = lg_fallback lg"
  "lg_stderr (drop_record lg) = lg_stderr lg"
  by (simp_all add: drop_record_def)

lemma log_inv_new: "logger_new is_directory fault fs cfg = Inr lg \<Longrightarrow> log_inv dump cfg [] lg"
  by (auto simp: logger_new_def log_inv_def held_records_def account_simps Let_def split: if_splits)

lemma log_inv_hand_over:
  assumes inv: "log_inv dump cfg es lg" and h: "hand_over dump cfg now sev encoded lg = (r, lg')"
    and notices: "dumps_notices dump"
  shows "log_inv dump cfg (es @ [Offered (verdict_of cfg lg encoded) sev encoded]) lg'"
proof (cases "verdict_of cfg lg encoded")
  case Queued
  then have ok: "lc_path cfg \<noteq> []" "lg_accepting lg" "length (lg_queue lg) < lc_queue_capacity cfg"
    by (auto simp: verdict_of_def split: if_splits)
  have lg': "lg' = lg\<lparr>lg_queue := lg_queue lg @ [encoded], lg_counting := lg_counting lg + 1\<rparr>"
    using h Queued by (simp add: hand_over_def)
  show ?thesis
    using inv ok unfolding lg' log_inv_def
    by (auto simp: Queued account_simps held_records_def heard_def)
next
  case Unfiled
  then have lg': "lg' = spill_record sev encoded lg" using h by (simp add: hand_over_def)
  show ?thesis
    using inv heard_all_more [of es dump "lg_stderr lg" "[encoded]"] unfolding lg' log_inv_def
    by (cases "low_severity sev") (auto simp: Unfiled account_simps held_records_def heard_def)
next
  case Refused_Record
  then have lg': "lg' = spill_record sev encoded (drop_record lg)" using h by (simp add: hand_over_def)
  show ?thesis
    using inv heard_all_more [of es dump "lg_stderr lg" "[encoded]"] unfolding lg' log_inv_def
    by (cases "low_severity sev") (auto simp: Refused_Record account_simps held_records_def heard_def)
next
  case TooLarge
  show ?thesis
  proof (cases "low_severity sev")
    case True
    then have lg': "lg' = drop_record lg" using h TooLarge by (simp add: hand_over_def)
    show ?thesis
      using inv True unfolding lg' log_inv_def by (auto simp: TooLarge account_simps held_records_def heard_def)
  next
    case False
    obtain notice where t: "rejection_notice dump now (length encoded) = Inr notice"
      using notices unfolding dumps_notices_def by blast
    have lg': "lg' = spill_record sev (notice @ ''\<newline>'') (drop_record lg)"
      using h TooLarge False t by (simp add: hand_over_def)
    have "heard dump (lg_stderr lg @ [notice @ ''\<newline>'']) (Offered TooLarge sev encoded)"
      using t unfolding heard_def by auto
    then show ?thesis
      using inv False heard_all_more [of es dump "lg_stderr lg" "[notice @ ''\<newline>'']"] unfolding lg' log_inv_def
      by (auto simp: TooLarge account_simps held_records_def)
  qed
qed

lemma log_inv_file:
  assumes inv: "log_inv dump cfg es lg" and held: "lg_held lg = Some encoded"
    and f: "file_record dump what cfg now lf encoded lg = (ok, lg')"
  shows "log_inv dump cfg (es @ [if ok then Filed encoded else Spilled encoded]) lg'"
proof (cases "write_record cfg lf encoded (lg_files lg)")
  case (Pair r fs)
  show ?thesis
  proof (cases r)
    case (Inr u)
    then have *: "ok" "lg' = lg\<lparr>lg_held := None, lg_files := fs, lg_written := lg_written lg + 1\<rparr>"
      using f Pair by (simp_all add: file_record_def)
    show ?thesis
      using inv held *(1) unfolding *(2) log_inv_def by (auto simp: account_simps held_records_def heard_def)
  next
    case (Inl e)
    then have *: "\<not> ok" "lg' = lg\<lparr>lg_held := None, lg_files := fs, lg_failed := True, lg_fallback := lg_fallback lg + 1,
        lg_stderr := lg_stderr lg @ encoded # failure_notice dump now (what e)\<rparr>"
      using f Pair by (simp_all add: file_record_def)
    show ?thesis
      using inv held *(1) heard_all_more [of es dump "lg_stderr lg" "encoded # failure_notice dump now (what e)"]
      unfolding *(2) log_inv_def by (auto simp: account_simps held_records_def heard_def)
  qed
qed

lemma log_inv_quiet:
  assumes inv: "log_inv dump cfg es lg"
  shows "log_inv dump cfg (es @ [Quiet]) lg" "log_inv dump cfg (es @ [Quiet]) (stop_logger lg)"
    "0 < lg_counting lg \<Longrightarrow> log_inv dump cfg (es @ [Quiet]) (count_accepted lg)"
    "lg_held lg = None \<Longrightarrow> take_record lg = Some lg' \<Longrightarrow> \<not> lg_returned lg \<Longrightarrow> log_inv dump cfg (es @ [Quiet]) lg'"
proof -
  show quiet: "log_inv dump cfg (es @ [Quiet]) lg"
    using inv by (auto simp: log_inv_def account_simps heard_def)
  show "log_inv dump cfg (es @ [Quiet]) (stop_logger lg)"
    using quiet by (auto simp: log_inv_def stop_logger_def held_records_def)
  show "log_inv dump cfg (es @ [Quiet]) (count_accepted lg)" if "0 < lg_counting lg"
    using quiet that by (auto simp: log_inv_def count_accepted_def held_records_def of_nat_diff)
  show "log_inv dump cfg (es @ [Quiet]) lg'" if "lg_held lg = None" "take_record lg = Some lg'" "\<not> lg_returned lg"
    using quiet that by (auto simp: log_inv_def take_record_def held_records_def split: list.splits if_splits)
qed

lemma log_step_inv:
  assumes "log_step dump what cfg lg e lg'" and "log_inv dump cfg es lg" and "dumps_notices dump"
  shows "log_inv dump cfg (es @ [e]) lg'"
  using assms
proof cases
  case (offer now sev event data encoded r)
  with assms show ?thesis by (simp add: log_write_def log_inv_hand_over)
next
  case (filed encoded now lf)
  with log_inv_file [OF assms(2) filed(2,3)] show ?thesis by simp
next
  case (spilled encoded now lf)
  with log_inv_file [OF assms(2) spilled(2,3)] show ?thesis by simp
qed (auto simp: log_write_def log_inv_quiet)

lemma log_run_inv:
  "log_run dump what cfg lg es lg' \<Longrightarrow> log_inv dump cfg [] lg \<Longrightarrow> dumps_notices dump \<Longrightarrow> log_inv dump cfg es lg'"
  by (induction rule: log_run.induct) (auto intro: log_step_inv)

section \<open>Rotation\<close>

text \<open>Nothing is refused, and the log's paths are free or regular files.\<close>

definition calm :: log_faults where
  "calm = \<lparr>lf_inspect_rotation = False, lf_size = False, lf_remove = (\<lambda>_. False), lf_rename = (\<lambda>_. False),
           lf_inspect = False, lf_open = False, lf_cut = None\<rparr>"

lemma calm_simps [simp]:
  "\<not> lf_inspect_rotation calm" "\<not> lf_size calm" "\<not> lf_remove calm p" "\<not> lf_rename calm p" "\<not> lf_inspect calm"
  "\<not> lf_open calm" "lf_cut calm = None"
  by (simp_all add: calm_def)

definition plain_node :: "files \<Rightarrow> string \<Rightarrow> bool" where
  "plain_node fs p \<longleftrightarrow> (case fs p of None \<Rightarrow> True | Some (Regular text) \<Rightarrow> True | _ \<Rightarrow> False)"

definition plain_files :: "log_config \<Rightarrow> files \<Rightarrow> bool" where
  "plain_files cfg fs \<longleftrightarrow> plain_node fs (lc_path cfg) \<and> (\<forall>k. plain_node fs (rotated_path cfg k))"

text \<open>The rotated files from the oldest on, all of them and those above the first.\<close>

fun older_text :: "log_config \<Rightarrow> nat \<Rightarrow> files \<Rightarrow> string" where
  "older_text cfg 0 fs = []"
| "older_text cfg (Suc n) fs = log_text fs (rotated_path cfg (Suc n)) @ older_text cfg n fs"

fun shifted_text :: "log_config \<Rightarrow> nat \<Rightarrow> files \<Rightarrow> string" where
  "shifted_text cfg 0 fs = []"
| "shifted_text cfg (Suc n) fs = (if n = 0 then [] else log_text fs (rotated_path cfg (Suc n)) @ shifted_text cfg n fs)"

definition retained :: "log_config \<Rightarrow> files \<Rightarrow> string" where
  "retained cfg fs = older_text cfg (lc_rotation_files cfg) fs @ log_text fs (lc_path cfg)"

lemma rotated_path_inject [simp]: "rotated_path cfg m = rotated_path cfg n \<longleftrightarrow> m = n"
  by (simp add: rotated_path_def)

lemma rotated_not_log [simp]: "rotated_path cfg k \<noteq> lc_path cfg" "lc_path cfg \<noteq> rotated_path cfg k"
  by (simp_all add: rotated_path_def)

lemma plain_cases:
  assumes "plain_node fs p"
  obtains "fs p = None" "\<not> path_exists fs p" "log_text fs p = []"
    | content where "fs p = Some (Regular content)" "path_exists fs p" "log_text fs p = content"
  using assms by (auto simp: plain_node_def path_exists_def log_text_def split: option.splits log_node.splits)

lemma text_cong: "fs p = fs' p \<Longrightarrow> log_text fs p = log_text fs' p"
  by (simp add: log_text_def)

lemma shifted_cong: "(\<And>k. 2 \<le> k \<Longrightarrow> k \<le> n \<Longrightarrow> fs (rotated_path cfg k) = fs' (rotated_path cfg k)) \<Longrightarrow>
    shifted_text cfg n fs = shifted_text cfg n fs'"
  by (induction n) (auto intro: text_cong)

lemma older_cong: "(\<And>k. k \<le> n \<Longrightarrow> fs (rotated_path cfg k) = fs' (rotated_path cfg k)) \<Longrightarrow>
    older_text cfg n fs = older_text cfg n fs'"
  by (induction n) (auto intro: text_cong)

lemma older_shifted: "0 < n \<Longrightarrow> older_text cfg n fs = shifted_text cfg n fs @ log_text fs (rotated_path cfg 1)"
  by (induction n) auto

text \<open>Moving one regular file up drops what was there before.\<close>

lemma shift_one:
  assumes "plain_files cfg fs" and "fs older = Some (Regular content)"
    and "older = lc_path cfg \<or> (\<exists>k. older = rotated_path cfg k)" and "older \<noteq> rotated_path cfg m"
  shows "rename_path calm older (rotated_path cfg m) (remove_path calm (rotated_path cfg m) fs) =
      Inr (fs(rotated_path cfg m := Some (Regular content), older := None))"
    and "plain_files cfg (fs(rotated_path cfg m := Some (Regular content), older := None))"
proof -
  have "fs (rotated_path cfg m) \<noteq> Some (Folder False)"
    using assms(1) by (auto simp: plain_files_def plain_node_def split: option.splits log_node.splits)
  then show "rename_path calm older (rotated_path cfg m) (remove_path calm (rotated_path cfg m) fs) =
      Inr (fs(rotated_path cfg m := Some (Regular content), older := None))"
    using assms(2,4) by (simp add: remove_path_def rename_path_def)
  show "plain_files cfg (fs(rotated_path cfg m := Some (Regular content), older := None))"
    using assms(1) by (auto simp: plain_files_def plain_node_def)
qed

lemma rotate_from_calm:
  assumes "plain_files cfg fs"
  shows "\<exists>fs' lost. rotate_from cfg calm n fs = (Inr (), fs') \<and> plain_files cfg fs' \<and>
    fs' (lc_path cfg) = fs (lc_path cfg) \<and> (\<forall>k > n. fs' (rotated_path cfg k) = fs (rotated_path cfg k)) \<and>
    older_text cfg n fs = lost @ shifted_text cfg n fs' \<and> (lost = [] \<or> lost = log_text fs (rotated_path cfg n))"
  using assms
proof (induction n arbitrary: fs)
  case 0
  then show ?case by simp
next
  case (Suc n)
  show ?case
  proof (cases "n = 0")
    case True
    with Suc.prems show ?thesis by (intro exI [of _ fs] exI [of _ "log_text fs (rotated_path cfg (Suc n))"]) simp
  next
    case False
    have "plain_node fs (rotated_path cfg n)" using Suc.prems by (simp add: plain_files_def)
    then show ?thesis
    proof (cases rule: plain_cases)
      case 1
      from Suc.IH [OF Suc.prems] obtain fs' lost where ih: "rotate_from cfg calm n fs = (Inr (), fs')"
        "plain_files cfg fs'" "fs' (lc_path cfg) = fs (lc_path cfg)"
        "\<forall>k > n. fs' (rotated_path cfg k) = fs (rotated_path cfg k)"
        "older_text cfg n fs = lost @ shifted_text cfg n fs'" "lost = [] \<or> lost = log_text fs (rotated_path cfg n)"
        by blast
      have "log_text fs' (rotated_path cfg (Suc n)) = log_text fs (rotated_path cfg (Suc n))"
        using ih(4) by (intro text_cong) simp
      then show ?thesis
        using 1 ih False by (intro exI [of _ fs'] exI [of _ "[]"]) auto
    next
      case (2 content)
      let ?fs = "fs(rotated_path cfg (Suc n) := Some (Regular content), rotated_path cfg n := None)"
      have moved: "rotate_from cfg calm (Suc n) fs = rotate_from cfg calm n ?fs" "plain_files cfg ?fs"
        using shift_one [OF Suc.prems 2(1), of "Suc n"] 2(2) False by auto
      from Suc.IH [OF moved(2)] obtain fs' lost where ih: "rotate_from cfg calm n ?fs = (Inr (), fs')"
        "plain_files cfg fs'" "fs' (lc_path cfg) = ?fs (lc_path cfg)"
        "\<forall>k > n. fs' (rotated_path cfg k) = ?fs (rotated_path cfg k)"
        "older_text cfg n ?fs = lost @ shifted_text cfg n fs'" "lost = [] \<or> lost = log_text ?fs (rotated_path cfg n)"
        by blast
      obtain m where m: "n = Suc m" using False by (cases n) auto
      have "older_text cfg n ?fs = older_text cfg m fs"
        unfolding m by (simp add: log_text_def) (rule older_cong, simp)
      moreover have "lost = []" using ih(6) by (auto simp: log_text_def)
      ultimately have "shifted_text cfg n fs' = older_text cfg m fs" using ih(5) by simp
      moreover have "log_text fs' (rotated_path cfg (Suc n)) = content" using ih(4) by (simp add: log_text_def)
      ultimately have "older_text cfg (Suc n) fs =
          log_text fs (rotated_path cfg (Suc n)) @ shifted_text cfg (Suc n) fs'"
        using 2(3) False by (simp add: m)
      then show ?thesis
        using moved ih(1-4)
        by (intro exI [of _ fs'] exI [of _ "log_text fs (rotated_path cfg (Suc n))"]) auto
    qed
  qed
qed

text \<open>Every rotated file was one before, so no file grows by rotation.\<close>

definition small_files :: "log_config \<Rightarrow> files \<Rightarrow> bool" where
  "small_files cfg fs \<longleftrightarrow>
     length (log_text fs (lc_path cfg)) \<le> lc_rotation_bytes cfg \<and>
     (\<forall>k. length (log_text fs (rotated_path cfg k)) \<le> lc_rotation_bytes cfg)"

lemma shift_small:
  assumes "small_files cfg fs" and "fs older = Some (Regular content)"
    and "older = lc_path cfg \<or> (\<exists>k. older = rotated_path cfg k)"
  shows "small_files cfg (fs(rotated_path cfg m := Some (Regular content), older := None))"
proof -
  have "length content \<le> lc_rotation_bytes cfg"
    using assms by (auto simp: small_files_def log_text_def split: option.splits log_node.splits)
  then show ?thesis using assms(1) by (auto simp: small_files_def log_text_def)
qed

lemma rotate_from_small:
  assumes "plain_files cfg fs" and "small_files cfg fs"
  shows "small_files cfg (snd (rotate_from cfg calm n fs))"
  using assms
proof (induction n arbitrary: fs)
  case (Suc n)
  have "plain_node fs (rotated_path cfg n)" using Suc.prems(1) by (simp add: plain_files_def)
  then show ?case
  proof (cases rule: plain_cases)
    case 1
    with Suc show ?thesis by simp
  next
    case (2 content)
    note shifted = shift_one [OF Suc.prems(1) 2(1), of "Suc n"] shift_small [OF Suc.prems(2) 2(1), of "Suc n"]
    then show ?thesis using Suc 2(2) by auto
  qed
qed simp

lemma rotate_files_calm:
  assumes "plain_files cfg fs" and "small_files cfg fs" and "fs (lc_path cfg) = Some (Regular content)"
    and "0 < lc_rotation_files cfg"
  obtains fs' lost where "rotate_files cfg calm fs = (Inr (), fs')" "plain_files cfg fs'" "small_files cfg fs'"
    "fs' (lc_path cfg) = None" "retained cfg fs = lost @ retained cfg fs'"
proof -
  let ?n = "lc_rotation_files cfg"
  from rotate_from_calm [OF assms(1), of ?n] obtain fs1 lost where r: "rotate_from cfg calm ?n fs = (Inr (), fs1)"
    "plain_files cfg fs1" "fs1 (lc_path cfg) = Some (Regular content)"
    "older_text cfg ?n fs = lost @ shifted_text cfg ?n fs1"
    using assms(3) by auto
  let ?fs = "fs1(rotated_path cfg 1 := Some (Regular content), lc_path cfg := None)"
  have small: "small_files cfg fs1" using rotate_from_small [OF assms(1,2), of ?n] r(1) by simp
  have moved: "rotate_files cfg calm fs = (Inr (), ?fs)"
    using shift_one [OF r(2,3), of 1] r(1) by (simp add: rotate_files_def Let_def)
  have "shifted_text cfg ?n ?fs = shifted_text cfg ?n fs1" by (rule shifted_cong) simp
  then have "older_text cfg ?n ?fs = shifted_text cfg ?n fs1 @ content"
    using older_shifted [OF assms(4), of cfg ?fs] by (simp add: log_text_def)
  then have "retained cfg fs = lost @ retained cfg ?fs"
    using r(4) assms(3) by (simp add: retained_def log_text_def)
  with moved shift_one [OF r(2,3), of 1] shift_small [OF small r(3), of 1] show ?thesis
    by (intro that [of ?fs lost]) simp_all
qed

lemma append_calm:
  assumes "plain_files cfg fs" and "small_files cfg fs"
    and "length (log_text fs (lc_path cfg)) + length encoded \<le> lc_rotation_bytes cfg"
  obtains fs' where "append_text cfg calm encoded fs = (Inr (), fs')" "plain_files cfg fs'" "small_files cfg fs'"
    "retained cfg fs' = retained cfg fs @ encoded" "log_text fs' (lc_path cfg) = log_text fs (lc_path cfg) @ encoded"
proof -
  let ?fs = "fs(lc_path cfg := Some (Regular (log_text fs (lc_path cfg) @ encoded)))"
  have t: "log_text ?fs (lc_path cfg) = log_text fs (lc_path cfg) @ encoded"
    "log_text ?fs (rotated_path cfg k) = log_text fs (rotated_path cfg k)" for k
    by (simp_all add: log_text_def)
  have "plain_files cfg ?fs" using assms(1) by (auto simp: plain_files_def plain_node_def)
  moreover have "small_files cfg ?fs" using assms(2,3) by (simp add: small_files_def t)
  moreover have "older_text cfg n ?fs = older_text cfg n fs" for n by (rule older_cong) simp
  ultimately show ?thesis
    by (intro that [of ?fs]) (simp_all add: append_text_def Let_def retained_def t)
qed

lemma inspect_plain: "plain_node fs p \<Longrightarrow> inspect_log False message fs p = Inr ()"
  by (auto simp: plain_node_def inspect_log_def split: option.splits log_node.splits)

lemma write_record_calm:
  assumes "plain_files cfg fs" and "small_files cfg fs" and "length encoded \<le> lc_rotation_bytes cfg"
    and "0 < lc_rotation_files cfg"
  obtains fs' lost before where "write_record cfg calm encoded fs = (Inr (), fs')" "plain_files cfg fs'"
    "small_files cfg fs'" "retained cfg fs @ encoded = lost @ retained cfg fs'"
    "log_text fs' (lc_path cfg) = before @ encoded"
proof -
  have plain: "plain_node fs (lc_path cfg)" using assms(1) by (simp add: plain_files_def)
  obtain fs1 lost where r: "rotate_if_needed cfg calm (length encoded) fs = (Inr (), fs1)" "plain_files cfg fs1"
    "small_files cfg fs1" "retained cfg fs = lost @ retained cfg fs1"
    "length (log_text fs1 (lc_path cfg)) + length encoded \<le> lc_rotation_bytes cfg"
  proof (cases "length (log_text fs (lc_path cfg)) + length encoded \<le> lc_rotation_bytes cfg")
    case True
    with plain assms(1,2) show ?thesis
      by (intro that [of fs "[]"])
        (auto simp: rotate_if_needed_def inspect_plain log_size_def log_text_def plain_node_def split: option.splits log_node.splits)
  next
    case False
    obtain content where c: "fs (lc_path cfg) = Some (Regular content)" "path_exists fs (lc_path cfg)"
      "log_text fs (lc_path cfg) = content"
      by (rule plain_cases [OF plain]) (use False assms(3) in auto)
    obtain fs1 lost where r: "rotate_files cfg calm fs = (Inr (), fs1)" "plain_files cfg fs1" "small_files cfg fs1"
      "fs1 (lc_path cfg) = None" "retained cfg fs = lost @ retained cfg fs1"
      by (rule rotate_files_calm [OF assms(1,2) c(1) assms(4)])
    with c False plain assms(3) show ?thesis
      by (intro that [of fs1 lost]) (auto simp: rotate_if_needed_def inspect_plain log_size_def log_text_def Let_def)
  qed
  obtain fs2 where "append_text cfg calm encoded fs1 = (Inr (), fs2)" "plain_files cfg fs2" "small_files cfg fs2"
    "retained cfg fs2 = retained cfg fs1 @ encoded" "log_text fs2 (lc_path cfg) = log_text fs1 (lc_path cfg) @ encoded"
    by (rule append_calm [OF r(2,3,5)])
  moreover have "plain_node fs1 (lc_path cfg)" using r(2) by (simp add: plain_files_def)
  ultimately show ?thesis
    using r by (intro that [of fs2 lost "log_text fs1 (lc_path cfg)"]) (auto simp: write_record_def inspect_plain)
qed

fun file_all :: "log_config \<Rightarrow> string list \<Rightarrow> files \<Rightarrow> files option" where
  "file_all cfg [] fs = Some fs"
| "file_all cfg (r # rs) fs =
     (case write_record cfg calm r fs of (Inr _, fs') \<Rightarrow> file_all cfg rs fs' | (Inl _, _) \<Rightarrow> None)"

text \<open>
  While the operating system refuses nothing, filing never fails, and the log file with its rotated
  ones, read from the oldest on, is the end of everything that was ever filed; the newest record is
  whole and last, and no file is larger than the rotation limit.
\<close>

theorem log_keeps_newest:
  assumes "plain_files cfg fs" and "small_files cfg fs" and "0 < lc_rotation_files cfg"
    and "\<And>r. r \<in> set rs \<Longrightarrow> length r \<le> lc_rotation_bytes cfg"
  shows "\<exists>fs' lost. file_all cfg rs fs = Some fs' \<and> plain_files cfg fs' \<and> small_files cfg fs' \<and>
    retained cfg fs @ concat rs = lost @ retained cfg fs' \<and>
    (rs \<noteq> [] \<longrightarrow> (\<exists>before. log_text fs' (lc_path cfg) = before @ last rs))"
  using assms
proof (induction rs arbitrary: fs)
  case Nil
  then show ?case by (intro exI [of _ fs] exI [of _ "[]"]) simp
next
  case (Cons r rs)
  obtain fs1 lost1 before where w: "write_record cfg calm r fs = (Inr (), fs1)" "plain_files cfg fs1"
    "small_files cfg fs1" "retained cfg fs @ r = lost1 @ retained cfg fs1" "log_text fs1 (lc_path cfg) = before @ r"
    by (rule write_record_calm [OF Cons.prems(1,2) _ Cons.prems(3), of r]) (simp add: Cons.prems(4))
  from Cons.IH [OF w(2,3) Cons.prems(3)] Cons.prems(4)
  obtain fs' lost where ih: "file_all cfg rs fs1 = Some fs'" "plain_files cfg fs'" "small_files cfg fs'"
    "retained cfg fs1 @ concat rs = lost @ retained cfg fs'"
    "rs \<noteq> [] \<longrightarrow> (\<exists>before. log_text fs' (lc_path cfg) = before @ last rs)"
    by auto
  have "retained cfg fs @ concat (r # rs) = (lost1 @ lost) @ retained cfg fs'"
    using w(4) ih(4) by (metis append.assoc concat.simps(2))
  moreover have "\<exists>before. log_text fs' (lc_path cfg) = before @ last (r # rs)"
    using w(5) ih(1,5) by (cases rs) auto
  ultimately show ?case
    using w(1) ih(1-3) by (intro exI [of _ fs'] exI [of _ "lost1 @ lost"]) simp
qed

section \<open>Property\<close>


definition demo_log :: log_config where
  "demo_log = \<lparr>lc_path = ''log'', lc_queue_capacity = 1, lc_rotation_bytes = 4096, lc_rotation_files = 1,
     lc_maximum_record_bytes = 256\<rparr>"


end
