(* ===== verification/Pool_Jobs.thy ===== *)
theory Pool_Jobs
  imports Worker_Pool "HOL-Library.Multiset"
begin

text \<open>
  The jobs a worker pool (\<open>worker_pool.cpp\<close>) has taken and not finished, as a multiset: those queued
  and those a worker is running. Each step of the pool is one equation on it, which the clients of
  the pool build on.
\<close>

fun carried :: "'j wphase \<Rightarrow> 'j multiset" where
  "carried (WRun job) = {#job#}"
| "carried _ = {#}"

definition unfinished :: "'j pool \<Rightarrow> 'j multiset" where
  "unfinished p = mset (p_queue p) + sum_list (map carried (p_workers p))"

lemma unfinished_move:
  assumes "i < length (p_workers p)" and "p_queue p' = p_queue p" and "p_workers p' = (p_workers p)[i := w]"
  shows "unfinished p' + carried (p_workers p ! i) = unfinished p + carried w"
  using sum_list_map_update [OF assms(1), of carried w] assms(2,3) by (simp add: unfinished_def add.assoc)

lemma unfinished_enqueue:
  "enqueue job p = (taken, p') \<Longrightarrow> unfinished p' = (if taken then unfinished p + {#job#} else unfinished p)"
  by (auto simp: enqueue_def unfinished_def split: if_splits)

lemma unfinished_rejected [simp]: "unfinished (p\<lparr>p_rejected := n\<rparr>) = unfinished p"
  by (simp add: unfinished_def)

lemma unfinished_dispatch:
  assumes "dispatch (Some job) p = (r, p')"
  shows "r = Inr () \<and> unfinished p' = unfinished p + {#job#} \<or> r = Inl QueueFull \<and> unfinished p' = unfinished p"
  using assms unfinished_enqueue [of job p] by (auto simp: dispatch_def split: prod.splits bool.splits)

lemma unfinished_wake:
  assumes "worker_wake i p = Some (r, p')" and "i < length (p_workers p)" and "p_workers p ! i = WWait"
  shows "unfinished p' = unfinished p"
proof (cases "p_stopping p \<and> p_queue p = []")
  case True
  then have p': "p' = p\<lparr>p_workers := (p_workers p)[i := WExit]\<rparr>" using assms(1) by (simp add: worker_wake_def)
  then show ?thesis using unfinished_move [OF assms(2), of p' WExit] assms(3) by simp
next
  case False
  then obtain job rest where q: "p_queue p = job # rest"
    and p': "p' = p\<lparr>p_queue := rest, p_active := p_active p + 1, p_workers := (p_workers p)[i := WRun job]\<rparr>"
    using assms(1) by (auto simp: worker_wake_def split: list.splits)
  have "sum_list (map carried (p_workers p')) = sum_list (map carried (p_workers p)) + {#job#}"
    using sum_list_map_update [OF assms(2), of carried "WRun job"] assms(3) by (simp add: p')
  then show ?thesis by (simp add: unfinished_def p' q)
qed

text \<open>A worker that comes back from its job, thrown or not, has finished it.\<close>

lemma unfinished_return:
  assumes "i < length (p_workers p)" and "p_workers p ! i = WRun job"
  shows "unfinished p = unfinished (worker_return i threw p) + {#job#}"
  using unfinished_move [OF assms(1), of "worker_return i threw p" WLeave] assms(2) by simp

lemma no_worker_carries: "\<forall>w \<in> set ws. w = WExit \<Longrightarrow> sum_list (map carried ws) = {#}"
  by (induction ws) auto

text \<open>No other step of the pool takes or finishes a job.\<close>

lemma unfinished_internal:
  assumes "pool_step p e p'" and "e = Internal \<or> (\<exists>i j. e = Started i j)"
  shows "unfinished p' = unfinished p"
  using assms
proof cases
  case (take_job i j)
  then show ?thesis using unfinished_wake by blast
next
  case (exit_worker i)
  then show ?thesis using unfinished_wake by blast
next
  case (leave i)
  then show ?thesis using unfinished_move [of i p "worker_leave i p" WCount] by simp
next
  case (count i)
  then show ?thesis using unfinished_move [of i p "worker_count i p" WWait] by simp
next
  case begin_shutdown
  then show ?thesis by (simp add: shutdown_begin_def unfinished_def)
next
  case join
  then show ?thesis by (auto simp: shutdown_join_def unfinished_def no_worker_carries split: if_splits)
qed auto

lemma idle_workers: "sum_list (replicate n {#}) = {#}"
  by (induction n) simp_all

lemma unfinished_new: "pool_new workers capacity = Inr p \<Longrightarrow> unfinished p = {#}"
  by (auto simp: pool_new_def unfinished_def idle_workers split: if_splits)

end
