(* ===== verification/Request_Flow.thy ===== *)
theory Request_Flow
  imports Http_Routes Pool_Jobs
begin

text \<open>
  From a request to its answer: the routes, the two worker pools and the jobs put together as one
  step relation. A request is a number; the pools' jobs carry it, as the queued functions carry the
  callback. What the runtime makes of a job is what \<open>run_job\<close> gives on the runtime as the job finds
  it, whichever that is.
\<close>

section \<open>The server\<close>

record server =
  sv_pool :: "pool_choice \<Rightarrow> (nat \<times> job) pool"
  sv_next :: nat
  sv_answered :: "(nat \<times> nat) list"
  sv_unanswered :: "nat list"

text \<open>The callback gets the response, unless a body cannot be serialised.\<close>

definition give :: "nat \<Rightarrow> http_out res \<Rightarrow> server \<Rightarrow> server" where
  "give n response sv =
     (case response of
        Inr out \<Rightarrow> sv\<lparr>sv_answered := sv_answered sv @ [(n, ho_status out)]\<rparr>
      | Inl e \<Rightarrow> sv\<lparr>sv_unanswered := sv_unanswered sv @ [n]\<rparr>)"

definition put_pool :: "pool_choice \<Rightarrow> (nat \<times> job) pool \<Rightarrow> server \<Rightarrow> server" where
  "put_pool c p sv = sv\<lparr>sv_pool := (sv_pool sv)(c := p)\<rparr>"

definition take_request :: "(json \<Rightarrow> string res) \<Rightarrow> handled \<Rightarrow> server \<Rightarrow> server" where
  "take_request dump h sv =
     (let n = sv_next sv; sv1 = sv\<lparr>sv_next := n + 1\<rparr>
      in case h of
           Reply status body \<Rightarrow> give n (json_response dump body status) sv1
         | Dispatch c job \<Rightarrow>
             (case dispatch_job (n, job) (sv_pool sv c) of
                (None, p) \<Rightarrow> put_pool c p sv1
              | (Some (status, body), p) \<Rightarrow> give n (json_response dump body status) (put_pool c p sv1)))"

text \<open>A worker comes back from its job: the response went to the callback, or the job threw.\<close>

definition finish_job :: "(json \<Rightarrow> string res) \<Rightarrow> pool_choice \<Rightarrow> nat \<Rightarrow> nat \<Rightarrow> (json \<times> nat) res \<Rightarrow> server \<Rightarrow> server" where
  "finish_job dump c i n result sv =
     (let response = job_response dump result
      in give n response (put_pool c (worker_return i (isl response) (sv_pool sv c)) sv))"

definition server_new :: "nat \<Rightarrow> server res" where
  "server_new hardware =
     ebind (pool_new (native_worker_count hardware) 64) (\<lambda>cpu.
     ebind (pool_new provider_worker_count 16) (\<lambda>provider.
     Inr \<lparr>sv_pool = (\<lambda>c. case c of CpuWorkers \<Rightarrow> cpu | ProviderWorkers \<Rightarrow> provider), sv_next = 0,
          sv_answered = [], sv_unanswered = []\<rparr>))"

text \<open>
  Requests arrive in any order, on any runtime and with any header; the workers of both pools move
  as the pool's step relation lets them, and so may the shutdown of a pool.
\<close>

inductive server_step :: "(json \<Rightarrow> string res) \<Rightarrow> server \<Rightarrow> server \<Rightarrow> bool" for dump where
  post: "server_step dump sv
    (take_request dump (handle_post parse what opts runtime_mode slot_free route rq) sv)"
| get: "server_step dump sv (take_request dump (handle_get version held sd get_route rq rt) sv)"
| move: "pool_step (sv_pool sv c) e p \<Longrightarrow> e = Internal \<or> (\<exists>i j. e = Started i j) \<Longrightarrow>
    server_step dump sv (put_pool c p sv)"
| finish: "i < length (p_workers (sv_pool sv c)) \<Longrightarrow> p_workers (sv_pool sv c) ! i = WRun (n, job) \<Longrightarrow>
    run_job ev job rt = (result, rt') \<Longrightarrow> server_step dump sv (finish_job dump c i n result sv)"

inductive serves :: "(json \<Rightarrow> string res) \<Rightarrow> nat \<Rightarrow> server \<Rightarrow> bool" for dump hardware where
  start: "server_new hardware = Inr sv \<Longrightarrow> serves dump hardware sv"
| step: "serves dump hardware sv \<Longrightarrow> server_step dump sv sv' \<Longrightarrow> serves dump hardware sv'"

section \<open>Where the requests are\<close>

definition pending :: "(nat \<times> job) pool \<Rightarrow> nat multiset" where
  "pending p = image_mset fst (unfinished p)"

definition waiting :: "server \<Rightarrow> nat multiset" where
  "waiting sv = pending (sv_pool sv CpuWorkers) + pending (sv_pool sv ProviderWorkers)"

definition settled :: "server \<Rightarrow> nat multiset" where
  "settled sv = mset (map fst (sv_answered sv)) + mset (sv_unanswered sv)"

definition known_statuses :: "nat set" where
  "known_statuses = {200, 202, 400, 403, 404, 409, 413, 415, 422, 429, 500, 502, 503}"

definition flow_inv :: "(json \<Rightarrow> string res) \<Rightarrow> server \<Rightarrow> bool" where
  "flow_inv dump sv \<longleftrightarrow>
     settled sv + waiting sv = mset [0..<sv_next sv] \<and>
     (\<forall>(n, status) \<in> set (sv_answered sv). status \<in> known_statuses) \<and>
     (dumps_all dump \<longrightarrow> sv_unanswered sv = [])"

lemma pending_dispatch:
  assumes "dispatch (Some (n, job)) p = (r, p')"
  shows "r = Inr () \<and> pending p' = pending p + {#n#} \<or> r = Inl QueueFull \<and> pending p' = pending p"
  using unfinished_dispatch [OF assms] by (auto simp: pending_def)

section \<open>Answers\<close>

text \<open>A response a callback may get: its status is known, and a body that can be serialised gives one.\<close>

definition good_response :: "(json \<Rightarrow> string res) \<Rightarrow> http_out res \<Rightarrow> bool" where
  "good_response dump response \<longleftrightarrow>
     (case response of Inr out \<Rightarrow> ho_status out \<in> known_statuses | Inl e \<Rightarrow> \<not> dumps_all dump)"

lemma good_json_response: "status \<in> known_statuses \<Longrightarrow> good_response dump (json_response dump body status)"
  by (cases "dump body") (auto simp: good_response_def json_response_def dumps_all_def intro!: exI [of _ body])

lemma exception_status: "fst (exception_reply e) \<in> known_statuses"
  by (cases e rule: exception_reply.cases)
    (simp_all add: known_statuses_def inference_status_def domain_status_def engine_error_def)

lemma run_job_status: "run_job ev job rt = (Inr (body, status), rt') \<Longrightarrow> status \<in> known_statuses"
  by (cases job) (auto simp: run_job_def with_status_def known_statuses_def split: prod.splits if_splits)

lemma good_job_response:
  assumes "run_job ev job rt = (result, rt')"
  shows "good_response dump (job_response dump result)"
proof (cases "ebind result (\<lambda>(body, status). json_response dump body status)")
  case (Inl e)
  obtain status body where "exception_reply e = (status, body)" by (cases "exception_reply e")
  then show ?thesis
    using exception_status [of e] good_json_response [of status dump body] unfolding job_response_def Inl by simp
next
  case (Inr out)
  then obtain body status where "result = Inr (body, status)" "json_response dump body status = Inr out" by auto
  then show ?thesis
    using run_job_status [of ev job rt body status rt'] assms good_json_response [of status dump body]
    unfolding job_response_def Inr by simp
qed

text \<open>What a route answers at once.\<close>

definition good_handled :: "handled \<Rightarrow> bool" where
  "good_handled h \<longleftrightarrow> (case h of Reply status body \<Rightarrow> status \<in> known_statuses | Dispatch c job \<Rightarrow> True)"

lemma good_post: "good_handled (handle_post parse what opts runtime_mode slot_free route rq)"
proof -
  obtain n f where "handle_post parse what opts runtime_mode slot_free route rq = mutation parse what opts n rq f"
    and "n \<le> body_limit opts" and "sound_handler opts slot_free f"
    using handle_post_is_mutation by metis
  from mutation_of_sound_handler [OF this(1) [symmetric] this(2,3)] show ?thesis
    by (cases "handle_post parse what opts runtime_mode slot_free route rq")
      (auto simp: good_handled_def error_reply_def known_statuses_def)
qed

lemma good_get: "good_handled (handle_get version held sd route rq rt)"
  by (cases route)
    (auto simp: good_handled_def handle_get_def reply_or_def bounded_limit_def refuse_def Let_def known_statuses_def)

section \<open>Steps\<close>

lemma give_frame [simp]:
  "sv_pool (give n r sv) = sv_pool sv" "sv_next (give n r sv) = sv_next sv" "waiting (give n r sv) = waiting sv"
  by (simp_all add: give_def waiting_def split: sum.splits)

lemma settled_give: "settled (give n r sv) = settled sv + {#n#}"
  by (simp add: give_def settled_def split: sum.splits)

lemma put_pool_frame [simp]:
  "sv_next (put_pool c p sv) = sv_next sv" "sv_answered (put_pool c p sv) = sv_answered sv"
  "sv_unanswered (put_pool c p sv) = sv_unanswered sv" "settled (put_pool c p sv) = settled sv"
  by (simp_all add: put_pool_def settled_def)

lemma waiting_put: "waiting (put_pool c p sv) + pending (sv_pool sv c) = waiting sv + pending p"
  by (cases c) (simp_all add: put_pool_def waiting_def)

lemma flow_inv_give:
  assumes "good_response dump r" and "settled sv + waiting sv + {#n#} = mset [0..<sv_next sv]"
    and "\<forall>(n, status) \<in> set (sv_answered sv). status \<in> known_statuses" and "dumps_all dump \<longrightarrow> sv_unanswered sv = []"
  shows "flow_inv dump (give n r sv)"
proof -
  have "settled (give n r sv) + waiting (give n r sv) = mset [0..<sv_next (give n r sv)]"
    using assms(2) by (simp add: settled_give)
  moreover have "\<forall>(n, status) \<in> set (sv_answered (give n r sv)). status \<in> known_statuses"
    using assms(1,3) by (auto simp: give_def good_response_def split: sum.splits)
  moreover have "dumps_all dump \<longrightarrow> sv_unanswered (give n r sv) = []"
    using assms(1,4) by (auto simp: give_def good_response_def split: sum.splits)
  ultimately show ?thesis by (simp add: flow_inv_def)
qed

lemma next_frame [simp]:
  "settled (sv\<lparr>sv_next := k\<rparr>) = settled sv" "waiting (sv\<lparr>sv_next := k\<rparr>) = waiting sv"
  by (simp_all add: settled_def waiting_def)

lemma flow_inv_take:
  assumes inv: "flow_inv dump sv" and h: "good_handled h"
  shows "flow_inv dump (take_request dump h sv)"
proof -
  let ?n = "sv_next sv" and ?sv = "sv\<lparr>sv_next := sv_next sv + 1\<rparr>"
  have sum: "settled ?sv + waiting ?sv + {#?n#} = mset [0..<sv_next ?sv]"
    using inv by (simp add: flow_inv_def)
  have rest: "\<forall>(n, status) \<in> set (sv_answered ?sv). status \<in> known_statuses" "dumps_all dump \<longrightarrow> sv_unanswered ?sv = []"
    using inv by (simp_all add: flow_inv_def)
  show ?thesis
  proof (cases h)
    case (Reply status body)
    with h have "good_response dump (json_response dump body status)"
      by (intro good_json_response) (simp add: good_handled_def)
    from flow_inv_give [OF this sum rest] show ?thesis by (simp add: take_request_def Reply Let_def)
  next
    case (Dispatch c job)
    obtain r p where d: "dispatch (Some (?n, job)) (sv_pool sv c) = (r, p)" by (cases "dispatch (Some (?n, job)) (sv_pool sv c)")
    from pending_dispatch [OF d] show ?thesis
    proof
      assume r: "r = Inr () \<and> pending p = pending (sv_pool sv c) + {#?n#}"
      then have "take_request dump h sv = put_pool c p ?sv" by (simp add: take_request_def Dispatch dispatch_job_def d Let_def)
      moreover have "waiting (put_pool c p ?sv) = waiting ?sv + {#?n#}" using waiting_put [of c p ?sv] r by simp
      ultimately show ?thesis using sum rest by (simp add: flow_inv_def)
    next
      assume r: "r = Inl QueueFull \<and> pending p = pending (sv_pool sv c)"
      let ?busy = "json_response dump (error_json ''execution_busy'' ''execution queue is full'') 429"
      have t: "take_request dump h sv = give ?n ?busy (put_pool c p ?sv)"
        using r by (simp add: take_request_def Dispatch dispatch_job_def d Let_def)
      have "waiting (put_pool c p ?sv) = waiting ?sv" using waiting_put [of c p ?sv] r by simp
      then show ?thesis
        unfolding t using sum rest
        by (intro flow_inv_give good_json_response) (simp_all add: known_statuses_def)
    qed
  qed
qed

lemma flow_inv_finish:
  assumes inv: "flow_inv dump sv" and i: "i < length (p_workers (sv_pool sv c))"
    "p_workers (sv_pool sv c) ! i = WRun (n, job)" and job: "run_job ev job rt = (result, rt')"
  shows "flow_inv dump (finish_job dump c i n result sv)"
proof -
  let ?p = "worker_return i (isl (job_response dump result)) (sv_pool sv c)"
  have "pending (sv_pool sv c) = pending ?p + {#n#}"
    unfolding pending_def unfinished_return [OF i, of "isl (job_response dump result)"] by simp
  then have "waiting (put_pool c ?p sv) + {#n#} = waiting sv" using waiting_put [of c ?p sv] by (simp add: add.commute)
  then have "settled sv + waiting (put_pool c ?p sv) + {#n#} = mset [0..<sv_next sv]"
    using inv by (metis add.assoc flow_inv_def)
  then show ?thesis
    unfolding finish_job_def Let_def using inv
    by (intro flow_inv_give good_job_response [OF job]) (simp_all add: flow_inv_def)
qed

lemma flow_inv_step: "server_step dump sv sv' \<Longrightarrow> flow_inv dump sv \<Longrightarrow> flow_inv dump sv'"
proof (induction rule: server_step.induct)
  case (move sv c e p)
  then have "waiting (put_pool c p sv) = waiting sv" using waiting_put [of c p sv] unfinished_internal [of "sv_pool sv c" e p] by (simp add: pending_def)
  then show ?case using move by (simp add: flow_inv_def)
qed (auto intro: flow_inv_take good_post good_get flow_inv_finish)

lemma flow_inv_new: "server_new hardware = Inr sv \<Longrightarrow> flow_inv dump sv"
  by (auto simp: server_new_def flow_inv_def settled_def waiting_def pending_def dest: unfinished_new)

lemma flow_inv_serves: "serves dump hardware sv \<Longrightarrow> flow_inv dump sv"
  by (induction rule: serves.induct) (auto intro: flow_inv_new flow_inv_step)

section \<open>Property\<close>


definition demo_request :: http_in where
  "demo_request =
     \<lparr>hi_header = (\<lambda>k. if k = ''content-type'' then ''application/json'' else []), hi_parameter = (\<lambda>_. []),
      hi_body = ''{}'', hi_http10 = False\<rparr>"

definition demo_body :: "string \<Rightarrow> json res" where
  "demo_body = (\<lambda>_. Inr (JObj [(''task'', JObj [])]))"

lemma demo_content_type: "content_type demo_request = ''application/json''"
  by code_simp

lemma demo_content: "hi_body demo_request = ''{}''" "body_shape ''{}'' = ShapeOk" "hi_header demo_request ''origin'' = []"
  by code_simp+

lemma demo_resolve: "handle_post demo_body (\<lambda>_. []) default_options ''rules'' True PostResolve demo_request =
    Dispatch CpuWorkers (ResolveJob (JObj []))"
  by (simp add: handle_post_def mutation_def mutation_guard_def demo_content_type origin_allowed_def demo_content
      parse_body_def maximum_body_bytes_def demo_body_def reply_or_def handle_resolve_def Let_def contains_def
      find_key_def fld_eq)

lemma demo_refused: "handle_post demo_body (\<lambda>_. []) default_options ''rules'' True PostRetrieve demo_request =
    Reply 400 (error_json ''invalid_prompt'' ''request requires only a string prompt'')"
  by (simp add: handle_post_def mutation_def mutation_guard_def demo_content_type origin_allowed_def demo_content
      parse_body_def maximum_body_bytes_def demo_body_def reply_or_def handle_retrieve_def has_string_def
      Let_def contains_def find_key_def fld_eq fail_with_def)


end
