(* ===== verification/Command_Tools.thy ===== *)
theory Command_Tools
  imports Engineering_Import Retrieval Reconciliation
begin

text \<open>
  The command-line tools beside the service: \<open>context_import.cpp\<close> turns an engineering bundle into
  a model file, \<open>benchmark.cpp\<close> measures retrieval, composition and reconciliation. Modelled are their
  arguments, what they run and how they end; clocks, statistics over floating-point samples and the
  description of the machine are not.
\<close>

section \<open>The import tool\<close>

record import_args =
  ia_bundle :: string
  ia_manifest :: string
  ia_output :: string

text \<open>The loop over the arguments ends with the options, or with the usage and an exit code.\<close>

datatype 'a arguments = Parsed 'a | Leave nat

definition option_value :: "string list \<Rightarrow> (string \<Rightarrow> string list \<Rightarrow> 'a arguments) \<Rightarrow> 'a arguments" where
  "option_value rest continue = (case rest of [] \<Rightarrow> Leave 1 | v # rest \<Rightarrow> continue v rest)"

lemma option_value_cong [fundef_cong]:
  "rest = rest' \<Longrightarrow> (\<And>v vs. rest' = v # vs \<Longrightarrow> f v vs = g v vs) \<Longrightarrow> option_value rest f = option_value rest' g"
  by (auto simp: option_value_def split: list.splits)

fun read_import_args :: "import_args \<Rightarrow> string list \<Rightarrow> import_args arguments" where
  "read_import_args args [] = Parsed args"
| "read_import_args args (argument # rest) =
     (if argument = ''--bundle''
      then option_value rest (\<lambda>v rest. read_import_args (args\<lparr>ia_bundle := v\<rparr>) rest)
      else if argument = ''--manifest''
      then option_value rest (\<lambda>v rest. read_import_args (args\<lparr>ia_manifest := v\<rparr>) rest)
      else if argument = ''--output''
      then option_value rest (\<lambda>v rest. read_import_args (args\<lparr>ia_output := v\<rparr>) rest)
      else if argument = ''--help'' \<or> argument = ''-h'' then Leave 0
      else Leave 1)"

definition import_arguments :: "string list \<Rightarrow> import_args arguments" where
  "import_arguments argv =
     (case read_import_args \<lparr>ia_bundle = [], ia_manifest = [], ia_output = []\<rparr> argv of
        Leave code \<Rightarrow> Leave code
      | Parsed args \<Rightarrow> if (ia_bundle args \<noteq> []) = (ia_manifest args \<noteq> []) then Leave 1 else Parsed args)"

text \<open>Where the document went: nowhere, to the standard output, or into a file.\<close>

datatype written = Nowhere | Printed string | Stored string string

record tool_end =
  te_code :: nat
  te_written :: written
  te_error :: string

definition import_document :: "json \<Rightarrow> json \<Rightarrow> json" where
  "import_document model report = jobj [(''model'', model), (''report'', report)]"

definition deliver :: "(string \<Rightarrow> bool) \<Rightarrow> (string \<Rightarrow> bool) \<Rightarrow> string \<Rightarrow> string \<Rightarrow> string + written" where
  "deliver opens takes output text =
     (if output = [] then Inr (Printed text)
      else if \<not> opens output then Inl (''Cannot open output: '' @ output)
      else if \<not> takes output then Inl (''Cannot write output: '' @ output)
      else Inr (Stored output text))"

definition import_error_text :: "(exn \<Rightarrow> string) \<Rightarrow> exn \<Rightarrow> string" where
  "import_error_text what e =
     (case e of
        ImportError code path message \<Rightarrow> code @ '' ('' @ path @ ''): '' @ message
      | _ \<Rightarrow> ''import_failure: '' @ what e)"

definition import_exit :: "(exn \<Rightarrow> string) \<Rightarrow> json \<Rightarrow> written \<Rightarrow> tool_end" where
  "import_exit what report w =
     (case json_at report ''errors'' of
        Inl e \<Rightarrow> \<lparr>te_code = 1, te_written = w, te_error = import_error_text what e\<rparr>
      | Inr errors \<Rightarrow> \<lparr>te_code = (if json_empty errors then 0 else 1), te_written = w, te_error = []\<rparr>)"

definition run_import ::
  "(json \<Rightarrow> string res) \<Rightarrow> (exn \<Rightarrow> string) \<Rightarrow> (string \<Rightarrow> bool) \<Rightarrow> (string \<Rightarrow> bool) \<Rightarrow> import_args \<Rightarrow> (json \<times> json) res \<Rightarrow>
     tool_end" where
  "run_import pretty what opens takes args result =
     (case ebind result (\<lambda>(model, report).
             ebind (pretty (import_document model report)) (\<lambda>text. Inr (report, text @ ''\<newline>''))) of
        Inl e \<Rightarrow> \<lparr>te_code = 1, te_written = Nowhere, te_error = import_error_text what e\<rparr>
      | Inr (report, text) \<Rightarrow>
          (case deliver opens takes (ia_output args) text of
             Inl message \<Rightarrow> \<lparr>te_code = 1, te_written = Nowhere, te_error = message\<rparr>
           | Inr w \<Rightarrow> import_exit what report w))"

definition import_main ::
  "(json \<Rightarrow> string res) \<Rightarrow> (exn \<Rightarrow> string) \<Rightarrow> (string \<Rightarrow> bool) \<Rightarrow> (string \<Rightarrow> bool) \<Rightarrow> (string \<Rightarrow> string + json) \<Rightarrow>
     from_chars \<Rightarrow> filesystem \<Rightarrow> string list \<Rightarrow> tool_end" where
  "import_main pretty what opens takes parse from_chars fs argv =
     (case import_arguments argv of
        Leave code \<Rightarrow> \<lparr>te_code = code, te_written = Nowhere, te_error = ''usage''\<rparr>
      | Parsed args \<Rightarrow>
          run_import pretty what opens takes args
            (if ia_bundle args = [] then import_manifest parse from_chars fs default_limits (ia_manifest args)
             else import_bundle parse from_chars fs default_limits (ia_bundle args)))"

section \<open>The benchmark\<close>

record bench_config =
  bc_trials :: u64
  bc_iterations :: u64
  bc_batch_size :: u64
  bc_base_model :: string
  bc_revision_model :: string

definition default_bench :: bench_config where
  "default_bench =
     \<lparr>bc_trials = 7, bc_iterations = 100, bc_batch_size = 1,
      bc_base_model = ''examples/machines/assembly-line.json'',
      bc_revision_model = ''examples/machines/assembly-line-revision-2.json''\<rparr>"

text \<open>
  \<open>std::stoull\<close>: blanks, an optional sign, the longest run of digits; a minus sign negates modulo
  \<open>2 ^ 64\<close>. The rest is what it left; nothing when there is no digit or the number is too large.
\<close>

definition stoull :: "string \<Rightarrow> (u64 \<times> string) option" where
  "stoull text =
     (let body = dropWhile is_space text;
          digits = (if body \<noteq> [] \<and> hd body \<in> {CHR ''+'', CHR ''-''} then tl body else body);
          ds = takeWhile is_digit digits; n = digits_value ds
      in if ds = [] \<or> n \<ge> 2 ^ 64 then None
         else Some (if body \<noteq> [] \<and> hd body = CHR ''-'' then - of_nat n else of_nat n, dropWhile is_digit digits))"

definition positive_size :: "string \<Rightarrow> string \<Rightarrow> u64 res" where
  "positive_size text name =
     (let e = RuntimeError (name @ '' must be a positive integer'')
      in case stoull text of
           None \<Rightarrow> Inl e
         | Some (v, left) \<Rightarrow> if text = [] \<or> hd text = CHR ''-'' \<or> left \<noteq> [] \<or> v = 0 then Inl e else Inr v)"

text \<open>Help ends the program at once with code 0, which is \<open>None\<close> here.\<close>

fun read_bench_args :: "bench_config \<Rightarrow> string list \<Rightarrow> bench_config option res" where
  "read_bench_args cfg [] = Inr (Some cfg)"
| "read_bench_args cfg [name] =
     (if name = ''--help'' then Inr None
      else if name \<in> set [''--trials'', ''--iterations'', ''--batch-size'', ''--base-model'', ''--revision-model'']
      then Inl (RuntimeError (''missing value for '' @ name))
      else Inl (RuntimeError (''unknown option: '' @ name)))"
| "read_bench_args cfg (name # v # rest) =
     (if name = ''--trials''
      then ebind (positive_size v name) (\<lambda>n. read_bench_args (cfg\<lparr>bc_trials := n\<rparr>) rest)
      else if name = ''--iterations''
      then ebind (positive_size v name) (\<lambda>n. read_bench_args (cfg\<lparr>bc_iterations := n\<rparr>) rest)
      else if name = ''--batch-size''
      then ebind (positive_size v name) (\<lambda>n. read_bench_args (cfg\<lparr>bc_batch_size := n\<rparr>) rest)
      else if name = ''--base-model'' then read_bench_args (cfg\<lparr>bc_base_model := v\<rparr>) rest
      else if name = ''--revision-model'' then read_bench_args (cfg\<lparr>bc_revision_model := v\<rparr>) rest
      else if name = ''--help'' then Inr None
      else Inl (RuntimeError (''unknown option: '' @ name)))"

definition check_bench :: "bench_config \<Rightarrow> unit res" where
  "check_bench cfg =
     throw_if (bc_trials cfg > 100 \<or> bc_iterations cfg > 1000000 \<or> bc_batch_size cfg > 10000 \<or>
         bc_trials cfg * bc_iterations cfg > 1000000 \<or>
         bc_trials cfg * bc_iterations cfg * bc_batch_size cfg > 10000000)
       (RuntimeError ''benchmark is limited to 1 million samples and 10 million operations'')"

definition parse_bench_args :: "string list \<Rightarrow> bench_config option res" where
  "parse_bench_args argv =
     ebind (read_bench_args default_bench argv) (\<lambda>r.
     case r of None \<Rightarrow> Inr None | Some cfg \<Rightarrow> ethen (check_bench cfg) (Inr (Some cfg)))"

definition bench_model ::
  "(string \<Rightarrow> string option) \<Rightarrow> (string \<Rightarrow> json res) \<Rightarrow> (exn \<Rightarrow> string) \<Rightarrow> string \<Rightarrow> json res" where
  "bench_model read parse what path =
     (case read path of
        None \<Rightarrow> Inl (RuntimeError (''could not open model: '' @ path))
      | Some body \<Rightarrow>
          (case parse body of
             Inl e \<Rightarrow> Inl (RuntimeError (''invalid model '' @ path @ '': '' @ what e))
           | Inr v \<Rightarrow> Inr v))"

definition bench_prompt :: string where
  "bench_prompt = ''Show the process temperature for the cure oven''"

definition first_element :: "json \<Rightarrow> json res" where
  "first_element j =
     (if \<not> is_array j then Inl (JsonException 304)
      else case elements_of j of [] \<Rightarrow> Inl (JsonException 401) | x # _ \<Rightarrow> Inr x)"

text \<open>What \<open>main\<close> runs before it measures: one retrieval, one task, one view.\<close>

definition bench_task :: "json \<Rightarrow> json \<Rightarrow> json res" where
  "bench_task model retrieval =
     ebind (value_bool retrieval ''requires_clarification'' True) (\<lambda>clarify.
     ebind (if clarify then Inr True
            else ebind (json_at retrieval ''eligible_asset_ids'') (\<lambda>ids. Inr (json_size ids \<noteq> 1))) (\<lambda>unclear.
     if unclear then Inl (RuntimeError ''base prompt did not retrieve one equipment scope'')
     else ebind (json_at model ''model_id'') (\<lambda>model_id.
       ebind (json_at model ''revision'') (\<lambda>revision.
       ebind (first_element (fld retrieval ''eligible_asset_ids'')) (\<lambda>anchor.
       ebind (json_at retrieval ''measurement_role_hints'') (\<lambda>hints.
       Inr (jobj [(''kind'', JStr ''overview''), (''model_id'', model_id), (''model_revision'', revision),
         (''original_request'', JStr bench_prompt), (''anchor_asset_id'', anchor),
         (''measurement_roles'', hints)])))))))"

definition bench_prepare ::
  "(json \<Rightarrow> string res) \<Rightarrow> (members \<Rightarrow> members) \<Rightarrow> json \<Rightarrow> (json \<times> json) res" where
  "bench_prepare dump ord model =
     ebind (retrieve dump model bench_prompt default_retrieval_limits) (\<lambda>retrieval.
     ebind (bench_task model retrieval) (\<lambda>task.
     ebind (resolve_task dump ord model task) (\<lambda>view. Inr (task, view))))"

text \<open>One measured operation of each kind: what it adds to the guard.\<close>

definition measured_resolve ::
  "(json \<Rightarrow> string res) \<Rightarrow> (members \<Rightarrow> members) \<Rightarrow> json \<Rightarrow> json \<Rightarrow> nat res" where
  "measured_resolve dump ord model task =
     ebind (retrieve dump model bench_prompt default_retrieval_limits) (\<lambda>retrieval.
     ebind (json_at retrieval ''eligible_asset_ids'') (\<lambda>ids.
     ebind (first_element ids) (\<lambda>anchor.
     ebind (resolve_task dump ord model (oset task ''anchor_asset_id'' anchor)) (\<lambda>view.
     Inr (json_size view)))))"

definition measured_reconcile ::
  "(json \<Rightarrow> string res) \<Rightarrow> (members \<Rightarrow> members) \<Rightarrow> json \<Rightarrow> json \<Rightarrow> nat res" where
  "measured_reconcile dump ord revision_model view =
     ebind (reconcile_view dump ord revision_model view) (\<lambda>reconciled. Inr (json_size reconciled))"

section \<open>Facts\<close>

text \<open>
  The import tool succeeds exactly when help was asked for, or one input was named, the import gave a
  result, the document was delivered and the report lists no error.
\<close>

theorem import_tool_succeeds_iff:
  "te_code (import_main pretty what opens takes parse from_chars fs argv) = 0 \<longleftrightarrow>
     import_arguments argv = Leave 0 \<or>
     (\<exists>args model report text w errors. import_arguments argv = Parsed args \<and>
        (if ia_bundle args = [] then import_manifest parse from_chars fs default_limits (ia_manifest args)
         else import_bundle parse from_chars fs default_limits (ia_bundle args)) = Inr (model, report) \<and>
        pretty (import_document model report) = Inr text \<and> deliver opens takes (ia_output args) (text @ ''\<newline>'') = Inr w \<and>
        json_at report ''errors'' = Inr errors \<and> json_empty errors)"
  (is "?lhs \<longleftrightarrow> ?rhs")
proof (cases "import_arguments argv")
  case (Leave code)
  then show ?thesis by (simp add: import_main_def)
next
  case (Parsed args)
  let ?r = "if ia_bundle args = [] then import_manifest parse from_chars fs default_limits (ia_manifest args)
         else import_bundle parse from_chars fs default_limits (ia_bundle args)"
  show ?thesis
  proof (cases ?r)
    case (Inl e)
    then show ?thesis unfolding import_main_def Parsed arguments.case run_import_def Inl by (auto simp: Parsed Inl)
  next
    case (Inr b)
    obtain model report where b: "b = (model, report)" by (cases b)
    show ?thesis
      unfolding import_main_def Parsed arguments.case run_import_def Inr b
      by (auto simp: Parsed Inr b import_exit_def simp del: json_at_Inr split: sum.splits if_splits)
  qed
qed

text \<open>No benchmark runs more than a million samples or ten million operations; no product wraps.\<close>

lemma u64_times_small:
  fixes a b :: u64
  assumes "unat a \<le> m" and "unat b \<le> n" and "m * n < 2 ^ 64"
  shows "unat (a * b) = unat a * unat b"
proof -
  have "unat a * unat b < 2 ^ 64" using assms by (meson le_less_trans mult_le_mono)
  then show ?thesis by (simp add: unat_word_ariths)
qed

theorem benchmark_is_bounded:
  assumes "parse_bench_args argv = Inr (Some cfg)"
  shows "unat (bc_trials cfg) * unat (bc_iterations cfg) \<le> 1000000 \<and>
    unat (bc_trials cfg) * unat (bc_iterations cfg) * unat (bc_batch_size cfg) \<le> 10000000"
proof -
  have ok: "bc_trials cfg \<le> 100" "bc_iterations cfg \<le> 1000000" "bc_batch_size cfg \<le> 10000"
    "bc_trials cfg * bc_iterations cfg \<le> 1000000"
    "bc_trials cfg * bc_iterations cfg * bc_batch_size cfg \<le> 10000000"
    using assms by (auto simp: parse_bench_args_def check_bench_def not_less split: option.splits)
  have "unat (bc_trials cfg) \<le> 100" "unat (bc_iterations cfg) \<le> 1000000" "unat (bc_batch_size cfg) \<le> 10000"
    using ok(1-3) by (simp_all add: word_le_nat_alt)
  moreover have prod: "unat (bc_trials cfg * bc_iterations cfg) = unat (bc_trials cfg) * unat (bc_iterations cfg)"
    by (rule u64_times_small [OF calculation(1,2)]) simp
  moreover have "unat (bc_trials cfg * bc_iterations cfg) \<le> 1000000" using ok(4) by (simp add: word_le_nat_alt)
  moreover have "unat (bc_trials cfg * bc_iterations cfg * bc_batch_size cfg) =
      unat (bc_trials cfg * bc_iterations cfg) * unat (bc_batch_size cfg)"
    by (rule u64_times_small [OF calculation(5,3)]) simp
  ultimately show ?thesis using ok(5) by (simp add: word_le_nat_alt)
qed

lemma mset_key_same: "keys_sorted m \<Longrightarrow> map_of m k = Some v \<Longrightarrow> mset_key k v m = m"
proof (induction m)
  case (Cons e m)
  then show ?case by (cases e) (fastforce dest: map_of_SomeD split: if_splits)
qed simp

lemma oset_jobj_same: "map_of ms k = Some v \<Longrightarrow> oset (jobj ms) k v = jobj ms"
  by (simp add: jobj_def oset_def mset_key_same keys_sorted_members_from map_of_members_from)

text \<open>What is measured is what was prepared: each measured operation gives the view of the preparation.\<close>

theorem benchmark_measures_the_view:
  assumes "bench_prepare dump ord model = Inr (task, view)"
  shows "measured_resolve dump ord model task = Inr (json_size view)"
proof -
  obtain retrieval where r: "retrieve dump model bench_prompt default_retrieval_limits = Inr retrieval"
    and t: "bench_task model retrieval = Inr task" and v: "resolve_task dump ord model task = Inr view"
    using assms by (auto simp: bench_prepare_def)
  from t obtain ids anchor where "json_at retrieval ''eligible_asset_ids'' = Inr ids" "first_element ids = Inr anchor"
    "oset task ''anchor_asset_id'' anchor = task"
    by (auto simp: bench_task_def fld_eq oset_jobj_same split: if_splits)
  then show ?thesis by (simp add: measured_resolve_def r v)
qed

end
