(* ===== verification/Coroutine_Task.thy ===== *)
theory Coroutine_Task
  imports Pool_Jobs
begin

text \<open>
  \<open>execution::CoroutineTask\<close> (\<open>coroutine_task.hpp\<close>) and \<open>WorkerPool::submit\<close> (\<open>worker_pool.hpp\<close>): a
  function wrapped in a coroutine that starts suspended, runs when a worker resumes it and leaves its
  result or its exception in one future. The outcome of the function is an argument of the resumption.
\<close>

section \<open>The task\<close>

record 'a coroutine =
  co_handle :: bool
  co_done :: bool
  co_completion :: "'a res option"
  co_retrieved :: bool

definition invoke_coroutine :: "'a coroutine" where
  "invoke_coroutine = \<lparr>co_handle = True, co_done = False, co_completion = None, co_retrieved = False\<rparr>"

text \<open>\<open>return_value\<close> and \<open>unhandled_exception\<close>, and then the final suspension.\<close>

definition complete :: "'a res \<Rightarrow> 'a coroutine \<Rightarrow> 'a coroutine" where
  "complete r c = c\<lparr>co_completion := Some r, co_done := True\<rparr>"

definition coroutine_future :: "'a coroutine \<Rightarrow> unit res \<times> 'a coroutine" where
  "coroutine_future c =
     (if \<not> co_handle c then (Inl (LogicError ''cannot obtain a future from an empty coroutine task''), c)
      else if co_retrieved c then (Inl (LogicError ''future already retrieved''), c)
      else (Inr (), c\<lparr>co_retrieved := True\<rparr>))"

definition coroutine_resume :: "'a res \<Rightarrow> 'a coroutine \<Rightarrow> 'a coroutine" where
  "coroutine_resume r c = (if co_handle c \<and> \<not> co_done c then complete r c else c)"

text \<open>Moving takes the handle away from the source, which then does nothing.\<close>

definition coroutine_move :: "'a coroutine \<Rightarrow> 'a coroutine \<times> 'a coroutine" where
  "coroutine_move other = (other, other\<lparr>co_handle := False\<rparr>)"

section \<open>Submission\<close>

text \<open>The queued job holds its task; a task is named by its place in the list of all tasks.\<close>

record 'a submissions =
  sb_pool :: "nat pool"
  sb_tasks :: "'a coroutine list"

definition submit :: "'a submissions \<Rightarrow> nat res \<times> 'a submissions" where
  "submit sb =
     (case coroutine_future invoke_coroutine of
        (Inl e, _) \<Rightarrow> (Inl e, sb)
      | (Inr _, task) \<Rightarrow>
          let k = length (sb_tasks sb)
          in case enqueue k (sb_pool sb) of
               (False, p) \<Rightarrow> (Inl QueueFull, sb\<lparr>sb_pool := p\<lparr>p_rejected := p_rejected p + 1\<rparr>\<rparr>)
             | (True, p) \<Rightarrow> (Inr k, \<lparr>sb_pool = p, sb_tasks = sb_tasks sb @ [task]\<rparr>))"

text \<open>A worker runs the job, which resumes its task and cannot throw.\<close>

definition run_task :: "nat \<Rightarrow> nat \<Rightarrow> 'a res \<Rightarrow> 'a submissions \<Rightarrow> 'a submissions" where
  "run_task i k r sb =
     \<lparr>sb_pool = worker_return i False (sb_pool sb),
      sb_tasks = (sb_tasks sb)[k := coroutine_resume r (sb_tasks sb ! k)]\<rparr>"

datatype 'a task_event = Submitted nat | Ran nat "'a res" | Other

inductive submit_step :: "'a submissions \<Rightarrow> 'a task_event \<Rightarrow> 'a submissions \<Rightarrow> bool" where
  submitted: "submit sb = (Inr k, sb') \<Longrightarrow> submit_step sb (Submitted k) sb'"
| turned_away: "submit sb = (Inl e, sb') \<Longrightarrow> submit_step sb Other sb'"
| moved: "pool_step (sb_pool sb) e p \<Longrightarrow> e = Internal \<or> (\<exists>i j. e = Started i j) \<Longrightarrow>
    submit_step sb Other (sb\<lparr>sb_pool := p\<rparr>)"
| ran: "i < length (p_workers (sb_pool sb)) \<Longrightarrow> p_workers (sb_pool sb) ! i = WRun k \<Longrightarrow>
    submit_step sb (Ran k r) (run_task i k r sb)"

inductive submit_run :: "nat \<Rightarrow> nat \<Rightarrow> 'a task_event list \<Rightarrow> 'a submissions \<Rightarrow> bool" for workers capacity where
  begin_run: "pool_new workers capacity = Inr p \<Longrightarrow> submit_run workers capacity [] \<lparr>sb_pool = p, sb_tasks = []\<rparr>"
| continue: "submit_run workers capacity es sb \<Longrightarrow> submit_step sb e sb' \<Longrightarrow> submit_run workers capacity (es @ [e]) sb'"

section \<open>Invariant\<close>

definition is_ran :: "nat \<Rightarrow> 'a task_event \<Rightarrow> bool" where
  "is_ran k e \<longleftrightarrow> (\<exists>r. e = Ran k r)"

text \<open>What is known of one task from the events so far.\<close>

definition task_ok :: "nat \<Rightarrow> 'a task_event list \<Rightarrow> 'a coroutine \<Rightarrow> nat multiset \<Rightarrow> bool" where
  "task_ok k es c jobs \<longleftrightarrow>
     co_handle c \<and> co_retrieved c \<and>
     (if co_done c
      then count jobs k = 0 \<and> (\<exists>r. filter (is_ran k) es = [Ran k r] \<and> co_completion c = Some r)
      else count jobs k = 1 \<and> filter (is_ran k) es = [] \<and> co_completion c = None)"

definition submit_inv :: "'a task_event list \<Rightarrow> 'a submissions \<Rightarrow> bool" where
  "submit_inv es sb \<longleftrightarrow>
     (\<forall>k < length (sb_tasks sb). task_ok k es (sb_tasks sb ! k) (unfinished (sb_pool sb))) \<and>
     (\<forall>k \<ge> length (sb_tasks sb). count (unfinished (sb_pool sb)) k = 0 \<and> filter (is_ran k) es = [])"

lemma is_ran_simps [simp]: "is_ran k (Submitted j) = False" "is_ran k Other = False" "is_ran k (Ran j r) \<longleftrightarrow> j = k"
  by (auto simp: is_ran_def)

lemma task_ok_more:
  "task_ok k es c jobs \<Longrightarrow> \<not> is_ran k e \<Longrightarrow> count jobs' k = count jobs k \<Longrightarrow> task_ok k (es @ [e]) c jobs'"
  by (simp add: task_ok_def)

lemma submit_inv_same:
  "submit_inv es sb \<Longrightarrow> (\<And>k. \<not> is_ran k e) \<Longrightarrow> unfinished p = unfinished (sb_pool sb) \<Longrightarrow>
    submit_inv (es @ [e]) (sb\<lparr>sb_pool := p\<rparr>)"
  by (auto simp: submit_inv_def intro: task_ok_more)

lemma submit_cases:
  assumes "submit sb = (r, sb')"
  obtains p where "r = Inr (length (sb_tasks sb))" "unfinished p = unfinished (sb_pool sb) + {#length (sb_tasks sb)#}"
      "sb' = \<lparr>sb_pool = p, sb_tasks = sb_tasks sb @ [invoke_coroutine\<lparr>co_retrieved := True\<rparr>]\<rparr>"
    | p where "r = Inl QueueFull" "unfinished p = unfinished (sb_pool sb)" "sb' = sb\<lparr>sb_pool := p\<rparr>"
proof (cases "enqueue (length (sb_tasks sb)) (sb_pool sb)")
  case (Pair taken p)
  note jobs = unfinished_enqueue [OF Pair]
  show ?thesis
  proof (cases taken)
    case True
    then show ?thesis
      using assms Pair jobs that(1) [of p] by (simp add: submit_def coroutine_future_def invoke_coroutine_def Let_def)
  next
    case False
    then show ?thesis
      using assms Pair jobs that(2) [of "p\<lparr>p_rejected := p_rejected p + 1\<rparr>"]
      by (simp add: submit_def coroutine_future_def invoke_coroutine_def Let_def)
  qed
qed

lemma submit_inv_submitted:
  assumes inv: "submit_inv es sb" and jobs: "unfinished p = unfinished (sb_pool sb) + {#length (sb_tasks sb)#}"
  shows "submit_inv (es @ [Submitted j]) \<lparr>sb_pool = p, sb_tasks = sb_tasks sb @ [invoke_coroutine\<lparr>co_retrieved := True\<rparr>]\<rparr>"
proof -
  let ?n = "length (sb_tasks sb)"
  have old: "task_ok k (es @ [Submitted j]) (sb_tasks sb ! k) (unfinished p)" if "k < ?n" for k
    using inv that by (intro task_ok_more [of k es "sb_tasks sb ! k" "unfinished (sb_pool sb)"]) (auto simp: submit_inv_def jobs)
  have new: "task_ok ?n (es @ [Submitted j]) (invoke_coroutine\<lparr>co_retrieved := True\<rparr>) (unfinished p)"
    using inv by (simp add: submit_inv_def task_ok_def invoke_coroutine_def jobs)
  show ?thesis
    unfolding submit_inv_def using old new inv
    by (auto simp: nth_append less_Suc_eq submit_inv_def jobs)
qed

lemma submit_inv_ran:
  assumes inv: "submit_inv es sb" and i: "i < length (p_workers (sb_pool sb))" "p_workers (sb_pool sb) ! i = WRun k"
  shows "submit_inv (es @ [Ran k r]) (run_task i k r sb)"
proof -
  let ?jobs = "unfinished (worker_return i False (sb_pool sb))"
  have jobs: "unfinished (sb_pool sb) = ?jobs + {#k#}" by (rule unfinished_return [OF i])
  then have k: "k < length (sb_tasks sb)"
    using inv unfolding submit_inv_def by (metis count_single count_union leI add_is_0 one_neq_zero)
  then have ok: "task_ok k es (sb_tasks sb ! k) (unfinished (sb_pool sb))" using inv by (simp add: submit_inv_def)
  have "task_ok k (es @ [Ran k r]) (coroutine_resume r (sb_tasks sb ! k)) ?jobs"
    using ok by (auto simp: task_ok_def coroutine_resume_def complete_def jobs split: if_splits)
  moreover have "task_ok l (es @ [Ran k r]) (sb_tasks sb ! l) ?jobs" if "l < length (sb_tasks sb)" "l \<noteq> k" for l
    using inv that by (intro task_ok_more [of l es "sb_tasks sb ! l" "unfinished (sb_pool sb)"]) (auto simp: submit_inv_def jobs)
  moreover have "count ?jobs l = 0 \<and> filter (is_ran l) (es @ [Ran k r]) = []" if "l \<ge> length (sb_tasks sb)" for l
    using inv k that by (auto simp: submit_inv_def jobs)
  ultimately show ?thesis
    using k by (simp add: submit_inv_def run_task_def nth_list_update)
qed

lemma submit_inv_step:
  assumes "submit_step sb e sb'" and inv: "submit_inv es sb"
  shows "submit_inv (es @ [e]) sb'"
  using assms(1)
proof cases
  case (submitted k)
  then show ?thesis using submit_inv_submitted [OF inv] by (auto elim: submit_cases)
next
  case (turned_away e)
  then show ?thesis using submit_inv_same [OF inv] by (auto elim: submit_cases)
next
  case (moved e' p)
  with submit_inv_same [OF inv, of Other p] unfinished_internal [OF moved(3,4)] show ?thesis by simp
next
  case (ran i k r)
  then show ?thesis using submit_inv_ran [OF inv] by simp
qed

lemma submit_run_inv: "submit_run workers capacity es sb \<Longrightarrow> submit_inv es sb"
proof (induction rule: submit_run.induct)
  case (begin_run p)
  then show ?case using unfinished_new [of workers capacity p] by (simp add: submit_inv_def)
qed (rule submit_inv_step)

text \<open>
  A submitted function runs at most once and its future gets exactly its outcome: it is empty as long
  as the function is queued or running, and from then on it holds what the one run gave. When the
  pool has no unfinished job every future is filled.
\<close>

theorem submitted_runs_once:
  assumes "submit_run workers capacity es sb" and "k < length (sb_tasks sb)"
  shows "(co_completion (sb_tasks sb ! k) = None \<and> filter (is_ran k) es = [] \<and> k \<in># unfinished (sb_pool sb)) \<or>
    (\<exists>r. co_completion (sb_tasks sb ! k) = Some r \<and> filter (is_ran k) es = [Ran k r] \<and> k \<notin># unfinished (sb_pool sb))"
proof -
  have "task_ok k es (sb_tasks sb ! k) (unfinished (sb_pool sb))"
    using submit_run_inv [OF assms(1)] assms(2) by (simp add: submit_inv_def)
  then show ?thesis
    by (auto simp: task_ok_def not_in_iff count_greater_zero_iff [symmetric] simp del: count_greater_zero_iff split: if_splits)
qed

theorem submitted_all_filled:
  assumes "submit_run workers capacity es sb" and "unfinished (sb_pool sb) = {#}" and "k < length (sb_tasks sb)"
  shows "\<exists>r. co_completion (sb_tasks sb ! k) = Some r \<and> filter (is_ran k) es = [Ran k r]"
  using submitted_runs_once [OF assms(1,3)] assms(2) by auto

end
