(* ===== verification/Service_Main.thy ===== *)
theory Service_Main
  imports Http_Routes
begin

text \<open>
  The process (\<open>server.cpp\<close>): \<open>main\<close> reads the options, constructs and starts the runtime, configures
  the framework, serves until the framework returns, and shuts the runtime down. An exception from any of
  these ends the process with code 2 after the destructor of the runtime has run, which shuts it down as
  well; an exception from the destructor would terminate the process. What the framework does while it
  runs is an argument.
\<close>

section \<open>The entry\<close>

definition options_help :: string where
  "options_help =
     ''context-hmi [--config FILE] [--host HOST] [--port PORT] [--model FILE] '' @
     ''[--models DIR] [--no-model-watch] [--model-rescan-ms MS] '' @
     ''[--telemetry-stale-after-ms MS] [--telemetry-max-values COUNT] '' @
     ''[--telemetry-max-batch-bytes BYTES] [--web-dir DIR] '' @
     ''[--llama-url URL|--provider-url URL] '' @
     ''[--provider-model NAME] [--provider-key-env NAME] '' @
     ''[--llama-timeout-ms MS|--provider-timeout-ms MS] '' @
     ''[--provider-context-bytes BYTES] [--provider-max-output-tokens COUNT] '' @
     ''[--retrieval-cache-capacity COUNT] [--interpretation-cache-capacity COUNT] '' @
     ''[--cache-ttl-ms MS] '' @
     ''[--workbench-origin http://127.0.0.1:5173] '' @
     ''[--store-file FILE] [--store-max-bytes BYTES] [--store-no-sync] '' @
     ''[--log-file FILE] [--log-queue COUNT] [--log-rotation-bytes BYTES] '' @
     ''[--log-rotation-files COUNT] '' @
     ''[--operator-actor ACTOR] [--allow-remote-inference] [--allow-remote]\<newline>''"

datatype process_end =
    Exited nat string string \<comment> \<open>code, standard output, standard error\<close>
  | Terminated

definition listening :: "runtime \<Rightarrow> string" where
  "listening rt =
     ''context-hmi listening on http://'' @ o_host (rt_options rt) @ '':'' @ show_int (o_port (rt_options rt)) @
     '' with Drogon 1.9.13\<newline>''"

definition failure_line :: "(exn \<Rightarrow> string) \<Rightarrow> exn \<Rightarrow> string" where
  "failure_line what e = ''context-hmi: '' @ what e @ ''\<newline>''"

text \<open>\<open>Runtime::~Runtime\<close>, which must not throw, at the end of the block.\<close>

definition destroy :: "process_end \<Rightarrow> runtime \<Rightarrow> process_end \<times> runtime" where
  "destroy ending rt = (case shutdown rt of (Inl e, rt') \<Rightarrow> (Terminated, rt') | (Inr u, rt') \<Rightarrow> (ending, rt'))"

definition come_up :: "(string \<Rightarrow> bool) \<Rightarrow> action \<Rightarrow> action" where
  "come_up is_directory starting =
     run_actions [starting, (\<lambda>rt. (check_web_dir is_directory (rt_options rt), rt))]"

definition serve_until_end :: "(exn \<Rightarrow> string) \<Rightarrow> action \<Rightarrow> action \<Rightarrow> runtime \<Rightarrow> process_end \<times> runtime" where
  "serve_until_end what upward running rt =
     (case upward rt of
        (Inl e, rt1) \<Rightarrow> destroy (Exited 2 [] (failure_line what e)) rt1
      | (Inr u, rt1) \<Rightarrow>
          (case run_actions [running, shutdown] rt1 of
             (Inl e, rt2) \<Rightarrow> destroy (Exited 2 [] (listening rt1 @ failure_line what e)) rt2
           | (Inr u, rt2) \<Rightarrow> destroy (Exited 0 [] (listening rt1)) rt2))"

definition service_main ::
  "(runtime_options \<times> bool) res \<Rightarrow> bool \<Rightarrow> string \<Rightarrow> (exn \<Rightarrow> string) \<Rightarrow> (string \<Rightarrow> bool) \<Rightarrow> action \<Rightarrow> action \<Rightarrow>
     process_end \<times> runtime option" where
  "service_main parsed tls_built session what is_directory starting running =
     (case parsed of
        Inl e \<Rightarrow> (Exited 2 [] (failure_line what e), None)
      | Inr (opts, help) \<Rightarrow>
          if help then (Exited 0 options_help [], None)
          else (case runtime_new tls_built opts session of
                  Inl e \<Rightarrow> (Exited 2 [] (failure_line what e), None)
                | Inr (rt0, held) \<Rightarrow>
                    map_prod id Some (serve_until_end what (come_up is_directory starting) running rt0)))"

section \<open>The moves of the machines\<close>

text \<open>An action moves each machine at most \<open>n\<close> times and never to stopped, even where it throws.\<close>

definition costs :: "nat \<Rightarrow> action \<Rightarrow> bool" where
  "costs n a \<longleftrightarrow> (\<forall>k rt. moved_at_most k rt \<longrightarrow> moved_at_most (k + n) (snd (a rt)))"

lemma costs_D: "costs n a \<Longrightarrow> moved_at_most k rt \<Longrightarrow> a rt = (r, rt') \<Longrightarrow> moved_at_most (k + n) rt'"
  unfolding costs_def by (metis snd_conv)

lemma costs_mono: "costs m a \<Longrightarrow> m \<le> n \<Longrightarrow> costs n a"
  unfolding costs_def using moved_mono by (meson add_le_mono1 nat_add_left_cancel_le)

lemma costs_still:
  assumes "\<And>rt. machines_of (snd (a rt)) = machines_of rt \<and> rt_started (snd (a rt)) = rt_started rt \<and>
    rt_stopped (snd (a rt)) = rt_stopped rt"
  shows "costs 0 a"
  using assms by (simp add: costs_def moved_at_most_def)

lemma costs_Nil: "costs 0 (run_actions [])"
  by (simp add: costs_def)

lemma costs_Cons:
  assumes "costs m a" and "costs n (run_actions as)"
  shows "costs (m + n) (run_actions (a # as))"
  unfolding costs_def
proof (intro allI impI)
  fix k rt assume k: "moved_at_most k rt"
  obtain r rt' where a: "a rt = (r, rt')" by force
  note first = costs_D [OF assms(1) k a]
  show "moved_at_most (k + (m + n)) (snd (run_actions (a # as) rt))"
    using a first costs_D [OF assms(2) first] moved_mono [OF first]
    by (cases r; cases "run_actions as rt'") (simp_all add: ac_simps)
qed

lemma costs_when: "costs n a \<Longrightarrow> costs n (when_rt b a)"
  by (auto simp: costs_def when_rt_def intro: moved_mono)

lemma costs_move:
  assumes "nxt \<noteq> KStopped"
  shows "costs 1 (move_service nxt reason)" "costs 1 (move_source nxt reason)"
    "costs 1 (move_provider nxt reason)" "costs 1 (move_store nxt reason)"
proof -
  have thrown: "moved_at_most k rt \<Longrightarrow> move get upd nxt reason rt = (Inl e, rt') \<Longrightarrow> moved_at_most (Suc k) rt'"
    for get upd k rt rt' e
    by (auto simp: move_def split: sum.splits intro: moved_mono)
  have moves: "costs 1 a" if "\<And>k rt u rt'. moved_at_most k rt \<Longrightarrow> a rt = (Inr u, rt') \<Longrightarrow> moved_at_most (Suc k) rt'"
    "a = move get upd nxt reason" for a get upd
    unfolding costs_def
  proof (intro allI impI)
    fix k rt assume "moved_at_most k rt"
    then show "moved_at_most (k + 1) (snd (a rt))"
      using that thrown [of k rt get upd] by (cases "a rt"; cases "fst (a rt)") auto
  qed
  show "costs 1 (move_service nxt reason)" using moved_move(1) [OF _ assms] by (intro moves) (simp_all add: move_service_def)
  show "costs 1 (move_source nxt reason)" using moved_move(2) [OF _ assms] by (intro moves) (simp_all add: move_source_def)
  show "costs 1 (move_provider nxt reason)" using moved_move(3) [OF _ assms] by (intro moves) (simp_all add: move_provider_def)
  show "costs 1 (move_store nxt reason)" using moved_move(4) [OF _ assms] by (intro moves) (simp_all add: move_store_def)
qed

lemma costs_store_failed: "costs 1 (store_failed what e)"
proof -
  have "costs 0 (run_actions [\<lambda>rt. (Inl e, rt)])" by (rule costs_still) simp
  from costs_Cons [OF costs_move(4) this] show ?thesis by (simp add: store_failed_def)
qed

lemma costs_load: "costs 0 (load_model dump parse what dk)"
  by (rule costs_still) (auto simp: load_model_def machines_of_def split: sum.splits)

lemma costs_append: "costs 0 (\<lambda>rt. append_operational dump fault kind (payload rt) rt)"
  by (simp add: costs_def moved_append [OF prod.collapse [symmetric]])

lemma costs_open_store: "costs 2 (open_store dump ord parse what parent_ok content)"
  unfolding costs_def
proof (intro allI impI)
  fix k rt assume k: "moved_at_most k rt"
  have failed: "moved_at_most (k + 2) (snd (store_failed what e rt'))" if "moved_at_most (k + 1) rt'" for e rt'
    using that costs_store_failed [of what e] unfolding costs_def by fastforce
  show "moved_at_most (k + 2) (snd (open_store dump ord parse what parent_ok content rt))"
  proof (cases "journal_open parse parent_ok (journal_config (rt_options rt)) content")
    case (Inl e)
    with failed moved_mono [OF k] show ?thesis by (simp add: open_store_def)
  next
    case (Inr st)
    have "moved_at_most k (restore_journal_records dump ord (rt\<lparr>rt_journal := Some st\<rparr>))"
      using k unfolding moved_restore by (simp add: moved_at_most_def machines_of_def)
    with costs_move(4) have after: "moved_at_most (k + 1) (snd (move_store KReady [] (restore_journal_records dump ord (rt\<lparr>rt_journal := Some st\<rparr>))))"
      unfolding costs_def by blast
    show ?thesis using after failed moved_mono [OF after, of "k + 2"]
      by (auto simp: open_store_def Inr split: prod.splits sum.splits)
  qed
qed

text \<open>A start moves no machine more than six times, whether it succeeds or throws.\<close>

lemma start_costs:
  assumes "runtime_new tls_built opts session = Inr (rt0, held)"
  shows "moved_at_most 6 (snd (start dump ord parse what dk parent_ok content fault now rt0))"
proof -
  have new: "moved_at_most 0 (rt0\<lparr>rt_started := True\<rparr>)" "\<not> rt_started rt0"
    using assms by (auto simp: runtime_new_def moved_at_most_def machines_of_def machine_new_def split: if_splits)
  have store: "costs (1 + (2 + 0)) (run_actions [move_store KStarting [], open_store dump ord parse what parent_ok content])"
    by (intro costs_Cons costs_Nil costs_move costs_open_store) simp
  have "costs (0 + ((1 + (2 + 0)) + (1 + (1 + (1 + (0 + 0))))))
      (run_actions
        [load_model dump parse what dk,
         when_rt (\<lambda>rt. o_store_file (rt_options rt) \<noteq> [])
           (run_actions [move_store KStarting [], open_store dump ord parse what parent_ok content]),
         move_source KDegraded ''waiting for current telemetry'',
         when_rt (\<lambda>rt. o_provider_url (rt_options rt) = []) (move_provider KReady ''deterministic rules provider''),
         move_service KReady [],
         (\<lambda>rt. append_operational dump fault ''service_start'' (start_record now rt) rt)])"
    by (intro costs_Cons [OF costs_load] costs_Cons [OF costs_when [OF store]] costs_Cons [OF costs_move(2)]
        costs_Cons [OF costs_when [OF costs_move(3)]] costs_Cons [OF costs_move(1)] costs_Cons [OF costs_append] costs_Nil)
      simp_all
  from costs_D [OF this new(1) prod.collapse [symmetric]] new(2) show ?thesis
    by (simp add: start_def eval_nat_numeral del: run_actions.simps)
qed

section \<open>Every ending\<close>

definition all_stopped :: "runtime \<Rightarrow> bool" where
  "all_stopped rt \<longleftrightarrow> rt_stopped rt \<and>
     (\<forall>m \<in> {rt_service rt, rt_source rt, rt_provider rt}. m_state m = KStopped) \<and>
     m_state (rt_store rt) \<in> {KDisabled, KFailed, KStopped}"

lemma shutdown_settles:
  assumes "moved_at_most k rt" and "k < 2 ^ 64 - 2"
  obtains rt' where "shutdown rt = (Inr (), rt')" and "all_stopped rt'" and "shutdown rt' = (Inr (), rt')"
proof -
  have "\<forall>m \<in> {rt_service rt, rt_source rt, rt_provider rt, rt_store rt}. stoppable m"
    using moved_stoppable [OF assms] by (simp add: machines_of_def)
  with shutdown_stops [of rt] assms(1) that show ?thesis by (auto simp: moved_at_most_def all_stopped_def)
qed

lemma destroy_settles:
  assumes "moved_at_most k rt" and "k < 2 ^ 64 - 2"
  obtains rt' where "destroy ending rt = (ending, rt')" and "all_stopped rt'"
  by (rule shutdown_settles [OF assms]) (use that in \<open>auto simp: destroy_def\<close>)

text \<open>
  A constructed runtime is always left stopped, and the code tells whether coming up and serving succeeded.
\<close>

lemma serve_settles:
  assumes "moved_at_most 6 (snd (upward rt))" and "costs n running" and "n < 2 ^ 64 - 8"
  obtains out err rt' where "all_stopped rt'"
    and "serve_until_end what upward running rt =
      (Exited (if \<exists>rt1 rt2. upward rt = (Inr (), rt1) \<and> running rt1 = (Inr (), rt2) then 0 else 2) out err, rt')"
proof -
  obtain r rt1 where up: "upward rt = (r, rt1)" by force
  with assms(1) have first: "moved_at_most 6 rt1" by simp
  show ?thesis
  proof (cases r)
    case (Inl e)
    show ?thesis
      by (rule destroy_settles [OF first, of "Exited 2 [] (failure_line what e)"])
        (use that in \<open>auto simp: serve_until_end_def up Inl\<close>)
  next
    case (Inr u)
    obtain q rt2 where run: "running rt1 = (q, rt2)" by force
    have second: "moved_at_most (6 + n) rt2" using costs_D [OF assms(2) first run] .
    have room: "6 + n < 2 ^ 64 - 2" using assms(3) by simp
    show ?thesis
    proof (cases q)
      case Inl': (Inl e)
      show ?thesis
        by (rule destroy_settles [OF second room, of "Exited 2 [] (listening rt1 @ failure_line what e)"])
          (use that in \<open>auto simp: serve_until_end_def up Inr run Inl'\<close>)
    next
      case Inr': (Inr v)
      show ?thesis
        by (rule shutdown_settles [OF second room])
          (use that in \<open>auto simp: serve_until_end_def up Inr run Inr' destroy_def\<close>)
    qed
  qed
qed

text \<open>
  However the service ends - options refused, help shown, a start that throws halfway, a missing web
  directory, an exception while serving, or a regular return - the process exits with a code instead of
  being terminated, and a runtime that was constructed is left stopped. The code is 0 exactly if help was
  asked for or every stage succeeded.
\<close>

theorem process_ends_orderly:
  assumes "costs n running" and "n < 2 ^ 64 - 8"
    and starting: "starting = start dump ord parse what dk parent_ok content fault now"
    and finished: "finished = service_main parsed tls_built session what is_directory starting running"
  shows "fst finished \<noteq> Terminated \<and>
    (\<forall>rt. snd finished = Some rt \<longrightarrow> all_stopped rt) \<and>
    ((\<exists>out err. fst finished = Exited 0 out err) \<longleftrightarrow>
       (\<exists>opts. parsed = Inr (opts, True)) \<or>
       (\<exists>opts rt0 held rt1 rt2. parsed = Inr (opts, False) \<and> runtime_new tls_built opts session = Inr (rt0, held) \<and>
          come_up is_directory starting rt0 = (Inr (), rt1) \<and> running rt1 = (Inr (), rt2)))"
proof -
  have up: "moved_at_most 6 (snd (come_up is_directory starting rt0))"
    if "runtime_new tls_built opts session = Inr (rt0, held)" for opts rt0 held
    using start_costs [OF that, of dump ord parse what dk parent_ok content fault now]
    by (cases "start dump ord parse what dk parent_ok content fault now rt0"; cases "fst (starting rt0)")
      (auto simp: come_up_def starting split: sum.splits)
  show ?thesis
  proof (cases "\<exists>opts rt0 held. parsed = Inr (opts, False) \<and> runtime_new tls_built opts session = Inr (rt0, held)")
    case True
    then obtain opts rt0 held where new: "parsed = Inr (opts, False)" "runtime_new tls_built opts session = Inr (rt0, held)"
      by blast
    obtain out err rt' where "all_stopped rt'" "serve_until_end what (come_up is_directory starting) running rt0 =
      (Exited (if \<exists>rt1 rt2. come_up is_directory starting rt0 = (Inr (), rt1) \<and> running rt1 = (Inr (), rt2)
         then 0 else 2) out err, rt')"
      by (rule serve_settles [of "come_up is_directory starting", OF up [OF new(2)] assms(1,2)])
    with new show ?thesis by (auto simp: finished service_main_def split: if_splits)
  next
    case False
    then show ?thesis by (auto simp: finished service_main_def split: sum.splits prod.splits if_splits)
  qed
qed

theorem process_ends_orderly_witness:
  "fst (service_main (Inr (default_options, False)) False ''session-1'' (\<lambda>_. []) (\<lambda>_. True)
     (start no_text rev (\<lambda>_. Inr demo_model) (\<lambda>_. []) demo_disk True Absent None 0) (\<lambda>rt. (Inl QueueFull, rt))) \<noteq> Terminated"
proof -
  have "costs 0 (\<lambda>rt. (Inl QueueFull, rt))" by (rule costs_still) simp
  from process_ends_orderly [OF this _ refl refl] show ?thesis by auto
qed

end
