(* ===== verification/Spec2Isabelle.thy ===== *)
theory Spec2Isabelle
  imports Prelude Json_Value Lifecycle Lru_Cache Worker_Pool Journal_Codec Journal Model_Index Telemetry
    Screen_Composer Inference Csv_Import Engineering_Import Retrieval Options Reconciliation
    View_Reading Runtime_Views Runtime_Safety Runtime_Answers Runtime_Caching Provider_Transport Runtime_Lifecycle
    Runtime_Surface Admission Http_Routes Diagnostic_Log Request_Flow
    Command_Tools Pool_Jobs Coroutine_Task Service_Main
begin

text \<open>
  The Context HMI service, a C++ program that serves operator screens for a declared machine model.
  This development models its sources under \<open>src/src/context_hmi/\<close> and \<open>src/tools/\<close> and proves
  what makes its parts, and their composition, correct.

  \<^bold>\<open>The program.\<close> A machine model (JSON) is checked and indexed. A prompt is answered by retrieving the
  part of the model it is about, interpreting it (by rules or by a language-model provider) into a task,
  and composing a view for the task. Views are stored under the generation of the model they were made
  for, reconciled when the model changes, and recorded in a journal that survives crashes. Adapters send
  batches of telemetry, whose current values a stream shows. HTTP routes check each request and hand it
  as a job to one of two worker pools; machines guard the life of the service and its parts.

  \<^bold>\<open>Values.\<close> \<open>Prelude\<close> has the errors of the program (\<open>exn\<close>, one constructor for each exception class) and
  the error monad \<open>exn + 'a\<close>, in which every \<open>throw\<close> and early return is a branch, character classes and
  decimal numbers. \<open>Json_Value\<close> is \<open>nlohmann::json\<close>: objects are key-sorted lists, integers 64-bit words,
  a \<open>double\<close> the rational it denotes, and \<open>at\<close>, \<open>value\<close>, \<open>get\<close> and \<open>==\<close> behave as the library's do,
  exceptions included.

  \<^bold>\<open>Components.\<close>
  \<^item> \<open>Lifecycle\<close> (\<open>lifecycle.cpp\<close>): the transition table, guards and counter of a component's machine.
  \<^item> \<open>Lru_Cache\<close> (\<open>bounded_cache.cpp\<close>): list and index as one association list in recency order; it refines an
    abstract expiring least-recently-used map. The locale \<open>memo_cache\<close> is what its clients rely on.
  \<^item> \<open>Worker_Pool\<close>, \<open>Pool_Jobs\<close>, \<open>Coroutine_Task\<close> (\<open>worker_pool.cpp\<close>, \<open>worker_pool.hpp\<close>,
    \<open>coroutine_task.hpp\<close>): queue, threads and counters as a step relation over regions under the mutex;
    the jobs taken and not finished as a multiset; submission through a coroutine and its future.
  \<^item> \<open>Journal_Codec\<close>, \<open>Journal\<close> (\<open>operational_store.cpp\<close>): frames, CRC-32C, replay and recovery on the bytes
    of the file. The locales \<open>frame_codec\<close> and \<open>frame_log\<close> are the contract between codec and journal.
  \<^item> \<open>Model_Index\<close> (\<open>model_validation.cpp\<close>, \<open>engine_internal.hpp\<close>): the check of a model and its index; the four
    sections are instances of the locale \<open>collector\<close>.
  \<^item> \<open>Telemetry\<close> (\<open>telemetry_store.cpp\<close>): ingestion, current values, snapshots and readiness.
  \<^item> \<open>Screen_Composer\<close> (\<open>screen_composer.cpp\<close>), \<open>Reconciliation\<close> (\<open>reconciliation.cpp\<close>), and \<open>View_Reading\<close>, which
    shows that reconciling only ever fails with a domain error on the views the service stores.
  \<^item> \<open>Retrieval\<close> (\<open>context_retrieval.cpp\<close>), \<open>Inference\<close> (\<open>inference_validation.cpp\<close>, \<open>inference_rules.cpp\<close>,
    \<open>inference.cpp\<close>), \<open>Provider_Transport\<close> (\<open>inference_transport.cpp\<close>): evidence, interpretation and the
    provider's URL, requests and responses.
  \<^item> \<open>Csv_Import\<close>, \<open>Engineering_Import\<close> (\<open>context_import*.cpp\<close>): bundles of engineering files become models.
  \<^item> \<open>Options\<close> (\<open>options*.cpp\<close>): configuration file, command line and their validation.
  \<^item> \<open>Diagnostic_Log\<close> (\<open>diagnostic_logger.cpp\<close>): queue, worker, rotation and the error stream.
  \<^item> \<open>Runtime_Views\<close>, \<open>Runtime_Answers\<close>, \<open>Runtime_Lifecycle\<close>, \<open>Runtime_Surface\<close> (\<open>runtime_context.cpp\<close>,
    \<open>runtime_lifecycle.cpp\<close>, \<open>runtime_surface.cpp\<close>, \<open>service_records.cpp\<close>): the record \<open>runtime\<close> has the fields
    of the class \<open>Runtime\<close>; each operation is the composition of the sections it runs under its locks.
    \<open>Runtime_Safety\<close> interleaves these sections, with any number of calls under way; \<open>Runtime_Caching\<close> adds
    the two caches.
  \<^item> \<open>Admission\<close> (\<open>service_runtime.cpp\<close>): the compare-and-swap loops of the two counters of slots, one locale
    interpreted for both.
  \<^item> \<open>Http_Routes\<close> (\<open>http_common.cpp\<close>, \<open>task_routes.cpp\<close>, \<open>read_routes.cpp\<close>, \<open>stream_routes.cpp\<close>) and
    \<open>Request_Flow\<close>, which puts routes, pools, jobs and responses together.
  \<^item> \<open>Service_Main\<close> (\<open>server.cpp\<close>): the stages of \<open>main\<close>, the destructor of the runtime and the exit code.
  \<^item> \<open>Command_Tools\<close> (\<open>context_import.cpp\<close> and \<open>benchmark.cpp\<close> of the tools).

  \<^bold>\<open>What is shown.\<close> Each component has its invariant, preserved by every operation, and its functional
  behaviour on every branch. Beyond that: the cache refines its abstract map and the caches of the runtime
  never give an answer other than the one computed now; the pool starts jobs in order and drains; the journal
  restores exactly the complete records after a tear at any byte and detects corruption; the model check
  accepts exactly the well-formed models and the composer exactly the valid tasks, in whatever order the hash
  maps are visited; retrieval ends with bounded evidence and the rules answer it; interpretations stay in
  the retrieved scope; no component is rebound silently and reconciling twice changes nothing; stored views
  carry the current generation through any interleaving, and a model change is seen whole; provider
  traffic goes only where the options allow; no unchecked request becomes a job; every request is
  answered exactly once; warnings and errors are never lost silently;
  however the process ends, its runtime is left stopped.

  \<^bold>\<open>Parameters.\<close> What is outside the sources is an argument of the definitions that use it: \<open>dump\<close> and \<open>parse\<close>
  (serialiser and parser, which may throw), clocks, the iteration order of hash maps (any rearrangement, the
  predicate \<open>reorders\<close>), the disk and what the operating system refuses, the HTTP client, the texts of
  exceptions (\<open>what\<close>). Hypotheses on them are named: \<open>dumps_all\<close> (nothing fails to serialise), \<open>storable\<close>
  (a record reads back as written), \<open>reorders\<close>, \<open>dumps_notices\<close>. Every theorem with a hypothesis has a witness
  that applies it to concrete values.

  \<^bold>\<open>Loops and bounds.\<close> Loops over data are structural recursions. The loops whose end is not evident have a
  termination proof: the CSV reader and the replay of a journal (each turn consumes bytes), the walk over
  the values of an artifact, and shrinking evidence to its budget (each step drops an element); none has fuel. Retry loops over atomics and the loops of
  threads are step relations, so that any number of turns and any interleaving is covered. Counters are
  64-bit words (32-bit for slots) and wrap as the program's do.

  \<^bold>\<open>Not modelled.\<close> Drogon, sockets, timers and TLS; the creation of threads; diagnostics as
  a side effect of the runtime's operations (the logger is modelled by itself, and nothing it does feeds
  back into an answer); the system calls that synchronise and truncate the
  journal's file, which appear as faults and as the bytes that remain; the benchmark's clocks, statistics
  over samples (rounding of floating-point sums is not in the model of \<open>double\<close>) and description of the
  machine; the build for constrained targets, which only changes constants; signed zeros.
\<close>

end
